(* ===== verification/Prelude.thy ===== *)
theory Prelude
  imports Main "HOL-Library.Word"
begin

text \<open>
  Shared vocabulary of the development.

  \<^item> C++ \<^verbatim>\<open>int\<close> is modelled by \<open>int\<close> together with the range predicate \<open>int32\<close>; every
    arithmetic operation of the source whose result can leave the range is written with \<open>wrap32\<close>,
    the two's complement reduction (signed overflow is undefined in C++; the reduction is what the
    target machines compute, and the theorems that speak of exact values carry the hypothesis that
    no overflow happens).
  \<^item> \<^verbatim>\<open>std::string\<close> and \<^verbatim>\<open>std::string_view\<close> are \<open>string\<close>, a list of bytes; their member functions
    \<^verbatim>\<open>find\<close>, \<^verbatim>\<open>find_first_of\<close>, \<^verbatim>\<open>find_first_not_of\<close>, \<^verbatim>\<open>rfind\<close> and \<^verbatim>\<open>substr\<close> are functions that return
    \<open>None\<close> for \<^verbatim>\<open>npos\<close>.
  \<^item> \<^verbatim>\<open><cctype>\<close> in the C locale, \<^verbatim>\<open>std::to_string\<close> and \<^verbatim>\<open>std::atoi\<close>.
\<close>

named_theorems wrap_simps \<open>evaluating wrap32 on values in range\<close>
named_theorems find_simps \<open>searching a string that is given in pieces\<close>

section \<open>Machine integers\<close>

definition int32 :: "int \<Rightarrow> bool" where
  "int32 x \<longleftrightarrow> - (2 ^ 31) \<le> x \<and> x < 2 ^ 31"

definition wrap32 :: "int \<Rightarrow> int" where
  "wrap32 x = (x + 2 ^ 31) mod 2 ^ 32 - 2 ^ 31"

definition clamp64 :: "int \<Rightarrow> int" where
  "clamp64 x = max (- (2 ^ 63)) (min (2 ^ 63 - 1) x)"

lemma wrap32_id [wrap_simps]: "int32 x \<Longrightarrow> wrap32 x = x"
  by (simp add: wrap32_def int32_def)

lemma wrap32_range [simp]: "int32 (wrap32 x)"
  by (simp add: wrap32_def int32_def)

lemma wrap32_idem [simp]: "wrap32 (wrap32 x) = wrap32 x"
  by (simp add: wrap_simps)

lemma wrap32_cong: "x mod 2 ^ 32 = y mod 2 ^ 32 \<Longrightarrow> wrap32 x = wrap32 y"
proof -
  assume "x mod 2 ^ 32 = y mod 2 ^ 32"
  then have "(x + 2 ^ 31) mod 2 ^ 32 = (y + 2 ^ 31) mod 2 ^ 32"
    by (rule mod_add_cong) (rule refl)
  then show ?thesis
    by (simp add: wrap32_def)
qed

lemma wrap32_mod: "wrap32 x mod 2 ^ 32 = x mod 2 ^ 32"
proof -
  have "((x + 2 ^ 31) mod 2 ^ 32 - 2 ^ 31) mod 2 ^ 32 = ((x + 2 ^ 31) - 2 ^ 31) mod (2 ^ 32 :: int)"
    by (rule mod_diff_left_eq)
  then show ?thesis
    by (simp add: wrap32_def)
qed

lemma wrap32_add_left [simp]: "wrap32 (wrap32 x + y) = wrap32 (x + y)"
  by (rule wrap32_cong, rule mod_add_cong) (simp_all only: wrap32_mod)

lemma wrap32_add_right [simp]: "wrap32 (x + wrap32 y) = wrap32 (x + y)"
  by (rule wrap32_cong, rule mod_add_cong) (simp_all only: wrap32_mod)

lemma wrap32_diff_left [simp]: "wrap32 (wrap32 x - y) = wrap32 (x - y)"
  by (rule wrap32_cong, rule mod_diff_cong) (simp_all only: wrap32_mod)

lemma wrap32_mult_left [simp]: "wrap32 (wrap32 x * y) = wrap32 (x * y)"
  by (rule wrap32_cong, rule mod_mult_cong) (simp_all only: wrap32_mod)

lemma wrap32_sint: "wrap32 x = sint (word_of_int x :: 32 word)"
proof -
  have "sint (word_of_int x :: 32 word) = signed_take_bit 31 x"
    by transfer simp
  also have "\<dots> = wrap32 x"
    by (simp add: signed_take_bit_eq_take_bit_shift take_bit_eq_mod wrap32_def)
  finally show ?thesis by simp
qed

lemma int32_bounds: "int32 x \<longleftrightarrow> - 2147483648 \<le> x \<and> x \<le> 2147483647"
  by (auto simp: int32_def)

section \<open>Characters\<close>

abbreviation NUL :: char where "NUL \<equiv> CHR 0x00"
abbreviation TAB :: char where "TAB \<equiv> CHR 0x09"
abbreviation LF :: char where "LF \<equiv> CHR 0x0A"
abbreviation CR :: char where "CR \<equiv> CHR 0x0D"
abbreviation QUOT :: char where "QUOT \<equiv> CHR 0x22"
abbreviation BSL :: char where "BSL \<equiv> CHR 0x5C"

abbreviation byte :: "char \<Rightarrow> nat" where "byte c \<equiv> of_char c"

definition isspace :: "char \<Rightarrow> bool" where
  "isspace c \<longleftrightarrow> (9 \<le> byte c \<and> byte c \<le> 13) \<or> byte c = 32"

definition isdigit :: "char \<Rightarrow> bool" where
  "isdigit c \<longleftrightarrow> 48 \<le> byte c \<and> byte c \<le> 57"

definition isalnum :: "char \<Rightarrow> bool" where
  "isalnum c \<longleftrightarrow> isdigit c \<or> (65 \<le> byte c \<and> byte c \<le> 90) \<or> (97 \<le> byte c \<and> byte c \<le> 122)"

definition tolower :: "char \<Rightarrow> char" where
  "tolower c = (if 65 \<le> byte c \<and> byte c \<le> 90 then char_of (byte c + 32) else c)"

lemma byte_tolower:
  "byte (tolower c) = (if 65 \<le> byte c \<and> byte c \<le> 90 then byte c + 32 else byte c)"
  by (simp add: tolower_def)

lemma tolower_idem [simp]: "tolower (tolower c) = tolower c"
  unfolding tolower_def[of "tolower c"] byte_tolower by (auto simp: tolower_def)

section \<open>Searching strings\<close>

lemma map_option_add_0 [simp]: "map_option ((+) (0::nat)) x = x"
  by (cases x) auto

lemma map_option_add_Suc [simp]: "map_option (\<lambda>x. Suc (n + x)) y = map_option ((+) (Suc n)) y"
  by (cases y) auto

text \<open>\<open>find_sub p s\<close> is the offset of the first occurrence of \<open>p\<close> in \<open>s\<close>.\<close>

fun is_prefix :: "'a list \<Rightarrow> 'a list \<Rightarrow> bool" where
  "is_prefix [] s = True"
| "is_prefix (c # p) [] = False"
| "is_prefix (c # p) (d # s) = (c = d \<and> is_prefix p s)"

fun find_sub :: "string \<Rightarrow> string \<Rightarrow> nat option" where
  "find_sub p [] = (if p = [] then Some 0 else None)"
| "find_sub p (c # s) = (if is_prefix p (c # s) then Some 0 else map_option Suc (find_sub p s))"

definition find_from :: "string \<Rightarrow> string \<Rightarrow> nat \<Rightarrow> nat option" where
  "find_from p s pos =
     (if pos \<le> length s then map_option ((+) pos) (find_sub p (drop pos s)) else None)"

fun find_if :: "(char \<Rightarrow> bool) \<Rightarrow> string \<Rightarrow> nat option" where
  "find_if P [] = None"
| "find_if P (c # s) = (if P c then Some 0 else map_option Suc (find_if P s))"

definition find_first_of :: "string \<Rightarrow> string \<Rightarrow> nat \<Rightarrow> nat option" where
  "find_first_of cs s pos = map_option ((+) pos) (find_if (\<lambda>c. c \<in> set cs) (drop pos s))"

definition find_first_not_of :: "string \<Rightarrow> string \<Rightarrow> nat \<Rightarrow> nat option" where
  "find_first_not_of cs s pos = map_option ((+) pos) (find_if (\<lambda>c. c \<notin> set cs) (drop pos s))"

definition substr :: "string \<Rightarrow> nat \<Rightarrow> nat \<Rightarrow> string" where
  "substr s pos n = take n (drop pos s)"

lemma is_prefix_iff: "is_prefix p s \<longleftrightarrow> (\<exists>t. s = p @ t)"
  by (induction p s rule: is_prefix.induct) auto

lemma is_prefix_append [simp]: "is_prefix p (p @ t)"
  by (simp add: is_prefix_iff)

lemma is_prefix_length: "is_prefix p s \<Longrightarrow> length p \<le> length s"
  by (auto simp: is_prefix_iff)

lemma find_sub_SomeD: "find_sub p s = Some i \<Longrightarrow> is_prefix p (drop i s) \<and> i + length p \<le> length s"
proof (induction s arbitrary: i)
  case Nil
  then show ?case by (auto split: if_splits)
next
  case (Cons c s)
  then show ?case
    by (auto simp del: is_prefix.simps split: if_splits dest: is_prefix_length)
qed

lemma find_sub_first: "find_sub p s = Some i \<Longrightarrow> j < i \<Longrightarrow> \<not> is_prefix p (drop j s)"
proof (induction s arbitrary: i j)
  case Nil
  then show ?case by (auto split: if_splits)
next
  case (Cons c s)
  then show ?case
    by (cases j) (auto simp del: is_prefix.simps split: if_splits)
qed

lemma find_sub_None: "find_sub p s = None \<Longrightarrow> \<not> is_prefix p (drop j s)"
proof (induction s arbitrary: j)
  case Nil
  then show ?case by (auto simp: is_prefix_iff split: if_splits)
next
  case (Cons c s)
  then show ?case
    by (cases j) (auto simp del: is_prefix.simps split: if_splits)
qed

lemma find_from_bounds:
  assumes "find_from p s pos = Some i"
  shows "pos \<le> i" and "i + length p \<le> length s"
proof -
  from assms obtain k where "find_sub p (drop pos s) = Some k" "i = pos + k" "pos \<le> length s"
    by (auto simp: find_from_def split: if_splits)
  with find_sub_SomeD[of p "drop pos s" k] show "pos \<le> i" and "i + length p \<le> length s"
    by auto
qed

lemma find_sub_iff: "find_sub p s \<noteq> None \<longleftrightarrow> (\<exists>a b. s = a @ p @ b)"
proof
  assume "find_sub p s \<noteq> None"
  then obtain i where "find_sub p s = Some i" by blast
  from find_sub_SomeD[OF this] obtain b where "drop i s = p @ b"
    by (auto simp: is_prefix_iff)
  then have "s = take i s @ p @ b"
    by (metis append_take_drop_id)
  then show "\<exists>a b. s = a @ p @ b" by blast
next
  assume "\<exists>a b. s = a @ p @ b"
  then obtain a b where "s = a @ p @ b" by blast
  then have "drop (length a) s = p @ b" by simp
  then show "find_sub p s \<noteq> None"
    using find_sub_None[of p s "length a"] by (auto simp: is_prefix_iff)
qed

lemma find_from_0: "find_from p s 0 = find_sub p s"
  by (simp add: find_from_def)

text \<open>
  Searching a concatenation. If no suffix of the first piece, continued by the second, starts with
  the pattern, the search skips the first piece.
\<close>

fun skips :: "string \<Rightarrow> string \<Rightarrow> string \<Rightarrow> bool" where
  "skips p [] t = True"
| "skips p (c # s) t = (\<not> is_prefix p (c # s @ t) \<and> skips p s t)"

lemma find_sub_skip: "skips p s t \<Longrightarrow> find_sub p (s @ t) = map_option ((+) (length s)) (find_sub p t)"
  by (induction s) (auto simp: option.map_comp o_def simp del: is_prefix.simps)

lemma find_sub_hit: "p \<noteq> [] \<Longrightarrow> find_sub p (p @ t) = Some 0"
  by (cases p) (auto simp del: is_prefix.simps simp: is_prefix_append[of "_ # _", simplified])

lemma skips_append: "skips p (s1 @ s2) t \<longleftrightarrow> skips p s1 (s2 @ t) \<and> skips p s2 t"
  by (induction s1) auto

lemma skips_no_head: "hd p \<notin> set s \<Longrightarrow> p \<noteq> [] \<Longrightarrow> skips p s t"
  by (induction s) (auto simp: neq_Nil_conv)

lemma find_sub_char: "find_sub [c] s = find_if ((=) c) s"
  by (induction s) auto

lemma find_if_append:
  "\<forall>c \<in> set s. \<not> P c \<Longrightarrow> find_if P (s @ t) = map_option ((+) (length s)) (find_if P t)"
  by (induction s) (auto simp: option.map_comp o_def)

lemma find_if_SomeD:
  "find_if P s = Some i \<Longrightarrow> i < length s \<and> P (s ! i) \<and> (\<forall>j < i. \<not> P (s ! j))"
proof (induction s arbitrary: i)
  case Nil
  then show ?case by simp
next
  case (Cons c s)
  then show ?case
    by (auto split: if_splits simp: nth_Cons less_Suc_eq_0_disj)
qed

lemma find_if_None: "find_if P s = None \<longleftrightarrow> (\<forall>c \<in> set s. \<not> P c)"
  by (induction s) auto

lemma find_if_Some_split:
  "find_if P s = Some i \<Longrightarrow> \<exists>c t. s = take i s @ c # t \<and> P c \<and> (\<forall>x \<in> set (take i s). \<not> P x) \<and> i < length s"
proof (induction s arbitrary: i)
  case Nil
  then show ?case by simp
next
  case (Cons c s)
  then show ?case
    by (auto split: if_splits)
qed

section \<open>Decimal numerals\<close>

fun string_of_nat :: "nat \<Rightarrow> string" where
  "string_of_nat n = (if n < 10 then [char_of (48 + n)] else string_of_nat (n div 10) @ [char_of (48 + n mod 10)])"

declare string_of_nat.simps [simp del]

definition to_string :: "int \<Rightarrow> string" where
  "to_string i = (if i < 0 then CHR ''-'' # string_of_nat (nat (- i)) else string_of_nat (nat i))"

definition digit_value :: "char \<Rightarrow> int" where
  "digit_value c = int (byte c) - 48"

definition dec_value :: "int \<Rightarrow> string \<Rightarrow> int" where
  "dec_value acc ds = foldl (\<lambda>v c. v * 10 + digit_value c) acc ds"

text \<open>\<^verbatim>\<open>strtol\<close> in base 10 (saturating at the 64-bit limits) and \<^verbatim>\<open>atoi\<close>, which truncates it.\<close>

definition strtol10 :: "string \<Rightarrow> int" where
  "strtol10 s =
     (let t = dropWhile isspace s in
      case t of
        [] \<Rightarrow> 0
      | c # u \<Rightarrow>
          (if c = CHR ''-'' then clamp64 (- dec_value 0 (takeWhile isdigit u))
           else if c = CHR ''+'' then clamp64 (dec_value 0 (takeWhile isdigit u))
           else clamp64 (dec_value 0 (takeWhile isdigit t))))"

definition c_str :: "string \<Rightarrow> string" where
  "c_str s = takeWhile (\<lambda>c. c \<noteq> NUL) s"

definition atoi :: "string \<Rightarrow> int" where
  "atoi s = wrap32 (strtol10 (c_str s))"

lemma dec_value_append: "dec_value acc (xs @ ys) = dec_value (dec_value acc xs) ys"
  by (simp add: dec_value_def)

lemma dec_value_Nil [simp]: "dec_value acc [] = acc"
  by (simp add: dec_value_def)

lemma dec_value_Cons [simp]: "dec_value acc (c # cs) = dec_value (acc * 10 + digit_value c) cs"
  by (simp add: dec_value_def)

lemma byte_digit: "(n::nat) < 10 \<Longrightarrow> byte (char_of (48 + n)) = 48 + n"
  by simp

lemma isdigit_digit: "(n::nat) < 10 \<Longrightarrow> isdigit (char_of (48 + n))"
  by (simp add: isdigit_def)

lemma digit_value_digit: "(n::nat) < 10 \<Longrightarrow> digit_value (char_of (48 + n)) = int n"
  by (simp add: digit_value_def)

lemma string_of_nat_digits: "\<forall>c \<in> set (string_of_nat n). isdigit c"
proof (induction n rule: string_of_nat.induct)
  case (1 n)
  then show ?case
    by (subst string_of_nat.simps) (auto simp: isdigit_digit)
qed

lemma string_of_nat_nonempty [simp]: "string_of_nat n \<noteq> []"
  by (subst string_of_nat.simps) simp

lemma dec_value_string_of_nat: "dec_value 0 (string_of_nat n) = int n"
proof (induction n rule: string_of_nat.induct)
  case (1 n)
  show ?case
  proof (cases "n < 10")
    case True
    then show ?thesis
      by (subst string_of_nat.simps) (simp add: digit_value_digit)
  next
    case False
    then have "dec_value 0 (string_of_nat n) = int (n div 10) * 10 + int (n mod 10)"
      using 1 by (subst string_of_nat.simps) (simp add: dec_value_append digit_value_digit)
    then show ?thesis
      by presburger
  qed
qed

lemma to_string_nonempty [simp]: "to_string i \<noteq> []"
  by (simp add: to_string_def)

lemma strtol10_to_string:
  assumes "0 \<le> n" "n < 2 ^ 63" "rest = [] \<or> \<not> isdigit (hd rest)"
  shows "strtol10 (to_string n @ rest) = n"
proof -
  obtain d ds where ds: "string_of_nat (nat n) = d # ds" and d: "isdigit d"
    using string_of_nat_digits[of "nat n"] by (cases "string_of_nat (nat n)") auto
  have tw: "takeWhile isdigit (string_of_nat (nat n) @ rest) = string_of_nat (nat n)"
    using assms(3) string_of_nat_digits[of "nat n"] by (cases rest) auto
  have "\<not> isspace d" "d \<noteq> CHR ''-''" "d \<noteq> CHR ''+''"
    using d by (auto simp: isdigit_def isspace_def)
  moreover have "dec_value 0 (d # ds) = n"
    using dec_value_string_of_nat[of "nat n"] assms(1) ds by simp
  ultimately show ?thesis
    using assms(1,2) ds tw by (simp add: strtol10_def to_string_def clamp64_def del: dec_value_Cons)
qed

lemma atoi_to_string: "0 \<le> n \<Longrightarrow> int32 n \<Longrightarrow> atoi (to_string n) = n"
proof -
  assume n: "0 \<le> n" "int32 n"
  have "NUL \<notin> set (to_string n)"
    using n by (auto simp: to_string_def isdigit_def dest!: bspec[OF string_of_nat_digits])
  then have "c_str (to_string n) = to_string n"
    by (auto simp: c_str_def takeWhile_eq_all_conv)
  then show ?thesis
    using n strtol10_to_string[of n "[]"] by (simp add: atoi_def int32_def wrap_simps)
qed

section \<open>Comma-separated output\<close>

text \<open>The loops \<^verbatim>\<open>if (i != 0) out << ","; out << x[i];\<close> of the controllers.\<close>

fun comma_join :: "string list \<Rightarrow> string" where
  "comma_join [] = []"
| "comma_join [x] = x"
| "comma_join (x # y # xs) = x @ '','' @ comma_join (y # xs)"

lemma comma_join_Cons: "xs \<noteq> [] \<Longrightarrow> comma_join (x # xs) = x @ '','' @ comma_join xs"
  by (cases xs) auto

end
