(* ===== verification/Models.thy ===== *)
theory Models
  imports Prelude
begin

text \<open>
  The structs of \<^verbatim>\<open>src/app/model/\<close>. Field names carry the struct's initials, since the fields of a
  record are global constants. Statuses stay strings, as in the source.
\<close>

record Book =
  bk_id :: int
  bk_title :: string
  bk_author :: string
  bk_price_cents :: int
  bk_stock :: int
  bk_status :: string

record BookUpdate =
  bu_title :: "string option"
  bu_author :: "string option"
  bu_price_cents :: "int option"
  bu_stock :: "int option"
  bu_status :: "string option"

record InventoryItem =
  ii_book_id :: int
  ii_available :: int

record InventoryMutation =
  im_book_id :: int
  im_quantity :: int

record OrderItemRequest =
  oir_book_id :: int
  oir_quantity :: int

record OrderItem =
  oi_book_id :: int
  oi_quantity :: int
  oi_unit_price_cents :: int

record Order =
  ord_id :: int
  ord_user_id :: int
  ord_items :: "OrderItem list"
  ord_total_cents :: int
  ord_status :: string

record User =
  usr_id :: int
  usr_username :: string

end
