(* ===== verification/Json.thy ===== *)
theory Json
  imports Models
begin

text \<open>
  The hand-written JSON helpers of \<^verbatim>\<open>src/app/util/json.h\<close>: escaping for output, and the extraction of
  string, integer and order-item fields from a request body. The extractors do not parse JSON; they
  search the body for the quoted key and read on from the next colon.
\<close>

section \<open>Definitions\<close>

definition escape_json_char :: "char \<Rightarrow> string" where
  "escape_json_char c =
     (if c = BSL then [BSL, BSL]
      else if c = QUOT then [BSL, QUOT]
      else if c = LF then [BSL, CHR ''n'']
      else if c = CR then [BSL, CHR ''r'']
      else if c = TAB then [BSL, CHR ''t'']
      else [c])"

definition escape_json_string :: "string \<Rightarrow> string" where
  "escape_json_string value = concat (map escape_json_char value)"

definition quoted :: "string \<Rightarrow> string" where
  "quoted key = QUOT # key @ [QUOT]"

text \<open>The copying loop of \<open>json_string_value\<close>, from the byte after the opening quote.\<close>

fun json_string_loop :: "string \<Rightarrow> string option" where
  "json_string_loop [] = None"
| "json_string_loop [c] = (if c = QUOT then Some [] else None)"
| "json_string_loop (c # d # s) =
     (if c = BSL then map_option ((#) d) (json_string_loop s)
      else if c = QUOT then Some []
      else map_option ((#) c) (json_string_loop (d # s)))"

definition json_string_value :: "string \<Rightarrow> string \<Rightarrow> string option" where
  "json_string_value body key =
     (case find_from (quoted key) body 0 of
        None \<Rightarrow> None
      | Some key_pos \<Rightarrow>
          (case find_from '':'' body key_pos of
             None \<Rightarrow> None
           | Some colon \<Rightarrow>
               (case find_from [QUOT] body (colon + 1) of
                  None \<Rightarrow> None
                | Some start \<Rightarrow> json_string_loop (drop (start + 1) body))))"

text \<open>Blanks, an optional minus sign and the digit loop, from the byte after the colon.\<close>

definition json_digits :: "bool \<Rightarrow> string \<Rightarrow> int option" where
  "json_digits negative s =
     (if s = [] \<or> \<not> isdigit (hd s) then None
      else (let value = foldl (\<lambda>v c. wrap32 (v * 10 + digit_value c)) 0 (takeWhile isdigit s)
            in Some (if negative then wrap32 (- value) else value)))"

definition json_read_int :: "string \<Rightarrow> int option" where
  "json_read_int s =
     (let t = dropWhile isspace s in
      if t \<noteq> [] \<and> hd t = CHR ''-'' then json_digits True (tl t) else json_digits False t)"

definition json_int_value_from :: "string \<Rightarrow> string \<Rightarrow> nat \<Rightarrow> int option" where
  "json_int_value_from body key search_from =
     (case find_from (quoted key) body search_from of
        None \<Rightarrow> None
      | Some key_pos \<Rightarrow>
          (case find_from '':'' body key_pos of
             None \<Rightarrow> None
           | Some colon \<Rightarrow> json_read_int (drop (colon + 1) body)))"

definition json_int_value :: "string \<Rightarrow> string \<Rightarrow> int option" where
  "json_int_value body key = json_int_value_from body key 0"

text \<open>The \<^verbatim>\<open>while (true)\<close> loop of \<open>json_order_items\<close>; \<open>pos\<close> grows with every item.\<close>

function json_order_items_loop :: "string \<Rightarrow> nat \<Rightarrow> OrderItemRequest list" where
  "json_order_items_loop body pos =
     (case find_from (quoted ''book_id'') body pos of
        None \<Rightarrow> []
      | Some book_key \<Rightarrow>
          (case find_from (quoted ''quantity'') body book_key of
             None \<Rightarrow> []
           | Some quantity_key \<Rightarrow>
               (case (json_int_value_from body ''book_id'' book_key,
                      json_int_value_from body ''quantity'' quantity_key) of
                  (Some b, Some q) \<Rightarrow>
                    \<lparr>oir_book_id = b, oir_quantity = q\<rparr> # json_order_items_loop body (quantity_key + 1)
                | _ \<Rightarrow> [])))"
  by pat_completeness auto
termination
proof (relation "measure (\<lambda>(body, pos). length body - pos)", goal_cases)
  case 1
  show ?case by simp
next
  case (2 body pos book_key quantity_key)
  then have "pos \<le> book_key" "book_key \<le> quantity_key"
      "quantity_key + length (quoted ''quantity'') \<le> length body"
    using find_from_bounds by blast+
  then show ?case by (simp add: quoted_def)
qed

declare json_order_items_loop.simps [simp del]

definition json_order_items :: "string \<Rightarrow> OrderItemRequest list" where
  "json_order_items body = json_order_items_loop body 0"

section \<open>Escaping\<close>

lemma escape_json_string_Nil [simp]: "escape_json_string [] = []"
  by (simp add: escape_json_string_def)

lemma escape_json_string_Cons: "escape_json_string (c # s) = escape_json_char c @ escape_json_string s"
  by (simp add: escape_json_string_def)

lemma escape_json_string_append:
  "escape_json_string (s @ t) = escape_json_string s @ escape_json_string t"
  by (simp add: escape_json_string_def)

text \<open>What the reader makes of an escaped byte: the three control characters lose their meaning.\<close>

definition reread_char :: "char \<Rightarrow> char" where
  "reread_char c = (if c = LF then CHR ''n'' else if c = CR then CHR ''r''
                    else if c = TAB then CHR ''t'' else c)"

lemma json_string_loop_plain:
  "c \<noteq> BSL \<Longrightarrow> c \<noteq> QUOT \<Longrightarrow> json_string_loop (c # s) = map_option ((#) c) (json_string_loop s)"
  by (cases s) auto

lemma json_string_loop_quot [simp]: "json_string_loop (QUOT # s) = Some []"
  by (cases s) auto

lemma json_string_loop_escape:
  "json_string_loop (escape_json_string s @ QUOT # rest) = Some (map reread_char s)"
proof (induction s)
  case Nil
  show ?case by simp
next
  case (Cons c s)
  then show ?case
    by (auto simp: escape_json_string_Cons escape_json_char_def reread_char_def json_string_loop_plain)
qed

lemma reread_char_id: "c \<notin> {LF, CR, TAB} \<Longrightarrow> reread_char c = c"
  by (simp add: reread_char_def)

section \<open>Reading integers\<close>

lemma wrapped_digits: "foldl (\<lambda>v c. wrap32 (v * 10 + digit_value c)) (wrap32 a) ds = wrap32 (dec_value a ds)"
proof (induction ds arbitrary: a)
  case Nil
  show ?case by simp
next
  case (Cons d ds)
  have "wrap32 (wrap32 a * 10 + digit_value d) = wrap32 (wrap32 (wrap32 a * 10) + digit_value d)"
    by (simp only: wrap32_add_left)
  also have "\<dots> = wrap32 (a * 10 + digit_value d)"
    by (simp only: wrap32_mult_left wrap32_add_left)
  finally show ?case
    using Cons by simp
qed

lemma json_digits_numeral:
  assumes "rest = [] \<or> \<not> isdigit (hd rest)"
  shows "json_digits neg (string_of_nat n @ rest) =
           Some (if neg then wrap32 (- int n) else wrap32 (int n))"
proof -
  have tw: "takeWhile isdigit (string_of_nat n @ rest) = string_of_nat n"
    using assms string_of_nat_digits[of n] by (cases rest) auto
  have hd: "isdigit (hd (string_of_nat n @ rest))"
    using string_of_nat_digits[of n] by (cases "string_of_nat n") auto
  have "foldl (\<lambda>v c. wrap32 (v * 10 + digit_value c)) 0 (string_of_nat n) = wrap32 (int n)"
    using wrapped_digits[of 0 "string_of_nat n"] by (simp add: dec_value_string_of_nat wrap32_def)
  moreover have "wrap32 (- wrap32 (int n)) = wrap32 (- int n)"
    using wrap32_mult_left[of "int n" "- 1"] by simp
  ultimately show ?thesis
    using tw hd by (simp add: json_digits_def)
qed

lemma digit_not_space: "isdigit c \<Longrightarrow> \<not> isspace c \<and> c \<noteq> CHR ''-''"
  by (auto simp: isdigit_def isspace_def)

lemma json_read_int_to_string:
  assumes "int32 n" and "rest = [] \<or> \<not> isdigit (hd rest)"
  shows "json_read_int (to_string n @ rest) = Some n"
proof (cases "n < 0")
  case True
  have "\<not> isspace (CHR ''-'')" by (simp add: isspace_def)
  then show ?thesis
    using True assms json_digits_numeral[OF assms(2), of True "nat (- n)"]
    by (simp add: json_read_int_def to_string_def wrap_simps)
next
  case False
  obtain d ds where ds: "string_of_nat (nat n) = d # ds" and d: "isdigit d"
    using string_of_nat_digits[of "nat n"] by (cases "string_of_nat (nat n)") auto
  then show ?thesis
    using False assms digit_not_space[OF d] json_digits_numeral[OF assms(2), of False "nat n"]
    by (simp add: json_read_int_def to_string_def wrap_simps)
qed

section \<open>Fields of a body given in pieces\<close>

text \<open>A key that needs no escaping and cannot hide the colon.\<close>

definition plain_key :: "string \<Rightarrow> bool" where
  "plain_key key \<longleftrightarrow> key \<noteq> [] \<and> (\<forall>c \<in> set key. c \<notin> {QUOT, BSL, LF, CR, TAB, CHR '':''})"

definition ends_with :: "string \<Rightarrow> string \<Rightarrow> bool" where
  "ends_with s key \<longleftrightarrow> is_prefix (rev key) (rev s)"

lemma ends_with_iff: "ends_with s key \<longleftrightarrow> (\<exists>t. s = t @ key)"
proof -
  have "(\<exists>t. rev s = rev key @ t) \<longleftrightarrow> (\<exists>t. s = t @ key)"
    by (metis rev_append rev_rev_ident)
  then show ?thesis
    by (simp add: ends_with_def is_prefix_iff)
qed

lemma escape_json_char_cases:
  obtains (plain) "escape_json_char c = [c]" "c \<noteq> QUOT" "c \<noteq> BSL"
    | (escaped) d where "escape_json_char c = [BSL, d]" "d = QUOT \<longleftrightarrow> c = QUOT"
proof (cases "c \<in> {BSL, QUOT, LF, CR, TAB}")
  case True
  then have "\<exists>d. escape_json_char c = [BSL, d] \<and> (d = QUOT \<longleftrightarrow> c = QUOT)"
    by (auto simp: escape_json_char_def)
  then show ?thesis using escaped by blast
next
  case False
  then show ?thesis by (intro plain) (auto simp: escape_json_char_def)
qed

lemma key_at_escaped:
  assumes "\<forall>c \<in> set key. c \<notin> {QUOT, BSL, LF, CR, TAB}"
    and "is_prefix (key @ [QUOT]) (escape_json_string s @ QUOT # t)"
  shows "s = key"
  using assms
proof (induction s arbitrary: key)
  case Nil
  then show ?case by (cases key) auto
next
  case (Cons c s)
  show ?case
  proof (cases c rule: escape_json_char_cases)
    case plain
    with Cons.prems Cons.IH[of "tl key"] show ?thesis
      by (cases key) (auto simp: escape_json_string_Cons)
  next
    case (escaped d)
    with Cons.prems show ?thesis
      by (cases key) (auto simp: escape_json_string_Cons)
  qed
qed

lemma skips_escaped:
  assumes "plain_key key" and "\<not> ends_with s key"
  shows "skips (quoted key) (escape_json_string s) (QUOT # t)"
  using assms(2)
proof (induction s)
  case Nil
  show ?case by simp
next
  case (Cons c s)
  then have tail: "skips (quoted key) (escape_json_string s) (QUOT # t)"
    by (metis append_Cons ends_with_iff)
  show ?case
  proof (cases c rule: escape_json_char_cases)
    case plain
    with tail show ?thesis
      by (simp add: escape_json_string_Cons quoted_def)
  next
    case (escaped d)
    have "\<not> is_prefix (key @ [QUOT]) (escape_json_string s @ QUOT # t)" if "d = QUOT"
    proof
      assume "is_prefix (key @ [QUOT]) (escape_json_string s @ QUOT # t)"
      then have "s = key"
        using assms(1) by (intro key_at_escaped) (auto simp: plain_key_def)
      with Cons.prems show False
        by (auto simp: ends_with_iff)
    qed
    with escaped tail show ?thesis
      by (auto simp: escape_json_string_Cons quoted_def)
  qed
qed

lemma skips_string_value:
  assumes "plain_key key" and "\<not> ends_with s key"
  shows "skips (quoted key) (QUOT # escape_json_string s) (QUOT # t)"
proof -
  have "\<not> is_prefix (key @ [QUOT]) (escape_json_string s @ QUOT # t)"
    using assms key_at_escaped[of key s t] by (auto simp: plain_key_def ends_with_iff)
  then show ?thesis
    using skips_escaped[OF assms] by (simp add: quoted_def)
qed

lemma to_string_chars: "c \<in> set (to_string n) \<Longrightarrow> isdigit c \<or> c = CHR ''-''"
  using string_of_nat_digits by (auto simp: to_string_def split: if_splits)

lemma skips_to_string: "skips (quoted key) (to_string n) t"
proof -
  have "QUOT \<notin> set (to_string n)"
    using to_string_chars[of QUOT n] by (auto simp: isdigit_def)
  then show ?thesis
    by (intro skips_no_head) (simp_all add: quoted_def)
qed

lemmas skips_pieces = skips_append skips_to_string skips_string_value skips_escaped

lemma find_key_colon:
  assumes "plain_key key"
  shows "find_sub '':'' (quoted key @ '':'' @ rest) = Some (length (quoted key))"
proof -
  have "\<forall>c \<in> set (quoted key). CHR '':'' \<noteq> c"
    using assms by (auto simp: plain_key_def quoted_def)
  then show ?thesis
    by (subst find_sub_char) (simp add: find_if_append)
qed

lemma find_from_pieces:
  "skips p s t \<Longrightarrow> find_from p (u @ s @ t) (length u) = map_option ((+) (length u + length s)) (find_sub p t)"
  by (simp add: find_from_def find_sub_skip option.map_comp o_def add.assoc)
     (cases "find_sub p t"; simp)

lemma find_quoted_key:
  assumes "skips (quoted key) pre (quoted key @ rest)"
  shows "find_from (quoted key) (u @ pre @ quoted key @ rest) (length u) = Some (length u + length pre)"
  using find_from_pieces[OF assms, of u] by (simp add: find_sub_hit quoted_def del: append_Cons)

lemma json_int_field:
  assumes "plain_key key" and "skips (quoted key) pre (quoted key @ '':'' @ rest)"
  shows "json_int_value_from (u @ pre @ quoted key @ '':'' @ rest) key (length u) = json_read_int rest"
proof -
  have "find_from '':'' ((u @ pre) @ [] @ quoted key @ '':'' @ rest) (length (u @ pre)) =
          Some (length u + length pre + length (quoted key))"
    by (subst find_from_pieces) (simp_all only: skips.simps find_key_colon[OF assms(1)], simp)
  then show ?thesis
    using find_quoted_key[of key pre "'':'' @ rest" u] assms(2)
    by (simp add: json_int_value_from_def)
qed

lemma json_string_field:
  assumes "plain_key key" and "skips (quoted key) pre (quoted key @ '':'' @ QUOT # escape_json_string s @ QUOT # rest)"
  shows "json_string_value (pre @ quoted key @ '':'' @ QUOT # escape_json_string s @ QUOT # rest) key
           = Some (map reread_char s)"
proof -
  let ?t = "escape_json_string s @ QUOT # rest"
  have k: "find_from (quoted key) (pre @ quoted key @ '':'' @ QUOT # ?t) 0 = Some (length pre)"
    using find_quoted_key[of key pre "'':'' @ QUOT # ?t" "[]"] assms(2) by simp
  have c: "find_from '':'' (pre @ [] @ quoted key @ '':'' @ QUOT # ?t) (length pre) =
             Some (length pre + length (quoted key))"
    by (subst find_from_pieces) (simp_all only: skips.simps find_key_colon[OF assms(1)], simp)
  have q: "find_from [QUOT] ((pre @ quoted key @ '':'') @ [] @ QUOT # ?t) (length (pre @ quoted key @ '':'')) =
             Some (length pre + length (quoted key) + 1)"
    by (subst find_from_pieces) simp_all
  from k c q show ?thesis
    by (simp add: json_string_value_def json_string_loop_escape)
qed

section \<open>Order items\<close>

lemma plain_key_item_keys: "plain_key ''book_id''" "plain_key ''quantity''"
  by (simp_all add: plain_key_def)

text \<open>One round of the loop, on a body that continues with a well-formed item.\<close>

lemma json_order_items_step:
  assumes b: "int32 b" and q: "int32 q"
    and pre: "skips (quoted ''book_id'') pre
                (quoted ''book_id'' @ '':'' @ to_string b @ '','' @ quoted ''quantity'' @ '':'' @ to_string q @ rest)"
    and rest: "rest = [] \<or> \<not> isdigit (hd rest)"
    and body: "body = u @ pre @ quoted ''book_id'' @ '':'' @ to_string b @ '','' @
                 quoted ''quantity'' @ '':'' @ to_string q @ rest"
  shows "json_order_items_loop body (length u) =
           \<lparr>oir_book_id = b, oir_quantity = q\<rparr> #
           json_order_items_loop body
             (length (u @ pre @ quoted ''book_id'' @ '':'' @ to_string b @ '','') + 1)"
proof -
  let ?q = "quoted ''quantity'' @ '':'' @ to_string q @ rest"
  let ?b = "quoted ''book_id'' @ '':'' @ to_string b @ '',''"
  have body1: "body = u @ pre @ quoted ''book_id'' @ ('':'' @ to_string b @ '','' @ ?q)"
    and body2: "body = (u @ pre) @ ?b @ ?q"
    and body3: "body = (u @ pre @ ?b) @ [] @ ?q"
    and body4: "body = (u @ pre) @ [] @ quoted ''book_id'' @ '':'' @ to_string b @ '','' @ ?q"
    by (simp_all add: body)
  have sk: "skips (quoted ''quantity'') ?b ?q"
    by (simp add: skips_append skips_to_string) (simp add: quoted_def)
  have f1: "find_from (quoted ''book_id'') body (length u) = Some (length (u @ pre))"
    unfolding body1 by (subst find_quoted_key) (use pre in simp_all)
  have f2: "find_from (quoted ''quantity'') body (length (u @ pre)) = Some (length (u @ pre @ ?b))"
    unfolding body2 by (subst find_quoted_key) (use sk in simp_all)
  have v1: "json_int_value_from body ''book_id'' (length (u @ pre)) = Some b"
    unfolding body4
    by (subst json_int_field) (simp_all add: plain_key_item_keys json_read_int_to_string[OF b] isdigit_def)
  have v2: "json_int_value_from body ''quantity'' (length (u @ pre @ ?b)) = Some q"
    unfolding body3
    by (subst json_int_field) (simp_all add: plain_key_item_keys json_read_int_to_string[OF q rest])
  show ?thesis
    by (subst json_order_items_loop.simps) (simp only: f1 f2 v1 v2 option.case prod.case append_assoc)
qed

lemma json_order_items_stop:
  "find_sub (quoted ''book_id'') t = None \<Longrightarrow> json_order_items_loop (u @ t) (length u) = []"
  by (subst json_order_items_loop.simps) (simp add: find_from_def)

text \<open>
  An item as both the browser client and \<open>order_to_json\<close> print it: \<open>tail\<close> holds the fields after the
  quantity.
\<close>

definition item_text :: "(int \<times> int \<times> string) \<Rightarrow> string" where
  "item_text it = (case it of (b, q, tail) \<Rightarrow>
     CHR ''{'' # quoted ''book_id'' @ '':'' @ to_string b @ '','' @
     quoted ''quantity'' @ '':'' @ to_string q @ tail @ ''}'')"

definition item_ok :: "(int \<times> int \<times> string) \<Rightarrow> bool" where
  "item_ok it \<longleftrightarrow> (case it of (b, q, tail) \<Rightarrow> int32 b \<and> int32 q \<and>
     (tail = [] \<or> \<not> isdigit (hd tail)) \<and> (\<forall>t. skips (quoted ''book_id'') tail (CHR ''}'' # t)))"

definition item_request :: "(int \<times> int \<times> string) \<Rightarrow> OrderItemRequest" where
  "item_request it = (case it of (b, q, tail) \<Rightarrow> \<lparr>oir_book_id = b, oir_quantity = q\<rparr>)"

lemma json_order_items_rendered:
  assumes "\<forall>it \<in> set items. item_ok it"
    and "\<And>t. skips (quoted ''book_id'') pre t"
    and "find_sub (quoted ''book_id'') post = None"
    and "body = u @ pre @ comma_join (map item_text items) @ post"
  shows "json_order_items_loop body (length u) = map item_request items"
  using assms
proof (induction items arbitrary: u pre)
  case Nil
  then show ?case
    using json_order_items_stop[of "pre @ post" u] by (simp add: find_sub_skip)
next
  case (Cons it items)
  obtain b q tail where it: "it = (b, q, tail)" by (cases it)
  define more where "more = (if items = [] then post else '','' @ comma_join (map item_text items) @ post)"
  let ?rest = "tail @ ''}'' @ more"
  let ?u = "u @ (pre @ ''{'') @ quoted ''book_id'' @ '':'' @ to_string b @ '','' @ [QUOT]"
  have body: "body = u @ (pre @ ''{'') @ quoted ''book_id'' @ '':'' @ to_string b @ '','' @
      quoted ''quantity'' @ '':'' @ to_string q @ ?rest"
    using Cons.prems(4) by (auto simp: it item_text_def[of "(b, q, tail)"] comma_join_Cons more_def)
  have ok: "int32 b" "int32 q" "?rest = [] \<or> \<not> isdigit (hd ?rest)"
      and tail: "\<And>t. skips (quoted ''book_id'') tail (CHR ''}'' # t)"
    using Cons.prems(1) by (auto simp: it item_ok_def hd_append isdigit_def)
  have sk: "skips (quoted ''book_id'') (pre @ ''{'') t" for t
    using Cons.prems(2) by (simp add: skips_append) (simp add: quoted_def)
  have step: "json_order_items_loop body (length u) = item_request it # json_order_items_loop body (length ?u)"
    using json_order_items_step[OF ok(1,2) sk ok(3) body] by (simp add: it item_request_def)
  let ?gap = "''quantity'' @ [QUOT] @ '':'' @ to_string q @ tail @ ''}''"
  have gap: "skips (quoted ''book_id'') ?gap t" for t
    using tail[of t] by (simp add: skips_append skips_to_string) (simp add: quoted_def)
  have rest: "json_order_items_loop body (length ?u) = map item_request items"
  proof (cases "items = []")
    case True
    have "find_sub (quoted ''book_id'') (?gap @ post) = None"
      using find_sub_skip[OF gap[of post]] Cons.prems(3) by (simp only: option.map)
    moreover have "body = ?u @ (?gap @ post)"
      using True by (simp add: body more_def quoted_def)
    ultimately show ?thesis
      using json_order_items_stop True by (simp only: list.map)
  next
    case False
    have "skips (quoted ''book_id'') (?gap @ '','') t" for t
      using gap by (simp only: skips_append) (simp add: quoted_def)
    moreover have "body = ?u @ (?gap @ '','') @ comma_join (map item_text items) @ post"
      using False by (simp add: body more_def quoted_def)
    ultimately show ?thesis
      using Cons.prems(1,3) by (intro Cons.IH[of "?gap @ '',''" ?u]) auto
  qed
  show ?case
    by (simp only: step rest list.map)
qed

end
