(* ===== verification/Url.thy ===== *)
theory Url
  imports Prelude
begin

text \<open>
  \<^verbatim>\<open>src/net/http/url_params.h\<close>: form parameters, percent decoding, query strings and the split of a
  request target into path and query. An \<^verbatim>\<open>unordered_map<string,string>\<close> is a map
  \<open>string \<rightharpoonup> string\<close>; \<^verbatim>\<open>emplace\<close> keeps an existing entry.
\<close>

type_synonym params = "string \<rightharpoonup> string"

section \<open>Definitions\<close>

text \<open>The token that starts at \<open>pos\<close>, and the position of the ampersand that ends it.\<close>

definition token_at :: "string \<Rightarrow> nat \<Rightarrow> string" where
  "token_at body pos = (case find_from ''&'' body pos of
     None \<Rightarrow> drop pos body
   | Some amp \<Rightarrow> substr body pos (amp - pos))"

function get_param_loop :: "string \<Rightarrow> string \<Rightarrow> nat \<Rightarrow> string option" where
  "get_param_loop body prefix pos =
     (if pos < length body then
        (let token = token_at body pos in
         if length token > length prefix \<and> take (length prefix) token = prefix
         then Some (drop (length prefix) token)
         else (case find_from ''&'' body pos of
                 None \<Rightarrow> None
               | Some amp \<Rightarrow> get_param_loop body prefix (amp + 1)))
      else None)"
  by pat_completeness auto
termination
proof (relation "measure (\<lambda>(body, prefix, pos). length body - pos)", goal_cases)
  case 1
  show ?case by simp
next
  case (2 body prefix pos token amp)
  then show ?case
    using find_from_bounds[of "''&''" body pos amp] by simp
qed

definition get_param :: "string \<Rightarrow> string \<Rightarrow> string option" where
  "get_param body key = get_param_loop body (key @ ''='') 0"

definition hex_val :: "char \<Rightarrow> int" where
  "hex_val c =
     (if 48 \<le> byte c \<and> byte c \<le> 57 then int (byte c) - 48
      else if 65 \<le> byte c \<and> byte c \<le> 70 then int (byte c) - 65 + 10
      else if 97 \<le> byte c \<and> byte c \<le> 102 then int (byte c) - 97 + 10
      else - 1)"

fun url_decode :: "string \<Rightarrow> string" where
  "url_decode (c # h # l # s) =
     (if c = CHR ''%'' \<and> hex_val h \<ge> 0 \<and> hex_val l \<ge> 0
      then char_of (or (push_bit 4 (nat (hex_val h))) (nat (hex_val l))) # url_decode s
      else c # url_decode (h # l # s))"
| "url_decode (c # s) = c # url_decode s"
| "url_decode [] = []"

definition emplace :: "params \<Rightarrow> string \<Rightarrow> string \<Rightarrow> params" where
  "emplace m k v = (case m k of None \<Rightarrow> m(k \<mapsto> v) | Some _ \<Rightarrow> m)"

definition add_token :: "params \<Rightarrow> string \<Rightarrow> params" where
  "add_token m token =
     (case find_from ''='' token 0 of
        None \<Rightarrow> m
      | Some eq \<Rightarrow> emplace m (url_decode (substr token 0 eq)) (url_decode (drop (eq + 1) token)))"

function parse_query_loop :: "string \<Rightarrow> nat \<Rightarrow> params \<Rightarrow> params" where
  "parse_query_loop query pos m =
     (if pos < length query then
        (case find_from ''&'' query pos of
           None \<Rightarrow> add_token m (token_at query pos)
         | Some amp \<Rightarrow> parse_query_loop query (amp + 1) (add_token m (token_at query pos)))
      else m)"
  by pat_completeness auto
termination
proof (relation "measure (\<lambda>(query, pos, m). length query - pos)", goal_cases)
  case 1
  show ?case by simp
next
  case (2 query pos m amp)
  then show ?case
    using find_from_bounds[of "''&''" query pos amp] by simp
qed

definition parse_query_string :: "string \<Rightarrow> params" where
  "parse_query_string query = parse_query_loop query 0 Map.empty"

definition split_path_and_query :: "string \<Rightarrow> string \<times> params" where
  "split_path_and_query url =
     (case find_from ''?'' url 0 of
        None \<Rightarrow> (url, Map.empty)
      | Some qpos \<Rightarrow> (substr url 0 qpos, parse_query_string (drop (qpos + 1) url)))"

declare get_param_loop.simps [simp del] parse_query_loop.simps [simp del]

section \<open>Tokens\<close>

text \<open>The reference reading of a query: the pieces between ampersands.\<close>

fun split_amp :: "string \<Rightarrow> string list" where
  "split_amp [] = [[]]"
| "split_amp (c # s) =
     (if c = CHR ''&'' then [] # split_amp s
      else (case split_amp s of [] \<Rightarrow> [[c]] | t # ts \<Rightarrow> (c # t) # ts))"

lemma split_amp_nonempty [simp]: "split_amp s \<noteq> []"
  by (cases s) (auto split: list.splits)

lemma split_amp_append:
  "CHR ''&'' \<notin> set t \<Longrightarrow> split_amp (t @ CHR ''&'' # s) = t # split_amp s"
  by (induction t) auto

lemma split_amp_last: "CHR ''&'' \<notin> set t \<Longrightarrow> split_amp t = [t]"
  by (induction t) auto

text \<open>Where the loops stand: the ampersand that ends the token at \<open>pos\<close>, or none.\<close>

lemma token_cases:
  assumes "pos < length body"
  obtains (last) "find_from ''&'' body pos = None" "token_at body pos = drop pos body"
      "CHR ''&'' \<notin> set (drop pos body)"
    | (more) amp where "find_from ''&'' body pos = Some amp" "amp < length body"
      "drop pos body = token_at body pos @ CHR ''&'' # drop (amp + 1) body"
      "CHR ''&'' \<notin> set (token_at body pos)"
proof (cases "find_if ((=) (CHR ''&'')) (drop pos body)")
  case None
  then have no: "find_from ''&'' body pos = None"
    using assms by (simp add: find_from_def find_sub_char)
  show ?thesis
  proof (rule last)
    show "token_at body pos = drop pos body" by (simp add: token_at_def no)
    show "CHR ''&'' \<notin> set (drop pos body)" using None find_if_None by blast
  qed (rule no)
next
  case (Some k)
  then obtain t where t: "drop pos body = take k (drop pos body) @ CHR ''&'' # t"
      and k: "k < length (drop pos body)" and no: "CHR ''&'' \<notin> set (take k (drop pos body))"
    using find_if_Some_split[OF Some] by auto
  have amp: "find_from ''&'' body pos = Some (pos + k)"
    using Some assms by (simp add: find_from_def find_sub_char)
  have tok: "token_at body pos = take k (drop pos body)"
    using amp by (simp add: token_at_def substr_def)
  have "drop (k + 1) (drop pos body) = t"
    using k by (subst t) simp
  then have "t = drop (pos + k + 1) body"
    by (simp add: add.commute)
  then have dec: "drop pos body = token_at body pos @ CHR ''&'' # drop (pos + k + 1) body"
    using t by (simp only: tok)
  show ?thesis
  proof (rule more)
    show "find_from ''&'' body pos = Some (pos + k)" by (rule amp)
    show "pos + k < length body" using k by simp
    show "drop pos body = token_at body pos @ CHR ''&'' # drop (pos + k + 1) body" by (rule dec)
    show "CHR ''&'' \<notin> set (token_at body pos)" using no by (simp only: tok not_False_eq_True)
  qed
qed

fun first_value :: "string \<Rightarrow> string list \<Rightarrow> string option" where
  "first_value prefix [] = None"
| "first_value prefix (t # ts) =
     (if length t > length prefix \<and> is_prefix prefix t then Some (drop (length prefix) t)
      else first_value prefix ts)"

lemma take_is_prefix: "length p < length t \<Longrightarrow> take (length p) t = p \<longleftrightarrow> is_prefix p t"
  by (metis append_eq_conv_conj append_take_drop_id is_prefix_iff)

lemma get_param_loop_tokens:
  "pos \<le> length body \<Longrightarrow> get_param_loop body prefix pos = first_value prefix (split_amp (drop pos body))"
proof (induction body prefix pos rule: get_param_loop.induct)
  case (1 body prefix pos)
  show ?case
  proof (cases "pos < length body")
    case False
    with 1 show ?thesis by (subst get_param_loop.simps) simp
  next
    case True
    then show ?thesis
    proof (cases rule: token_cases)
      case last
      with True show ?thesis
        by (subst get_param_loop.simps) (auto simp: split_amp_last take_is_prefix Let_def)
    next
      case (more amp)
      show ?thesis
        unfolding more(3) split_amp_append[OF more(4)]
        using True more 1(1)[OF True refl _ more(1)]
        by (subst get_param_loop.simps) (auto simp: take_is_prefix Let_def)
    qed
  qed
qed

lemma parse_query_loop_tokens:
  "pos \<le> length query \<Longrightarrow>
     parse_query_loop query pos m = foldl add_token m (split_amp (drop pos query))"
proof (induction query pos m rule: parse_query_loop.induct)
  case (1 query pos m)
  show ?case
  proof (cases "pos < length query")
    case False
    with 1 show ?thesis
      by (subst parse_query_loop.simps) (simp add: add_token_def find_from_def)
  next
    case True
    then show ?thesis
    proof (cases rule: token_cases)
      case last
      with True show ?thesis
        by (subst parse_query_loop.simps) (simp add: split_amp_last)
    next
      case (more amp)
      show ?thesis
        unfolding more(3) split_amp_append[OF more(4)]
        using True more(1,2) 1(1)[OF True more(1)]
        by (subst parse_query_loop.simps) simp
    qed
  qed
qed

section \<open>Percent encoding\<close>

text \<open>
  The encoder of the browser side, \<^verbatim>\<open>encodeURIComponent\<close>: unreserved bytes stand for themselves,
  every other byte becomes a percent sign and two upper-case hexadecimal digits.
\<close>

definition unreserved :: "char \<Rightarrow> bool" where
  "unreserved c \<longleftrightarrow> isalnum c \<or> c \<in> set ''-_.!~*()'' \<or> byte c = 39"

definition hex_digit :: "nat \<Rightarrow> char" where
  "hex_digit n = char_of (if n < 10 then 48 + n else 55 + n)"

definition percent_encode_char :: "char \<Rightarrow> string" where
  "percent_encode_char c =
     (if unreserved c then [c] else [CHR ''%'', hex_digit (byte c div 16), hex_digit (byte c mod 16)])"

definition percent_encode :: "string \<Rightarrow> string" where
  "percent_encode s = concat (map percent_encode_char s)"

lemma byte_less: "byte c < 256"
  using of_char_mod_256 [of c] by (metis mod_less_divisor zero_less_numeral)

lemma hex_digit_all: "list_all (\<lambda>n. hex_val (hex_digit n) = int n \<and> isalnum (hex_digit n)) [0..<16]"
  by code_simp

lemma hex_digit_ok: "n < 16 \<Longrightarrow> hex_val (hex_digit n) = int n \<and> isalnum (hex_digit n)"
  using hex_digit_all by (simp add: list_all_iff)

lemma nibbles: "or (push_bit 4 (b div 16)) (b mod 16) = (b::nat)"
proof -
  have "or (push_bit 4 (drop_bit 4 b)) (take_bit 4 b) = b"
    by (rule bit_eqI) (auto simp: bit_or_iff bit_push_bit_iff bit_drop_bit_eq bit_take_bit_iff)
  then show ?thesis
    by (simp add: drop_bit_eq_div take_bit_eq_mod)
qed

lemma url_decode_plain: "c \<noteq> CHR ''%'' \<Longrightarrow> url_decode (c # s) = c # url_decode s"
  by (cases s; cases "tl s") auto

lemma url_decode_escaped:
  "url_decode (CHR ''%'' # hex_digit (byte c div 16) # hex_digit (byte c mod 16) # s) = c # url_decode s"
proof -
  have "byte c div 16 < 16"
    using byte_less[of c] by linarith
  then show ?thesis
    using hex_digit_ok[of "byte c div 16"] hex_digit_ok[of "byte c mod 16"] by (simp add: nibbles)
qed

lemma url_decode_percent_encode_append:
  "url_decode (percent_encode s @ t) = s @ url_decode t"
proof (induction s)
  case Nil
  show ?case by (simp add: percent_encode_def)
next
  case (Cons c s)
  have "c \<noteq> CHR ''%''" if "unreserved c"
    using that by (auto simp: unreserved_def isalnum_def isdigit_def)
  with Cons show ?case
    by (simp add: percent_encode_def percent_encode_char_def url_decode_plain url_decode_escaped del: url_decode.simps)
qed

lemma percent_encode_safe:
  assumes "c \<in> set (percent_encode s)"
  shows "c \<noteq> CHR ''&'' \<and> c \<noteq> CHR ''='' \<and> c \<noteq> CHR ''?''"
proof -
  from assms obtain d where d: "c \<in> set (percent_encode_char d)"
    by (auto simp: percent_encode_def)
  have "byte d div 16 < 16"
    using byte_less[of d] by linarith
  with d have "unreserved c \<or> c = CHR ''%''"
    using hex_digit_ok[of "byte d div 16"] hex_digit_ok[of "byte d mod 16"]
    by (auto simp: percent_encode_char_def unreserved_def split: if_splits)
  then show ?thesis
    by (auto simp: unreserved_def isalnum_def isdigit_def)
qed

section \<open>Query strings as the client builds them\<close>

definition encode_pair :: "string \<times> string \<Rightarrow> string" where
  "encode_pair kv = percent_encode (fst kv) @ ''='' @ percent_encode (snd kv)"

fun build_query :: "(string \<times> string) list \<Rightarrow> string" where
  "build_query [] = []"
| "build_query [kv] = encode_pair kv"
| "build_query (kv # kvs) = encode_pair kv @ ''&'' @ build_query kvs"

lemma encode_pair_no_amp: "CHR ''&'' \<notin> set (encode_pair kv)"
  using percent_encode_safe by (fastforce simp: encode_pair_def)

lemma split_amp_build_query: "kvs \<noteq> [] \<Longrightarrow> split_amp (build_query kvs) = map encode_pair kvs"
  by (induction kvs rule: build_query.induct)
     (auto simp: split_amp_append split_amp_last encode_pair_no_amp)

lemma add_token_encode_pair: "add_token m (encode_pair (k, v)) = emplace m k v"
proof -
  have "\<forall>c \<in> set (percent_encode k). CHR ''='' \<noteq> c"
    using percent_encode_safe by blast
  then have "find_from ''='' (encode_pair (k, v)) 0 = Some (length (percent_encode k))"
    by (simp add: find_from_0 find_sub_char encode_pair_def find_if_append)
  then show ?thesis
    using url_decode_percent_encode_append[of k "[]"] url_decode_percent_encode_append[of v "[]"]
    by (simp add: add_token_def encode_pair_def substr_def)
qed

lemma foldl_add_token: "foldl add_token m (map encode_pair kvs) = map_of kvs ++ m"
proof (induction kvs arbitrary: m)
  case Nil
  show ?case by simp
next
  case (Cons kv kvs)
  obtain k v where kv: "kv = (k, v)" by (cases kv)
  have "map_of kvs ++ emplace m k v = (map_of kvs)(k \<mapsto> v) ++ m"
    by (auto simp: emplace_def map_add_def fun_eq_iff split: option.splits)
  then show ?case
    by (simp add: kv add_token_encode_pair Cons fun_upd_def)
qed

end
