(* ===== verification/Http_Message.thy ===== *)
theory Http_Message
  imports Url
begin

text \<open>\<^verbatim>\<open>src/net/http/http_request.h\<close> and \<^verbatim>\<open>src/net/http/http_response.h\<close>.\<close>

section \<open>Definitions\<close>

datatype HttpMethod = Get | Post | Put | Patch | Delete | Unknown

record HttpRequest =
  rq_method :: HttpMethod
  rq_path :: string
  rq_body :: string
  rq_headers :: params
  rq_path_params :: params
  rq_query_params :: params

record HttpResponse =
  rs_status_code :: int
  rs_reason :: string
  rs_content_type :: string
  rs_body :: string

definition reason_phrase :: "int \<Rightarrow> string" where
  "reason_phrase status =
     (if status = 200 then ''OK''
      else if status = 201 then ''Created''
      else if status = 400 then ''Bad Request''
      else if status = 401 then ''Unauthorized''
      else if status = 403 then ''Forbidden''
      else if status = 404 then ''Not Found''
      else if status = 409 then ''Conflict''
      else if status = 500 then ''Internal Server Error''
      else if status = 501 then ''Not Implemented''
      else if status = 503 then ''Service Unavailable''
      else ''OK'')"

definition json_response :: "int \<Rightarrow> string \<Rightarrow> HttpResponse" where
  "json_response status payload =
     \<lparr>rs_status_code = status, rs_reason = reason_phrase status,
      rs_content_type = ''application/json'', rs_body = payload\<rparr>"

definition crlf :: string where
  "crlf = [CR, LF]"

definition to_http_string :: "HttpResponse \<Rightarrow> bool \<Rightarrow> string" where
  "to_http_string r keep_alive =
     ''HTTP/1.1 '' @ to_string (rs_status_code r) @ '' '' @ rs_reason r @ crlf @
     ''Content-Type: '' @ rs_content_type r @ crlf @
     ''Content-Length: '' @ to_string (int (length (rs_body r))) @ crlf @
     ''Connection: '' @ (if keep_alive then ''keep-alive'' else ''close'') @ crlf @
     crlf @
     rs_body r"

section \<open>Framing\<close>

text \<open>
  A receiver splits a message at the first empty line and reads as many body bytes as the
  Content-Length field says.
\<close>

definition head_of :: "string \<Rightarrow> string" where
  "head_of msg = (case find_sub (crlf @ crlf) msg of None \<Rightarrow> msg | Some i \<Rightarrow> take i msg)"

definition after_head :: "string \<Rightarrow> string" where
  "after_head msg = (case find_sub (crlf @ crlf) msg of None \<Rightarrow> [] | Some i \<Rightarrow> drop (i + 4) msg)"

definition content_length_of :: "string \<Rightarrow> int" where
  "content_length_of msg =
     (case find_sub ''Content-Length: '' msg of None \<Rightarrow> 0 | Some i \<Rightarrow> strtol10 (drop (i + 16) msg))"

lemma reason_phrase_no_cr: "CR \<notin> set (reason_phrase status)"
  by (simp add: reason_phrase_def)

lemma no_cr_to_string: "CR \<notin> set (to_string n)"
  by (auto simp: to_string_def isdigit_def dest!: bspec[OF string_of_nat_digits])

text \<open>A piece without carriage return followed by anything is skipped by the search for the blank line.\<close>

lemma skips_blank: "CR \<notin> set s \<Longrightarrow> skips (crlf @ crlf) s t"
  by (intro skips_no_head) (simp_all add: crlf_def)

lemma skips_line_end: "t = [] \<or> hd t \<noteq> CR \<Longrightarrow> skips (crlf @ crlf) crlf t"
  by (cases t) (auto simp: crlf_def)

end
