(* ===== verification/Router.thy ===== *)
theory Router
  imports Http_Message
begin

text \<open>
  \<^verbatim>\<open>src/net/http/router.h\<close>. A handler maps a request to a result of any type \<open>'r\<close>; the gateway uses
  state transformers for \<open>'r\<close>. The hash table of exact routes is a map keyed by \<^verbatim>\<open>RouteKey\<close>, the array
  \<^verbatim>\<open>param_routes_\<close> is a list of \<open>kMethodCount\<close> route lists, and the exception of a duplicate
  registration is the left summand.
\<close>

section \<open>Definitions\<close>

record 'r Route =
  rt_method :: HttpMethod
  rt_path :: string
  rt_parts :: "string list"
  rt_handler :: "HttpRequest \<Rightarrow> 'r"

type_synonym RouteKey = "HttpMethod \<times> string"

record 'r Router =
  exact_routes :: "RouteKey \<rightharpoonup> 'r Route"
  param_routes :: "'r Route list list"

datatype route_error = DuplicateRoute

definition kMethodCount :: nat where
  "kMethodCount = 6"

fun method_key :: "HttpMethod \<Rightarrow> nat" where
  "method_key Get = 0"
| "method_key Post = 1"
| "method_key Put = 2"
| "method_key Patch = 3"
| "method_key Delete = 4"
| "method_key Unknown = 5"

definition empty_router :: "'r Router" where
  "empty_router = \<lparr>exact_routes = Map.empty, param_routes = replicate kMethodCount []\<rparr>"

function split_path :: "string \<Rightarrow> string list" where
  "split_path path =
     (let t = dropWhile (\<lambda>c. c = CHR ''/'') path in
      if t = [] then []
      else takeWhile (\<lambda>c. c \<noteq> CHR ''/'') t # split_path (drop 1 (dropWhile (\<lambda>c. c \<noteq> CHR ''/'') t)))"
  by pat_completeness auto
termination
proof (relation "measure length", goal_cases)
  case 1
  show ?case by simp
next
  case (2 path t)
  from 2 have "hd t \<noteq> CHR ''/''" "t \<noteq> []"
    using hd_dropWhile[of "\<lambda>c. c = CHR ''/''" path] by auto
  then have "length (dropWhile (\<lambda>c. c \<noteq> CHR ''/'') t) < length t"
    by (cases t) (auto simp: length_dropWhile_le less_Suc_eq_le)
  moreover have "length t \<le> length path"
    using 2 by (simp add: length_dropWhile_le)
  ultimately show ?case by simp
qed

declare split_path.simps [simp del]

definition is_param :: "string \<Rightarrow> bool" where
  "is_param segment \<longleftrightarrow> length segment > 2 \<and> hd segment = CHR ''{'' \<and> last segment = CHR ''}''"

definition has_param :: "string list \<Rightarrow> bool" where
  "has_param parts \<longleftrightarrow> list_ex is_param parts"

definition param_name :: "string \<Rightarrow> string" where
  "param_name segment = substr segment 1 (length segment - 2)"

text \<open>The loop of \<open>match_path\<close>: \<open>None\<close> is the result false, \<open>Some params\<close> the result true.\<close>

fun match_loop :: "string list \<Rightarrow> string list \<Rightarrow> params \<Rightarrow> params option" where
  "match_loop (pat # pats) (part # parts) params =
     (if is_param pat then match_loop pats parts (params(param_name pat \<mapsto> part))
      else if pat \<noteq> part then None
      else match_loop pats parts params)"
| "match_loop _ _ params = Some params"

definition match_path :: "string list \<Rightarrow> string list \<Rightarrow> params option" where
  "match_path pattern_parts path_parts =
     (if length pattern_parts \<noteq> length path_parts then None
      else match_loop pattern_parts path_parts Map.empty)"

definition add_route ::
  "HttpMethod \<Rightarrow> string \<Rightarrow> (HttpRequest \<Rightarrow> 'r) \<Rightarrow> 'r Router \<Rightarrow> route_error + 'r Router" where
  "add_route method path handler router =
     (let route = \<lparr>rt_method = method, rt_path = path, rt_parts = split_path path, rt_handler = handler\<rparr> in
      if has_param (rt_parts route)
      then Inr (router\<lparr>param_routes :=
             (param_routes router)[method_key method := (param_routes router ! method_key method) @ [route]]\<rparr>)
      else (case exact_routes router (method, path) of
              Some _ \<Rightarrow> Inl DuplicateRoute
            | None \<Rightarrow> Inr (router\<lparr>exact_routes := (exact_routes router)((method, path) \<mapsto> route)\<rparr>)))"

fun route_loop :: "'r Route list \<Rightarrow> string list \<Rightarrow> HttpRequest \<Rightarrow> 'r option" where
  "route_loop [] path_parts request = None"
| "route_loop (r # rs) path_parts request =
     (case match_path (rt_parts r) path_parts of
        None \<Rightarrow> route_loop rs path_parts request
      | Some ps \<Rightarrow> Some (rt_handler r (request\<lparr>rq_path_params := ps\<rparr>)))"

definition route :: "'r Router \<Rightarrow> HttpRequest \<Rightarrow> 'r option" where
  "route router request =
     (case exact_routes router (rq_method request, rq_path request) of
        Some r \<Rightarrow> Some (rt_handler r request)
      | None \<Rightarrow> route_loop (param_routes router ! method_key (rq_method request))
                  (split_path (rq_path request)) request)"

section \<open>Paths\<close>

lemma split_path_parts: "p \<in> set (split_path path) \<Longrightarrow> p \<noteq> [] \<and> CHR ''/'' \<notin> set p"
proof (induction path rule: split_path.induct)
  case (1 path)
  define t where "t = dropWhile (\<lambda>c. c = CHR ''/'') path"
  show ?case
  proof (cases "t = []")
    case True
    with 1(2) show ?thesis
      by (subst (asm) split_path.simps) (simp add: t_def)
  next
    case False
    have "hd t \<noteq> CHR ''/''"
      using False hd_dropWhile[of "\<lambda>c. c = CHR ''/''" path] by (simp add: t_def)
    with False have "takeWhile (\<lambda>c. c \<noteq> CHR ''/'') t \<noteq> []"
      by (cases t) auto
    moreover have "CHR ''/'' \<notin> set (takeWhile (\<lambda>c. c \<noteq> CHR ''/'') t)"
      using set_takeWhileD by fastforce
    moreover have "p = takeWhile (\<lambda>c. c \<noteq> CHR ''/'') t \<or>
        p \<in> set (split_path (drop 1 (dropWhile (\<lambda>c. c \<noteq> CHR ''/'') t)))"
      using 1(2) False by (subst (asm) split_path.simps) (auto simp: t_def Let_def split: if_splits)
    ultimately show ?thesis
      using 1(1)[OF t_def False] by auto
  qed
qed

definition path_of :: "string list \<Rightarrow> string" where
  "path_of parts = concat (map ((#) (CHR ''/'')) parts)"

lemma split_path_slash: "split_path (CHR ''/'' # s) = split_path s"
  by (subst (1 2) split_path.simps) simp

lemma split_path_part:
  assumes "p \<noteq> []" "CHR ''/'' \<notin> set p" "s = [] \<or> hd s = CHR ''/''"
  shows "split_path (p @ s) = p # split_path s"
proof -
  have dw: "dropWhile (\<lambda>c. c = CHR ''/'') (p @ s) = p @ s"
    using assms(1,2) by (cases p) auto
  have tw: "takeWhile (\<lambda>c. c \<noteq> CHR ''/'') (p @ s) = p"
    and dw2: "dropWhile (\<lambda>c. c \<noteq> CHR ''/'') (p @ s) = s"
    using assms(2,3) by (cases s; auto simp: takeWhile_append dropWhile_append)+
  have "split_path (p @ s) = p # split_path (drop 1 s)"
    using assms(1) by (subst split_path.simps) (simp add: dw tw dw2 Let_def)
  moreover have "split_path (drop 1 s) = split_path s"
    using assms(3) by (cases s) (auto simp: split_path_slash)
  ultimately show ?thesis by simp
qed

lemma split_path_path_of:
  "\<forall>p \<in> set parts. p \<noteq> [] \<and> CHR ''/'' \<notin> set p \<Longrightarrow> split_path (path_of parts) = parts"
proof (induction parts)
  case Nil
  show ?case by (subst split_path.simps) (simp add: path_of_def)
next
  case (Cons p parts)
  have "path_of parts = [] \<or> hd (path_of parts) = CHR ''/''"
    by (cases parts) (auto simp: path_of_def)
  with Cons show ?case
    by (simp add: path_of_def split_path_slash split_path_part)
qed

section \<open>Matching\<close>

definition pattern_matches :: "string list \<Rightarrow> string list \<Rightarrow> bool" where
  "pattern_matches pats parts \<longleftrightarrow> length pats = length parts \<and>
     (\<forall>i < length pats. is_param (pats ! i) \<or> pats ! i = parts ! i)"

definition bindings :: "string list \<Rightarrow> string list \<Rightarrow> (string \<times> string) list" where
  "bindings pats parts =
     map (\<lambda>(pat, part). (param_name pat, part)) (filter (\<lambda>(pat, part). is_param pat) (zip pats parts))"

lemma map_add_rev_Cons: "m ++ map_of (rev ((k, v) # bs)) = m(k \<mapsto> v) ++ map_of (rev bs)"
  by (auto simp: map_add_def fun_eq_iff split: option.splits)

lemma match_loop_spec:
  "length pats = length parts \<Longrightarrow>
     match_loop pats parts m =
       (if pattern_matches pats parts then Some (m ++ map_of (rev (bindings pats parts))) else None)"
proof (induction pats parts m rule: match_loop.induct)
  case (1 pat pats part parts m)
  have split: "pattern_matches (pat # pats) (part # parts) \<longleftrightarrow>
      (is_param pat \<or> pat = part) \<and> pattern_matches pats parts"
    by (auto simp: pattern_matches_def nth_Cons split: nat.splits)
  show ?case
  proof (cases "is_param pat")
    case True
    then have "bindings (pat # pats) (part # parts) = (param_name pat, part) # bindings pats parts"
      by (simp add: bindings_def)
    then show ?thesis
      using True 1 by (simp only: split map_add_rev_Cons match_loop.simps if_True simp_thms length_Cons nat.inject)
  next
    case False
    then have "bindings (pat # pats) (part # parts) = bindings pats parts"
      by (simp add: bindings_def)
    then show ?thesis
      using False 1 split by (cases "pat = part") simp_all
  qed
qed (auto simp: pattern_matches_def bindings_def)

section \<open>A table of routes\<close>

type_synonym 'r route_entry = "HttpMethod \<times> string \<times> (HttpRequest \<Rightarrow> 'r)"

text \<open>A sequence of calls of \<^verbatim>\<open>add_route\<close>; the first exception ends it.\<close>

fun add_routes :: "'r route_entry list \<Rightarrow> 'r Router \<Rightarrow> route_error + 'r Router" where
  "add_routes [] router = Inr router"
| "add_routes ((m, p, h) # es) router =
     (case add_route m p h router of Inl e \<Rightarrow> Inl e | Inr router' \<Rightarrow> add_routes es router')"

text \<open>The router as a specification: exact paths first, then the patterns in the order of registration.\<close>

definition exact_entry :: "HttpMethod \<Rightarrow> string \<Rightarrow> 'r route_entry \<Rightarrow> bool" where
  "exact_entry m p e \<longleftrightarrow> fst e = m \<and> fst (snd e) = p \<and> \<not> has_param (split_path (fst (snd e)))"

definition pattern_entry :: "HttpMethod \<Rightarrow> 'r route_entry \<Rightarrow> bool" where
  "pattern_entry m e \<longleftrightarrow> fst e = m \<and> has_param (split_path (fst (snd e)))"

definition entry_route :: "'r route_entry \<Rightarrow> 'r Route" where
  "entry_route e = \<lparr>rt_method = fst e, rt_path = fst (snd e), rt_parts = split_path (fst (snd e)),
                    rt_handler = snd (snd e)\<rparr>"

definition table_lookup :: "'r route_entry list \<Rightarrow> HttpRequest \<Rightarrow> 'r option" where
  "table_lookup es request =
     (case find (exact_entry (rq_method request) (rq_path request)) es of
        Some e \<Rightarrow> Some (snd (snd e) request)
      | None \<Rightarrow>
          (case find (\<lambda>e. pattern_entry (rq_method request) e \<and>
                       pattern_matches (split_path (fst (snd e))) (split_path (rq_path request))) es of
             None \<Rightarrow> None
           | Some e \<Rightarrow> Some (snd (snd e) (request\<lparr>rq_path_params :=
               map_of (rev (bindings (split_path (fst (snd e))) (split_path (rq_path request))))\<rparr>))))"

definition unambiguous :: "'r route_entry list \<Rightarrow> bool" where
  "unambiguous es \<longleftrightarrow>
     distinct (map (\<lambda>e. (fst e, fst (snd e))) (filter (\<lambda>e. \<not> has_param (split_path (fst (snd e)))) es))"

text \<open>What a router holds after the entries \<open>es\<close> were added to an empty one.\<close>

definition holds_table :: "'r route_entry list \<Rightarrow> 'r Router \<Rightarrow> bool" where
  "holds_table es r \<longleftrightarrow>
     (\<forall>m p. exact_routes r (m, p) = map_option entry_route (find (exact_entry m p) es)) \<and>
     length (param_routes r) = kMethodCount \<and>
     (\<forall>m. param_routes r ! method_key m = map entry_route (filter (pattern_entry m) es))"

lemma match_path_spec:
  "match_path pats parts =
     (if pattern_matches pats parts then Some (map_of (rev (bindings pats parts))) else None)"
  by (auto simp: match_path_def match_loop_spec pattern_matches_def)

lemma method_key_less: "method_key m < kMethodCount"
  by (cases m) (simp_all add: kMethodCount_def)

lemma method_key_inj: "method_key m = method_key n \<longleftrightarrow> m = n"
  by (cases m; cases n) simp_all

lemma find_append: "find P (xs @ ys) = (case find P xs of None \<Rightarrow> find P ys | Some x \<Rightarrow> Some x)"
  by (induction xs) auto

lemma holds_table_empty: "holds_table [] empty_router"
  by (simp add: holds_table_def empty_router_def method_key_less)

lemma holds_table_step:
  assumes "holds_table es r"
  shows "if \<not> has_param (split_path p) \<and> find (exact_entry m p) es \<noteq> None
         then add_route m p h r = Inl DuplicateRoute
         else \<exists>r'. add_route m p h r = Inr r' \<and> holds_table (es @ [(m, p, h)]) r'"
proof (cases "has_param (split_path p)")
  case True
  let ?r' = "r\<lparr>param_routes := (param_routes r)[method_key m :=
      (param_routes r ! method_key m) @ [entry_route (m, p, h)]]\<rparr>"
  have add: "add_route m p h r = Inr ?r'"
    using True by (simp add: add_route_def entry_route_def Let_def)
  have "holds_table (es @ [(m, p, h)]) ?r'"
    using assms True method_key_less[of m]
    by (auto simp: holds_table_def exact_entry_def pattern_entry_def find_append nth_list_update
        method_key_inj split: option.splits)
  with add True show ?thesis by simp
next
  case False
  show ?thesis
  proof (cases "find (exact_entry m p) es")
    case None
    let ?r' = "r\<lparr>exact_routes := (exact_routes r)((m, p) \<mapsto> entry_route (m, p, h))\<rparr>"
    have add: "add_route m p h r = Inr ?r'"
      using False None assms by (simp add: add_route_def entry_route_def Let_def holds_table_def)
    have "holds_table (es @ [(m, p, h)]) ?r'"
      using assms False None
      by (auto simp: holds_table_def exact_entry_def pattern_entry_def find_append split: option.splits)
    with add None show ?thesis by simp
  next
    case (Some e)
    with False assms show ?thesis
      by (simp add: add_route_def Let_def holds_table_def)
  qed
qed

lemma find_exact_None:
  "find (exact_entry m p) es = None \<longleftrightarrow>
     (m, p) \<notin> (\<lambda>e. (fst e, fst (snd e))) ` set (filter (\<lambda>e. \<not> has_param (split_path (fst (snd e)))) es)"
  by (auto simp: find_None_iff exact_entry_def image_iff)

lemma unambiguous_snoc:
  "unambiguous (es @ [(m, p, h)]) \<longleftrightarrow>
     unambiguous es \<and> (has_param (split_path p) \<or> find (exact_entry m p) es = None)"
  by (auto simp: unambiguous_def find_exact_None)

lemma unambiguous_append: "unambiguous (es @ fs) \<Longrightarrow> unambiguous es"
  by (simp add: unambiguous_def)

lemma add_routes_holds:
  assumes "holds_table es r" "unambiguous es"
  shows "if unambiguous (es @ fs) then \<exists>r'. add_routes fs r = Inr r' \<and> holds_table (es @ fs) r'
         else add_routes fs r = Inl DuplicateRoute"
  using assms
proof (induction fs arbitrary: es r)
  case Nil
  then show ?case by simp
next
  case (Cons f fs)
  obtain m p h where f: "f = (m, p, h)" by (cases f)
  show ?case
  proof (cases "unambiguous (es @ [f])")
    case True
    then have "\<not> (\<not> has_param (split_path p) \<and> find (exact_entry m p) es \<noteq> None)"
      by (auto simp: f unambiguous_snoc)
    then obtain r' where r': "add_route m p h r = Inr r'" "holds_table (es @ [f]) r'"
      using holds_table_step[OF Cons.prems(1), of p m h] f by auto
    from Cons.IH[OF r'(2) True] show ?thesis
      by (cases "unambiguous (es @ f # fs)") (simp_all add: f r'(1))
  next
    case False
    then have "\<not> unambiguous (es @ f # fs)"
      using unambiguous_append[of "es @ [f]" fs] by auto
    moreover have "\<not> has_param (split_path p) \<and> find (exact_entry m p) es \<noteq> None"
      using False Cons.prems(2) by (simp add: f unambiguous_snoc)
    ultimately show ?thesis
      using holds_table_step[OF Cons.prems(1), of p m h] by (simp add: f)
  qed
qed

lemma route_loop_find:
  "route_loop (map entry_route es) parts request =
     (case find (\<lambda>e. pattern_matches (split_path (fst (snd e))) parts) es of
        None \<Rightarrow> None
      | Some e \<Rightarrow> Some (snd (snd e) (request\<lparr>rq_path_params :=
          map_of (rev (bindings (split_path (fst (snd e))) parts))\<rparr>)))"
  by (induction es) (auto simp: match_path_spec entry_route_def)

lemma find_filter: "find P (filter Q xs) = find (\<lambda>x. Q x \<and> P x) xs"
  by (induction xs) auto

lemma holds_table_route: "holds_table es r \<Longrightarrow> route r request = table_lookup es request"
  by (auto simp: route_def table_lookup_def holds_table_def route_loop_find find_filter entry_route_def
      split: option.splits)

end
