(* ===== verification/Interfaces.thy ===== *)
theory Interfaces
  imports Models
begin

text \<open>
  The abstract classes of \<^verbatim>\<open>src/app/repository/\<close> and \<^verbatim>\<open>src/app/client/\<close>. A C++ interface is a record of
  its virtual functions over one shared state type \<open>'s\<close>; a \<^verbatim>\<open>const\<close> member function only reads the
  state, the others return the new state. The two overloads of \<^verbatim>\<open>reserve_stock\<close> and \<^verbatim>\<open>release_stock\<close>
  are told apart by the suffix \<open>_items\<close>.

  The locales state what a provider promises to the code above it.
\<close>

section \<open>Virtual function tables\<close>

record 's UserRepository =
  ur_create_user :: "string \<Rightarrow> string \<Rightarrow> 's \<Rightarrow> User option \<times> 's"
  ur_authenticate :: "string \<Rightarrow> string \<Rightarrow> 's \<Rightarrow> User option"

record 's BookRepository =
  br_list_books :: "'s \<Rightarrow> Book list"
  br_find_book :: "int \<Rightarrow> 's \<Rightarrow> Book option"
  br_create_book :: "Book \<Rightarrow> 's \<Rightarrow> Book option \<times> 's"
  br_update_book :: "int \<Rightarrow> BookUpdate \<Rightarrow> 's \<Rightarrow> Book option \<times> 's"

record 's InventoryRepository =
  ir_available_stock :: "int \<Rightarrow> 's \<Rightarrow> int option"
  ir_add_stock :: "int \<Rightarrow> int \<Rightarrow> 's \<Rightarrow> int option \<times> 's"
  ir_reserve_stock :: "int \<Rightarrow> int \<Rightarrow> 's \<Rightarrow> bool \<times> 's"
  ir_release_stock :: "int \<Rightarrow> int \<Rightarrow> 's \<Rightarrow> 's"
  ir_reserve_stock_items :: "string \<Rightarrow> InventoryMutation list \<Rightarrow> 's \<Rightarrow> bool \<times> 's"
  ir_release_stock_items :: "string \<Rightarrow> InventoryMutation list \<Rightarrow> 's \<Rightarrow> 's"

record 's OrderRepository =
  or_create_order :: "int \<Rightarrow> OrderItem list \<Rightarrow> int \<Rightarrow> 's \<Rightarrow> Order option \<times> 's"
  or_list_orders :: "'s \<Rightarrow> Order list"
  or_find_order :: "int \<Rightarrow> 's \<Rightarrow> Order option"
  or_cancel_order :: "int \<Rightarrow> 's \<Rightarrow> Order option \<times> 's"

record 's UserClient =
  uc_register_user :: "string \<Rightarrow> string \<Rightarrow> 's \<Rightarrow> User option \<times> 's"
  uc_authenticate :: "string \<Rightarrow> string \<Rightarrow> 's \<Rightarrow> User option"

record 's BookClient =
  bc_list_books :: "'s \<Rightarrow> Book list"
  bc_find_book :: "int \<Rightarrow> 's \<Rightarrow> Book option"
  bc_create_book :: "Book \<Rightarrow> 's \<Rightarrow> Book option \<times> 's"
  bc_update_book :: "int \<Rightarrow> BookUpdate \<Rightarrow> 's \<Rightarrow> Book option \<times> 's"

record 's InventoryClient =
  ic_available_stock :: "int \<Rightarrow> 's \<Rightarrow> int option"
  ic_add_stock :: "int \<Rightarrow> int \<Rightarrow> 's \<Rightarrow> int option \<times> 's"
  ic_reserve_stock :: "int \<Rightarrow> int \<Rightarrow> 's \<Rightarrow> bool \<times> 's"
  ic_release_stock :: "int \<Rightarrow> int \<Rightarrow> 's \<Rightarrow> 's"
  ic_reserve_stock_items :: "string \<Rightarrow> InventoryMutation list \<Rightarrow> 's \<Rightarrow> bool \<times> 's"
  ic_release_stock_items :: "string \<Rightarrow> InventoryMutation list \<Rightarrow> 's \<Rightarrow> 's"

record 's OrderClient =
  oc_create_order :: "int \<Rightarrow> OrderItemRequest list \<Rightarrow> 's \<Rightarrow> Order option \<times> 's"
  oc_list_orders :: "'s \<Rightarrow> Order list"
  oc_find_order :: "int \<Rightarrow> 's \<Rightarrow> Order option"
  oc_cancel_order :: "int \<Rightarrow> 's \<Rightarrow> Order option \<times> 's"

section \<open>Reservations, abstractly\<close>

text \<open>
  What a batch reservation asks of each book, whether a stock level can serve it, and the stock after
  it. Several lines of a batch may name the same book.
\<close>

definition demand :: "InventoryMutation list \<Rightarrow> int \<Rightarrow> int" where
  "demand items b = (\<Sum>i \<leftarrow> items. if im_book_id i = b then im_quantity i else 0)"

definition servable :: "(int \<rightharpoonup> int) \<Rightarrow> InventoryMutation list \<Rightarrow> bool" where
  "servable stock items \<longleftrightarrow>
     (\<forall>i \<in> set items. im_quantity i > 0 \<and>
        (case stock (im_book_id i) of None \<Rightarrow> False | Some v \<Rightarrow> demand items (im_book_id i) \<le> v))"

definition deduct :: "(int \<rightharpoonup> int) \<Rightarrow> InventoryMutation list \<Rightarrow> (int \<rightharpoonup> int)" where
  "deduct stock items = (\<lambda>b. map_option (\<lambda>v. v - demand items b) (stock b))"

definition restock :: "(int \<rightharpoonup> int) \<Rightarrow> InventoryMutation list \<Rightarrow> (int \<rightharpoonup> int)" where
  "restock stock items = (\<lambda>b. map_option (\<lambda>v. v + demand items b) (stock b))"

text \<open>A stock level with a missing entry read as zero.\<close>

definition level :: "(int \<rightharpoonup> int) \<Rightarrow> int \<Rightarrow> int" where
  "level stock b = (case stock b of None \<Rightarrow> 0 | Some v \<Rightarrow> v)"

lemma demand_Nil [simp]: "demand [] b = 0"
  by (simp add: demand_def)

lemma demand_Cons: "demand (i # is) b = (if im_book_id i = b then im_quantity i else 0) + demand is b"
  by (simp add: demand_def)

lemma demand_append: "demand (xs @ ys) b = demand xs b + demand ys b"
  by (simp add: demand_def)

lemma demand_nonneg: "\<forall>i \<in> set items. im_quantity i > 0 \<Longrightarrow> 0 \<le> demand items b"
  by (induction items) (auto simp: demand_Cons)

lemma demand_pos: "i \<in> set items \<Longrightarrow> \<forall>i \<in> set items. im_quantity i > 0 \<Longrightarrow>
    im_quantity i \<le> demand items (im_book_id i)"
proof (induction items)
  case Nil
  then show ?case by simp
next
  case (Cons j items)
  then show ?case
    using demand_nonneg[of items "im_book_id i"] by (auto simp: demand_Cons)
qed

lemma demand_other: "b \<notin> im_book_id ` set items \<Longrightarrow> demand items b = 0"
  by (induction items) (auto simp: demand_Cons)

lemma restock_deduct [simp]: "restock (deduct stock items) items = stock"
  by (auto simp: restock_def deduct_def fun_eq_iff option.map_comp o_def option.map_ident)

lemma deduct_Nil [simp]: "deduct stock [] = stock"
  by (auto simp: deduct_def fun_eq_iff option.map_ident)

lemma restock_Nil [simp]: "restock stock [] = stock"
  by (auto simp: restock_def fun_eq_iff option.map_ident)

lemma deduct_Cons:
  "deduct stock (i # is) = deduct (deduct stock [i]) is"
  by (auto simp: deduct_def fun_eq_iff demand_Cons option.map_comp o_def algebra_simps)

lemma deduct_append: "deduct stock (xs @ ys) = deduct (deduct stock xs) ys"
  by (auto simp: deduct_def fun_eq_iff demand_append option.map_comp o_def algebra_simps)

lemma restock_append: "restock stock (xs @ ys) = restock (restock stock xs) ys"
  by (auto simp: restock_def fun_eq_iff demand_append option.map_comp o_def algebra_simps)

lemma servable_Cons:
  "servable stock (i # is) \<longleftrightarrow> servable stock [i] \<and> servable (deduct stock [i]) is"
  (is "?l \<longleftrightarrow> ?r")
proof
  assume l: ?l
  then have pos: "\<forall>j \<in> set (i # is). im_quantity j > 0"
    by (auto simp: servable_def)
  then have nn: "0 \<le> demand is b" for b
    by (auto intro: demand_nonneg)
  from l have i: "servable stock [i]"
    using nn[of "im_book_id i"] by (auto simp: servable_def demand_Cons split: option.splits)
  have "servable (deduct stock [i]) is"
    unfolding servable_def
  proof
    fix j
    assume "j \<in> set is"
    with l show "im_quantity j > 0 \<and> (case deduct stock [i] (im_book_id j) of None \<Rightarrow> False
        | Some v \<Rightarrow> demand is (im_book_id j) \<le> v)"
      by (auto simp: servable_def deduct_def demand_Cons split: option.splits)
  qed
  with i show ?r by simp
next
  assume r: ?r
  have "demand (i # is) (im_book_id j) \<le> v" if "j \<in> set is" "stock (im_book_id j) = Some v" for j v
    using r that by (auto simp: servable_def deduct_def demand_Cons split: option.splits dest!: bspec)
  moreover have "demand (i # is) (im_book_id i) \<le> v" if v: "stock (im_book_id i) = Some v" for v
  proof (cases "im_book_id i \<in> im_book_id ` set is")
    case True
    then obtain j where "j \<in> set is" "im_book_id j = im_book_id i" by force
    with calculation v show ?thesis by metis
  next
    case False
    with r v show ?thesis
      by (auto simp: servable_def demand_Cons demand_other)
  qed
  ultimately show ?l
    using r by (fastforce simp: servable_def deduct_def split: option.splits)
qed

lemma servable_Nil [simp]: "servable stock []"
  by (simp add: servable_def)

lemma servable_single:
  "servable stock [i] \<longleftrightarrow>
     im_quantity i > 0 \<and> (\<exists>v. stock (im_book_id i) = Some v \<and> im_quantity i \<le> v)"
  by (auto simp: servable_def demand_Cons split: option.splits)

lemma deduct_single:
  "stock (im_book_id i) = Some v \<Longrightarrow> deduct stock [i] = stock(im_book_id i \<mapsto> v - im_quantity i)"
  by (auto simp: deduct_def demand_Cons fun_eq_iff option.map_ident)

lemma restock_single:
  "stock (im_book_id i) = Some v \<Longrightarrow> restock stock [i] = stock(im_book_id i \<mapsto> v + im_quantity i)"
  by (auto simp: restock_def demand_Cons fun_eq_iff option.map_ident)

lemma dom_deduct [simp]: "dom (deduct stock items) = dom stock"
  by (auto simp: deduct_def)

end
