(* ===== verification/Memory_Repositories.thy ===== *)
theory Memory_Repositories
  imports Interfaces
begin

text \<open>
  \<^verbatim>\<open>src/app/repository/memory/memory_repositories.h\<close>. Each class is a record of its fields; every member
  function holds the object's mutex for its whole body, so it is one state transition. Hash maps are
  maps, vectors are lists. \<^verbatim>\<open>stock_[k] += q\<close> reads a missing entry as zero.
\<close>

section \<open>MemoryUserRepository\<close>

record MemoryUserRepository =
  mu_next_user_id :: int
  mu_users_by_name :: "string \<rightharpoonup> User"
  mu_passwords :: "string \<rightharpoonup> string"

definition MemoryUserRepository_init :: MemoryUserRepository where
  "MemoryUserRepository_init =
     \<lparr>mu_next_user_id = 1, mu_users_by_name = Map.empty, mu_passwords = Map.empty\<rparr>"

definition MemoryUserRepository_create_user ::
  "string \<Rightarrow> string \<Rightarrow> MemoryUserRepository \<Rightarrow> User option \<times> MemoryUserRepository" where
  "MemoryUserRepository_create_user username password s =
     (if username = [] \<or> password = [] then (None, s)
      else case mu_passwords s username of
        Some _ \<Rightarrow> (None, s)
      | None \<Rightarrow>
          (let user = \<lparr>usr_id = mu_next_user_id s, usr_username = username\<rparr> in
           (Some user,
            s\<lparr>mu_next_user_id := wrap32 (mu_next_user_id s + 1),
              mu_users_by_name := (mu_users_by_name s)(username \<mapsto> user),
              mu_passwords := (mu_passwords s)(username \<mapsto> password)\<rparr>)))"

definition MemoryUserRepository_authenticate ::
  "string \<Rightarrow> string \<Rightarrow> MemoryUserRepository \<Rightarrow> User option" where
  "MemoryUserRepository_authenticate username password s =
     (case mu_passwords s username of
        None \<Rightarrow> None
      | Some pass \<Rightarrow> if pass \<noteq> password then None else mu_users_by_name s username)"

section \<open>MemoryBookRepository\<close>

record MemoryBookRepository =
  mb_books :: "Book list"

fun find_book_loop :: "Book list \<Rightarrow> int \<Rightarrow> Book option" where
  "find_book_loop [] book_id = None"
| "find_book_loop (b # bs) book_id = (if bk_id b = book_id then Some b else find_book_loop bs book_id)"

fun next_book_id_loop :: "Book list \<Rightarrow> int \<Rightarrow> int" where
  "next_book_id_loop [] next = next"
| "next_book_id_loop (b # bs) next =
     next_book_id_loop bs (if bk_id b \<ge> next then wrap32 (bk_id b + 1) else next)"

definition apply_update :: "BookUpdate \<Rightarrow> Book \<Rightarrow> Book" where
  "apply_update u b =
     b\<lparr>bk_title := (case bu_title u of None \<Rightarrow> bk_title b | Some t \<Rightarrow> t),
       bk_author := (case bu_author u of None \<Rightarrow> bk_author b | Some a \<Rightarrow> a),
       bk_price_cents := (case bu_price_cents u of None \<Rightarrow> bk_price_cents b | Some p \<Rightarrow> p),
       bk_stock := (case bu_stock u of None \<Rightarrow> bk_stock b | Some k \<Rightarrow> k),
       bk_status := (case bu_status u of None \<Rightarrow> bk_status b | Some t \<Rightarrow> t)\<rparr>"

fun update_book_loop :: "Book list \<Rightarrow> int \<Rightarrow> BookUpdate \<Rightarrow> Book option \<times> Book list" where
  "update_book_loop [] book_id u = (None, [])"
| "update_book_loop (b # bs) book_id u =
     (if bk_id b \<noteq> book_id
      then (case update_book_loop bs book_id u of (r, bs') \<Rightarrow> (r, b # bs'))
      else (Some (apply_update u b), apply_update u b # bs))"

definition MemoryBookRepository_list_books :: "MemoryBookRepository \<Rightarrow> Book list" where
  "MemoryBookRepository_list_books s = mb_books s"

definition MemoryBookRepository_find_book :: "int \<Rightarrow> MemoryBookRepository \<Rightarrow> Book option" where
  "MemoryBookRepository_find_book book_id s = find_book_loop (mb_books s) book_id"

definition MemoryBookRepository_create_book ::
  "Book \<Rightarrow> MemoryBookRepository \<Rightarrow> Book option \<times> MemoryBookRepository" where
  "MemoryBookRepository_create_book book s =
     (if bk_title book = [] \<or> bk_author book = [] \<or> bk_price_cents book \<le> 0 \<or> bk_stock book < 0
      then (None, s)
      else (let created = book\<lparr>bk_id := next_book_id_loop (mb_books s) 1,
                               bk_status := (if bk_status book = [] then ''active'' else bk_status book)\<rparr>
            in (Some created, s\<lparr>mb_books := mb_books s @ [created]\<rparr>)))"

definition MemoryBookRepository_update_book ::
  "int \<Rightarrow> BookUpdate \<Rightarrow> MemoryBookRepository \<Rightarrow> Book option \<times> MemoryBookRepository" where
  "MemoryBookRepository_update_book book_id update s =
     (if book_id \<le> 0 then (None, s)
      else (case update_book_loop (mb_books s) book_id update of
              (r, bs) \<Rightarrow> (r, s\<lparr>mb_books := bs\<rparr>)))"

section \<open>MemoryInventoryRepository\<close>

record MemoryInventoryRepository =
  mi_stock :: "int \<rightharpoonup> int"

definition MemoryInventoryRepository_init :: "InventoryItem list \<Rightarrow> MemoryInventoryRepository" where
  "MemoryInventoryRepository_init items =
     \<lparr>mi_stock = foldl (\<lambda>m i. m(ii_book_id i \<mapsto> ii_available i)) Map.empty items\<rparr>"

text \<open>\<^verbatim>\<open>stock_[book_id] += delta\<close>\<close>

definition bump_stock :: "int \<Rightarrow> int \<Rightarrow> MemoryInventoryRepository \<Rightarrow> MemoryInventoryRepository" where
  "bump_stock book_id delta s =
     s\<lparr>mi_stock := (mi_stock s)(book_id \<mapsto>
         wrap32 ((case mi_stock s book_id of None \<Rightarrow> 0 | Some v \<Rightarrow> v) + delta))\<rparr>"

definition MemoryInventoryRepository_available_stock ::
  "int \<Rightarrow> MemoryInventoryRepository \<Rightarrow> int option" where
  "MemoryInventoryRepository_available_stock book_id s = mi_stock s book_id"

definition MemoryInventoryRepository_add_stock ::
  "int \<Rightarrow> int \<Rightarrow> MemoryInventoryRepository \<Rightarrow> int option \<times> MemoryInventoryRepository" where
  "MemoryInventoryRepository_add_stock book_id quantity s =
     (if book_id \<le> 0 \<or> quantity \<le> 0 then (None, s)
      else (let s' = bump_stock book_id quantity s in (mi_stock s' book_id, s')))"

definition MemoryInventoryRepository_reserve_stock ::
  "int \<Rightarrow> int \<Rightarrow> MemoryInventoryRepository \<Rightarrow> bool \<times> MemoryInventoryRepository" where
  "MemoryInventoryRepository_reserve_stock book_id quantity s =
     (if quantity \<le> 0 then (False, s)
      else case mi_stock s book_id of
        None \<Rightarrow> (False, s)
      | Some v \<Rightarrow> if v < quantity then (False, s) else (True, bump_stock book_id (- quantity) s))"

definition MemoryInventoryRepository_release_stock ::
  "int \<Rightarrow> int \<Rightarrow> MemoryInventoryRepository \<Rightarrow> MemoryInventoryRepository" where
  "MemoryInventoryRepository_release_stock book_id quantity s =
     (if quantity \<le> 0 then s else bump_stock book_id quantity s)"

definition item_reservable :: "(int \<rightharpoonup> int) \<Rightarrow> InventoryMutation \<Rightarrow> bool" where
  "item_reservable stock i \<longleftrightarrow>
     \<not> (im_quantity i \<le> 0 \<or> stock (im_book_id i) = None \<or> the (stock (im_book_id i)) < im_quantity i)"

definition MemoryInventoryRepository_reserve_stock_items ::
  "string \<Rightarrow> InventoryMutation list \<Rightarrow> MemoryInventoryRepository \<Rightarrow> bool \<times> MemoryInventoryRepository" where
  "MemoryInventoryRepository_reserve_stock_items reservation_id items s =
     (if items = [] then (False, s)
      else if \<not> list_all (item_reservable (mi_stock s)) items then (False, s)
      else (True, foldl (\<lambda>st i. bump_stock (im_book_id i) (- im_quantity i) st) s items))"

definition MemoryInventoryRepository_release_stock_items ::
  "string \<Rightarrow> InventoryMutation list \<Rightarrow> MemoryInventoryRepository \<Rightarrow> MemoryInventoryRepository" where
  "MemoryInventoryRepository_release_stock_items reservation_id items s =
     foldl (\<lambda>st i. if im_quantity i > 0 then bump_stock (im_book_id i) (im_quantity i) st else st) s items"

section \<open>MemoryOrderRepository\<close>

record MemoryOrderRepository =
  mo_next_order_id :: int
  mo_orders :: "Order list"

definition MemoryOrderRepository_init :: MemoryOrderRepository where
  "MemoryOrderRepository_init = \<lparr>mo_next_order_id = 1, mo_orders = []\<rparr>"

fun find_order_loop :: "Order list \<Rightarrow> int \<Rightarrow> Order option" where
  "find_order_loop [] order_id = None"
| "find_order_loop (r # rs) order_id = (if ord_id r = order_id then Some r else find_order_loop rs order_id)"

fun cancel_order_loop :: "Order list \<Rightarrow> int \<Rightarrow> Order option \<times> Order list" where
  "cancel_order_loop [] order_id = (None, [])"
| "cancel_order_loop (r # rs) order_id =
     (if ord_id r \<noteq> order_id
      then (case cancel_order_loop rs order_id of (x, rs') \<Rightarrow> (x, r # rs'))
      else (let r' = (if ord_status r \<noteq> ''cancelled'' then r\<lparr>ord_status := ''cancelled''\<rparr> else r)
            in (Some r', r' # rs)))"

definition MemoryOrderRepository_create_order ::
  "int \<Rightarrow> OrderItem list \<Rightarrow> int \<Rightarrow> MemoryOrderRepository \<Rightarrow> Order option \<times> MemoryOrderRepository" where
  "MemoryOrderRepository_create_order user_id items total_cents s =
     (if user_id \<le> 0 \<or> items = [] then (None, s)
      else (let order = \<lparr>ord_id = mo_next_order_id s, ord_user_id = user_id, ord_items = items,
                         ord_total_cents = total_cents, ord_status = ''created''\<rparr>
            in (Some order, s\<lparr>mo_next_order_id := wrap32 (mo_next_order_id s + 1),
                              mo_orders := mo_orders s @ [order]\<rparr>)))"

definition MemoryOrderRepository_list_orders :: "MemoryOrderRepository \<Rightarrow> Order list" where
  "MemoryOrderRepository_list_orders s = mo_orders s"

definition MemoryOrderRepository_find_order :: "int \<Rightarrow> MemoryOrderRepository \<Rightarrow> Order option" where
  "MemoryOrderRepository_find_order order_id s = find_order_loop (mo_orders s) order_id"

definition MemoryOrderRepository_cancel_order ::
  "int \<Rightarrow> MemoryOrderRepository \<Rightarrow> Order option \<times> MemoryOrderRepository" where
  "MemoryOrderRepository_cancel_order order_id s =
     (case cancel_order_loop (mo_orders s) order_id of (r, rs) \<Rightarrow> (r, s\<lparr>mo_orders := rs\<rparr>))"

lemmas memory_defs =
  MemoryUserRepository_create_user_def MemoryUserRepository_authenticate_def
  MemoryBookRepository_list_books_def MemoryBookRepository_find_book_def
  MemoryBookRepository_create_book_def MemoryBookRepository_update_book_def
  MemoryInventoryRepository_available_stock_def MemoryInventoryRepository_add_stock_def
  MemoryInventoryRepository_reserve_stock_def MemoryInventoryRepository_release_stock_def
  MemoryOrderRepository_create_order_def MemoryOrderRepository_list_orders_def
  MemoryOrderRepository_find_order_def MemoryOrderRepository_cancel_order_def

section \<open>Lemmas: books\<close>

lemma find_book_loop_append:
  "find_book_loop (bs @ cs) i = (case find_book_loop bs i of None \<Rightarrow> find_book_loop cs i | Some b \<Rightarrow> Some b)"
  by (induction bs) auto

lemma find_book_loop_None: "find_book_loop bs i = None \<longleftrightarrow> i \<notin> bk_id ` set bs"
  by (induction bs) auto

lemma find_book_loop_SomeD: "find_book_loop bs i = Some b \<Longrightarrow> b \<in> set bs \<and> bk_id b = i"
  by (induction bs) (auto split: if_splits)

lemma apply_update_id [simp]: "bk_id (apply_update u b) = bk_id b"
  by (simp add: apply_update_def)

lemma update_book_loop_find:
  assumes "update_book_loop bs i u = (r, bs')"
  shows "r = map_option (apply_update u) (find_book_loop bs i)"
    and "find_book_loop bs' j = (if j = i then r else find_book_loop bs j)"
proof -
  have "r = map_option (apply_update u) (find_book_loop bs i) \<and>
        find_book_loop bs' j = (if j = i then r else find_book_loop bs j)"
    using assms
  proof (induction bs arbitrary: r bs')
    case Nil
    then show ?case by simp
  next
    case (Cons b bs)
    obtain r1 bs1 where rec: "update_book_loop bs i u = (r1, bs1)" by fastforce
    from Cons.IH[OF rec] Cons.prems rec show ?case
      by (auto split: if_splits)
  qed
  then show "r = map_option (apply_update u) (find_book_loop bs i)"
    and "find_book_loop bs' j = (if j = i then r else find_book_loop bs j)"
    by auto
qed

text \<open>There is a next identifier as long as no book holds the largest one.\<close>

definition book_room :: "Book list \<Rightarrow> bool" where
  "book_room bs \<longleftrightarrow> (\<forall>b \<in> set bs. bk_id b < 2 ^ 31 - 1)"

lemma next_book_id_loop_bound:
  "1 \<le> n \<Longrightarrow> n < 2 ^ 31 \<Longrightarrow> book_room bs \<Longrightarrow>
     n \<le> next_book_id_loop bs n \<and> next_book_id_loop bs n < 2 ^ 31 \<and>
     (\<forall>b \<in> set bs. bk_id b < next_book_id_loop bs n)"
proof (induction bs arbitrary: n)
  case Nil
  then show ?case by simp
next
  case (Cons b bs)
  have w: "wrap32 (bk_id b + 1) = bk_id b + 1" if "bk_id b \<ge> n"
    using that Cons.prems by (intro wrap32_id) (auto simp: int32_def book_room_def)
  have room: "book_room bs" "bk_id b < 2 ^ 31 - 1"
    using Cons.prems by (auto simp: book_room_def)
  show ?case
  proof (cases "bk_id b \<ge> n")
    case True
    with Cons.IH[of "bk_id b + 1"] Cons.prems(1) room w show ?thesis by force
  next
    case False
    with Cons.IH[of n] Cons.prems room show ?thesis by force
  qed
qed

lemma next_book_id_fresh:
  assumes "book_room bs"
  shows "find_book_loop bs (next_book_id_loop bs 1) = None"
  using next_book_id_loop_bound[of 1 bs] assms by (fastforce simp: find_book_loop_None)

section \<open>Lemmas: stock\<close>

definition stock_ok :: "MemoryInventoryRepository \<Rightarrow> bool" where
  "stock_ok s \<longleftrightarrow> (\<forall>b v. mi_stock s b = Some v \<longrightarrow> int32 v)"

lemma bump_stock_at:
  "mi_stock s b = Some v \<Longrightarrow> int32 (v + d) \<Longrightarrow> mi_stock (bump_stock b d s) = (mi_stock s)(b \<mapsto> v + d)"
  by (simp add: bump_stock_def wrap_simps)

lemma bump_stock_ok [simp]: "stock_ok s \<Longrightarrow> stock_ok (bump_stock b d s)"
  by (auto simp: stock_ok_def bump_stock_def)

lemma reserve_stock_servable:
  assumes "stock_ok s"
  shows "MemoryInventoryRepository_reserve_stock (im_book_id i) (im_quantity i) s =
     (if servable (mi_stock s) [i] then (True, s\<lparr>mi_stock := deduct (mi_stock s) [i]\<rparr>) else (False, s))"
proof (cases "servable (mi_stock s) [i]")
  case True
  then obtain v where v: "mi_stock s (im_book_id i) = Some v" "0 < im_quantity i" "im_quantity i \<le> v"
    by (auto simp: servable_single)
  moreover have "int32 v"
    using assms v by (simp add: stock_ok_def)
  ultimately have "int32 (v + - im_quantity i)"
    by (simp add: int32_def)
  with v True show ?thesis
    by (simp add: MemoryInventoryRepository_reserve_stock_def bump_stock_def wrap_simps deduct_single)
next
  case False
  then show ?thesis
    by (auto simp: MemoryInventoryRepository_reserve_stock_def servable_single split: option.splits)
qed

lemma release_stock_restock:
  assumes "mi_stock s (im_book_id i) = Some v" "0 < im_quantity i" "int32 (v + im_quantity i)"
  shows "MemoryInventoryRepository_release_stock (im_book_id i) (im_quantity i) s =
           s\<lparr>mi_stock := restock (mi_stock s) [i]\<rparr>"
  using assms by (simp add: MemoryInventoryRepository_release_stock_def bump_stock_def wrap_simps restock_single)

section \<open>Lemmas: orders\<close>

lemma find_order_loop_append:
  "find_order_loop (rs @ qs) i = (case find_order_loop rs i of None \<Rightarrow> find_order_loop qs i | Some r \<Rightarrow> Some r)"
  by (induction rs) auto

lemma find_order_loop_None: "find_order_loop rs i = None \<longleftrightarrow> i \<notin> ord_id ` set rs"
  by (induction rs) auto

lemma find_order_loop_SomeD: "find_order_loop rs i = Some r \<Longrightarrow> r \<in> set rs \<and> ord_id r = i"
  by (induction rs) (auto split: if_splits)

definition cancel_in :: "int \<Rightarrow> Order \<Rightarrow> Order" where
  "cancel_in i r = (if ord_id r = i then r\<lparr>ord_status := ''cancelled''\<rparr> else r)"

lemma cancel_in_id [simp]: "ord_id (cancel_in i r) = ord_id r"
  by (simp add: cancel_in_def)

lemma map_cancel_other: "i \<notin> ord_id ` set rs \<Longrightarrow> map (cancel_in i) rs = rs"
  by (induction rs) (auto simp: cancel_in_def)

lemma cancel_order_loop_map:
  "distinct (map ord_id rs) \<Longrightarrow>
     cancel_order_loop rs i = (map_option (cancel_in i) (find_order_loop rs i), map (cancel_in i) rs)"
proof (induction rs)
  case Nil
  show ?case by simp
next
  case (Cons r rs)
  then show ?case
    by (cases "ord_id r = i") (auto simp: cancel_in_def[of i r] map_cancel_other Let_def)
qed

end
