(* ===== verification/Sha256.thy ===== *)
theory Sha256
  imports Prelude
begin

text \<open>
  \<^verbatim>\<open>src/app/util/sha256.h\<close>: SHA-256 over byte strings, on \<open>32 word\<close> registers, and its hexadecimal
  rendering, which is what the user services store and compare.
\<close>

unbundle bit_operations_syntax

type_synonym u8 = "8 word"
type_synonym u32 = "32 word"
type_synonym u64 = "64 word"

section \<open>Definitions\<close>

definition rotr :: "u32 \<Rightarrow> nat \<Rightarrow> u32" where
  "rotr x n = drop_bit n x OR push_bit (32 - n) x"

definition byte_word :: "char \<Rightarrow> u32" where
  "byte_word c = word_of_nat (byte c)"

definition load_be32 :: "string \<Rightarrow> nat \<Rightarrow> u32" where
  "load_be32 p off =
     push_bit 24 (byte_word (p ! off)) OR
     push_bit 16 (byte_word (p ! (off + 1))) OR
     push_bit 8 (byte_word (p ! (off + 2))) OR
     byte_word (p ! (off + 3))"

definition char_of_word :: "u64 \<Rightarrow> char" where
  "char_of_word v = char_of (unat (ucast v :: u8))"

definition store_be64 :: "u64 \<Rightarrow> string" where
  "store_be64 v = map char_of_word
     [drop_bit 56 v, drop_bit 48 v, drop_bit 40 v, drop_bit 32 v,
      drop_bit 24 v, drop_bit 16 v, drop_bit 8 v, v]"

text \<open>The table of round constants, its 64 entries row by row as in the source, written in decimal.\<close>

definition sha256_K :: "u32 list" where
  "sha256_K =
    [1116352408, 1899447441, 3049323471, 3921009573,
     961987163, 1508970993, 2453635748, 2870763221,
     3624381080, 310598401, 607225278, 1426881987,
     1925078388, 2162078206, 2614888103, 3248222580,
     3835390401, 4022224774, 264347078, 604807628,
     770255983, 1249150122, 1555081692, 1996064986,
     2554220882, 2821834349, 2952996808, 3210313671,
     3336571891, 3584528711, 113926993, 338241895,
     666307205, 773529912, 1294757372, 1396182291,
     1695183700, 1986661051, 2177026350, 2456956037,
     2730485921, 2820302411, 3259730800, 3345764771,
     3516065817, 3600352804, 4094571909, 275423344,
     430227734, 506948616, 659060556, 883997877,
     958139571, 1322822218, 1537002063, 1747873779,
     1955562222, 2024104815, 2227730452, 2361852424,
     2428436474, 2756734187, 3204031479, 3329325298]"

definition sha256_h0 :: "u32 list" where
  "sha256_h0 =
    [0x6a09e667, 0xbb67ae85, 0x3c6ef372, 0xa54ff53a,
     0x510e527f, 0x9b05688c, 0x1f83d9ab, 0x5be0cd19]"

text \<open>The zero-padding loop; the distance to the next length that is 56 modulo 64 shrinks.\<close>

lemma pad_measure_all:
  "list_all (\<lambda>k. k = 56 \<or> (120 - (if k = 63 then 0 else Suc k)) mod 64 < (120 - k) mod 64) [0..<64]"
  by code_simp

lemma pad_measure:
  "k < 64 \<Longrightarrow> k \<noteq> 56 \<Longrightarrow> (120 - (if k = 63 then 0 else Suc k)) mod 64 < (120 - k) mod 64"
  using pad_measure_all[unfolded list_all_iff, THEN bspec, of k] by simp

function pad_zeros :: "string \<Rightarrow> string" where
  "pad_zeros msg = (if length msg mod 64 \<noteq> 56 then pad_zeros (msg @ [NUL]) else msg)"
  by pat_completeness auto
termination
proof (relation "measure (\<lambda>msg. (120 - length msg mod 64) mod 64)", goal_cases)
  case 1
  show ?case by simp
next
  case (2 msg)
  have "Suc (length msg) mod 64 = (if length msg mod 64 = 63 then 0 else Suc (length msg mod 64))"
    by (simp add: mod_Suc)
  with 2 pad_measure[of "length msg mod 64"] show ?case by simp
qed

declare pad_zeros.simps [simp del]

definition sha256_pad :: "string \<Rightarrow> string" where
  "sha256_pad text =
     (let bit_len = (word_of_nat (length text) :: u64) * 8 in
      pad_zeros (text @ [CHR 0x80]) @ store_be64 bit_len)"

definition schedule_step :: "u32 list \<Rightarrow> nat \<Rightarrow> u32 list" where
  "schedule_step w i =
     (let a = w ! (i - 15); s0 = rotr a 7 XOR rotr a 18 XOR drop_bit 3 a;
          b = w ! (i - 2); s1 = rotr b 17 XOR rotr b 19 XOR drop_bit 10 b
      in w @ [w ! (i - 16) + s0 + w ! (i - 7) + s1])"

definition schedule :: "string \<Rightarrow> u32 list" where
  "schedule block = foldl schedule_step (map (\<lambda>i. load_be32 block (i * 4)) [0..<16]) [16..<64]"

definition sha256_round :: "u32 list \<Rightarrow> u32 list \<Rightarrow> nat \<Rightarrow> u32 list" where
  "sha256_round w r i =
     (case r of
        [a, b, c, d, e, f, g, hh] \<Rightarrow>
          (let S1 = rotr e 6 XOR rotr e 11 XOR rotr e 25;
               ch = (e AND f) XOR (NOT e AND g);
               t1 = hh + S1 + ch + sha256_K ! i + w ! i;
               S0 = rotr a 2 XOR rotr a 13 XOR rotr a 22;
               maj = (a AND b) XOR (a AND c) XOR (b AND c);
               t2 = S0 + maj
           in [t1 + t2, a, b, c, d + t1, e, f, g])
      | _ \<Rightarrow> r)"

definition sha256_block :: "u32 list \<Rightarrow> string \<Rightarrow> u32 list" where
  "sha256_block h block =
     (let w = schedule block in map2 (+) h (foldl (sha256_round w) h [0..<64]))"

function sha256_blocks :: "u32 list \<Rightarrow> string \<Rightarrow> u32 list" where
  "sha256_blocks h msg =
     (if msg = [] then h else sha256_blocks (sha256_block h (take 64 msg)) (drop 64 msg))"
  by pat_completeness auto
termination
  by (relation "measure (\<lambda>(h, msg). length msg)") auto

declare sha256_blocks.simps [simp del]

definition digest_bytes :: "u32 \<Rightarrow> u8 list" where
  "digest_bytes x = [ucast (drop_bit 24 x), ucast (drop_bit 16 x), ucast (drop_bit 8 x), ucast x]"

definition sha256 :: "string \<Rightarrow> u8 list" where
  "sha256 text = concat (map digest_bytes (sha256_blocks sha256_h0 (sha256_pad text)))"

definition kHex :: string where
  "kHex = ''0123456789abcdef''"

definition hex_byte :: "u8 \<Rightarrow> string" where
  "hex_byte d = [kHex ! unat (drop_bit 4 d), kHex ! unat (d AND 0x0f)]"

definition sha256_hex :: "string \<Rightarrow> string" where
  "sha256_hex text = concat (map hex_byte (sha256 text))"

section \<open>Padding\<close>

lemma pad_zeros_shape: "\<exists>n < 64. pad_zeros msg = msg @ replicate n NUL \<and> length (pad_zeros msg) mod 64 = 56"
proof -
  have "\<exists>n \<le> (120 - length msg mod 64) mod 64. pad_zeros msg = msg @ replicate n NUL \<and> length (pad_zeros msg) mod 64 = 56"
  proof (induction msg rule: pad_zeros.induct)
    case (1 msg)
    show ?case
    proof (cases "length msg mod 64 = 56")
      case True
      then show ?thesis by (subst (1 2) pad_zeros.simps) simp
    next
      case False
      then obtain n where n: "n \<le> (120 - length (msg @ [NUL]) mod 64) mod 64"
          "pad_zeros (msg @ [NUL]) = (msg @ [NUL]) @ replicate n NUL"
          "length (pad_zeros (msg @ [NUL])) mod 64 = 56"
        using 1 by blast
      have "(120 - length (msg @ [NUL]) mod 64) mod 64 < (120 - length msg mod 64) mod 64"
        using False pad_measure[of "length msg mod 64"] by (simp add: mod_Suc)
      moreover have "pad_zeros msg = pad_zeros (msg @ [NUL])"
        using False by (subst pad_zeros.simps) simp
      ultimately show ?thesis
        using n by (intro exI[of _ "Suc n"]) (simp add: replicate_append_same[symmetric])
    qed
  qed
  then obtain n where n: "n \<le> (120 - length msg mod 64) mod 64" "pad_zeros msg = msg @ replicate n NUL"
      "length (pad_zeros msg) mod 64 = 56"
    by blast
  moreover have "(120 - length msg mod 64) mod 64 < 64"
    by simp
  ultimately show ?thesis
    by (intro exI[of _ n]) linarith
qed

lemma sha256_pad_blocks: "length (sha256_pad text) mod 64 = 0"
proof -
  have "length (pad_zeros (text @ [CHR 0x80])) mod 64 = 56"
    using pad_zeros_shape by blast
  then show ?thesis
    by (simp add: sha256_pad_def store_be64_def Let_def) presburger
qed

text \<open>The padded message determines the message: it ends with the marker and zeros before the length field.\<close>

lemma strip_zeros: "dropWhile (\<lambda>c. c = NUL) (rev (msg @ [CHR 0x80] @ replicate n NUL)) = CHR 0x80 # rev msg"
proof -
  have "dropWhile (\<lambda>c. c = NUL) (replicate n NUL @ CHR 0x80 # rev msg) = CHR 0x80 # rev msg"
    by (induction n) auto
  then show ?thesis by simp
qed

lemma sha256_pad_inj: "sha256_pad s = sha256_pad t \<Longrightarrow> s = t"
proof -
  assume eq: "sha256_pad s = sha256_pad t"
  obtain n m where n: "pad_zeros (s @ [CHR 0x80]) = (s @ [CHR 0x80]) @ replicate n NUL"
    and m: "pad_zeros (t @ [CHR 0x80]) = (t @ [CHR 0x80]) @ replicate m NUL"
    using pad_zeros_shape by metis
  have "pad_zeros (s @ [CHR 0x80]) = pad_zeros (t @ [CHR 0x80])"
    using eq by (simp add: sha256_pad_def Let_def store_be64_def)
  then have "s @ [CHR 0x80] @ replicate n NUL = t @ [CHR 0x80] @ replicate m NUL"
    by (simp add: n m)
  then have "CHR 0x80 # rev s = CHR 0x80 # rev t"
    using strip_zeros[of s n] strip_zeros[of t m] by simp
  then show ?thesis by simp
qed

section \<open>Shape of the digest\<close>

lemma sha256_round_length: "length r = 8 \<Longrightarrow> length (sha256_round w r i) = 8"
  by (auto simp: sha256_round_def Let_def split: list.splits)

lemma foldl_round_length: "length r = 8 \<Longrightarrow> length (foldl (sha256_round w) r is) = 8"
  by (induction "is" arbitrary: r) (simp_all add: sha256_round_length)

lemma sha256_blocks_length: "length h = 8 \<Longrightarrow> length (sha256_blocks h msg) = 8"
proof (induction h msg rule: sha256_blocks.induct)
  case (1 h msg)
  then show ?case
    by (subst sha256_blocks.simps) (simp add: sha256_block_def Let_def foldl_round_length)
qed

lemma sha256_length: "length (sha256 text) = 32"
proof -
  have "length hs = n \<Longrightarrow> length (concat (map digest_bytes hs)) = 4 * n" for hs n
    by (induction hs arbitrary: n) (auto simp: digest_bytes_def)
  then show ?thesis
    using sha256_blocks_length[of sha256_h0 "sha256_pad text"] by (simp add: sha256_def sha256_h0_def)
qed

lemma nibble_hi: "unat (drop_bit 4 (d::u8)) < 16"
  using unsigned_less[of d, where 'a = nat] by (simp add: drop_bit_eq_div unat_div)

lemma nibble_lo: "unat (d AND 0x0f :: u8) < 16"
proof -
  have "d AND 0x0f \<le> (0x0f :: u8)"
    by (rule word_and_le1)
  then show ?thesis
    by (simp add: word_le_nat_alt)
qed

lemma hex_byte_chars: "set (hex_byte d) \<subseteq> set kHex"
proof -
  have "length kHex = 16" by (simp add: kHex_def)
  then show ?thesis
    using nibble_hi[of d] nibble_lo[of d] by (auto simp: hex_byte_def intro!: nth_mem)
qed

lemma sha256_hex_length: "length (sha256_hex text) = 64"
proof -
  have "length (concat (map hex_byte ds)) = 2 * length ds" for ds
    by (induction ds) (auto simp: hex_byte_def)
  then show ?thesis by (simp add: sha256_hex_def sha256_length)
qed

lemma sha256_hex_chars: "set (sha256_hex text) \<subseteq> set kHex"
  using hex_byte_chars by (auto simp: sha256_hex_def)

lemma sha256_hex_nonempty [simp]: "sha256_hex msg \<noteq> []"
  using sha256_hex_length[of msg] by (metis list.size(3) zero_neq_numeral)

end
