(* ===== verification/App_State.thy ===== *)
theory App_State
  imports Memory_Repositories Sha256
begin

text \<open>
  The in-memory dependency set of \<^verbatim>\<open>ApiGateway::default_dependencies\<close> (\<^verbatim>\<open>src/app/api_gateway.h\<close>): the
  four memory repositories side by side, the process-wide reservation counter of \<^verbatim>\<open>OrderService\<close>, and
  the virtual function tables that present them to the services.
\<close>

record App =
  app_users :: MemoryUserRepository
  app_books :: MemoryBookRepository
  app_inventory :: MemoryInventoryRepository
  app_orders :: MemoryOrderRepository
  app_next_reservation :: u64

definition memory_user_repository :: "App UserRepository" where
  "memory_user_repository =
     \<lparr>ur_create_user = (\<lambda>u p s. case MemoryUserRepository_create_user u p (app_users s) of
                          (r, x) \<Rightarrow> (r, s\<lparr>app_users := x\<rparr>)),
      ur_authenticate = (\<lambda>u p s. MemoryUserRepository_authenticate u p (app_users s))\<rparr>"

definition memory_book_repository :: "App BookRepository" where
  "memory_book_repository =
     \<lparr>br_list_books = (\<lambda>s. MemoryBookRepository_list_books (app_books s)),
      br_find_book = (\<lambda>i s. MemoryBookRepository_find_book i (app_books s)),
      br_create_book = (\<lambda>b s. case MemoryBookRepository_create_book b (app_books s) of
                          (r, x) \<Rightarrow> (r, s\<lparr>app_books := x\<rparr>)),
      br_update_book = (\<lambda>i u s. case MemoryBookRepository_update_book i u (app_books s) of
                          (r, x) \<Rightarrow> (r, s\<lparr>app_books := x\<rparr>))\<rparr>"

definition memory_inventory_repository :: "App InventoryRepository" where
  "memory_inventory_repository =
     \<lparr>ir_available_stock = (\<lambda>b s. MemoryInventoryRepository_available_stock b (app_inventory s)),
      ir_add_stock = (\<lambda>b q s. case MemoryInventoryRepository_add_stock b q (app_inventory s) of
                          (r, x) \<Rightarrow> (r, s\<lparr>app_inventory := x\<rparr>)),
      ir_reserve_stock = (\<lambda>b q s. case MemoryInventoryRepository_reserve_stock b q (app_inventory s) of
                          (r, x) \<Rightarrow> (r, s\<lparr>app_inventory := x\<rparr>)),
      ir_release_stock = (\<lambda>b q s. s\<lparr>app_inventory :=
                          MemoryInventoryRepository_release_stock b q (app_inventory s)\<rparr>),
      ir_reserve_stock_items = (\<lambda>r is s.
                          case MemoryInventoryRepository_reserve_stock_items r is (app_inventory s) of
                          (ok, x) \<Rightarrow> (ok, s\<lparr>app_inventory := x\<rparr>)),
      ir_release_stock_items = (\<lambda>r is s. s\<lparr>app_inventory :=
                          MemoryInventoryRepository_release_stock_items r is (app_inventory s)\<rparr>)\<rparr>"

definition memory_order_repository :: "App OrderRepository" where
  "memory_order_repository =
     \<lparr>or_create_order = (\<lambda>u is t s. case MemoryOrderRepository_create_order u is t (app_orders s) of
                          (r, x) \<Rightarrow> (r, s\<lparr>app_orders := x\<rparr>)),
      or_list_orders = (\<lambda>s. MemoryOrderRepository_list_orders (app_orders s)),
      or_find_order = (\<lambda>i s. MemoryOrderRepository_find_order i (app_orders s)),
      or_cancel_order = (\<lambda>i s. case MemoryOrderRepository_cancel_order i (app_orders s) of
                          (r, x) \<Rightarrow> (r, s\<lparr>app_orders := x\<rparr>))\<rparr>"

text \<open>\<^verbatim>\<open>next_id.fetch_add(1)\<close> on the static counter of \<^verbatim>\<open>OrderService::next_reservation_id\<close>\<close>

definition next_id_fetch_add :: "App \<Rightarrow> u64 \<times> App" where
  "next_id_fetch_add s =
     (app_next_reservation s, s\<lparr>app_next_reservation := app_next_reservation s + 1\<rparr>)"

definition default_books :: "Book list" where
  "default_books =
     [\<lparr>bk_id = 1, bk_title = ''C++ Primer'', bk_author = ''Stanley Lippman'',
       bk_price_cents = 9800, bk_stock = 12, bk_status = ''active''\<rparr>,
      \<lparr>bk_id = 2, bk_title = ''Unix Network Programming'', bk_author = ''W. Richard Stevens'',
       bk_price_cents = 12800, bk_stock = 4, bk_status = ''active''\<rparr>]"

definition default_app :: App where
  "default_app =
     \<lparr>app_users = MemoryUserRepository_init,
      app_books = \<lparr>mb_books = default_books\<rparr>,
      app_inventory = MemoryInventoryRepository_init
        [\<lparr>ii_book_id = 1, ii_available = 12\<rparr>, \<lparr>ii_book_id = 2, ii_available = 4\<rparr>],
      app_orders = MemoryOrderRepository_init,
      app_next_reservation = 1\<rparr>"

lemmas memory_vtables =
  memory_user_repository_def memory_book_repository_def
  memory_inventory_repository_def memory_order_repository_def

end
