(* ===== verification/User_Service.thy ===== *)
theory User_Service
  imports App_State
begin

text \<open>
  \<^verbatim>\<open>src/app/service/user_service.h\<close> and \<^verbatim>\<open>src/app/client/local_user_client.h\<close>: registration and login
  over a user repository, with the SHA-256 of the password in place of the password.
\<close>

section \<open>Definitions\<close>

definition UserService_register_user ::
  "'s UserRepository \<Rightarrow> string \<Rightarrow> string \<Rightarrow> 's \<Rightarrow> User option \<times> 's" where
  "UserService_register_user R username password s = ur_create_user R username (sha256_hex password) s"

definition UserService_authenticate ::
  "'s UserRepository \<Rightarrow> string \<Rightarrow> string \<Rightarrow> 's \<Rightarrow> User option" where
  "UserService_authenticate R username password s = ur_authenticate R username (sha256_hex password) s"

definition LocalUserClient :: "'s UserRepository \<Rightarrow> 's UserClient" where
  "LocalUserClient R =
     \<lparr>uc_register_user = UserService_register_user R, uc_authenticate = UserService_authenticate R\<rparr>"

section \<open>The repository contract\<close>

text \<open>
  \<open>cred s u\<close> is the stored password and the account of user name \<open>u\<close>. A refused registration changes
  nothing; a granted one adds exactly one account; authentication compares with the stored password.
\<close>

locale user_repository =
  fixes R :: "'s UserRepository"
    and cred :: "'s \<Rightarrow> string \<Rightarrow> (string \<times> User) option"
    and inv :: "'s \<Rightarrow> bool"
  assumes create_some: "inv s \<Longrightarrow> ur_create_user R u p s = (Some usr, s') \<Longrightarrow>
      u \<noteq> [] \<and> p \<noteq> [] \<and> cred s u = None \<and> usr_username usr = u \<and>
      cred s' = (cred s)(u \<mapsto> (p, usr)) \<and> inv s'"
    and create_none: "inv s \<Longrightarrow> ur_create_user R u p s = (None, s') \<Longrightarrow> cred s' = cred s \<and> inv s'"
    and create_accepts: "inv s \<Longrightarrow> u \<noteq> [] \<Longrightarrow> p \<noteq> [] \<Longrightarrow> cred s u = None \<Longrightarrow>
      fst (ur_create_user R u p s) \<noteq> None"
    and auth: "inv s \<Longrightarrow> ur_authenticate R u p s =
      (case cred s u of None \<Rightarrow> None | Some (p', usr) \<Rightarrow> if p' = p then Some usr else None)"
begin

lemma register_then_login:
  assumes "inv s" and "UserService_register_user R u p s = (Some usr, s')"
  shows "UserService_authenticate R u p s' = Some usr"
    and "sha256_hex q \<noteq> sha256_hex p \<Longrightarrow> UserService_authenticate R u q s' = None"
    and "v \<noteq> u \<Longrightarrow> UserService_authenticate R v q s' = UserService_authenticate R v q s"
  using assms create_some[of s u "sha256_hex p" usr s']
  by (auto simp: UserService_register_user_def UserService_authenticate_def auth)

lemma register_iff_free:
  assumes "inv s"
  shows "fst (UserService_register_user R u p s) \<noteq> None \<longleftrightarrow> u \<noteq> [] \<and> cred s u = None"
proof (cases "ur_create_user R u (sha256_hex p) s")
  case (Pair r s')
  then show ?thesis
    using assms create_some[of s u "sha256_hex p" _ s'] create_accepts[of s u "sha256_hex p"]
    by (cases r; cases "cred s u") (auto simp: UserService_register_user_def)
qed

lemma register_keeps_inv: "inv s \<Longrightarrow> inv (snd (UserService_register_user R u p s))"
proof (cases "ur_create_user R u (sha256_hex p) s")
  case (Pair r s')
  assume "inv s"
  with Pair show ?thesis
    using create_some[of s u "sha256_hex p" _ s'] create_none[of s u "sha256_hex p" s']
    by (cases r) (auto simp: UserService_register_user_def)
qed

end

section \<open>The memory repository keeps the contract\<close>

definition user_cred :: "App \<Rightarrow> string \<Rightarrow> (string \<times> User) option" where
  "user_cred s u = (case mu_passwords (app_users s) u of
     None \<Rightarrow> None
   | Some p \<Rightarrow> map_option (Pair p) (mu_users_by_name (app_users s) u))"

definition users_ok :: "App \<Rightarrow> bool" where
  "users_ok s \<longleftrightarrow>
     (\<forall>u. mu_passwords (app_users s) u = None \<longleftrightarrow> mu_users_by_name (app_users s) u = None)"

lemma user_cred_None: "users_ok s \<Longrightarrow> user_cred s u = None \<longleftrightarrow> mu_passwords (app_users s) u = None"
  by (auto simp: user_cred_def users_ok_def split: option.splits)

interpretation mem_users: user_repository memory_user_repository user_cred users_ok
proof (unfold_locales, goal_cases)
  case (1 s u p usr s')
  then show ?case
    by (auto simp: memory_user_repository_def MemoryUserRepository_create_user_def Let_def user_cred_None
        users_ok_def user_cred_def fun_eq_iff split: if_splits option.splits)
next
  case (2 s u p s')
  then show ?case
    by (auto simp: memory_user_repository_def MemoryUserRepository_create_user_def Let_def
        split: if_splits option.splits)
next
  case (3 s u p)
  then show ?case
    by (auto simp: memory_user_repository_def MemoryUserRepository_create_user_def Let_def user_cred_None)
next
  case (4 s u p)
  then show ?case
    by (auto simp: memory_user_repository_def MemoryUserRepository_authenticate_def user_cred_def
        users_ok_def split: option.splits)
qed

end
