(* ===== verification/Book_Service.thy ===== *)
theory Book_Service
  imports App_State
begin

text \<open>
  \<^verbatim>\<open>src/app/service/book_service.h\<close> and \<^verbatim>\<open>src/app/client/local_book_client.h\<close>: the catalogue over a book
  repository. The service validates what the repository would store.
\<close>

section \<open>Definitions\<close>

definition BookService_list_books :: "'s BookRepository \<Rightarrow> 's \<Rightarrow> Book list" where
  "BookService_list_books R s = br_list_books R s"

definition BookService_find_book :: "'s BookRepository \<Rightarrow> int \<Rightarrow> 's \<Rightarrow> Book option" where
  "BookService_find_book R book_id s = br_find_book R book_id s"

definition BookService_create_book :: "'s BookRepository \<Rightarrow> Book \<Rightarrow> 's \<Rightarrow> Book option \<times> 's" where
  "BookService_create_book R book s =
     (if bk_title book = [] \<or> bk_author book = [] \<or> bk_price_cents book \<le> 0 \<or> bk_stock book < 0
      then (None, s)
      else (let created = (if bk_status book = [] then book\<lparr>bk_status := ''active''\<rparr> else book) in
            if bk_status created \<noteq> ''active'' \<and> bk_status created \<noteq> ''inactive'' then (None, s)
            else br_create_book R created s))"

definition BookService_update_book ::
  "'s BookRepository \<Rightarrow> int \<Rightarrow> BookUpdate \<Rightarrow> 's \<Rightarrow> Book option \<times> 's" where
  "BookService_update_book R book_id update s =
     (if book_id \<le> 0 then (None, s)
      else if bu_title update = Some [] then (None, s)
      else if bu_author update = Some [] then (None, s)
      else if (case bu_price_cents update of None \<Rightarrow> False | Some p \<Rightarrow> p \<le> 0) then (None, s)
      else if (case bu_stock update of None \<Rightarrow> False | Some k \<Rightarrow> k < 0) then (None, s)
      else if (case bu_status update of None \<Rightarrow> False | Some t \<Rightarrow> t \<noteq> ''active'' \<and> t \<noteq> ''inactive'')
      then (None, s)
      else br_update_book R book_id update s)"

definition LocalBookClient :: "'s BookRepository \<Rightarrow> 's BookClient" where
  "LocalBookClient R =
     \<lparr>bc_list_books = BookService_list_books R, bc_find_book = BookService_find_book R,
      bc_create_book = BookService_create_book R, bc_update_book = BookService_update_book R\<rparr>"

section \<open>The repository contract\<close>

definition valid_book :: "Book \<Rightarrow> bool" where
  "valid_book b \<longleftrightarrow> bk_title b \<noteq> [] \<and> bk_author b \<noteq> [] \<and> bk_price_cents b > 0 \<and> bk_stock b \<ge> 0 \<and>
     (bk_status b = ''active'' \<or> bk_status b = ''inactive'')"

definition valid_catalogue :: "(int \<rightharpoonup> Book) \<Rightarrow> bool" where
  "valid_catalogue m \<longleftrightarrow> (\<forall>b \<in> ran m. valid_book b)"

text \<open>
  \<open>cat s\<close> is the catalogue by book id; \<open>room s\<close> says that an identifier is left.
\<close>

locale book_repository =
  fixes R :: "'s BookRepository"
    and cat :: "'s \<Rightarrow> int \<rightharpoonup> Book"
    and inv :: "'s \<Rightarrow> bool"
    and room :: "'s \<Rightarrow> bool"
  assumes find: "inv s \<Longrightarrow> br_find_book R i s = cat s i"
    and create_some: "inv s \<Longrightarrow> room s \<Longrightarrow> br_create_book R b s = (Some c, s') \<Longrightarrow>
      cat s (bk_id c) = None \<and> bk_id c > 0 \<and>
      c = b\<lparr>bk_id := bk_id c, bk_status := (if bk_status b = [] then ''active'' else bk_status b)\<rparr> \<and>
      cat s' = (cat s)(bk_id c \<mapsto> c) \<and> inv s'"
    and create_none: "inv s \<Longrightarrow> br_create_book R b s = (None, s') \<Longrightarrow> cat s' = cat s \<and> inv s'"
    and update_some: "inv s \<Longrightarrow> br_update_book R i u s = (Some c, s') \<Longrightarrow>
      (\<exists>b. cat s i = Some b \<and> c = apply_update u b) \<and> cat s' = (cat s)(i \<mapsto> c) \<and> inv s'"
    and update_none: "inv s \<Longrightarrow> br_update_book R i u s = (None, s') \<Longrightarrow> cat s' = cat s \<and> inv s'"
begin

lemma create_valid:
  assumes "inv s" "room s" "BookService_create_book R b s = (Some c, s')"
  shows "valid_book c" and "cat s (bk_id c) = None" and "cat s' = (cat s)(bk_id c \<mapsto> c)" and "inv s'"
    and "bk_title c = bk_title b \<and> bk_author c = bk_author b \<and> bk_price_cents c = bk_price_cents b \<and>
         bk_stock c = bk_stock b"
proof -
  define d where "d = (if bk_status b = [] then b\<lparr>bk_status := ''active''\<rparr> else b)"
  have cr: "br_create_book R d s = (Some c, s')" and v: "valid_book d"
    using assms(3) by (auto simp: BookService_create_book_def Let_def d_def valid_book_def split: if_splits)
  have same: "c = d\<lparr>bk_id := bk_id c\<rparr>" and old: "cat s (bk_id c) = None"
      and new: "cat s' = (cat s)(bk_id c \<mapsto> c)" "inv s'"
    using create_some[OF assms(1,2) cr] v by (auto simp: valid_book_def split: if_splits)
  show "cat s (bk_id c) = None" by (rule old)
  show "cat s' = (cat s)(bk_id c \<mapsto> c)" by (rule new)
  show "inv s'" by (rule new)
  show "valid_book c"
    by (subst same) (use v in \<open>simp add: valid_book_def\<close>)
  show "bk_title c = bk_title b \<and> bk_author c = bk_author b \<and> bk_price_cents c = bk_price_cents b \<and>
         bk_stock c = bk_stock b"
    by (subst (1 2 3 4) same) (simp add: d_def)
qed

lemma create_refused:
  assumes "inv s" "BookService_create_book R b s = (None, s')"
  shows "cat s' = cat s \<and> inv s'"
  using assms create_none by (auto simp: BookService_create_book_def Let_def split: if_splits)

lemma update_cases:
  assumes "inv s" "BookService_update_book R i u s = (r, s')"
  shows "case r of
      None \<Rightarrow> cat s' = cat s \<and> inv s'
    | Some c \<Rightarrow> (\<exists>b. cat s i = Some b \<and> c = apply_update u b) \<and> cat s' = (cat s)(i \<mapsto> c) \<and> inv s' \<and>
        (\<forall>b. valid_book b \<longrightarrow> valid_book (apply_update u b))"
proof (cases r)
  case None
  with assms show ?thesis
    using update_none by (auto simp: BookService_update_book_def split: if_splits)
next
  case (Some c)
  with assms have up: "br_update_book R i u s = (Some c, s')"
    by (auto simp: BookService_update_book_def split: if_splits)
  have "valid_book (apply_update u b)" if "valid_book b" for b
    using that assms(2) Some
    by (auto simp: BookService_update_book_def valid_book_def apply_update_def split: if_splits option.splits)
  with update_some[OF assms(1) up] Some show ?thesis by simp
qed

lemma create_keeps_valid:
  assumes "inv s" "room s" "valid_catalogue (cat s)"
  shows "valid_catalogue (cat (snd (BookService_create_book R b s)))"
proof (cases "BookService_create_book R b s")
  case (Pair r s')
  with assms show ?thesis
    using create_valid[of s b _ s'] create_refused[of s b s']
    by (cases r) (auto simp: valid_catalogue_def ran_def split: if_splits)
qed

lemma update_keeps_valid:
  assumes "inv s" "valid_catalogue (cat s)"
  shows "valid_catalogue (cat (snd (BookService_update_book R i u s)))"
proof (cases "BookService_update_book R i u s")
  case (Pair r s')
  with assms update_cases[OF assms(1) Pair] show ?thesis
    by (cases r) (auto simp: valid_catalogue_def ran_def split: if_splits)
qed

end

section \<open>The memory repository keeps the contract\<close>

definition book_cat :: "App \<Rightarrow> int \<rightharpoonup> Book" where
  "book_cat s = find_book_loop (mb_books (app_books s))"

definition books_ok :: "App \<Rightarrow> bool" where
  "books_ok s \<longleftrightarrow> distinct (map bk_id (mb_books (app_books s)))"

definition books_room :: "App \<Rightarrow> bool" where
  "books_room s \<longleftrightarrow> book_room (mb_books (app_books s))"

lemma update_book_loop_ids: "update_book_loop bs i u = (r, bs') \<Longrightarrow> map bk_id bs' = map bk_id bs"
  by (induction bs arbitrary: r bs') (auto split: if_splits prod.splits)

interpretation mem_books: book_repository memory_book_repository book_cat books_ok books_room
proof (unfold_locales, goal_cases)
  case (1 s i)
  show ?case
    by (simp add: memory_book_repository_def MemoryBookRepository_find_book_def book_cat_def)
next
  case (2 s b c s')
  let ?bs = "mb_books (app_books s)"
  have fresh: "find_book_loop ?bs (next_book_id_loop ?bs 1) = None" "1 \<le> next_book_id_loop ?bs 1"
    using 2 next_book_id_fresh[of ?bs] next_book_id_loop_bound[of 1 ?bs] by (auto simp: books_room_def)
  from 2 have c: "c = b\<lparr>bk_id := next_book_id_loop ?bs 1,
        bk_status := (if bk_status b = [] then ''active'' else bk_status b)\<rparr>"
      and s': "s' = s\<lparr>app_books := (app_books s)\<lparr>mb_books := ?bs @ [c]\<rparr>\<rparr>"
    by (auto simp: memory_book_repository_def MemoryBookRepository_create_book_def Let_def split: if_splits)
  have "book_cat s' = (book_cat s)(bk_id c \<mapsto> c)"
    using fresh by (auto simp: book_cat_def s' c find_book_loop_append fun_eq_iff split: option.splits)
  moreover have "books_ok s'"
    using 2 fresh by (auto simp: books_ok_def s' c find_book_loop_None)
  ultimately show ?case
    using fresh by (simp add: c book_cat_def)
next
  case (3 s b s')
  then show ?case
    by (auto simp: memory_book_repository_def MemoryBookRepository_create_book_def Let_def split: if_splits)
next
  case (4 s i u c s')
  then obtain bs' where up: "update_book_loop (mb_books (app_books s)) i u = (Some c, bs')"
      and s': "s' = s\<lparr>app_books := (app_books s)\<lparr>mb_books := bs'\<rparr>\<rparr>"
    by (auto simp: memory_book_repository_def MemoryBookRepository_update_book_def split: if_splits prod.splits)
  from update_book_loop_find(1)[OF up, symmetric] update_book_loop_find(2)[OF up] update_book_loop_ids[OF up] 4(1)
  show ?case
    by (auto simp: book_cat_def books_ok_def s' fun_eq_iff)
next
  case (5 s i u s')
  then show ?case
    using update_book_loop_find[of "mb_books (app_books s)" i u None]
      update_book_loop_ids[of "mb_books (app_books s)" i u None]
    by (auto simp: memory_book_repository_def MemoryBookRepository_update_book_def book_cat_def books_ok_def
        fun_eq_iff split: if_splits prod.splits)
qed

end
