(* ===== verification/Inventory_Service.thy ===== *)
theory Inventory_Service
  imports App_State
begin

text \<open>
  \<^verbatim>\<open>src/app/service/inventory_service.h\<close> and \<^verbatim>\<open>src/app/client/local_inventory_client.h\<close>. The local
  client reserves a batch line by line and gives back what it had taken when a line fails.
\<close>

section \<open>Definitions\<close>

definition InventoryService_available_stock :: "'s InventoryRepository \<Rightarrow> int \<Rightarrow> 's \<Rightarrow> int option" where
  "InventoryService_available_stock R book_id s = ir_available_stock R book_id s"

definition InventoryService_add_stock ::
  "'s InventoryRepository \<Rightarrow> int \<Rightarrow> int \<Rightarrow> 's \<Rightarrow> int option \<times> 's" where
  "InventoryService_add_stock R book_id quantity s =
     (if book_id \<le> 0 \<or> quantity \<le> 0 then (None, s) else ir_add_stock R book_id quantity s)"

definition InventoryService_reserve_stock ::
  "'s InventoryRepository \<Rightarrow> int \<Rightarrow> int \<Rightarrow> 's \<Rightarrow> bool \<times> 's" where
  "InventoryService_reserve_stock R book_id quantity s = ir_reserve_stock R book_id quantity s"

definition InventoryService_release_stock :: "'s InventoryRepository \<Rightarrow> int \<Rightarrow> int \<Rightarrow> 's \<Rightarrow> 's" where
  "InventoryService_release_stock R book_id quantity s = ir_release_stock R book_id quantity s"

definition InventoryService_reserve_stock_items ::
  "'s InventoryRepository \<Rightarrow> string \<Rightarrow> InventoryMutation list \<Rightarrow> 's \<Rightarrow> bool \<times> 's" where
  "InventoryService_reserve_stock_items R reservation_id items s =
     ir_reserve_stock_items R reservation_id items s"

definition InventoryService_release_stock_items ::
  "'s InventoryRepository \<Rightarrow> string \<Rightarrow> InventoryMutation list \<Rightarrow> 's \<Rightarrow> 's" where
  "InventoryService_release_stock_items R reservation_id items s =
     ir_release_stock_items R reservation_id items s"

definition release_each :: "'s InventoryRepository \<Rightarrow> InventoryMutation list \<Rightarrow> 's \<Rightarrow> 's" where
  "release_each R items s =
     foldl (\<lambda>st i. InventoryService_release_stock R (im_book_id i) (im_quantity i) st) s items"

fun local_reserve_loop ::
  "'s InventoryRepository \<Rightarrow> InventoryMutation list \<Rightarrow> InventoryMutation list \<Rightarrow> 's \<Rightarrow> bool \<times> 's" where
  "local_reserve_loop R [] reserved s = (True, s)"
| "local_reserve_loop R (item # items) reserved s =
     (case InventoryService_reserve_stock R (im_book_id item) (im_quantity item) s of
        (ok, s') \<Rightarrow>
          if \<not> ok then (False, release_each R reserved s')
          else local_reserve_loop R items (reserved @ [item]) s')"

definition LocalInventoryClient :: "'s InventoryRepository \<Rightarrow> 's InventoryClient" where
  "LocalInventoryClient R =
     \<lparr>ic_available_stock = InventoryService_available_stock R,
      ic_add_stock = InventoryService_add_stock R,
      ic_reserve_stock = InventoryService_reserve_stock R,
      ic_release_stock = InventoryService_release_stock R,
      ic_reserve_stock_items = (\<lambda>reservation_id items s. local_reserve_loop R items [] s),
      ic_release_stock_items = (\<lambda>reservation_id items s. release_each R items s)\<rparr>"

section \<open>Contracts\<close>

text \<open>
  A client of the inventory sees a stock level per book. A batch is served completely, when every book
  can serve the sum of its lines, or not at all; \<open>rest s\<close> is everything an inventory operation leaves
  alone.
\<close>

definition fits :: "(int \<rightharpoonup> int) \<Rightarrow> InventoryMutation list \<Rightarrow> bool" where
  "fits stock items \<longleftrightarrow>
     (\<forall>i \<in> set items. im_quantity i > 0 \<and> stock (im_book_id i) \<noteq> None) \<and>
     (\<forall>b v. stock b = Some v \<longrightarrow> int32 (v + demand items b))"

locale inventory_client =
  fixes IC :: "'s InventoryClient"
    and stock :: "'s \<Rightarrow> int \<rightharpoonup> int"
    and inv :: "'s \<Rightarrow> bool"
    and rest :: "'s \<Rightarrow> 'f"
  assumes available: "inv s \<Longrightarrow> ic_available_stock IC b s = stock s b"
    and stock_int32: "inv s \<Longrightarrow> stock s b = Some v \<Longrightarrow> int32 v"
    and reserve_items: "inv s \<Longrightarrow> items \<noteq> [] \<Longrightarrow> ic_reserve_stock_items IC rid items s = (ok, s') \<Longrightarrow>
      (ok \<longleftrightarrow> servable (stock s) items) \<and>
      stock s' = (if ok then deduct (stock s) items else stock s) \<and> inv s' \<and> rest s' = rest s"
    and release_items: "inv s \<Longrightarrow> fits (stock s) items \<Longrightarrow> s' = ic_release_stock_items IC rid items s \<Longrightarrow>
      stock s' = restock (stock s) items \<and> inv s' \<and> rest s' = rest s"
    and release_one: "inv s \<Longrightarrow> fits (stock s) [i] \<Longrightarrow>
      s' = ic_release_stock IC (im_book_id i) (im_quantity i) s \<Longrightarrow>
      stock s' = restock (stock s) [i] \<and> inv s' \<and> rest s' = rest s"
    and add_stock: "inv s \<Longrightarrow> (q > 0 \<Longrightarrow> int32 (level (stock s) b + q)) \<Longrightarrow> ic_add_stock IC b q s = (r, s') \<Longrightarrow>
      (case r of
         None \<Rightarrow> stock s' = stock s
       | Some n \<Rightarrow> b > 0 \<and> q > 0 \<and> n = level (stock s) b + q \<and> stock s' = (stock s)(b \<mapsto> n)) \<and>
      inv s' \<and> rest s' = rest s"

text \<open>A repository only has to offer single reservations and releases.\<close>

locale inventory_repository =
  fixes R :: "'s InventoryRepository"
    and stock :: "'s \<Rightarrow> int \<rightharpoonup> int"
    and inv :: "'s \<Rightarrow> bool"
    and rest :: "'s \<Rightarrow> 'f"
  assumes repo_available: "inv s \<Longrightarrow> ir_available_stock R b s = stock s b"
    and repo_int32: "inv s \<Longrightarrow> stock s b = Some v \<Longrightarrow> int32 v"
    and repo_reserve: "inv s \<Longrightarrow> ir_reserve_stock R (im_book_id i) (im_quantity i) s = (ok, s') \<Longrightarrow>
      (ok \<longleftrightarrow> servable (stock s) [i]) \<and>
      stock s' = (if ok then deduct (stock s) [i] else stock s) \<and> inv s' \<and> rest s' = rest s"
    and repo_release: "inv s \<Longrightarrow> fits (stock s) [i] \<Longrightarrow>
      s' = ir_release_stock R (im_book_id i) (im_quantity i) s \<Longrightarrow>
      stock s' = restock (stock s) [i] \<and> inv s' \<and> rest s' = rest s"
    and repo_add: "inv s \<Longrightarrow> (q > 0 \<Longrightarrow> int32 (level (stock s) b + q)) \<Longrightarrow> ir_add_stock R b q s = (r, s') \<Longrightarrow>
      (case r of
         None \<Rightarrow> stock s' = stock s
       | Some n \<Rightarrow> b > 0 \<and> q > 0 \<and> n = level (stock s) b + q \<and> stock s' = (stock s)(b \<mapsto> n)) \<and>
      inv s' \<and> rest s' = rest s"

lemma fits_Cons:
  assumes "fits stock (i # items)" and "\<forall>b v. stock b = Some v \<longrightarrow> int32 v"
  shows "fits stock [i]" and "fits (restock stock [i]) items"
proof -
  have pos: "\<forall>j \<in> set (i # items). im_quantity j > 0"
    using assms(1) by (auto simp: fits_def)
  then have nn: "0 \<le> demand items b" "0 \<le> demand [i] b" for b
    using demand_nonneg[of items b] demand_nonneg[of "[i]" b] by auto
  have sum: "demand (i # items) b = demand [i] b + demand items b" for b
    by (simp add: demand_Cons)
  show "fits stock [i]"
    unfolding fits_def
  proof (intro conjI allI impI)
    show "\<forall>j \<in> set [i]. 0 < im_quantity j \<and> stock (im_book_id j) \<noteq> None"
      using assms(1) by (simp add: fits_def)
  next
    fix b v
    assume "stock b = Some v"
    then have "int32 v" "int32 (v + demand (i # items) b)"
      using assms by (auto simp: fits_def)
    then show "int32 (v + demand [i] b)"
      using nn[of b] by (simp add: sum int32_def)
  qed
  show "fits (restock stock [i]) items"
    using assms(1) by (auto simp: fits_def restock_def sum add.assoc)
qed

context inventory_repository
begin

lemma release_each_restock:
  assumes "inv s" and "fits (stock s) items"
  shows "stock (release_each R items s) = restock (stock s) items \<and> inv (release_each R items s) \<and>
         rest (release_each R items s) = rest s"
  using assms
proof (induction items arbitrary: s)
  case Nil
  then show ?case by (simp add: release_each_def)
next
  case (Cons i items)
  let ?t = "ir_release_stock R (im_book_id i) (im_quantity i) s"
  have split: "fits (stock s) [i]" "fits (restock (stock s) [i]) items"
    using fits_Cons[OF Cons.prems(2)] repo_int32[OF Cons.prems(1)] by blast+
  have t: "stock ?t = restock (stock s) [i]" "inv ?t" "rest ?t = rest s"
    using repo_release[OF Cons.prems(1) split(1) refl] by simp_all
  have "release_each R (i # items) s = release_each R items ?t"
    by (simp add: release_each_def InventoryService_release_stock_def)
  moreover have "restock (stock s) (i # items) = restock (restock (stock s) [i]) items"
    using restock_append[of "stock s" "[i]" items] by simp
  ultimately show ?case
    using Cons.IH[of ?t] t split(2) by simp
qed

text \<open>Giving back what was just taken is always possible and restores the stock.\<close>

lemma rollback:
  assumes "inv s" "inv t" "servable (stock s) taken" "stock t = deduct (stock s) taken" "rest t = rest s"
  shows "stock (release_each R taken t) = stock s \<and> inv (release_each R taken t) \<and>
         rest (release_each R taken t) = rest s"
proof -
  have "fits (stock t) taken"
    using assms(3) repo_int32[OF assms(1)]
    by (auto simp: fits_def assms(4) deduct_def servable_def split: option.splits)
  from release_each_restock[OF assms(2) this] show ?thesis
    by (simp add: assms(4,5))
qed

lemma servable_append:
  "servable m (xs @ ys) \<longleftrightarrow> servable m xs \<and> servable (deduct m xs) ys"
proof (induction xs arbitrary: m)
  case Nil
  show ?case by simp
next
  case (Cons x xs)
  have "servable m ((x # xs) @ ys) \<longleftrightarrow> servable m [x] \<and> servable (deduct m [x]) (xs @ ys)"
    by (simp only: append_Cons servable_Cons[of m x "xs @ ys"])
  then show ?case
    by (simp only: Cons[of "deduct m [x]"] servable_Cons[of m x xs] deduct_Cons[of m x xs] conj_assoc)
qed

lemma local_reserve_loop_spec:
  assumes "inv s" "inv t" "servable (stock s) taken" "stock t = deduct (stock s) taken" "rest t = rest s"
    and "local_reserve_loop R items taken t = (ok, u)"
  shows "(ok \<longleftrightarrow> servable (stock s) (taken @ items)) \<and>
         stock u = (if ok then deduct (stock s) (taken @ items) else stock s) \<and> inv u \<and> rest u = rest s"
  using assms(2-)
proof (induction items arbitrary: taken t)
  case Nil
  then show ?case by simp
next
  case (Cons i items)
  obtain r t' where r: "ir_reserve_stock R (im_book_id i) (im_quantity i) t = (r, t')"
    by fastforce
  have one: "r \<longleftrightarrow> servable (deduct (stock s) taken) [i]" "inv t'" "rest t' = rest s"
      "stock t' = (if r then deduct (stock s) (taken @ [i]) else deduct (stock s) taken)"
    using repo_reserve[OF Cons.prems(1) r] Cons.prems(3,4) by (simp_all add: deduct_append)
  show ?case
  proof (cases r)
    case True
    with one have "servable (stock s) (taken @ [i])"
      using Cons.prems(2) by (simp add: servable_append)
    with Cons.IH[OF one(2) this] True one Cons.prems(5) r show ?thesis
      by (simp add: InventoryService_reserve_stock_def)
  next
    case False
    with Cons.prems(5) r have "ok = False" "u = release_each R taken t'"
      by (auto simp: InventoryService_reserve_stock_def)
    moreover have "\<not> servable (stock s) (taken @ i # items)"
      using one(1) False by (simp add: servable_append servable_Cons[of _ i items])
    ultimately show ?thesis
      using rollback[OF assms(1) one(2) Cons.prems(2) _ one(3)] one(4) False by simp
  qed
qed

end

sublocale inventory_repository \<subseteq> local_client: inventory_client "LocalInventoryClient R" stock inv rest
proof (unfold_locales, goal_cases)
  case (1 s b)
  then show ?case
    by (simp add: LocalInventoryClient_def InventoryService_available_stock_def repo_available)
next
  case (2 s b v)
  then show ?case by (rule repo_int32)
next
  case (3 s items rid ok s')
  then show ?case
    using local_reserve_loop_spec[of s s "[]" items ok s'] by (simp add: LocalInventoryClient_def)
next
  case (4 s items s' rid)
  then show ?case
    using release_each_restock by (simp add: LocalInventoryClient_def)
next
  case (5 s i s')
  then have "s' = ir_release_stock R (im_book_id i) (im_quantity i) s"
    by (simp add: LocalInventoryClient_def InventoryService_release_stock_def)
  from repo_release[OF 5(1,2) this] show ?case .
next
  case (6 s b q r s')
  then show ?case
    using repo_add[OF 6(1,2), of r s']
    by (auto simp: LocalInventoryClient_def InventoryService_add_stock_def split: if_splits)
qed

section \<open>The memory repository keeps the contract\<close>

definition app_stock :: "App \<Rightarrow> int \<rightharpoonup> int" where
  "app_stock s = mi_stock (app_inventory s)"

definition inventory_ok :: "App \<Rightarrow> bool" where
  "inventory_ok s \<longleftrightarrow> stock_ok (app_inventory s)"

definition outside_inventory :: "App \<Rightarrow> MemoryUserRepository \<times> MemoryBookRepository \<times> MemoryOrderRepository \<times> u64" where
  "outside_inventory s = (app_users s, app_books s, app_orders s, app_next_reservation s)"

lemma restock_stock_ok:
  "fits (mi_stock s) [i] \<Longrightarrow> stock_ok (s\<lparr>mi_stock := restock (mi_stock s) [i]\<rparr>)"
  by (auto simp: fits_def stock_ok_def restock_def)

interpretation mem_inventory:
  inventory_repository memory_inventory_repository app_stock inventory_ok outside_inventory
proof (unfold_locales, goal_cases)
  case (1 s b)
  show ?case
    by (simp add: memory_inventory_repository_def MemoryInventoryRepository_available_stock_def app_stock_def)
next
  case (2 s b v)
  then show ?case
    by (simp add: inventory_ok_def stock_ok_def app_stock_def)
next
  case (3 s i ok s')
  have "stock_ok (snd (MemoryInventoryRepository_reserve_stock (im_book_id i) (im_quantity i) (app_inventory s)))"
    using 3(1) by (auto simp: inventory_ok_def MemoryInventoryRepository_reserve_stock_def split: option.splits)
  with 3 show ?case
    using reserve_stock_servable[of "app_inventory s" i]
    by (auto simp: memory_inventory_repository_def inventory_ok_def app_stock_def outside_inventory_def
        split: if_splits)
next
  case (4 s i s')
  then obtain v where "mi_stock (app_inventory s) (im_book_id i) = Some v" "0 < im_quantity i"
      "int32 (v + demand [i] (im_book_id i))"
    by (auto simp: fits_def app_stock_def)
  then have "mi_stock (app_inventory s) (im_book_id i) = Some v" "0 < im_quantity i" "int32 (v + im_quantity i)"
    by (simp_all add: demand_Cons)
  with 4 show ?case
    using restock_stock_ok[of "app_inventory s" i]
    by (simp add: memory_inventory_repository_def release_stock_restock app_stock_def inventory_ok_def
        outside_inventory_def)
next
  case (5 s b q r s')
  then show ?case
    by (auto simp: memory_inventory_repository_def MemoryInventoryRepository_add_stock_def bump_stock_def
        app_stock_def inventory_ok_def outside_inventory_def level_def wrap_simps stock_ok_def Let_def
        split: if_splits option.splits)
qed

end
