(* ===== verification/Order_Service.thy ===== *)
theory Order_Service
  imports User_Service Book_Service Inventory_Service
begin

text \<open>
  \<^verbatim>\<open>src/app/service/order_service.h\<close> and \<^verbatim>\<open>src/app/client/local_order_client.h\<close>. The service object is
  the record of the components it was constructed with; the static counter behind
  \<^verbatim>\<open>next_reservation_id\<close> is a component too.
\<close>

section \<open>Definitions\<close>

record 's OrderService =
  os_book_client :: "'s BookClient"
  os_inventory_client :: "'s InventoryClient"
  os_order_repository :: "'s OrderRepository"
  os_next_id :: "'s \<Rightarrow> u64 \<times> 's"

text \<open>The constructor from three repositories.\<close>

definition OrderService_of_repositories ::
  "'s BookRepository \<Rightarrow> 's InventoryRepository \<Rightarrow> 's OrderRepository \<Rightarrow> ('s \<Rightarrow> u64 \<times> 's) \<Rightarrow> 's OrderService" where
  "OrderService_of_repositories B I R next_id =
     \<lparr>os_book_client = LocalBookClient B, os_inventory_client = LocalInventoryClient I,
      os_order_repository = R, os_next_id = next_id\<rparr>"

fun price_items_loop ::
  "'s BookClient \<Rightarrow> OrderItemRequest list \<Rightarrow> OrderItem list \<Rightarrow> int \<Rightarrow> 's \<Rightarrow> (OrderItem list \<times> int) option" where
  "price_items_loop BC [] items total_cents s = Some (items, total_cents)"
| "price_items_loop BC (request # requests) items total_cents s =
     (if oir_quantity request \<le> 0 then None
      else case bc_find_book BC (oir_book_id request) s of
        None \<Rightarrow> None
      | Some book \<Rightarrow>
          price_items_loop BC requests
            (items @ [\<lparr>oi_book_id = oir_book_id request, oi_quantity = oir_quantity request,
                       oi_unit_price_cents = bk_price_cents book\<rparr>])
            (wrap32 (total_cents + wrap32 (bk_price_cents book * oir_quantity request))) s)"

definition reservation_items_of :: "OrderItemRequest list \<Rightarrow> InventoryMutation list" where
  "reservation_items_of requests =
     map (\<lambda>r. \<lparr>im_book_id = oir_book_id r, im_quantity = oir_quantity r\<rparr>) requests"

definition next_reservation_id :: "'s OrderService \<Rightarrow> int \<Rightarrow> 's \<Rightarrow> string \<times> 's" where
  "next_reservation_id S user_id s =
     (case os_next_id S s of
        (n, s') \<Rightarrow> (''order-'' @ to_string user_id @ ''-'' @ to_string (uint n), s'))"

definition OrderService_create_order ::
  "'s OrderService \<Rightarrow> int \<Rightarrow> OrderItemRequest list \<Rightarrow> 's \<Rightarrow> Order option \<times> 's" where
  "OrderService_create_order S user_id item_requests s =
     (if user_id \<le> 0 \<or> item_requests = [] then (None, s)
      else case price_items_loop (os_book_client S) item_requests [] 0 s of
        None \<Rightarrow> (None, s)
      | Some (items, total_cents) \<Rightarrow>
          (let reservation_items = reservation_items_of item_requests;
               (reservation_id, s1) = next_reservation_id S user_id s;
               (reserved, s2) =
                 ic_reserve_stock_items (os_inventory_client S) reservation_id reservation_items s1
           in if \<not> reserved then (None, s2)
              else (case or_create_order (os_order_repository S) user_id items total_cents s2 of
                      (Some order, s3) \<Rightarrow> (Some order, s3)
                    | (None, s3) \<Rightarrow>
                        (None, ic_release_stock_items (os_inventory_client S)
                                 reservation_id reservation_items s3))))"

definition OrderService_list_orders :: "'s OrderService \<Rightarrow> 's \<Rightarrow> Order list" where
  "OrderService_list_orders S s = or_list_orders (os_order_repository S) s"

definition OrderService_find_order :: "'s OrderService \<Rightarrow> int \<Rightarrow> 's \<Rightarrow> Order option" where
  "OrderService_find_order S order_id s =
     (if order_id \<le> 0 then None else or_find_order (os_order_repository S) order_id s)"

definition release_order_items :: "'s InventoryClient \<Rightarrow> OrderItem list \<Rightarrow> 's \<Rightarrow> 's" where
  "release_order_items IC items s =
     foldl (\<lambda>st i. ic_release_stock IC (oi_book_id i) (oi_quantity i) st) s items"

definition OrderService_cancel_order :: "'s OrderService \<Rightarrow> int \<Rightarrow> 's \<Rightarrow> Order option \<times> 's" where
  "OrderService_cancel_order S order_id s =
     (if order_id \<le> 0 then (None, s)
      else case or_find_order (os_order_repository S) order_id s of
        None \<Rightarrow> (None, s)
      | Some existing \<Rightarrow>
          if ord_status existing = ''cancelled'' then (Some existing, s)
          else (case or_cancel_order (os_order_repository S) order_id s of
                  (None, s1) \<Rightarrow> (None, s1)
                | (Some cancelled, s1) \<Rightarrow>
                    (Some cancelled,
                     release_order_items (os_inventory_client S) (ord_items cancelled) s1)))"

definition LocalOrderClient :: "'s OrderService \<Rightarrow> 's OrderClient" where
  "LocalOrderClient S =
     \<lparr>oc_create_order = OrderService_create_order S, oc_list_orders = OrderService_list_orders S,
      oc_find_order = OrderService_find_order S, oc_cancel_order = OrderService_cancel_order S\<rparr>"

section \<open>What orders hold\<close>

definition lines :: "Order \<Rightarrow> InventoryMutation list" where
  "lines r = map (\<lambda>i. \<lparr>im_book_id = oi_book_id i, im_quantity = oi_quantity i\<rparr>) (ord_items r)"

definition live :: "Order \<Rightarrow> bool" where
  "live r \<longleftrightarrow> ord_status r \<noteq> ''cancelled''"

text \<open>Copies of book \<open>b\<close> held by the orders that are not cancelled.\<close>

definition outstanding :: "Order list \<Rightarrow> int \<Rightarrow> int" where
  "outstanding rs b = (\<Sum>r \<leftarrow> rs. if live r then demand (lines r) b else 0)"

definition line_total :: "OrderItem list \<Rightarrow> int" where
  "line_total items = (\<Sum>i \<leftarrow> items. oi_unit_price_cents i * oi_quantity i)"

text \<open>The items an order should have: every request priced from the catalogue.\<close>

definition priced :: "(int \<rightharpoonup> Book) \<Rightarrow> OrderItemRequest list \<Rightarrow> OrderItem list" where
  "priced cat requests =
     map (\<lambda>r. \<lparr>oi_book_id = oir_book_id r, oi_quantity = oir_quantity r,
               oi_unit_price_cents = bk_price_cents (the (cat (oir_book_id r)))\<rparr>) requests"

definition orderable :: "(int \<rightharpoonup> Book) \<Rightarrow> OrderItemRequest list \<Rightarrow> bool" where
  "orderable cat requests \<longleftrightarrow>
     (\<forall>r \<in> set requests. oir_quantity r > 0 \<and> cat (oir_book_id r) \<noteq> None)"

lemma outstanding_Nil [simp]: "outstanding [] b = 0"
  by (simp add: outstanding_def)

lemma outstanding_append: "outstanding (rs @ qs) b = outstanding rs b + outstanding qs b"
  by (simp add: outstanding_def)

lemma outstanding_Cons:
  "outstanding (r # rs) b = (if live r then demand (lines r) b else 0) + outstanding rs b"
  by (simp add: outstanding_def)

lemma lines_priced:
  "ord_items r = priced cat reqs \<Longrightarrow> lines r = reservation_items_of reqs"
  by (simp add: lines_def priced_def reservation_items_of_def)

lemma live_cancel_in: "live (cancel_in i r) \<longleftrightarrow> live r \<and> ord_id r \<noteq> i"
  by (simp add: cancel_in_def live_def)

lemma lines_cancel_in [simp]: "lines (cancel_in i r) = lines r"
  by (simp add: cancel_in_def lines_def)

lemma outstanding_cancel_other:
  "i \<notin> ord_id ` set rs \<Longrightarrow> outstanding (map (cancel_in i) rs) b = outstanding rs b"
  by (simp add: map_cancel_other)

lemma outstanding_cancel:
  assumes "distinct (map ord_id rs)" "find_order_loop rs i = Some r" "live r"
  shows "outstanding (map (cancel_in i) rs) b + demand (lines r) b = outstanding rs b"
  using assms
proof (induction rs)
  case Nil
  then show ?case by simp
next
  case (Cons q rs)
  then show ?case
    by (cases "ord_id q = i")
      (auto simp: outstanding_Cons live_cancel_in map_cancel_other)
qed

lemma find_order_loop_distinct:
  "distinct (map ord_id rs) \<Longrightarrow> q \<in> set rs \<Longrightarrow> find_order_loop rs (ord_id q) = Some q"
  by (induction rs) auto

lemma map_cancel_dead:
  assumes "distinct (map ord_id rs)" "\<And>r. find_order_loop rs i = Some r \<Longrightarrow> \<not> live r"
  shows "map (cancel_in i) rs = rs"
proof (rule map_idI)
  fix q
  assume "q \<in> set rs"
  from find_order_loop_distinct[OF assms(1) this] assms(2) show "cancel_in i q = q"
    by (auto simp: cancel_in_def live_def)
qed

lemma price_items_loop_spec:
  assumes "\<And>i. bc_find_book BC i s = cat i"
  shows "price_items_loop BC reqs items total_cents s =
     (if orderable cat reqs
      then Some (items @ priced cat reqs, if reqs = [] then total_cents else wrap32 (total_cents + line_total (priced cat reqs)))
      else None)"
proof (induction reqs arbitrary: items total_cents)
  case Nil
  show ?case by (simp add: orderable_def priced_def)
next
  case (Cons r reqs)
  show ?case
    by (auto simp: Cons.IH assms orderable_def priced_def line_total_def add.assoc add.commute
        split: option.splits)
qed

section \<open>The service over any backend\<close>

text \<open>
  An order backend is an inventory client, a catalogue and an order repository on one state. \<open>orders s\<close>
  are the stored orders, \<open>cat s\<close> the catalogue and \<open>room s\<close> the number of order identifiers left.
\<close>

locale order_backend =
  inventory_client "os_inventory_client S" stock inv rest
  for S :: "'s OrderService"
    and stock :: "'s \<Rightarrow> int \<rightharpoonup> int"
    and inv :: "'s \<Rightarrow> bool"
    and rest :: "'s \<Rightarrow> 'f" +
  fixes orders :: "'s \<Rightarrow> Order list"
    and cat :: "'s \<Rightarrow> int \<rightharpoonup> Book"
    and room :: "'s \<Rightarrow> nat"
  assumes outside: "rest s = rest t \<Longrightarrow> orders s = orders t \<and> cat s = cat t \<and> room s = room t"
    and find_book: "inv s \<Longrightarrow> bc_find_book (os_book_client S) i s = cat s i"
    and next_id: "inv s \<Longrightarrow> os_next_id S s = (n, s') \<Longrightarrow>
      inv s' \<and> stock s' = stock s \<and> orders s' = orders s \<and> cat s' = cat s \<and> room s' = room s"
    and order_ids: "inv s \<Longrightarrow> distinct (map ord_id (orders s))"
    and order_pos: "inv s \<Longrightarrow> r \<in> set (orders s) \<Longrightarrow> ord_id r > 0"
    and repo_find: "inv s \<Longrightarrow> or_find_order (os_order_repository S) i s = find_order_loop (orders s) i"
    and repo_create_some: "inv s \<Longrightarrow> room s > 0 \<Longrightarrow>
      or_create_order (os_order_repository S) u items tc s = (Some r, s') \<Longrightarrow>
      ord_user_id r = u \<and> ord_items r = items \<and> ord_total_cents r = tc \<and> ord_status r = ''created'' \<and>
      ord_id r > 0 \<and> find_order_loop (orders s) (ord_id r) = None \<and>
      orders s' = orders s @ [r] \<and> stock s' = stock s \<and> cat s' = cat s \<and> room s' = room s - 1 \<and> inv s'"
    and repo_create_none: "inv s \<Longrightarrow> or_create_order (os_order_repository S) u items tc s = (None, s') \<Longrightarrow>
      orders s' = orders s \<and> stock s' = stock s \<and> cat s' = cat s \<and> room s' = room s \<and> inv s'"
    and repo_cancel: "inv s \<Longrightarrow> find_order_loop (orders s) i = Some r \<Longrightarrow>
      or_cancel_order (os_order_repository S) i s = (x, s') \<Longrightarrow>
      x = Some (cancel_in i r) \<and> orders s' = map (cancel_in i) (orders s) \<and> stock s' = stock s \<and>
      cat s' = cat s \<and> room s' = room s \<and> inv s'"
begin

lemma find_orderD:
  "inv s \<Longrightarrow> find_order_loop (orders s) i = Some r \<Longrightarrow> r \<in> set (orders s) \<and> ord_id r = i \<and> i > 0"
  using find_order_loop_SomeD order_pos by blast

lemma priced_loop:
  "inv s \<Longrightarrow> price_items_loop (os_book_client S) reqs [] 0 s =
     (if orderable (cat s) reqs
      then Some (priced (cat s) reqs, if reqs = [] then 0 else wrap32 (line_total (priced (cat s) reqs)))
      else None)"
  using price_items_loop_spec[of "os_book_client S" s "cat s" reqs "[]" 0] find_book[of s] by simp

text \<open>
  One description of \<^verbatim>\<open>create_order\<close>: a refused order changes neither stock nor orders, an accepted one
  takes exactly its lines out of the stock and is appended under a fresh identifier.
\<close>

lemma create_order_cases:
  assumes "inv s" "room s > 0" "OrderService_create_order S u reqs s = (x, s')"
  shows "inv s' \<and> cat s' = cat s \<and>
    (case x of
       None \<Rightarrow> stock s' = stock s \<and> orders s' = orders s \<and> room s' = room s
     | Some r \<Rightarrow>
         u > 0 \<and> reqs \<noteq> [] \<and> orderable (cat s) reqs \<and> servable (stock s) (reservation_items_of reqs) \<and>
         ord_user_id r = u \<and> ord_items r = priced (cat s) reqs \<and>
         ord_total_cents r = wrap32 (line_total (priced (cat s) reqs)) \<and> ord_status r = ''created'' \<and>
         ord_id r > 0 \<and> find_order_loop (orders s) (ord_id r) = None \<and>
         stock s' = deduct (stock s) (reservation_items_of reqs) \<and> orders s' = orders s @ [r] \<and>
         room s' = room s - 1)"
proof (cases "u \<le> 0 \<or> reqs = [] \<or> \<not> orderable (cat s) reqs")
  case True
  with assms show ?thesis
    by (auto simp: OrderService_create_order_def priced_loop split: if_splits)
next
  case False
  let ?items = "priced (cat s) reqs" and ?t = "wrap32 (line_total (priced (cat s) reqs))"
  let ?res = "reservation_items_of reqs"
  have ne: "?res \<noteq> []"
    using False by (simp add: reservation_items_of_def)
  obtain rid s1 where id: "next_reservation_id S u s = (rid, s1)"
    by fastforce
  then have s1: "inv s1" "stock s1 = stock s" "orders s1 = orders s" "cat s1 = cat s" "room s1 = room s"
    using next_id[OF assms(1)] by (auto simp: next_reservation_id_def split: prod.splits)
  obtain ok s2 where rv: "ic_reserve_stock_items (os_inventory_client S) rid ?res s1 = (ok, s2)"
    by fastforce
  have s2: "ok = servable (stock s) ?res" "inv s2"
      "stock s2 = (if ok then deduct (stock s) ?res else stock s)" "rest s2 = rest s1"
    using reserve_items[OF s1(1) ne rv] s1(2) by simp_all
  have s2': "orders s2 = orders s" "cat s2 = cat s" "room s2 = room s"
    using outside[OF s2(4)] s1 by simp_all
  obtain y s3 where cr: "or_create_order (os_order_repository S) u ?items ?t s2 = (y, s3)"
    by fastforce
  have body: "(x, s') = (if \<not> ok then (None, s2) else case y of Some order \<Rightarrow> (Some order, s3)
      | None \<Rightarrow> (None, ic_release_stock_items (os_inventory_client S) rid ?res s3))"
    using assms(3) False
    by (cases ok; cases y) (auto simp: OrderService_create_order_def priced_loop assms(1) id rv cr)
  show ?thesis
  proof (cases ok)
    case ok: False
    with body s2 s2' show ?thesis by simp
  next
    case ok: True
    show ?thesis
    proof (cases y)
      case None
      with repo_create_none[OF s2(2)] cr s2' have s3: "orders s3 = orders s" "stock s3 = stock s2"
          "cat s3 = cat s" "room s3 = room s" "inv s3"
        by auto
      have "fits (stock s3) ?res"
        using ok s2(1,3) stock_int32[OF assms(1)]
        by (auto simp: s3(2) fits_def deduct_def servable_def split: option.splits)
      from release_items[OF s3(5) this refl, of rid]
      have "stock s' = stock s" "inv s'" "rest s' = rest s3" "x = None"
        using None body ok s3(2) s2(3) by simp_all
      with outside[of s' s3] s3 show ?thesis by simp
    next
      case (Some r)
      with body ok have "x = Some r" "s' = s3" by simp_all
      with repo_create_some[OF s2(2), of u ?items ?t r s3] cr Some False ok s2 s2' assms(2) show ?thesis
        by simp
    qed
  qed
qed

lemma release_order_items_restock:
  assumes "inv s" and "fits (stock s) (map (\<lambda>i. \<lparr>im_book_id = oi_book_id i, im_quantity = oi_quantity i\<rparr>) items)"
    and "t = release_order_items (os_inventory_client S) items s"
  shows "stock t = restock (stock s) (map (\<lambda>i. \<lparr>im_book_id = oi_book_id i, im_quantity = oi_quantity i\<rparr>) items) \<and>
         inv t \<and> rest t = rest s"
  using assms
proof (induction items arbitrary: s)
  case Nil
  then show ?case by (simp add: release_order_items_def)
next
  case (Cons i items)
  let ?m = "\<lambda>i. \<lparr>im_book_id = oi_book_id i, im_quantity = oi_quantity i\<rparr>"
  let ?u = "ic_release_stock (os_inventory_client S) (oi_book_id i) (oi_quantity i) s"
  have split: "fits (stock s) [?m i]" "fits (restock (stock s) [?m i]) (map ?m items)"
    using fits_Cons[of "stock s" "?m i" "map ?m items"] Cons.prems(2) stock_int32[OF Cons.prems(1)] by simp_all
  have u: "stock ?u = restock (stock s) [?m i]" "inv ?u" "rest ?u = rest s"
    using release_one[OF Cons.prems(1) split(1), of ?u] by simp_all
  have "t = release_order_items (os_inventory_client S) items ?u"
    using Cons.prems(3) by (simp add: release_order_items_def)
  from Cons.IH[OF u(2) _ this] u split(2) show ?case
    using restock_append[of "stock s" "[?m i]" "map ?m items"] by simp
qed

text \<open>
  One description of \<^verbatim>\<open>cancel_order\<close>: an unknown order is refused, a cancelled one is returned unchanged, a
  live one is marked and its lines return to the stock.
\<close>

lemma cancel_order_cases:
  assumes "inv s" "OrderService_cancel_order S i s = (x, s')"
    and "\<And>r. find_order_loop (orders s) i = Some r \<Longrightarrow> live r \<Longrightarrow> fits (stock s) (lines r)"
  shows "inv s' \<and> cat s' = cat s \<and> room s' = room s \<and>
    x = map_option (cancel_in i) (find_order_loop (orders s) i) \<and>
    orders s' = map (cancel_in i) (orders s) \<and>
    stock s' = (case find_order_loop (orders s) i of
        Some r \<Rightarrow> if live r then restock (stock s) (lines r) else stock s
      | None \<Rightarrow> stock s)"
proof (cases "find_order_loop (orders s) i")
  case None
  then have "map (cancel_in i) (orders s) = orders s"
    by (simp add: map_cancel_other find_order_loop_None)
  moreover have "x = None" "s' = s"
    using assms(1,2) None by (auto simp: OrderService_cancel_order_def repo_find split: if_splits)
  ultimately show ?thesis
    using assms(1) None by simp
next
  case (Some r)
  note r = find_orderD[OF assms(1) Some]
  show ?thesis
  proof (cases "live r")
    case False
    then have "x = Some r" "s' = s"
      using assms(1,2) Some r by (simp_all add: OrderService_cancel_order_def repo_find live_def)
    moreover have "cancel_in i r = r"
      using False by (simp add: cancel_in_def live_def)
    moreover have "map (cancel_in i) (orders s) = orders s"
      using False Some map_cancel_dead[OF order_ids[OF assms(1)], of i] by simp
    ultimately show ?thesis
      using Some False assms(1) by simp
  next
    case True
    obtain y s1 where c: "or_cancel_order (os_order_repository S) i s = (y, s1)"
      by fastforce
    from repo_cancel[OF assms(1) Some c]
    have s1: "y = Some (cancel_in i r)" "orders s1 = map (cancel_in i) (orders s)" "stock s1 = stock s"
        "cat s1 = cat s" "room s1 = room s" "inv s1" by simp_all
    have body: "x = y" "s' = release_order_items (os_inventory_client S) (ord_items r) s1"
      using assms(1,2) Some r True c s1(1)
      by (simp_all add: OrderService_cancel_order_def repo_find live_def cancel_in_def)
    have "fits (stock s1) (lines r)"
      using assms(3)[OF Some True] s1(3) by simp
    from release_order_items_restock[OF s1(6) this[unfolded lines_def] body(2)]
    have "stock s' = restock (stock s) (lines r)" "inv s'" "rest s' = rest s1"
      by (simp_all add: s1(3) lines_def)
    with outside[of s' s1] s1 body Some True show ?thesis by simp
  qed
qed

end

section \<open>Books are neither lost nor invented\<close>

text \<open>
  Sequences of calls that move stock: an order, a cancellation, a delivery through the inventory client.
  \<open>order_run\<close> collects the deliveries that were accepted.
\<close>

datatype OrderOp =
    OpCreate int "OrderItemRequest list"
  | OpCancel int
  | OpInbound int int

fun order_step :: "'s OrderService \<Rightarrow> OrderOp \<Rightarrow> 's \<Rightarrow> InventoryMutation list \<times> 's" where
  "order_step S (OpCreate u reqs) s = ([], snd (OrderService_create_order S u reqs s))"
| "order_step S (OpCancel i) s = ([], snd (OrderService_cancel_order S i s))"
| "order_step S (OpInbound b q) s =
     (case ic_add_stock (os_inventory_client S) b q s of
        (None, s') \<Rightarrow> ([], s')
      | (Some _, s') \<Rightarrow> ([\<lparr>im_book_id = b, im_quantity = q\<rparr>], s'))"

fun order_run :: "'s OrderService \<Rightarrow> OrderOp list \<Rightarrow> 's \<Rightarrow> InventoryMutation list \<times> 's" where
  "order_run S [] s = ([], s)"
| "order_run S (c # cs) s =
     (case order_step S c s of (d, s') \<Rightarrow> case order_run S cs s' of (ds, s'') \<Rightarrow> (d @ ds, s''))"

text \<open>The positive deliveries of book \<open>b\<close> that a sequence asks for.\<close>

fun asked :: "OrderOp list \<Rightarrow> int \<Rightarrow> int" where
  "asked [] b = 0"
| "asked (OpInbound b' q # cs) b = (if b' = b then max q 0 else 0) + asked cs b"
| "asked (OpCreate u reqs # cs) b = asked cs b"
| "asked (OpCancel i # cs) b = asked cs b"

definition copies :: "(int \<rightharpoonup> int) \<Rightarrow> Order list \<Rightarrow> int \<Rightarrow> int" where
  "copies stk rs b = level stk b + outstanding rs b"

text \<open>
  No stock level is negative, every live order holds positive amounts of known books, and all copies of a
  book together fit the machine integer.
\<close>

definition balanced :: "(int \<rightharpoonup> int) \<Rightarrow> Order list \<Rightarrow> bool" where
  "balanced stk rs \<longleftrightarrow>
     (\<forall>b v. stk b = Some v \<longrightarrow> 0 \<le> v) \<and>
     (\<forall>r \<in> set rs. live r \<longrightarrow> (\<forall>l \<in> set (lines r). 0 < im_quantity l \<and> stk (im_book_id l) \<noteq> None)) \<and>
     (\<forall>b. copies stk rs b < 2 ^ 31)"

lemma asked_nonneg: "0 \<le> asked cs b"
proof (induction cs)
  case (Cons c cs)
  then show ?case by (cases c) auto
qed simp

lemma outstanding_nonneg:
  "\<forall>r \<in> set rs. live r \<longrightarrow> (\<forall>l \<in> set (lines r). 0 < im_quantity l) \<Longrightarrow> 0 \<le> outstanding rs b"
proof (induction rs)
  case (Cons r rs)
  then show ?case
    using demand_nonneg[of "lines r" b] by (auto simp: outstanding_Cons)
qed simp

lemma outstanding_ge:
  assumes "\<forall>r \<in> set rs. live r \<longrightarrow> (\<forall>l \<in> set (lines r). 0 < im_quantity l)" "q \<in> set rs" "live q"
  shows "demand (lines q) b \<le> outstanding rs b"
proof -
  obtain xs ys where rs: "rs = xs @ q # ys"
    using assms(2) by (auto simp: in_set_conv_decomp)
  moreover have "0 \<le> outstanding xs b" "0 \<le> outstanding ys b"
    using assms(1) by (auto simp: rs intro!: outstanding_nonneg)
  ultimately show ?thesis
    using assms(3) by (simp add: outstanding_append outstanding_Cons)
qed

lemma level_deduct: "servable stk items \<Longrightarrow> level (deduct stk items) b = level stk b - demand items b"
  by (cases "b \<in> im_book_id ` set items")
    (auto simp: level_def deduct_def servable_def demand_other split: option.splits)

lemma level_restock:
  "\<forall>i \<in> set items. stk (im_book_id i) \<noteq> None \<Longrightarrow> level (restock stk items) b = level stk b + demand items b"
  by (cases "b \<in> im_book_id ` set items")
    (auto simp: level_def restock_def demand_other split: option.splits)

lemma deduct_nonneg:
  "\<forall>b v. stk b = Some v \<longrightarrow> 0 \<le> v \<Longrightarrow> servable stk items \<Longrightarrow> deduct stk items b = Some v \<Longrightarrow> 0 \<le> v"
  by (cases "b \<in> im_book_id ` set items")
    (auto simp: deduct_def servable_def demand_other split: option.splits)

lemma balanced_fits:
  assumes "balanced stk rs" "r \<in> set rs" "live r"
  shows "fits stk (lines r)"
proof -
  have pos: "\<forall>q \<in> set rs. live q \<longrightarrow> (\<forall>l \<in> set (lines q). 0 < im_quantity l)"
    using assms(1) by (auto simp: balanced_def)
  have "int32 (v + demand (lines r) b)" if "stk b = Some v" for b v
  proof -
    have "0 \<le> v" "level stk b = v" "copies stk rs b < 2 ^ 31"
      using that assms(1) by (auto simp: balanced_def level_def)
    moreover have "demand (lines r) b \<le> outstanding rs b"
      using outstanding_ge[OF pos assms(2,3)] .
    moreover have "0 \<le> demand (lines r) b"
      using pos assms by (intro demand_nonneg) auto
    ultimately show ?thesis
      by (simp add: copies_def int32_def)
  qed
  with assms show ?thesis
    by (auto simp: fits_def balanced_def)
qed

lemma balanced_take:
  assumes "balanced stk rs" "servable stk (lines r)" "live r"
  shows "copies (deduct stk (lines r)) (rs @ [r]) b = copies stk rs b"
    and "balanced (deduct stk (lines r)) (rs @ [r])"
proof -
  have same: "copies (deduct stk (lines r)) (rs @ [r]) b = copies stk rs b" for b
    using assms by (simp add: copies_def level_deduct outstanding_append outstanding_Cons)
  then show "copies (deduct stk (lines r)) (rs @ [r]) b = copies stk rs b" .
  have known: "(\<exists>y. deduct stk (lines r) c = Some y) \<longleftrightarrow> (\<exists>y. stk c = Some y)" for c
    by (auto simp: deduct_def)
  have "0 \<le> v" if "deduct stk (lines r) c = Some v" for c v
    using deduct_nonneg[OF _ assms(2) that] assms(1) by (auto simp: balanced_def)
  moreover have "0 < im_quantity l \<and> stk (im_book_id l) \<noteq> None" if "l \<in> set (lines r)" for l
    using assms(2) that by (auto simp: servable_def split: option.splits)
  ultimately show "balanced (deduct stk (lines r)) (rs @ [r])"
    using assms(1) by (auto simp: balanced_def same known)
qed

lemma balanced_return:
  assumes "balanced stk rs" "distinct (map ord_id rs)" "find_order_loop rs i = Some r" "live r"
  shows "copies (restock stk (lines r)) (map (cancel_in i) rs) b = copies stk rs b"
    and "balanced (restock stk (lines r)) (map (cancel_in i) rs)"
proof -
  have r: "r \<in> set rs" "ord_id r = i"
    using find_order_loop_SomeD[OF assms(3)] by auto
  then have ok: "\<forall>l \<in> set (lines r). 0 < im_quantity l \<and> stk (im_book_id l) \<noteq> None"
    using assms(1,4) by (auto simp: balanced_def)
  have same: "copies (restock stk (lines r)) (map (cancel_in i) rs) b = copies stk rs b" for b
    using outstanding_cancel[OF assms(2-4), of b] ok by (simp add: copies_def level_restock)
  then show "copies (restock stk (lines r)) (map (cancel_in i) rs) b = copies stk rs b" .
  have known: "(\<exists>y. restock stk (lines r) c = Some y) \<longleftrightarrow> (\<exists>y. stk c = Some y)" for c
    by (auto simp: restock_def)
  have "0 \<le> demand (lines r) c" for c
    using ok by (intro demand_nonneg) auto
  then have "0 \<le> v" if "restock stk (lines r) c = Some v" for c v
    using that assms(1) by (fastforce simp: restock_def balanced_def)
  then show "balanced (restock stk (lines r)) (map (cancel_in i) rs)"
    using assms(1) by (auto simp: balanced_def same known live_cancel_in)
qed

lemma balanced_deliver:
  assumes "balanced stk rs" "0 < q" "copies stk rs b + q < 2 ^ 31"
  shows "copies (stk(b \<mapsto> level stk b + q)) rs c = copies stk rs c + (if c = b then q else 0)"
    and "balanced (stk(b \<mapsto> level stk b + q)) rs"
proof -
  have same: "copies (stk(b \<mapsto> level stk b + q)) rs c = copies stk rs c + (if c = b then q else 0)" for c
    by (simp add: copies_def level_def)
  then show "copies (stk(b \<mapsto> level stk b + q)) rs c = copies stk rs c + (if c = b then q else 0)" .
  have "0 \<le> level stk b"
    using assms(1) by (auto simp: balanced_def level_def split: option.splits)
  then show "balanced (stk(b \<mapsto> level stk b + q)) rs"
    using assms by (auto simp: balanced_def same split: if_splits)
qed

context order_backend
begin

text \<open>The copies of \<open>b\<close> in stock or held by live orders, in a state.\<close>

definition sum_of :: "'s \<Rightarrow> int \<Rightarrow> int" where
  "sum_of s = copies (stock s) (orders s)"

definition sound :: "'s \<Rightarrow> bool" where
  "sound s \<longleftrightarrow> inv s \<and> balanced (stock s) (orders s)"

lemma create_sound:
  assumes "sound s" "room s > 0" "OrderService_create_order S u reqs s = (x, s')"
  shows "sound s' \<and> sum_of s' = sum_of s \<and> room s \<le> Suc (room s')"
proof (cases x)
  case None
  with create_order_cases[OF _ assms(2,3)] assms(1) show ?thesis
    by (simp add: sound_def sum_of_def)
next
  case (Some r)
  have c: "inv s'" "servable (stock s) (reservation_items_of reqs)"
      "ord_items r = priced (cat s) reqs" "ord_status r = ''created''"
      "stock s' = deduct (stock s) (reservation_items_of reqs)" "orders s' = orders s @ [r]" "room s' = room s - 1"
    using create_order_cases[OF _ assms(2,3)] assms(1) Some by (auto simp: sound_def)
  have l: "reservation_items_of reqs = lines r"
    using lines_priced[OF c(3)] by simp
  show ?thesis
    using balanced_take[of "stock s" "orders s" r] c assms(1,2)
    by (auto simp: sound_def sum_of_def l live_def)
qed

lemma cancel_sound:
  assumes "sound s" "OrderService_cancel_order S i s = (x, s')"
  shows "sound s' \<and> sum_of s' = sum_of s \<and> room s' = room s"
proof -
  have inv: "inv s" and bal: "balanced (stock s) (orders s)"
    using assms(1) by (auto simp: sound_def)
  have fit: "fits (stock s) (lines r)" if "find_order_loop (orders s) i = Some r" "live r" for r
    using balanced_fits[OF bal _ that(2)] find_orderD[OF inv that(1)] by simp
  note c = cancel_order_cases[OF inv assms(2) fit]
  show ?thesis
  proof (cases "\<exists>r. find_order_loop (orders s) i = Some r \<and> live r")
    case True
    then obtain r where r: "find_order_loop (orders s) i = Some r" "live r" by blast
    with c balanced_return[OF bal order_ids[OF inv] r] show ?thesis
      by (auto simp: sound_def sum_of_def)
  next
    case False
    with map_cancel_dead[OF order_ids[OF inv], of i] have "map (cancel_in i) (orders s) = orders s"
      by blast
    with c False bal show ?thesis
      by (auto simp: sound_def sum_of_def split: option.splits)
  qed
qed

lemma inbound_sound:
  assumes "sound s" "sum_of s b + max q 0 < 2 ^ 31" "ic_add_stock (os_inventory_client S) b q s = (x, s')"
  shows "sound s' \<and> room s' = room s \<and>
         (case x of None \<Rightarrow> sum_of s' = sum_of s
          | Some n \<Rightarrow> 0 < q \<and> (\<forall>c. sum_of s' c = sum_of s c + (if c = b then q else 0)))"
proof -
  have inv: "inv s" and bal: "balanced (stock s) (orders s)"
    using assms(1) by (auto simp: sound_def)
  have nonneg: "0 \<le> level (stock s) b" "0 \<le> outstanding (orders s) b"
    using bal by (auto simp: balanced_def level_def split: option.splits intro!: outstanding_nonneg)
  then have "q > 0 \<Longrightarrow> int32 (level (stock s) b + q)"
    using assms(2) by (simp add: int32_def sum_of_def copies_def)
  note a = add_stock[OF inv this assms(3)]
  have o: "orders s' = orders s" "room s' = room s" "inv s'"
    using outside[of s' s] a by simp_all
  show ?thesis
  proof (cases x)
    case None
    with a o bal show ?thesis by (simp add: sound_def sum_of_def)
  next
    case (Some n)
    with a have q: "0 < q" "stock s' = (stock s)(b \<mapsto> level (stock s) b + q)" by auto
    have "copies (stock s) (orders s) b + q < 2 ^ 31"
      using assms(2) q(1) by (simp add: sum_of_def)
    from balanced_deliver[OF bal q(1) this] q o Some show ?thesis
      by (simp add: sound_def sum_of_def)
  qed
qed

lemma step_sound:
  assumes "sound s" "room s > 0" "\<And>b. sum_of s b + asked [c] b < 2 ^ 31"
    and "order_step S c s = (d, s')"
  shows "sound s' \<and> room s \<le> Suc (room s') \<and> sum_of s' b = sum_of s b + demand d b \<and> demand d b \<le> asked [c] b"
proof (cases c)
  case (OpCreate u reqs)
  with assms create_sound[of s u reqs "fst (OrderService_create_order S u reqs s)" s'] show ?thesis
    by auto
next
  case (OpCancel i)
  with assms cancel_sound[of s i "fst (OrderService_cancel_order S i s)" s'] show ?thesis
    by auto
next
  case (OpInbound b' q)
  obtain x t where a: "ic_add_stock (os_inventory_client S) b' q s = (x, t)"
    by fastforce
  have "sum_of s b' + max q 0 < 2 ^ 31"
    using assms(3)[of b'] OpInbound by simp
  from inbound_sound[OF assms(1) this a] a OpInbound assms(4) show ?thesis
    by (cases x) (auto simp: demand_Cons)
qed

text \<open>
  Along any sequence of orders, cancellations and deliveries that leaves identifiers and integers in
  range, the copies in stock and in live orders grow by the accepted deliveries only.
\<close>

lemma run_sound:
  assumes "sound s" "length cs \<le> room s" "\<And>b. sum_of s b + asked cs b < 2 ^ 31"
    and "order_run S cs s = (ds, s')"
  shows "sound s' \<and> sum_of s' b = sum_of s b + demand ds b"
  using assms
proof (induction cs arbitrary: s ds)
  case Nil
  then show ?case by simp
next
  case (Cons c cs)
  obtain d t where st: "order_step S c s = (d, t)" by fastforce
  obtain ds' where run: "order_run S cs t = (ds', s')" and ds: "ds = d @ ds'"
    using Cons.prems(4) st by (auto split: prod.splits)
  have split: "asked (c # cs) b = asked [c] b + asked cs b" for b
    by (cases c) auto
  have one: "sum_of s b + asked [c] b < 2 ^ 31" for b
    using Cons.prems(3)[of b] asked_nonneg[of cs b] by (simp add: split)
  have t: "sound t" "room s \<le> Suc (room t)" "sum_of t b = sum_of s b + demand d b" "demand d b \<le> asked [c] b" for b
    using step_sound[OF Cons.prems(1) _ one st] Cons.prems(2) by auto
  have "sum_of t b + asked cs b < 2 ^ 31" for b
    using Cons.prems(3)[of b] t(3,4)[of b] by (simp add: split)
  from Cons.IH[OF t(1) _ this run] t(2) Cons.prems(2) t(3) show ?case
    by (simp add: ds demand_append)
qed

text \<open>Creating an order and cancelling it gives the stock back.\<close>

lemma create_cancel_restores:
  assumes "sound s" "room s > 0" "OrderService_create_order S u reqs s = (Some r, t)"
    and "OrderService_cancel_order S (ord_id r) t = (x, s')"
  shows "stock s' = stock s \<and> x = Some (r\<lparr>ord_status := ''cancelled''\<rparr>) \<and>
         orders s' = orders s @ [r\<lparr>ord_status := ''cancelled''\<rparr>]"
proof -
  have inv: "inv s"
    using assms(1) by (simp add: sound_def)
  have c: "inv t" "ord_items r = priced (cat s) reqs" "ord_status r = ''created''"
      "find_order_loop (orders s) (ord_id r) = None"
      "stock t = deduct (stock s) (reservation_items_of reqs)" "orders t = orders s @ [r]"
    using create_order_cases[OF inv assms(2,3)] by simp_all
  have found: "find_order_loop (orders t) (ord_id r) = Some r"
    using c(4,6) by (simp add: find_order_loop_append)
  have bal: "balanced (stock t) (orders t)"
    using create_sound[OF assms(1-3)] by (simp add: sound_def)
  have "fits (stock t) (lines r)"
    using balanced_fits[OF bal, of r] c(3,6) by (simp add: live_def)
  with cancel_order_cases[OF c(1) assms(4)] found
  have "x = Some (cancel_in (ord_id r) r)" "orders s' = map (cancel_in (ord_id r)) (orders t)"
      "stock s' = restock (stock t) (lines r)"
    using c(3) by (auto simp: live_def)
  then show ?thesis
    using c lines_priced[OF c(2)] map_cancel_other[of "ord_id r" "orders s"]
    by (simp add: cancel_in_def find_order_loop_None)
qed

text \<open>Cancelling twice is cancelling once.\<close>

lemma cancel_cancel:
  assumes "sound s" "OrderService_cancel_order S i s = (x, t)" "OrderService_cancel_order S i t = (y, s')"
  shows "y = x \<and> s' = t"
proof -
  have inv: "inv s" and bal: "balanced (stock s) (orders s)"
    using assms(1) by (auto simp: sound_def)
  have fit: "fits (stock s) (lines r)" if "find_order_loop (orders s) i = Some r" "live r" for r
    using balanced_fits[OF bal _ that(2)] find_orderD[OF inv that(1)] by simp
  have t: "inv t" "x = map_option (cancel_in i) (find_order_loop (orders s) i)"
      "orders t = map (cancel_in i) (orders s)"
    using cancel_order_cases[OF inv assms(2) fit] by auto
  have find: "find_order_loop (map (cancel_in i) rs) i = map_option (cancel_in i) (find_order_loop rs i)" for rs
    by (induction rs) auto
  show ?thesis
  proof (cases "find_order_loop (orders s) i")
    case None
    with t find assms(3) repo_find[OF t(1)] show ?thesis
      by (auto simp: OrderService_cancel_order_def split: if_splits)
  next
    case (Some r)
    with find_orderD[OF inv Some] t find assms(3) repo_find[OF t(1)] show ?thesis
      by (auto simp: OrderService_cancel_order_def cancel_in_def)
  qed
qed

end

text \<open>A repository that stores every well-formed order makes \<^verbatim>\<open>create_order\<close> succeed exactly when it should.\<close>

locale accepting_order_backend = order_backend +
  assumes repo_accepts: "inv s \<Longrightarrow> u > 0 \<Longrightarrow> items \<noteq> [] \<Longrightarrow>
    fst (or_create_order (os_order_repository S) u items tc s) \<noteq> None"
begin

lemma create_order_iff:
  assumes "inv s" "room s > 0"
  shows "fst (OrderService_create_order S u reqs s) \<noteq> None \<longleftrightarrow>
    u > 0 \<and> reqs \<noteq> [] \<and> orderable (cat s) reqs \<and> servable (stock s) (reservation_items_of reqs)"
    (is "?created \<longleftrightarrow> ?ok")
proof
  assume ?created
  then show ?ok
    using create_order_cases[OF assms, of u reqs "fst (OrderService_create_order S u reqs s)"
        "snd (OrderService_create_order S u reqs s)"] by (auto split: option.splits)
next
  assume ok: ?ok
  let ?res = "reservation_items_of reqs"
  obtain rid s1 where id: "next_reservation_id S u s = (rid, s1)"
    by fastforce
  then have s1: "inv s1" "stock s1 = stock s"
    using next_id[OF assms(1)] by (auto simp: next_reservation_id_def split: prod.splits)
  obtain b s2 where rv: "ic_reserve_stock_items (os_inventory_client S) rid ?res s1 = (b, s2)"
    by fastforce
  have s2: "b" "inv s2"
    using reserve_items[OF s1(1) _ rv] s1(2) ok by (simp_all add: reservation_items_of_def)
  have "priced (cat s) reqs \<noteq> []"
    using ok by (simp add: priced_def)
  then obtain r s3 where "or_create_order (os_order_repository S) u (priced (cat s) reqs)
      (wrap32 (line_total (priced (cat s) reqs))) s2 = (Some r, s3)"
    using repo_accepts[OF s2(2), of u "priced (cat s) reqs"] ok by (metis option.exhaust prod.collapse)
  then show ?created
    using ok s2(1) by (simp add: OrderService_create_order_def priced_loop assms(1) id rv)
qed

end

section \<open>The in-memory backend\<close>

definition memory_order_service :: "App OrderService" where
  "memory_order_service =
     OrderService_of_repositories memory_book_repository memory_inventory_repository
       memory_order_repository next_id_fetch_add"

definition app_order_list :: "App \<Rightarrow> Order list" where
  "app_order_list s = mo_orders (app_orders s)"

definition orders_ok :: "MemoryOrderRepository \<Rightarrow> bool" where
  "orders_ok m \<longleftrightarrow> distinct (map ord_id (mo_orders m)) \<and> 0 < mo_next_order_id m \<and>
     (\<forall>r \<in> set (mo_orders m). 0 < ord_id r \<and> ord_id r < mo_next_order_id m)"

definition app_ok :: "App \<Rightarrow> bool" where
  "app_ok s \<longleftrightarrow> inventory_ok s \<and> books_ok s \<and> orders_ok (app_orders s)"

definition order_room :: "App \<Rightarrow> nat" where
  "order_room s = nat (2 ^ 31 - 1 - mo_next_order_id (app_orders s))"

lemma memory_order_service_simps [simp]:
  "os_inventory_client memory_order_service = LocalInventoryClient memory_inventory_repository"
  "os_book_client memory_order_service = LocalBookClient memory_book_repository"
  "os_order_repository memory_order_service = memory_order_repository"
  "os_next_id memory_order_service = next_id_fetch_add"
  by (simp_all add: memory_order_service_def OrderService_of_repositories_def)

lemma outside_app_ok:
  "outside_inventory s = outside_inventory t \<Longrightarrow> app_ok t \<Longrightarrow> inventory_ok s \<Longrightarrow> app_ok s"
  by (simp add: outside_inventory_def app_ok_def books_ok_def)

text \<open>
  The inventory operations leave the catalogue and the orders alone, so the laws of the local inventory
  client also hold for the stronger invariant.
\<close>

interpretation mem_orders_inventory:
  inventory_client "LocalInventoryClient memory_inventory_repository" app_stock app_ok outside_inventory
proof (unfold_locales, goal_cases)
  case (1 s b)
  then show ?case by (simp add: app_ok_def mem_inventory.local_client.available)
next
  case (2 s b v)
  then show ?case using mem_inventory.local_client.stock_int32[of s b v] by (simp add: app_ok_def)
next
  case (3 s items rid ok s')
  then show ?case
    using mem_inventory.local_client.reserve_items[OF _ 3(2,3)] outside_app_ok[of s' s]
    by (simp add: app_ok_def[of s])
next
  case (4 s items s' rid)
  then show ?case
    using mem_inventory.local_client.release_items[OF _ 4(2,3)] outside_app_ok[of s' s]
    by (simp add: app_ok_def[of s])
next
  case (5 s i s')
  then show ?case
    using mem_inventory.local_client.release_one[OF _ 5(2,3)] outside_app_ok[of s' s]
    by (simp add: app_ok_def[of s])
next
  case (6 s b q r s')
  then show ?case
    using mem_inventory.local_client.add_stock[OF _ 6(2,3)] outside_app_ok[of s' s]
    by (simp add: app_ok_def[of s])
qed

lemma memory_order_create:
  assumes "or_create_order memory_order_repository u items tc s = (x, s')"
  shows "if u \<le> 0 \<or> items = [] then x = None \<and> s' = s
    else \<exists>r. x = Some r \<and> ord_id r = mo_next_order_id (app_orders s) \<and> ord_user_id r = u \<and> ord_items r = items \<and>
           ord_total_cents r = tc \<and> ord_status r = ''created'' \<and>
           s' = s\<lparr>app_orders := \<lparr>mo_next_order_id = wrap32 (mo_next_order_id (app_orders s) + 1),
                                  mo_orders = mo_orders (app_orders s) @ [r]\<rparr>\<rparr>"
  using assms
  by (auto simp: memory_order_repository_def MemoryOrderRepository_create_order_def Let_def split: if_splits)

lemma app_orders_update_frame [simp]:
  "app_stock (s\<lparr>app_orders := m\<rparr>) = app_stock s" "book_cat (s\<lparr>app_orders := m\<rparr>) = book_cat s"
  "app_order_list (s\<lparr>app_orders := m\<rparr>) = mo_orders m"
  "inventory_ok (s\<lparr>app_orders := m\<rparr>) = inventory_ok s" "books_ok (s\<lparr>app_orders := m\<rparr>) = books_ok s"
  by (simp_all add: app_stock_def book_cat_def app_order_list_def inventory_ok_def books_ok_def)

interpretation mem_orders:
  accepting_order_backend memory_order_service app_stock app_ok outside_inventory app_order_list book_cat
    order_room
proof (intro accepting_order_backend.intro order_backend.intro order_backend_axioms.intro
    accepting_order_backend_axioms.intro, simp_all only: memory_order_service_simps, goal_cases)
  case 1
  show ?case by (rule mem_orders_inventory.inventory_client_axioms)
next
  case (2 s t)
  then show ?case
    by (simp add: outside_inventory_def app_order_list_def book_cat_def order_room_def)
next
  case (3 s i)
  then show ?case
    by (simp add: LocalBookClient_def BookService_find_book_def app_ok_def mem_books.find)
next
  case (4 s n s')
  then show ?case
    by (auto simp: next_id_fetch_add_def app_ok_def inventory_ok_def books_ok_def app_stock_def
        app_order_list_def book_cat_def order_room_def)
next
  case (5 s)
  then show ?case by (simp add: app_ok_def orders_ok_def app_order_list_def)
next
  case (6 s r)
  then show ?case by (simp add: app_ok_def orders_ok_def app_order_list_def)
next
  case (7 s i)
  show ?case
    by (simp add: memory_order_repository_def MemoryOrderRepository_find_order_def app_order_list_def)
next
  case (8 s u items tc r s')
  let ?n = "mo_next_order_id (app_orders s)"
  have n: "0 < ?n" "?n < 2 ^ 31 - 1" "wrap32 (?n + 1) = ?n + 1"
    using 8(1,2) by (auto simp: app_ok_def orders_ok_def order_room_def wrap_simps int32_def)
  have r: "ord_id r = ?n" "ord_user_id r = u" "ord_items r = items" "ord_total_cents r = tc"
      "ord_status r = ''created''"
      "s' = s\<lparr>app_orders := \<lparr>mo_next_order_id = ?n + 1, mo_orders = mo_orders (app_orders s) @ [r]\<rparr>\<rparr>"
    using memory_order_create[OF 8(3)] n by (auto split: if_splits)
  have fresh: "find_order_loop (mo_orders (app_orders s)) ?n = None"
    using 8(1) by (force simp: app_ok_def orders_ok_def find_order_loop_None)
  have "app_ok s'"
    using 8(1) r fresh by (auto simp: app_ok_def orders_ok_def find_order_loop_None)
  with r n fresh show ?case
    by (simp add: app_order_list_def order_room_def)
next
  case (9 s u items tc s')
  then show ?case
    using memory_order_create[OF 9(2)] by (auto split: if_splits)
next
  case (10 s i r x s')
  have d: "distinct (map ord_id (mo_orders (app_orders s)))"
    using 10(1) by (simp add: app_ok_def orders_ok_def)
  have x: "x = Some (cancel_in i r)"
      "s' = s\<lparr>app_orders := (app_orders s)\<lparr>mo_orders := map (cancel_in i) (mo_orders (app_orders s))\<rparr>\<rparr>"
    using 10 d by (auto simp: memory_order_repository_def MemoryOrderRepository_cancel_order_def
        cancel_order_loop_map app_order_list_def)
  have "app_ok s'"
    using 10(1) by (auto simp: x app_ok_def orders_ok_def o_def)
  with x show ?case
    by (simp add: app_order_list_def order_room_def)
next
  case (11 s u items tc)
  then show ?case
    by (simp add: memory_order_repository_def MemoryOrderRepository_create_order_def Let_def)
qed

end
