(* ===== verification/Recommend.thy ===== *)
theory Recommend
  imports Book_Service Complex_Main "HOL-Library.Product_Lexorder"
begin

text \<open>
  \<^verbatim>\<open>src/app/recommend/book_embedder.h\<close>, the default \<^verbatim>\<open>TopKRecommendationIndex\<close> of
  \<^verbatim>\<open>src/app/recommend/book_vector_index.cpp\<close> and \<^verbatim>\<open>src/app/service/recommend_service.h\<close>. A \<^verbatim>\<open>float\<close> is the
  rational number it denotes, every operation is followed by rounding to the nearest binary32 value,
  ties to even. Infinities and NaN do not occur: the operands are counts of words, prices and their
  quotients by a positive norm.
\<close>

section \<open>Single precision arithmetic\<close>

type_synonym float32 = rat

fun bit_count :: "nat \<Rightarrow> nat" where
  "bit_count n = (if n = 0 then 0 else Suc (bit_count (n div 2)))"

declare bit_count.simps [simp del]

definition scale2 :: "rat \<Rightarrow> int \<Rightarrow> rat" where
  "scale2 x e = (if e \<ge> 0 then x * 2 ^ nat e else x / 2 ^ nat (- e))"

definition round_half_even :: "rat \<Rightarrow> int" where
  "round_half_even y =
     (let f = \<lfloor>y\<rfloor>; d = y - of_int f in
      if d < 1 / 2 then f else if d > 1 / 2 then f + 1 else if even f then f else f + 1)"

text \<open>The exponent of the last place: 24 significant bits, not below the subnormal limit.\<close>

definition ulp_exponent :: "rat \<Rightarrow> int" where
  "ulp_exponent x =
     (case quotient_of \<bar>x\<bar> of
        (p, q) \<Rightarrow>
          (let e = int (bit_count (nat p)) - int (bit_count (nat q)) - 24 in
           max (- 149) (if scale2 \<bar>x\<bar> (- e) \<ge> 2 ^ 24 then e + 1 else e)))"

definition fl :: "rat \<Rightarrow> float32" where
  "fl x = (if x = 0 then 0
           else (let e = ulp_exponent x in scale2 (of_int (round_half_even (scale2 x (- e)))) e))"

fun isqrt :: "nat \<Rightarrow> nat" where
  "isqrt n = (if n = 0 then 0
              else (let r = 2 * isqrt (n div 4) in if (r + 1) * (r + 1) \<le> n then r + 1 else r))"

declare isqrt.simps [simp del]

text \<open>
  The square root to 80 binary places with a sticky half place, then rounded: for arguments above
  \<open>2 ^ -108\<close> at least 26 bits are exact, so the rounding sees the right side of every tie.
\<close>

definition fl_sqrt :: "float32 \<Rightarrow> float32" where
  "fl_sqrt x =
     (let n = nat \<lfloor>x * 2 ^ 160\<rfloor>; s = isqrt n in
      fl ((of_nat s + (if of_nat (s * s) = x * 2 ^ 160 then 0 else 1 / 2)) / 2 ^ 80))"

section \<open>Embedding\<close>

definition BOOK_EMBED_DIM :: nat where
  "BOOK_EMBED_DIM = 64"

definition token_hash :: "string \<Rightarrow> 64 word" where
  "token_hash token = foldl (\<lambda>h c. xor h (of_nat (byte c)) * 16777619) 2166136261 token"

definition count_token :: "string \<Rightarrow> float32 list \<Rightarrow> float32 list" where
  "count_token token embedding =
     (let i = unat (token_hash token) mod BOOK_EMBED_DIM in embedding[i := fl (embedding ! i + 1)])"

fun append_tokens_loop :: "string \<Rightarrow> string \<Rightarrow> float32 list \<Rightarrow> float32 list" where
  "append_tokens_loop [] token embedding = (if token \<noteq> [] then count_token token embedding else embedding)"
| "append_tokens_loop (ch # s) token embedding =
     (if isalnum ch then append_tokens_loop s (token @ [tolower ch]) embedding
      else if token = [] then append_tokens_loop s token embedding
      else append_tokens_loop s [] (count_token token embedding))"

definition append_tokens :: "string \<Rightarrow> float32 list \<Rightarrow> float32 list" where
  "append_tokens s embedding = append_tokens_loop s [] embedding"

definition normalize_embedding :: "float32 list \<Rightarrow> float32 list" where
  "normalize_embedding embedding =
     (let norm = foldl (\<lambda>n v. fl (n + fl (v * v))) 0 embedding in
      if norm \<le> 0 then embedding
      else (let r = fl_sqrt norm in map (\<lambda>v. fl (v / r)) embedding))"

definition embed_book :: "Book \<Rightarrow> float32 list" where
  "embed_book book =
     (let e1 = append_tokens (bk_author book) (append_tokens (bk_title book) (replicate BOOK_EMBED_DIM 0));
          i = nat (bk_id book mod 2 ^ 64) mod BOOK_EMBED_DIM;
          e2 = e1[i := fl (e1 ! i + 1 / 4)];
          e3 = e2[BOOK_EMBED_DIM - 1 := fl (fl (of_int (bk_price_cents book)) / 100000)]
      in normalize_embedding e3)"

section \<open>The index\<close>

record Entry =
  en_book_id :: int
  en_embedding :: "float32 list"

definition TopK_build :: "Book list \<Rightarrow> Entry list" where
  "TopK_build books =
     map (\<lambda>b. \<lparr>en_book_id = bk_id b, en_embedding = embed_book b\<rparr>)
       (filter (\<lambda>b. bk_status b = ''active'') books)"

definition distance :: "float32 list \<Rightarrow> float32 list \<Rightarrow> float32" where
  "distance query embedding =
     foldl (\<lambda>d (x, y). let diff = fl (x - y) in fl (d + fl (diff * diff))) 0 (zip query embedding)"

text \<open>
  \<^verbatim>\<open>std::sort\<close> by distance and then by id: the comparator is the lexicographic order, so the sorted
  vector is unique. The copying loop tests the size after each push.
\<close>

fun take_ids_loop :: "(float32 \<times> int) list \<Rightarrow> int list \<Rightarrow> int \<Rightarrow> int list" where
  "take_ids_loop [] results limit = results"
| "take_ids_loop (item # scored) results limit =
     (let results' = results @ [snd item] in
      if int (length results') \<ge> limit then results' else take_ids_loop scored results' limit)"

definition scored_entries :: "Entry list \<Rightarrow> Book \<Rightarrow> (float32 \<times> int) list" where
  "scored_entries entries book =
     map (\<lambda>en. (distance (embed_book book) (en_embedding en), en_book_id en))
       (filter (\<lambda>en. en_book_id en \<noteq> bk_id book) entries)"

definition TopK_search_similar :: "Entry list \<Rightarrow> Book \<Rightarrow> int \<Rightarrow> int list" where
  "TopK_search_similar entries book limit =
     (if entries = [] \<or> bk_id book \<le> 0 \<or> limit \<le> 0 then []
      else take_ids_loop (sort (scored_entries entries book)) [] limit)"

definition TopK_ready :: "Entry list \<Rightarrow> bool" where
  "TopK_ready entries \<longleftrightarrow> entries \<noteq> []"

section \<open>The service\<close>

definition DEFAULT_SIMILAR_BOOK_LIMIT :: int where
  "DEFAULT_SIMILAR_BOOK_LIMIT = 5"

definition RecommendService_rebuild :: "'s BookClient option \<Rightarrow> 's \<Rightarrow> Entry list" where
  "RecommendService_rebuild client s =
     (case client of None \<Rightarrow> TopK_build [] | Some BC \<Rightarrow> TopK_build (bc_list_books BC s))"

definition RecommendService_similar_books ::
  "'s BookClient option \<Rightarrow> Entry list \<Rightarrow> int \<Rightarrow> int \<Rightarrow> 's \<Rightarrow> Book list option" where
  "RecommendService_similar_books client index book_id limit s =
     (case client of
        None \<Rightarrow> None
      | Some BC \<Rightarrow>
          if book_id \<le> 0 \<or> limit \<le> 0 then None
          else (case bc_find_book BC book_id s of
                  None \<Rightarrow> None
                | Some source \<Rightarrow>
                    if \<not> TopK_ready index then Some []
                    else Some (concat (map (\<lambda>candidate_id.
                           case bc_find_book BC candidate_id s of
                             None \<Rightarrow> []
                           | Some book \<Rightarrow> if bk_status book \<noteq> ''active'' then [] else [book])
                         (TopK_search_similar index source limit)))))"

section \<open>Lemmas\<close>

lemma isqrt_spec: "isqrt n * isqrt n \<le> n \<and> n < (isqrt n + 1) * (isqrt n + 1)"
proof (induction n rule: isqrt.induct)
  case (1 n)
  show ?case
  proof (cases "n = 0")
    case False
    let ?r = "isqrt (n div 4)"
    have ih: "?r * ?r \<le> n div 4" "n div 4 < (?r + 1) * (?r + 1)"
      using 1 False by simp_all
    have lo: "2 * ?r * (2 * ?r) \<le> n"
      using ih(1) by simp
    have "n div 4 + 1 \<le> (?r + 1) * (?r + 1)"
      using ih(2) by simp
    then have "n < 4 * ((?r + 1) * (?r + 1))"
      by (metis add_mult_distrib2 less_mult_imp_div_less mult.commute less_iff_succ_less_eq ih(2) div_less_iff_less_mult zero_less_numeral)
    then have hi: "n < (2 * ?r + 1 + 1) * (2 * ?r + 1 + 1)"
      by (simp add: algebra_simps)
    show ?thesis
      using lo hi False by (subst (1 2 3 4) isqrt.simps) (auto simp: Let_def)
  qed (simp add: isqrt.simps)
qed

lemma round_half_even_int: "round_half_even (of_int n) = n"
  by (simp add: round_half_even_def)

lemma take_ids_loop_take:
  "int (length results) < limit \<Longrightarrow>
     take_ids_loop scored results limit = results @ take (nat limit - length results) (map snd scored)"
proof (induction scored arbitrary: results)
  case (Cons item scored)
  show ?case
  proof (cases "int (length (results @ [snd item])) \<ge> limit")
    case True
    then have "nat limit - length results = 1"
      using Cons.prems by simp
    with True show ?thesis by simp
  next
    case False
    then have "nat limit - length results = Suc (nat limit - length (results @ [snd item]))"
      by simp
    with Cons.IH[of "results @ [snd item]"] False show ?thesis
      by simp
  qed
qed simp

text \<open>The search result is a prefix of the ids ordered by distance.\<close>

lemma search_similar_take:
  "TopK_search_similar entries book limit =
     (if bk_id book \<le> 0 then [] else take (nat limit) (map snd (sort (scored_entries entries book))))"
  by (auto simp: TopK_search_similar_def take_ids_loop_take scored_entries_def)

lemma search_similar_ids:
  "i \<in> set (TopK_search_similar entries book limit) \<Longrightarrow> i \<in> en_book_id ` set entries \<and> i \<noteq> bk_id book"
  by (auto simp: search_similar_take scored_entries_def dest!: in_set_takeD split: if_splits)

end
