(* ===== verification/Controllers.thy ===== *)
theory Controllers
  imports Json Router Order_Service Recommend
begin

text \<open>
  The request handlers of \<^verbatim>\<open>src/app/controller/\<close>. A handler reads a request, calls a client and renders the
  answer; handlers that may change the client's state return the new state.
\<close>

section \<open>Envelopes\<close>

text \<open>
  The JSON envelopes that the handlers spell out: \<open>error_json\<close> for a refusal, \<open>ok_json\<close> around the data
  of a success.
\<close>

definition error_json :: "int \<Rightarrow> string \<Rightarrow> HttpResponse" where
  "error_json status message =
     json_response status
       (''{\"code\":'' @ to_string status @ '',\"message\":\"'' @ message @ ''\",\"data\":null}'')"

definition ok_json :: "int \<Rightarrow> string \<Rightarrow> HttpResponse" where
  "ok_json status payload =
     json_response status (''{\"code\":0,\"message\":\"ok\",\"data\":'' @ payload @ ''}'')"

section \<open>auth\_controller.h\<close>

definition user_to_json :: "User \<Rightarrow> string" where
  "user_to_json user =
     ''{\"user_id\":'' @ to_string (usr_id user) @ '',\"username\":\"'' @
     escape_json_string (usr_username user) @ ''\"}''"

definition handle_register_user :: "HttpRequest \<Rightarrow> 's UserClient \<Rightarrow> 's \<Rightarrow> HttpResponse \<times> 's" where
  "handle_register_user request client s =
     (case (json_string_value (rq_body request) ''username'', json_string_value (rq_body request) ''password'') of
        (Some username, Some password) \<Rightarrow>
          (case uc_register_user client username password s of
             (None, s') \<Rightarrow> (error_json 409 ''user already exists or invalid'', s')
           | (Some user, s') \<Rightarrow> (ok_json 201 (user_to_json user), s'))
      | _ \<Rightarrow> (error_json 400 ''invalid register request'', s))"

definition handle_login_user :: "HttpRequest \<Rightarrow> 's UserClient \<Rightarrow> 's \<Rightarrow> HttpResponse" where
  "handle_login_user request client s =
     (case (json_string_value (rq_body request) ''username'', json_string_value (rq_body request) ''password'') of
        (Some username, Some password) \<Rightarrow>
          (case uc_authenticate client username password s of
             None \<Rightarrow> error_json 401 ''invalid credentials''
           | Some user \<Rightarrow> ok_json 200 (user_to_json user))
      | _ \<Rightarrow> error_json 400 ''invalid login request'')"

section \<open>book\_controller.h\<close>

definition to_lower_copy :: "string \<Rightarrow> string" where
  "to_lower_copy value = map tolower value"

definition contains_ignore_case :: "string \<Rightarrow> string \<Rightarrow> bool" where
  "contains_ignore_case subject keyword \<longleftrightarrow>
     (if keyword = [] then True else find_sub (to_lower_copy keyword) (to_lower_copy subject) \<noteq> None)"

fun filter_books_loop :: "Book list \<Rightarrow> string \<Rightarrow> Book list \<Rightarrow> Book list" where
  "filter_books_loop [] keyword matched = matched"
| "filter_books_loop (book # books) keyword matched =
     (if bk_status book \<noteq> ''active'' then filter_books_loop books keyword matched
      else if contains_ignore_case (bk_title book) keyword \<or> contains_ignore_case (bk_author book) keyword
      then filter_books_loop books keyword (matched @ [book])
      else filter_books_loop books keyword matched)"

definition filter_books :: "Book list \<Rightarrow> string \<Rightarrow> Book list" where
  "filter_books books keyword = filter_books_loop books keyword []"

definition book_to_json :: "Book \<Rightarrow> string" where
  "book_to_json book =
     ''{\"id\":'' @ to_string (bk_id book) @
     '',\"title\":\"'' @ escape_json_string (bk_title book) @
     ''\",\"author\":\"'' @ escape_json_string (bk_author book) @
     ''\",\"price_cents\":'' @ to_string (bk_price_cents book) @
     '',\"stock\":'' @ to_string (bk_stock book) @
     '',\"status\":\"'' @ escape_json_string (bk_status book) @ ''\"}''"

definition books_to_json_array :: "Book list \<Rightarrow> string" where
  "books_to_json_array books = ''['' @ comma_join (map book_to_json books) @ '']''"

definition handle_search_books :: "HttpRequest \<Rightarrow> 's BookClient \<Rightarrow> 's \<Rightarrow> HttpResponse" where
  "handle_search_books request client s =
     (case rq_query_params request ''q'' of
        None \<Rightarrow> error_json 400 ''missing search query q''
      | Some q \<Rightarrow>
          if q = [] then error_json 400 ''missing search query q''
          else ok_json 200 (''{\"query\":\"'' @ escape_json_string q @ ''\",\"engine\":\"memory\",\"books\":'' @
                            books_to_json_array (filter_books (bc_list_books client s) q) @ ''}''))"

definition handle_list_books :: "HttpRequest \<Rightarrow> 's BookClient \<Rightarrow> 's \<Rightarrow> HttpResponse" where
  "handle_list_books request client s =
     ok_json 200 (''{\"books\":'' @ books_to_json_array (bc_list_books client s) @ ''}'')"

definition book_data :: "Book \<Rightarrow> string" where
  "book_data book = ''{\"book\":'' @ book_to_json book @ ''}''"

definition handle_get_book :: "HttpRequest \<Rightarrow> 's BookClient \<Rightarrow> 's \<Rightarrow> HttpResponse" where
  "handle_get_book request client s =
     (case rq_path_params request ''book_id'' of
        None \<Rightarrow> error_json 400 ''missing book_id''
      | Some i \<Rightarrow>
          (case bc_find_book client (atoi i) s of
             None \<Rightarrow> error_json 404 ''book not found''
           | Some book \<Rightarrow> ok_json 200 (book_data book)))"

definition handle_create_book :: "HttpRequest \<Rightarrow> 's BookClient \<Rightarrow> 's \<Rightarrow> HttpResponse \<times> 's" where
  "handle_create_book request client s =
     (let title = json_string_value (rq_body request) ''title'';
          author = json_string_value (rq_body request) ''author'';
          price_cents = json_int_value (rq_body request) ''price_cents'';
          stock = json_int_value (rq_body request) ''stock'';
          status = json_string_value (rq_body request) ''status''
      in case (title, author, price_cents, stock) of
           (Some t, Some a, Some p, Some k) \<Rightarrow>
             (case bc_create_book client
                     \<lparr>bk_id = 0, bk_title = t, bk_author = a, bk_price_cents = p, bk_stock = k,
                      bk_status = (case status of None \<Rightarrow> ''active'' | Some x \<Rightarrow> x)\<rparr> s of
                (None, s') \<Rightarrow> (error_json 400 ''invalid book request'', s')
              | (Some created, s') \<Rightarrow> (ok_json 201 (book_data created), s'))
         | _ \<Rightarrow> (error_json 400 ''invalid book request'', s))"

definition handle_update_book :: "HttpRequest \<Rightarrow> 's BookClient \<Rightarrow> 's \<Rightarrow> HttpResponse \<times> 's" where
  "handle_update_book request client s =
     (case rq_path_params request ''book_id'' of
        None \<Rightarrow> (error_json 400 ''missing book_id'', s)
      | Some i \<Rightarrow>
          (let update = \<lparr>bu_title = json_string_value (rq_body request) ''title'',
                         bu_author = json_string_value (rq_body request) ''author'',
                         bu_price_cents = json_int_value (rq_body request) ''price_cents'',
                         bu_stock = json_int_value (rq_body request) ''stock'',
                         bu_status = json_string_value (rq_body request) ''status''\<rparr>
           in case bc_update_book client (atoi i) update s of
                (None, s') \<Rightarrow> (error_json 404 ''book not found or invalid'', s')
              | (Some updated, s') \<Rightarrow> (ok_json 200 (book_data updated), s')))"

section \<open>inventory\_controller.h\<close>

definition stock_data :: "int \<Rightarrow> int \<Rightarrow> string" where
  "stock_data book_id available =
     ''{\"book_id\":'' @ to_string book_id @ '',\"available\":'' @ to_string available @ ''}''"

definition handle_get_inventory :: "HttpRequest \<Rightarrow> 's InventoryClient \<Rightarrow> 's \<Rightarrow> HttpResponse" where
  "handle_get_inventory request client s =
     (case rq_path_params request ''book_id'' of
        None \<Rightarrow> error_json 400 ''missing book_id''
      | Some i \<Rightarrow>
          (case ic_available_stock client (atoi i) s of
             None \<Rightarrow> error_json 404 ''inventory not found''
           | Some stock \<Rightarrow> ok_json 200 (stock_data (atoi i) stock)))"

definition handle_add_inventory :: "HttpRequest \<Rightarrow> 's InventoryClient \<Rightarrow> 's \<Rightarrow> HttpResponse \<times> 's" where
  "handle_add_inventory request client s =
     (case rq_path_params request ''book_id'' of
        None \<Rightarrow> (error_json 400 ''missing book_id'', s)
      | Some i \<Rightarrow>
          (case json_int_value (rq_body request) ''quantity'' of
             None \<Rightarrow> (error_json 400 ''invalid inbound request'', s)
           | Some quantity \<Rightarrow>
               if quantity \<le> 0 then (error_json 400 ''invalid inbound request'', s)
               else (case ic_add_stock client (atoi i) quantity s of
                       (None, s') \<Rightarrow> (error_json 404 ''inventory not found'', s')
                     | (Some stock, s') \<Rightarrow> (ok_json 200 (stock_data (atoi i) stock), s'))))"

section \<open>order\_controller.h\<close>

definition order_item_to_json :: "OrderItem \<Rightarrow> string" where
  "order_item_to_json i =
     ''{\"book_id\":'' @ to_string (oi_book_id i) @ '',\"quantity\":'' @ to_string (oi_quantity i) @
     '',\"unit_price_cents\":'' @ to_string (oi_unit_price_cents i) @ ''}''"

definition order_to_json :: "Order \<Rightarrow> string" where
  "order_to_json order =
     ''{\"id\":'' @ to_string (ord_id order) @
     '',\"user_id\":'' @ to_string (ord_user_id order) @
     '',\"status\":\"'' @ escape_json_string (ord_status order) @
     ''\",\"total_cents\":'' @ to_string (ord_total_cents order) @
     '',\"items\":['' @ comma_join (map order_item_to_json (ord_items order)) @ '']}''"

definition order_data :: "Order \<Rightarrow> string" where
  "order_data order = ''{\"order\":'' @ order_to_json order @ ''}''"

definition handle_create_order :: "HttpRequest \<Rightarrow> 's OrderClient \<Rightarrow> 's \<Rightarrow> HttpResponse \<times> 's" where
  "handle_create_order request client s =
     (let items = json_order_items (rq_body request) in
      case json_int_value (rq_body request) ''user_id'' of
        None \<Rightarrow> (error_json 400 ''invalid order request'', s)
      | Some user_id \<Rightarrow>
          if items = [] then (error_json 400 ''invalid order request'', s)
          else (case oc_create_order client user_id items s of
                  (None, s') \<Rightarrow> (error_json 409 ''insufficient stock or invalid order'', s')
                | (Some order, s') \<Rightarrow> (ok_json 201 (order_data order), s')))"

definition handle_list_orders :: "HttpRequest \<Rightarrow> 's OrderClient \<Rightarrow> 's \<Rightarrow> HttpResponse" where
  "handle_list_orders request client s =
     ok_json 200 (''{\"orders\":['' @ comma_join (map order_to_json (oc_list_orders client s)) @ '']}'')"

definition handle_get_order :: "HttpRequest \<Rightarrow> 's OrderClient \<Rightarrow> 's \<Rightarrow> HttpResponse" where
  "handle_get_order request client s =
     (case rq_path_params request ''order_id'' of
        None \<Rightarrow> error_json 400 ''missing order_id''
      | Some i \<Rightarrow>
          (case oc_find_order client (atoi i) s of
             None \<Rightarrow> error_json 404 ''order not found''
           | Some order \<Rightarrow> ok_json 200 (order_data order)))"

definition handle_cancel_order :: "HttpRequest \<Rightarrow> 's OrderClient \<Rightarrow> 's \<Rightarrow> HttpResponse \<times> 's" where
  "handle_cancel_order request client s =
     (case rq_path_params request ''order_id'' of
        None \<Rightarrow> (error_json 400 ''missing order_id'', s)
      | Some i \<Rightarrow>
          (case oc_cancel_order client (atoi i) s of
             (None, s') \<Rightarrow> (error_json 404 ''order not found'', s')
           | (Some order, s') \<Rightarrow> (ok_json 200 (order_data order), s')))"

section \<open>recommend\_controller.h\<close>

definition handle_similar_books :: "HttpRequest \<Rightarrow> 's BookClient option \<Rightarrow> Entry list \<Rightarrow> 's \<Rightarrow> HttpResponse" where
  "handle_similar_books request client index s =
     (case rq_path_params request ''book_id'' of
        None \<Rightarrow> error_json 400 ''missing book_id''
      | Some i \<Rightarrow>
          (case RecommendService_similar_books client index (atoi i) DEFAULT_SIMILAR_BOOK_LIMIT s of
             None \<Rightarrow> error_json 404 ''book not found''
           | Some books \<Rightarrow>
               ok_json 200 (''{\"book_id\":'' @ to_string (atoi i) @ '',\"books\":'' @
                            books_to_json_array books @ ''}'')))"

section \<open>Lemmas\<close>

lemma status_simps [simp]:
  "rs_status_code (error_json c m) = c" "rs_status_code (ok_json c m) = c"
  by (simp_all add: error_json_def ok_json_def json_response_def)

lemma filter_books_loop_eq:
  "filter_books_loop books keyword matched =
     matched @ filter (\<lambda>b. bk_status b = ''active'' \<and>
       (contains_ignore_case (bk_title b) keyword \<or> contains_ignore_case (bk_author b) keyword)) books"
  by (induction books arbitrary: matched) auto

text \<open>Two strings that differ in letter case only.\<close>

definition same_letters :: "string \<Rightarrow> string \<Rightarrow> bool" where
  "same_letters s t \<longleftrightarrow> map tolower s = map tolower t"

lemma contains_ignore_case_iff:
  "contains_ignore_case subject keyword \<longleftrightarrow>
     (\<exists>pre mid post. subject = pre @ mid @ post \<and> same_letters mid keyword)"
proof
  assume "contains_ignore_case subject keyword"
  then have "keyword = [] \<or> (\<exists>a b. map tolower subject = a @ map tolower keyword @ b)"
    unfolding contains_ignore_case_def to_lower_copy_def find_sub_iff by (simp split: if_splits)
  then obtain a b where "map tolower subject = a @ map tolower keyword @ b"
    by fastforce
  then obtain pre rest where pre: "subject = pre @ rest" "map tolower rest = map tolower keyword @ b"
    using map_eq_append_conv[of tolower subject a "map tolower keyword @ b"] by metis
  then obtain mid post where "rest = mid @ post" "map tolower mid = map tolower keyword"
    using map_eq_append_conv[of tolower rest "map tolower keyword" b] by metis
  with pre show "\<exists>pre mid post. subject = pre @ mid @ post \<and> same_letters mid keyword"
    unfolding same_letters_def by blast
next
  assume "\<exists>pre mid post. subject = pre @ mid @ post \<and> same_letters mid keyword"
  then obtain pre mid post where "subject = pre @ mid @ post" "map tolower mid = map tolower keyword"
    by (auto simp: same_letters_def)
  then have "map tolower subject = map tolower pre @ map tolower keyword @ map tolower post"
    by simp
  then show "contains_ignore_case subject keyword"
    unfolding contains_ignore_case_def to_lower_copy_def using find_sub_iff by fastforce
qed

end
