(* ===== verification/Text_Properties.thy ===== *)
theory Text_Properties
  imports Controllers
begin

text \<open>
  The properties of the text formats: JSON fields, query strings, request paths, routes, response framing
  and the password digest.
\<close>

section \<open>JSON\<close>

text \<open>A string written by \<open>escape_json_string\<close> into the field of a JSON object is read back by
  \<open>json_string_value\<close> exactly, unless it holds a line feed, a carriage return or a tab (those come back as
  the letters n, r, t). Anything may precede the field as long as the quoted key does not occur there.\<close>

theorem json_string_roundtrip:
  assumes "plain_key key"
    and "skips (quoted key) pre (quoted key @ '':'' @ QUOT # escape_json_string s @ QUOT # rest)"
  shows "json_string_value (pre @ quoted key @ '':'' @ QUOT # escape_json_string s @ QUOT # rest) key =
           Some (map (\<lambda>c. if c = LF then CHR ''n'' else if c = CR then CHR ''r'' else if c = TAB then CHR ''t'' else c) s)"
  using json_string_field[OF assms] by (simp add: reread_char_def)

theorem json_string_roundtrip_witness:
  "json_string_value (''{'' @ quoted ''title'' @ '':'' @ QUOT # escape_json_string [CHR ''a'', QUOT, BSL] @ QUOT # ''}'') ''title''
     = Some [CHR ''a'', QUOT, BSL]"
  using json_string_roundtrip[of "''title''" "''{''" "[CHR ''a'', QUOT, BSL]" "''}''"]
  by (simp add: plain_key_def quoted_def)

text \<open>Every 32-bit integer printed into a JSON field is read back by \<open>json_int_value\<close>, whatever follows
  the digits, and the sign and the extreme values included.\<close>

theorem json_int_roundtrip:
  assumes "plain_key key" "skips (quoted key) pre (quoted key @ '':'' @ to_string n @ rest)"
    and "int32 n" "rest = [] \<or> \<not> isdigit (hd rest)"
  shows "json_int_value (pre @ quoted key @ '':'' @ to_string n @ rest) key = Some n"
  using json_int_field[OF assms(1,2), of "[]"] json_read_int_to_string[OF assms(3,4)]
  by (simp add: json_int_value_def)

theorem json_int_roundtrip_witness:
  "json_int_value (''{'' @ quoted ''stock'' @ '':'' @ to_string (- 2147483648) @ ''}'') ''stock'' = Some (- 2147483648)"
  using json_int_roundtrip[of "''stock''" "''{''" "- 2147483648" "''}''"]
  by (simp add: plain_key_def quoted_def int32_def isdigit_def)

text \<open>C35: The items of an order that \<open>order_to_json\<close> prints are read back by \<open>json_order_items\<close>: same
  length, same order, same book ids and quantities.\<close>

theorem order_items_roundtrip:
  assumes "\<forall>i \<in> set (ord_items order). int32 (oi_book_id i) \<and> int32 (oi_quantity i)"
    and "\<not> ends_with (ord_status order) ''book_id''"
  shows "json_order_items (order_to_json order) =
    map (\<lambda>i. \<lparr>oir_book_id = oi_book_id i, oir_quantity = oi_quantity i\<rparr>) (ord_items order)"
proof -
  let ?tail = "\<lambda>i. '',\"unit_price_cents\":'' @ to_string (oi_unit_price_cents i)"
  let ?it = "\<lambda>i. (oi_book_id i, oi_quantity i, ?tail i)"
  let ?k = "quoted ''book_id''"
  have item: "map order_item_to_json is = map item_text (map ?it is)" for "is"
    by (simp add: order_item_to_json_def item_text_def quoted_def)
  have ok: "\<forall>it \<in> set (map ?it (ord_items order)). item_ok it"
  proof
    fix it
    assume "it \<in> set (map ?it (ord_items order))"
    then obtain i where i: "i \<in> set (ord_items order)" "it = ?it i" by auto
    have "skips ?k ('',\"unit_price_cents\":'' @ to_string (oi_unit_price_cents i)) (CHR ''}'' # t)" for t
      unfolding skips_append using skips_to_string[of "''book_id''"] by (simp add: quoted_def)
    with i assms(1) show "item_ok it"
      by (auto simp: item_ok_def isdigit_def)
  qed
  let ?pre = "''{\"id\":'' @ to_string (ord_id order) @ '',\"user_id\":'' @ to_string (ord_user_id order) @
     '',\"status\":'' @ (QUOT # escape_json_string (ord_status order)) @
     ''\",\"total_cents\":'' @ to_string (ord_total_cents order) @ '',\"items\":[''"
  have pk: "plain_key ''book_id''"
    by (simp add: plain_key_def)
  have sv: "skips ?k (QUOT # escape_json_string (ord_status order)) (''\",\"total_cents\":'' @ t)" for t
    using skips_string_value[OF pk assms(2), of "'',\"total_cents\":'' @ t"] by simp
  have pre: "skips ?k ?pre t" for t
    unfolding skips_append using skips_to_string[of "''book_id''"] sv by (simp add: quoted_def)
  have post: "find_sub ?k '']}'' = None"
    by (simp add: quoted_def)
  have body: "order_to_json order = [] @ ?pre @ comma_join (map item_text (map ?it (ord_items order))) @ '']}''"
    unfolding item[symmetric] by (simp add: order_to_json_def)
  show ?thesis
    using json_order_items_rendered[OF ok pre post body] by (simp add: json_order_items_def item_request_def o_def)
qed

theorem order_items_roundtrip_witness:
  "json_order_items (order_to_json \<lparr>ord_id = 7, ord_user_id = 1,
     ord_items = [\<lparr>oi_book_id = 1, oi_quantity = 2, oi_unit_price_cents = 9800\<rparr>,
                  \<lparr>oi_book_id = 2, oi_quantity = 1, oi_unit_price_cents = 12800\<rparr>],
     ord_total_cents = 32400, ord_status = ''created''\<rparr>) =
   [\<lparr>oir_book_id = 1, oir_quantity = 2\<rparr>, \<lparr>oir_book_id = 2, oir_quantity = 1\<rparr>]"
  using order_items_roundtrip[of "\<lparr>ord_id = 7, ord_user_id = 1,
     ord_items = [\<lparr>oi_book_id = 1, oi_quantity = 2, oi_unit_price_cents = 9800\<rparr>,
                  \<lparr>oi_book_id = 2, oi_quantity = 1, oi_unit_price_cents = 12800\<rparr>],
     ord_total_cents = 32400, ord_status = ''created''\<rparr>"]
  by (simp add: int32_def ends_with_def)

section \<open>Query strings\<close>

text \<open>Percent decoding inverts the encoding of a browser client on every byte string.\<close>

theorem url_decode_roundtrip: "url_decode (percent_encode s) = s"
  using url_decode_percent_encode_append[of s "[]"] by simp

text \<open>A query string built from key/value pairs is parsed into exactly these pairs, the first value
  winning for a key that occurs twice.\<close>

theorem query_roundtrip: "parse_query_string (build_query kvs) = map_of kvs"
proof (cases "kvs = []")
  case True
  then show ?thesis
    using parse_query_loop_tokens[of 0 "[]" Map.empty]
    by (simp add: parse_query_string_def add_token_def find_from_def)
next
  case False
  then show ?thesis
    using parse_query_loop_tokens[of 0 "build_query kvs" Map.empty] split_amp_build_query[OF False]
      foldl_add_token[of Map.empty kvs]
    by (simp add: parse_query_string_def)
qed

text \<open>The index loop of \<open>get_param\<close> computes the reference reading of a form body: split at ampersands,
  take the first token that starts with the key and an equals sign and has a non-empty value.\<close>

theorem get_param_reference: "get_param body key = first_value (key @ ''='') (split_amp body)"
  using get_param_loop_tokens[of 0 body "key @ ''=''"] by (simp add: get_param_def)

section \<open>Paths and routes\<close>

text \<open>\<open>split_path\<close> inverts joining path segments with slashes.\<close>

theorem split_path_roundtrip:
  assumes "\<forall>p \<in> set parts. p \<noteq> [] \<and> CHR ''/'' \<notin> set p"
  shows "split_path (concat (map (\<lambda>p. CHR ''/'' # p) parts)) = parts"
  using split_path_path_of[OF assms] by (simp add: path_of_def)

theorem split_path_roundtrip_witness: "split_path (concat (map (\<lambda>p. CHR ''/'' # p) [''api'', ''orders'', ''7''])) = [''api'', ''orders'', ''7'']"
  using split_path_roundtrip[of "[''api'', ''orders'', ''7'']"] by simp

text \<open>C25: A router built by a sequence of \<open>add_route\<close> calls answers every request like a table: an exact
  path wins over every pattern, among the patterns the first registered match wins, and the path parameters
  are the segments at the parameter positions. Registration fails exactly when two calls name the same
  exact method and path.\<close>

theorem router_refines_table:
  "case add_routes es empty_router of
     Inr r \<Rightarrow> unambiguous es \<and> (\<forall>request. route r request = table_lookup es request)
   | Inl e \<Rightarrow> \<not> unambiguous es \<and> e = DuplicateRoute"
  using add_routes_holds[OF holds_table_empty, of es] holds_table_route[of es]
  by (auto simp: unambiguous_def split: sum.splits if_splits)

section \<open>Responses\<close>

lemma take_head: "take (length h) (h @ t) = h"
  by simp

lemma drop_length_field: "drop (length a + 16) (a @ ''Content-Length: '' @ t) = t"
  by simp

lemma drop_blank: "drop (length h + 4) (h @ (crlf @ crlf) @ t) = t"
  by (simp add: crlf_def)

text \<open>A response is framed correctly: whatever the body contains, the head ends at the first blank line,
  the rest is the body, and the Content-Length field is the number of its bytes.\<close>

theorem response_framing:
  assumes "length payload < 2 ^ 63"
  shows "after_head (to_http_string (json_response status payload) keep_alive) = payload \<and>
         content_length_of (head_of (to_http_string (json_response status payload) keep_alive)) = int (length payload)"
proof -
  let ?l1 = "''HTTP/1.1 '' @ to_string status @ '' '' @ reason_phrase status"
  let ?l3 = "''Content-Length: '' @ to_string (int (length payload))"
  let ?l4 = "''Connection: '' @ (if keep_alive then ''keep-alive'' else ''close'')"
  let ?a = "?l1 @ crlf @ ''Content-Type: application/json'' @ crlf"
  let ?head = "?a @ ?l3 @ crlf @ ?l4"
  let ?msg = "to_http_string (json_response status payload) keep_alive"
  have msg: "?msg = ?head @ (crlf @ crlf) @ payload"
    by (simp add: to_http_string_def json_response_def)
  have cr: "CR \<notin> set ?l1" "CR \<notin> set ''Content-Type: application/json''" "CR \<notin> set ?l3" "CR \<notin> set ?l4"
    using no_cr_to_string reason_phrase_no_cr by auto
  have "skips (crlf @ crlf) ?head ((crlf @ crlf) @ payload)"
    unfolding skips_append using cr
    by (intro conjI skips_blank skips_line_end) auto
  then have pos: "find_sub (crlf @ crlf) ?msg = Some (length ?head)"
    unfolding msg by (simp only: find_sub_skip) (simp add: find_sub_hit crlf_def)
  have body: "after_head ?msg = payload"
    unfolding after_head_def pos option.case unfolding msg by (rule drop_blank)
  have head: "head_of ?msg = ?head"
    unfolding head_of_def pos option.case unfolding msg by (rule take_head)
  have "skips ''Content-Length: '' ?a (?l3 @ crlf @ ?l4)"
  proof -
    have "CHR ''C'' \<notin> set (to_string n)" for n
      by (auto simp: to_string_def isdigit_def dest!: bspec[OF string_of_nat_digits])
    then have 1: "skips ''Content-Length: '' (to_string status) t" for t
      by (intro skips_no_head) simp_all
    have 2: "skips ''Content-Length: '' (reason_phrase status) (crlf @ t)" for t
      by (simp add: reason_phrase_def crlf_def)
    show ?thesis
      unfolding skips_append append_assoc using 1 2 by (simp add: crlf_def)
  qed
  then have at: "find_sub ''Content-Length: '' ?head = Some (length ?a)"
    using find_sub_skip[of "''Content-Length: ''" ?a "?l3 @ crlf @ ?l4"]
      find_sub_hit[of "''Content-Length: ''" "to_string (int (length payload)) @ crlf @ ?l4"] by simp
  have split: "?head = ?a @ ''Content-Length: '' @ to_string (int (length payload)) @ crlf @ ?l4"
    by (simp only: append_assoc)
  have "content_length_of ?head = strtol10 (to_string (int (length payload)) @ crlf @ ?l4)"
    unfolding content_length_of_def at option.case unfolding split by (simp only: drop_length_field)
  also have "\<dots> = int (length payload)"
    using assms by (intro strtol10_to_string) (simp_all add: crlf_def isdigit_def)
  finally show ?thesis
    using body head by simp
qed

theorem response_framing_witness:
  "after_head (to_http_string (json_response 404 ''{}'') True) = ''{}'' \<and>
   content_length_of (head_of (to_http_string (json_response 404 ''{}'') True)) = 2"
  using response_framing[of "''{}''" 404 True] by simp

section \<open>Password digests\<close>

text \<open>The SHA-256 padding is whole blocks and injective, so different passwords are different inputs of
  the compression function, and the hexadecimal digest is always 64 characters of the alphabet 0-9a-f.\<close>

theorem sha256_padding:
  "length (sha256_pad s) mod 64 = 0 \<and> (sha256_pad s = sha256_pad t \<longleftrightarrow> s = t) \<and>
   length (sha256_hex s) = 64 \<and> set (sha256_hex s) \<subseteq> set ''0123456789abcdef''"
  using sha256_pad_blocks[of s] sha256_pad_inj[of s t] sha256_hex_length[of s] sha256_hex_chars[of s]
  by (auto simp: kHex_def)

end
