(* ===== verification/Gateway.thy ===== *)
theory Gateway
  imports Controllers
begin

text \<open>
  \<^verbatim>\<open>src/app/api_gateway.h\<close>: the dependency set, the local clients that fill the missing ones, the route
  table and the dispatch of a request. The lambdas capture \<^verbatim>\<open>this\<close>, so a handler is a function of the
  gateway object; the repositories behind the clients live in \<open>gw_data\<close>. The counter of
  \<^verbatim>\<open>OrderService\<close> is static, hence a parameter of every construction of an order client.
\<close>

section \<open>Definitions\<close>

record 's Dependencies =
  dp_users :: "'s UserRepository"
  dp_books :: "'s BookRepository"
  dp_inventory :: "'s InventoryRepository"
  dp_orders :: "'s OrderRepository"
  dp_inventory_client :: "'s InventoryClient option"
  dp_order_client :: "'s OrderClient option"
  dp_user_client :: "'s UserClient option"
  dp_book_client :: "'s BookClient option"

record ReadinessStatus =
  rd_ready :: bool
  rd_detail :: string

definition ensure_user_client :: "'s Dependencies \<Rightarrow> 's Dependencies" where
  "ensure_user_client d =
     (case dp_user_client d of
        None \<Rightarrow> d\<lparr>dp_user_client := Some (LocalUserClient (dp_users d))\<rparr>
      | Some _ \<Rightarrow> d)"

definition ensure_book_client :: "'s Dependencies \<Rightarrow> 's Dependencies" where
  "ensure_book_client d =
     (case dp_book_client d of
        None \<Rightarrow> d\<lparr>dp_book_client := Some (LocalBookClient (dp_books d))\<rparr>
      | Some _ \<Rightarrow> d)"

definition ensure_inventory_client :: "'s Dependencies \<Rightarrow> 's Dependencies" where
  "ensure_inventory_client d =
     (case dp_inventory_client d of
        None \<Rightarrow> d\<lparr>dp_inventory_client := Some (LocalInventoryClient (dp_inventory d))\<rparr>
      | Some _ \<Rightarrow> d)"

text \<open>Called after the book and the inventory client were ensured, so both are there.\<close>

definition ensure_order_client :: "('s \<Rightarrow> u64 \<times> 's) \<Rightarrow> 's Dependencies \<Rightarrow> 's Dependencies" where
  "ensure_order_client next_id d =
     (case dp_order_client d of
        None \<Rightarrow> d\<lparr>dp_order_client := Some (LocalOrderClient
                    \<lparr>os_book_client = the (dp_book_client d),
                     os_inventory_client = the (dp_inventory_client d),
                     os_order_repository = dp_orders d, os_next_id = next_id\<rparr>)\<rparr>
      | Some _ \<Rightarrow> d)"

definition ensure_clients :: "('s \<Rightarrow> u64 \<times> 's) \<Rightarrow> 's Dependencies \<Rightarrow> 's Dependencies" where
  "ensure_clients next_id d =
     ensure_order_client next_id (ensure_inventory_client (ensure_book_client (ensure_user_client d)))"

record 's ApiGateway =
  gw_dependencies :: "'s Dependencies"
  gw_index :: "Entry list"
  gw_readiness_checker :: "('s \<Rightarrow> ReadinessStatus) option"
  gw_data :: 's

text \<open>The constructor and \<^verbatim>\<open>use_dependencies\<close>, without the routes.\<close>

definition ApiGateway_init :: "('s \<Rightarrow> u64 \<times> 's) \<Rightarrow> 's Dependencies \<Rightarrow> 's \<Rightarrow> 's ApiGateway" where
  "ApiGateway_init next_id d s =
     (let d' = ensure_clients next_id d in
      \<lparr>gw_dependencies = d', gw_index = RecommendService_rebuild (dp_book_client d') s,
       gw_readiness_checker = None, gw_data = s\<rparr>)"

definition use_dependencies :: "('s \<Rightarrow> u64 \<times> 's) \<Rightarrow> 's Dependencies \<Rightarrow> 's ApiGateway \<Rightarrow> 's ApiGateway" where
  "use_dependencies next_id d g =
     (let d' = ensure_clients next_id d in
      g\<lparr>gw_dependencies := d', gw_index := RecommendService_rebuild (dp_book_client d') (gw_data g)\<rparr>)"

definition set_readiness_checker :: "('s \<Rightarrow> ReadinessStatus) \<Rightarrow> 's ApiGateway \<Rightarrow> 's ApiGateway" where
  "set_readiness_checker checker g = g\<lparr>gw_readiness_checker := Some checker\<rparr>"

type_synonym 's handler = "'s ApiGateway \<Rightarrow> HttpResponse \<times> 's ApiGateway"

definition book_client_of :: "'s ApiGateway \<Rightarrow> 's BookClient" where
  "book_client_of g = the (dp_book_client (gw_dependencies g))"

definition user_client_of :: "'s ApiGateway \<Rightarrow> 's UserClient" where
  "user_client_of g = the (dp_user_client (gw_dependencies g))"

definition inventory_client_of :: "'s ApiGateway \<Rightarrow> 's InventoryClient" where
  "inventory_client_of g = the (dp_inventory_client (gw_dependencies g))"

definition order_client_of :: "'s ApiGateway \<Rightarrow> 's OrderClient" where
  "order_client_of g = the (dp_order_client (gw_dependencies g))"

definition reading :: "('s ApiGateway \<Rightarrow> 's \<Rightarrow> HttpResponse) \<Rightarrow> 's handler" where
  "reading h = (\<lambda>g. (h g (gw_data g), g))"

definition writing :: "('s ApiGateway \<Rightarrow> 's \<Rightarrow> HttpResponse \<times> 's) \<Rightarrow> 's handler" where
  "writing h = (\<lambda>g. case h g (gw_data g) of (r, s) \<Rightarrow> (r, g\<lparr>gw_data := s\<rparr>))"

definition ready_response :: "ReadinessStatus \<Rightarrow> HttpResponse" where
  "ready_response status =
     json_response (if rd_ready status then 200 else 503)
       (''{\"code\":'' @ to_string (if rd_ready status then 0 else 503) @ '',\"message\":\"'' @
        (if rd_ready status then ''ok'' else ''unavailable'') @ ''\",\"data\":{\"status\":\"'' @
        (if rd_ready status then ''ready'' else ''not_ready'') @ ''\",\"detail\":\"'' @
        escape_json_string (rd_detail status) @ ''\"}}'')"

definition handle_ready :: "'s ApiGateway \<Rightarrow> 's \<Rightarrow> HttpResponse" where
  "handle_ready g s =
     ready_response (case gw_readiness_checker g of
                       None \<Rightarrow> \<lparr>rd_ready = True, rd_detail = ''ok''\<rparr>
                     | Some checker \<Rightarrow> checker s)"

definition handle_similar :: "HttpRequest \<Rightarrow> 's handler" where
  "handle_similar request g =
     (let index = RecommendService_rebuild (dp_book_client (gw_dependencies g)) (gw_data g) in
      (handle_similar_books request (dp_book_client (gw_dependencies g)) index (gw_data g),
       g\<lparr>gw_index := index\<rparr>))"

definition api_routes :: "'s handler route_entry list" where
  "api_routes =
     [(Get, ''/api/health'', \<lambda>request. reading (\<lambda>g s. ok_json 200 ''{\"service\":\"web-gateway\"}'')),
      (Get, ''/api/live'', \<lambda>request. reading (\<lambda>g s. ok_json 200 ''{\"status\":\"alive\"}'')),
      (Get, ''/api/ready'', \<lambda>request. reading handle_ready),
      (Get, ''/api/books'', \<lambda>request. reading (\<lambda>g. handle_list_books request (book_client_of g))),
      (Get, ''/api/books/{book_id}'', \<lambda>request. reading (\<lambda>g. handle_get_book request (book_client_of g))),
      (Post, ''/api/books'', \<lambda>request. writing (\<lambda>g. handle_create_book request (book_client_of g))),
      (Patch, ''/api/books/{book_id}'', \<lambda>request. writing (\<lambda>g. handle_update_book request (book_client_of g))),
      (Get, ''/api/books/search'', \<lambda>request. reading (\<lambda>g. handle_search_books request (book_client_of g))),
      (Get, ''/api/books/{book_id}/similar'', handle_similar),
      (Post, ''/api/auth/register'', \<lambda>request. writing (\<lambda>g. handle_register_user request (user_client_of g))),
      (Post, ''/api/auth/login'', \<lambda>request. reading (\<lambda>g. handle_login_user request (user_client_of g))),
      (Get, ''/api/inventory/books/{book_id}'',
         \<lambda>request. reading (\<lambda>g. handle_get_inventory request (inventory_client_of g))),
      (Post, ''/api/inventory/books/{book_id}/inbound'',
         \<lambda>request. writing (\<lambda>g. handle_add_inventory request (inventory_client_of g))),
      (Post, ''/api/orders'', \<lambda>request. writing (\<lambda>g. handle_create_order request (order_client_of g))),
      (Get, ''/api/orders'', \<lambda>request. reading (\<lambda>g. handle_list_orders request (order_client_of g))),
      (Get, ''/api/orders/{order_id}'', \<lambda>request. reading (\<lambda>g. handle_get_order request (order_client_of g))),
      (Post, ''/api/orders/{order_id}/cancel'',
         \<lambda>request. writing (\<lambda>g. handle_cancel_order request (order_client_of g)))]"

definition register_routes :: "route_error + 's handler Router" where
  "register_routes = add_routes api_routes empty_router"

definition dispatch :: "HttpRequest \<Rightarrow> 's ApiGateway \<Rightarrow> (HttpResponse \<times> 's ApiGateway) option" where
  "dispatch request g =
     (case register_routes of
        Inl _ \<Rightarrow> None
      | Inr router \<Rightarrow> map_option (\<lambda>h. h g) (route router request))"

definition default_dependencies :: "App Dependencies" where
  "default_dependencies =
     \<lparr>dp_users = memory_user_repository, dp_books = memory_book_repository,
      dp_inventory = memory_inventory_repository, dp_orders = memory_order_repository,
      dp_inventory_client = None, dp_order_client = None, dp_user_client = None, dp_book_client = None\<rparr>"

definition default_gateway :: "App ApiGateway" where
  "default_gateway = ApiGateway_init next_id_fetch_add default_dependencies default_app"

section \<open>The route table\<close>

lemma split_path_eval:
  "split_path path =
     (case dropWhile (\<lambda>c. c = CHR ''/'') path of
        [] \<Rightarrow> []
      | c # t \<Rightarrow> (c # takeWhile (\<lambda>c. c \<noteq> CHR ''/'') t) # split_path (drop 1 (dropWhile (\<lambda>c. c \<noteq> CHR ''/'') t)))"
proof (cases "dropWhile (\<lambda>c. c = CHR ''/'') path")
  case (Cons c t)
  then have "c \<noteq> CHR ''/''"
    using hd_dropWhile[of "\<lambda>c. c = CHR ''/''" path] by simp
  with Cons show ?thesis by (subst split_path.simps) simp
next
  case Nil
  then show ?thesis by (subst split_path.simps) (simp only: list.case Let_def simp_thms if_True)
qed

lemma api_paths [simp]:
  "split_path ''/api/health'' = [''api'', ''health'']"
  "split_path ''/api/live'' = [''api'', ''live'']"
  "split_path ''/api/ready'' = [''api'', ''ready'']"
  "split_path ''/api/books'' = [''api'', ''books'']"
  "split_path ''/api/books/{book_id}'' = [''api'', ''books'', ''{book_id}'']"
  "split_path ''/api/books/search'' = [''api'', ''books'', ''search'']"
  "split_path ''/api/books/{book_id}/similar'' = [''api'', ''books'', ''{book_id}'', ''similar'']"
  "split_path ''/api/auth/register'' = [''api'', ''auth'', ''register'']"
  "split_path ''/api/auth/login'' = [''api'', ''auth'', ''login'']"
  "split_path ''/api/inventory/books/{book_id}'' = [''api'', ''inventory'', ''books'', ''{book_id}'']"
  "split_path ''/api/inventory/books/{book_id}/inbound'' =
     [''api'', ''inventory'', ''books'', ''{book_id}'', ''inbound'']"
  "split_path ''/api/orders'' = [''api'', ''orders'']"
  "split_path ''/api/orders/{order_id}'' = [''api'', ''orders'', ''{order_id}'']"
  "split_path ''/api/orders/{order_id}/cancel'' = [''api'', ''orders'', ''{order_id}'', ''cancel'']"
  by (simp_all add: split_path_eval)

lemma api_params [simp]:
  "is_param ''{book_id}''" "is_param ''{order_id}''" "param_name ''{book_id}'' = ''book_id''"
  "param_name ''{order_id}'' = ''order_id''"
  by (simp_all add: is_param_def param_name_def substr_def)

lemma api_plain [simp]:
  "\<not> is_param ''api''" "\<not> is_param ''health''" "\<not> is_param ''live''" "\<not> is_param ''ready''"
  "\<not> is_param ''books''" "\<not> is_param ''search''" "\<not> is_param ''similar''" "\<not> is_param ''auth''"
  "\<not> is_param ''register''" "\<not> is_param ''login''" "\<not> is_param ''inventory''" "\<not> is_param ''inbound''"
  "\<not> is_param ''orders''" "\<not> is_param ''cancel''"
  by (simp_all add: is_param_def)

lemma api_routes_unambiguous: "unambiguous api_routes"
  by (simp add: unambiguous_def api_routes_def has_param_def)

lemma register_routes_holds:
  "\<exists>r :: 's handler Router. register_routes = Inr r \<and> holds_table api_routes r"
proof -
  let ?es = "api_routes :: 's handler route_entry list"
  have "unambiguous ([] @ ?es)" "unambiguous ([] :: 's handler route_entry list)"
    using api_routes_unambiguous by (simp_all add: unambiguous_def)
  then show ?thesis
    using add_routes_holds[OF holds_table_empty, of ?es] by (simp add: register_routes_def)
qed

lemma dispatch_table:
  fixes g :: "'s ApiGateway"
  shows "dispatch request g = map_option (\<lambda>h. h g) (table_lookup api_routes request)"
proof -
  obtain r :: "'s handler Router" where r: "register_routes = Inr r" "holds_table api_routes r"
    using register_routes_holds by blast
  show ?thesis
    unfolding dispatch_def r(1) by (simp add: holds_table_route[OF r(2)])
qed

end
