(* ===== verification/Service_Properties.thy ===== *)
theory Service_Properties
  imports Gateway "HOL-Library.Multiset"
begin

text \<open>
  The properties of the business services on the in-memory backend: orders and stock, users, the catalogue,
  search and recommendation.
\<close>

section \<open>Orders and stock\<close>

text \<open>The representation invariant of the backend together with the balance of stock and live orders.\<close>

definition app_sound :: "App \<Rightarrow> bool" where
  "app_sound s \<longleftrightarrow> app_ok s \<and> balanced (app_stock s) (app_order_list s)"

lemma app_sound_iff: "mem_orders.sound s \<longleftrightarrow> app_sound s"
  by (simp add: mem_orders.sound_def app_sound_def)

lemma default_app_views [simp]:
  "app_stock default_app = [1 \<mapsto> 12, 2 \<mapsto> 4]" "app_order_list default_app = []" "order_room default_app = 2147483646"
  by (simp_all add: app_stock_def default_app_def MemoryInventoryRepository_init_def app_order_list_def
      MemoryOrderRepository_init_def order_room_def)

lemma default_app_sound: "app_sound default_app"
proof -
  have "app_ok default_app"
    by (auto simp: app_ok_def inventory_ok_def books_ok_def orders_ok_def stock_ok_def default_app_def
        MemoryInventoryRepository_init_def MemoryOrderRepository_init_def default_books_def int32_def)
  then show ?thesis
    by (auto simp: app_sound_def balanced_def copies_def level_def)
qed

text \<open>C1: Books are neither lost nor invented. Over any sequence of orders, cancellations and deliveries, in
  any interleaving and with refused calls included, the copies of a book in stock plus the copies held by
  orders that are not cancelled grow exactly by the accepted deliveries, no stock level becomes negative,
  and the invariant of the backend is kept. The hypotheses say that order identifiers and the 32-bit stock
  counters do not run out.\<close>

theorem books_conserved:
  assumes "app_sound s" "length cs \<le> order_room s"
    and "\<And>b. copies (app_stock s) (app_order_list s) b + asked cs b < 2 ^ 31"
    and "order_run memory_order_service cs s = (deliveries, s')"
  shows "app_sound s' \<and> (\<forall>b v. app_stock s' b = Some v \<longrightarrow> 0 \<le> v) \<and>
    copies (app_stock s') (app_order_list s') b = copies (app_stock s) (app_order_list s) b + demand deliveries b"
  using mem_orders.run_sound[of s cs deliveries s' b] assms
  by (simp add: app_sound_iff mem_orders.sum_of_def app_sound_def balanced_def)

theorem books_conserved_witness:
  "\<exists>ds s'. order_run memory_order_service
       [OpCreate 1 [\<lparr>oir_book_id = 1, oir_quantity = 2\<rparr>], OpInbound 2 5, OpCancel 1, OpCreate 1 []] default_app = (ds, s') \<and>
     copies (app_stock s') (app_order_list s') 2 = 4 + demand ds 2"
proof -
  let ?cs = "[OpCreate 1 [\<lparr>oir_book_id = 1, oir_quantity = 2\<rparr>], OpInbound 2 5, OpCancel 1, OpCreate 1 []]"
  obtain ds s' where run: "order_run memory_order_service ?cs default_app = (ds, s')"
    by fastforce
  have room: "copies (app_stock default_app) (app_order_list default_app) b + asked ?cs b < 2 ^ 31" for b
    by (simp add: copies_def level_def)
  have "length ?cs \<le> order_room default_app"
    by simp
  from books_conserved[OF default_app_sound this room run, of 2] run show ?thesis
    by (auto simp: copies_def level_def)
qed

text \<open>C5: An order is accepted exactly when the user id is positive, there is at least one line, every line
  asks for a positive quantity of a book of the catalogue, and for every book the stock covers the sum of
  all its lines.\<close>

theorem create_order_accepts:
  assumes "app_ok s" "order_room s > 0"
  shows "fst (OrderService_create_order memory_order_service u reqs s) \<noteq> None \<longleftrightarrow>
    u > 0 \<and> reqs \<noteq> [] \<and> orderable (book_cat s) reqs \<and> servable (app_stock s) (reservation_items_of reqs)"
  by (rule mem_orders.create_order_iff[OF assms])

theorem create_order_accepts_witness:
  "fst (OrderService_create_order memory_order_service 1
     [\<lparr>oir_book_id = 2, oir_quantity = 3\<rparr>, \<lparr>oir_book_id = 2, oir_quantity = 2\<rparr>] default_app) = None"
proof -
  have "\<not> servable (app_stock default_app) (reservation_items_of
      [\<lparr>oir_book_id = 2, oir_quantity = 3\<rparr>, \<lparr>oir_book_id = 2, oir_quantity = 2\<rparr>])"
    by (simp add: servable_def reservation_items_of_def demand_def)
  then show ?thesis
    using create_order_accepts[of default_app 1
        "[\<lparr>oir_book_id = 2, oir_quantity = 3\<rparr>, \<lparr>oir_book_id = 2, oir_quantity = 2\<rparr>]"] default_app_sound
    by (simp add: app_sound_def)
qed

text \<open>C4: What \<open>create_order\<close> does on every path. A refused order leaves stock, orders and catalogue as they
  were; an accepted one takes exactly the sum of its lines out of the stock and is stored last, under an
  identifier no other order has, with every line priced from the catalogue and the total reduced to 32 bits.\<close>

theorem create_order_effect:
  assumes "app_ok s" "order_room s > 0" "OrderService_create_order memory_order_service u reqs s = (x, s')"
  shows "app_ok s' \<and> book_cat s' = book_cat s \<and>
    (case x of
       None \<Rightarrow> app_stock s' = app_stock s \<and> app_order_list s' = app_order_list s
     | Some r \<Rightarrow>
         ord_user_id r = u \<and> ord_items r = priced (book_cat s) reqs \<and>
         ord_total_cents r = wrap32 (line_total (priced (book_cat s) reqs)) \<and> ord_status r = ''created'' \<and>
         find_order_loop (app_order_list s) (ord_id r) = None \<and>
         app_stock s' = deduct (app_stock s) (reservation_items_of reqs) \<and>
         app_order_list s' = app_order_list s @ [r])"
  using mem_orders.create_order_cases[OF assms] by (cases x) simp_all

theorem create_order_effect_witness:
  "\<exists>r s'. OrderService_create_order memory_order_service 1 [\<lparr>oir_book_id = 1, oir_quantity = 2\<rparr>] default_app = (r, s') \<and>
     (case r of None \<Rightarrow> app_stock s' = app_stock default_app
      | Some r \<Rightarrow> app_stock s' = deduct (app_stock default_app) [\<lparr>im_book_id = 1, im_quantity = 2\<rparr>])"
proof -
  obtain r s' where c: "OrderService_create_order memory_order_service 1 [\<lparr>oir_book_id = 1, oir_quantity = 2\<rparr>]
      default_app = (r, s')"
    by fastforce
  from create_order_effect[OF _ _ c] default_app_sound c show ?thesis
    by (auto simp: app_sound_def reservation_items_of_def split: option.splits)
qed

text \<open>C6: Placing an order and cancelling it restores every stock level; the order stays in the list, marked
  cancelled.\<close>

theorem create_then_cancel:
  assumes "app_sound s" "order_room s > 0"
    and "OrderService_create_order memory_order_service u reqs s = (Some r, t)"
    and "OrderService_cancel_order memory_order_service (ord_id r) t = (x, s')"
  shows "app_stock s' = app_stock s \<and> x = Some (r\<lparr>ord_status := ''cancelled''\<rparr>) \<and>
         app_order_list s' = app_order_list s @ [r\<lparr>ord_status := ''cancelled''\<rparr>]"
  using mem_orders.create_cancel_restores[of s u reqs r t x s'] assms by (simp add: app_sound_iff)

theorem create_then_cancel_witness:
  "\<exists>r t x s'. OrderService_create_order memory_order_service 1 [\<lparr>oir_book_id = 1, oir_quantity = 2\<rparr>] default_app = (Some r, t) \<and>
     OrderService_cancel_order memory_order_service (ord_id r) t = (x, s') \<and> app_stock s' = [1 \<mapsto> 12, 2 \<mapsto> 4]"
proof -
  have "fst (OrderService_create_order memory_order_service 1 [\<lparr>oir_book_id = 1, oir_quantity = 2\<rparr>] default_app) \<noteq> None"
    using default_app_sound
    by (subst mem_orders.create_order_iff)
      (simp_all add: app_sound_def orderable_def book_cat_def default_app_def default_books_def
        servable_def reservation_items_of_def demand_def app_stock_def MemoryInventoryRepository_init_def
        order_room_def MemoryOrderRepository_init_def)
  then obtain r t where c: "OrderService_create_order memory_order_service 1
      [\<lparr>oir_book_id = 1, oir_quantity = 2\<rparr>] default_app = (Some r, t)"
    by (metis option.exhaust prod.collapse)
  obtain x s' where d: "OrderService_cancel_order memory_order_service (ord_id r) t = (x, s')"
    by fastforce
  from create_then_cancel[OF default_app_sound _ c d] c d show ?thesis by auto
qed

text \<open>Cancelling an order twice has the effect of cancelling it once: the second call returns the same
  order and changes nothing.\<close>

theorem cancel_twice:
  assumes "app_sound s" "OrderService_cancel_order memory_order_service i s = (x, t)"
    and "OrderService_cancel_order memory_order_service i t = (y, s')"
  shows "y = x \<and> s' = t"
  using mem_orders.cancel_cancel[of s i x t y s'] assms by (simp add: app_sound_iff)

theorem cancel_twice_witness:
  "\<exists>x t y s'. OrderService_cancel_order memory_order_service 1 default_app = (x, t) \<and>
     OrderService_cancel_order memory_order_service 1 t = (y, s') \<and> y = x \<and> s' = t"
proof -
  obtain x t where a: "OrderService_cancel_order memory_order_service 1 default_app = (x, t)" by fastforce
  obtain y s' where b: "OrderService_cancel_order memory_order_service 1 t = (y, s')" by fastforce
  from cancel_twice[OF default_app_sound a b] a b show ?thesis by blast
qed

text \<open>C7: A batch reservation through the local inventory client is all or nothing: it succeeds exactly when
  every book covers the sum of its lines, then every level drops by that sum; otherwise the lines already
  taken are given back and no level has changed. Users, books and orders are never touched.\<close>

theorem batch_reservation_atomic:
  assumes "inventory_ok s" "items \<noteq> []"
    and "ic_reserve_stock_items (LocalInventoryClient memory_inventory_repository) rid items s = (ok, s')"
  shows "(ok \<longleftrightarrow> servable (app_stock s) items) \<and>
    app_stock s' = (if ok then deduct (app_stock s) items else app_stock s) \<and>
    inventory_ok s' \<and> outside_inventory s' = outside_inventory s"
  by (rule mem_inventory.local_client.reserve_items[OF assms])

theorem batch_reservation_atomic_witness:
  "\<exists>ok s'. ic_reserve_stock_items (LocalInventoryClient memory_inventory_repository) ''r''
       [\<lparr>im_book_id = 1, im_quantity = 5\<rparr>, \<lparr>im_book_id = 2, im_quantity = 5\<rparr>] default_app = (ok, s') \<and>
     \<not> ok \<and> app_stock s' = [1 \<mapsto> 12, 2 \<mapsto> 4]"
proof -
  obtain ok s' where r: "ic_reserve_stock_items (LocalInventoryClient memory_inventory_repository) ''r''
      [\<lparr>im_book_id = 1, im_quantity = 5\<rparr>, \<lparr>im_book_id = 2, im_quantity = 5\<rparr>] default_app = (ok, s')"
    by fastforce
  have "\<not> servable (app_stock default_app) [\<lparr>im_book_id = 1, im_quantity = 5\<rparr>, \<lparr>im_book_id = 2, im_quantity = 5\<rparr>]"
    by (simp add: servable_def demand_def)
  with batch_reservation_atomic[OF _ _ r] default_app_sound r show ?thesis
    by (auto simp: app_sound_def app_ok_def)
qed

text \<open>Single deductions add up, also where the level leaves the 32-bit range on the way.\<close>

lemma bump_each:
  "stock_ok s \<Longrightarrow> \<forall>i \<in> set items. mi_stock s (im_book_id i) \<noteq> None \<Longrightarrow>
     mi_stock (foldl (\<lambda>st i. bump_stock (im_book_id i) (- im_quantity i) st) s items) b =
       map_option (\<lambda>v. wrap32 (v - demand items b)) (mi_stock s b)"
proof (induction items arbitrary: s)
  case Nil
  then show ?case by (cases "mi_stock s b") (auto simp: stock_ok_def wrap_simps)
next
  case (Cons i items)
  let ?s = "bump_stock (im_book_id i) (- im_quantity i) s"
  have "\<forall>j \<in> set items. mi_stock ?s (im_book_id j) \<noteq> None"
    using Cons.prems(2) by (auto simp: bump_stock_def)
  note IH = Cons.IH[OF bump_stock_ok[OF Cons.prems(1)] this]
  from IH Cons.prems(2) show ?case
    by (auto simp: bump_stock_def demand_Cons algebra_simps)
qed

text \<open>C38: The batch operation of the memory repository itself, which the gRPC service uses, checks every line
  on its own: a non-empty batch is accepted exactly when each of its lines alone could be served, and then every level
  drops by all that the batch asks of the book. So a batch with several lines for a book is accepted although together
  they exceed the stock, and the level becomes negative exactly for the books for which they do (as long as
  the sum is not so large that the level wraps around to a positive number). A refused batch changes nothing.\<close>

theorem memory_batch_oversells:
  assumes "stock_ok s" "MemoryInventoryRepository_reserve_stock_items rid items s = (ok, s')"
  shows "(ok \<longleftrightarrow> items \<noteq> [] \<and> (\<forall>i \<in> set items. servable (mi_stock s) [i])) \<and> (\<not> ok \<longrightarrow> s' = s) \<and>
    (ok \<longrightarrow> (\<forall>b. mi_stock s' b = map_option (\<lambda>v. wrap32 (v - demand items b)) (mi_stock s b)) \<and>
      (\<forall>b v. mi_stock s b = Some v \<longrightarrow> demand items b \<le> 2 ^ 31 \<longrightarrow>
        mi_stock s' b = Some (v - demand items b) \<and> (level (mi_stock s') b < 0 \<longleftrightarrow> v < demand items b)))"
proof -
  have line: "item_reservable (mi_stock s) i \<longleftrightarrow> servable (mi_stock s) [i]" for i
    by (auto simp: item_reservable_def servable_single)
  have ok: "ok \<longleftrightarrow> items \<noteq> [] \<and> (\<forall>i \<in> set items. servable (mi_stock s) [i])" "\<not> ok \<longrightarrow> s' = s"
    using assms(2) by (auto simp: MemoryInventoryRepository_reserve_stock_items_def list_all_iff line split: if_splits)
  have new: "mi_stock s' b = map_option (\<lambda>v. wrap32 (v - demand items b)) (mi_stock s b)" if ok for b
  proof -
    have "s' = foldl (\<lambda>st i. bump_stock (im_book_id i) (- im_quantity i) st) s items"
      using assms(2) that by (auto simp: MemoryInventoryRepository_reserve_stock_items_def split: if_splits)
    moreover have "\<forall>i \<in> set items. mi_stock s (im_book_id i) \<noteq> None"
      using ok(1) that by (auto simp: servable_single)
    ultimately show ?thesis using bump_each[OF assms(1)] by blast
  qed
  have "mi_stock s' b = Some (v - demand items b)" if ok and v: "mi_stock s b = Some v" "demand items b \<le> 2 ^ 31" for b v
  proof -
    have pos: "\<forall>i \<in> set items. 0 < im_quantity i" using ok(1) that(1) by (auto simp: servable_single)
    have "int32 v" using assms(1) v(1) by (simp add: stock_ok_def)
    moreover have "0 \<le> v" if "demand items b \<noteq> 0"
    proof -
      obtain i where "i \<in> set items" "im_book_id i = b" using \<open>demand items b \<noteq> 0\<close> demand_other[of b items] by force
      then show ?thesis using ok(1) \<open>ok\<close> v(1) by (auto simp: servable_single dest!: bspec)
    qed
    ultimately have "int32 (v - demand items b)"
      using demand_nonneg[OF pos, of b] v(2) by (cases "demand items b = 0") (simp_all add: int32_def)
    then show ?thesis using new[OF \<open>ok\<close>] v(1) by (simp add: wrap_simps)
  qed
  with ok new show ?thesis by (auto simp: level_def)
qed

text \<open>Two lines for three of four copies.\<close>

theorem memory_batch_oversells_witness:
  "\<exists>s'. MemoryInventoryRepository_reserve_stock_items ''r''
          [\<lparr>im_book_id = 2, im_quantity = 3\<rparr>, \<lparr>im_book_id = 2, im_quantity = 3\<rparr>]
          (MemoryInventoryRepository_init [\<lparr>ii_book_id = 2, ii_available = 4\<rparr>]) = (True, s') \<and>
     MemoryInventoryRepository_available_stock 2 s' = Some (- 2)"
proof -
  let ?s = "MemoryInventoryRepository_init [\<lparr>ii_book_id = 2, ii_available = 4\<rparr>]"
  let ?items = "[\<lparr>im_book_id = 2, im_quantity = 3\<rparr>, \<lparr>im_book_id = 2, im_quantity = 3\<rparr>]"
  have s: "stock_ok ?s" by (simp add: stock_ok_def MemoryInventoryRepository_init_def int32_def)
  obtain ok s' where r: "MemoryInventoryRepository_reserve_stock_items ''r'' ?items ?s = (ok, s')" by fastforce
  note p = memory_batch_oversells[OF s r]
  have ok using p by (simp add: servable_single MemoryInventoryRepository_init_def)
  with p r show ?thesis
    by (auto simp: MemoryInventoryRepository_init_def demand_Cons MemoryInventoryRepository_available_stock_def wrap32_def)
qed

section \<open>Users\<close>

text \<open>C32: Registration succeeds exactly for a non-empty name that is not taken; afterwards the same password
  logs in to the account that was returned, a password with another digest does not, and every other user
  is unaffected.\<close>

theorem register_login:
  assumes "users_ok s" "UserService_register_user memory_user_repository u p s = (x, s')"
  shows "users_ok s' \<and> (x \<noteq> None \<longleftrightarrow> u \<noteq> [] \<and> user_cred s u = None) \<and>
    (\<forall>usr. x = Some usr \<longrightarrow>
       UserService_authenticate memory_user_repository u p s' = Some usr \<and> usr_username usr = u \<and>
       (\<forall>q. sha256_hex q \<noteq> sha256_hex p \<longrightarrow> UserService_authenticate memory_user_repository u q s' = None) \<and>
       (\<forall>v q. v \<noteq> u \<longrightarrow> UserService_authenticate memory_user_repository v q s' =
                          UserService_authenticate memory_user_repository v q s))"
proof -
  have "usr_username usr = u" if "x = Some usr" for usr
    using mem_users.create_some[OF assms(1), of u "sha256_hex p" usr s'] assms(2) that
    by (simp add: UserService_register_user_def)
  moreover have "users_ok s'"
    using mem_users.register_keeps_inv[OF assms(1), of u p] assms(2) by simp
  moreover have "x \<noteq> None \<longleftrightarrow> u \<noteq> [] \<and> user_cred s u = None"
    using mem_users.register_iff_free[OF assms(1), of u p] assms(2) by simp
  ultimately show ?thesis
    using mem_users.register_then_login[OF assms(1), of u p _ s'] assms(2) by auto
qed

theorem register_login_witness:
  "\<exists>x s'. UserService_register_user memory_user_repository ''ann'' ''pw'' default_app = (x, s') \<and> x \<noteq> None \<and>
     UserService_authenticate memory_user_repository ''ann'' ''pw'' s' = x"
proof -
  obtain x s' where r: "UserService_register_user memory_user_repository ''ann'' ''pw'' default_app = (x, s')"
    by fastforce
  have "users_ok default_app" "user_cred default_app ''ann'' = None"
    by (simp_all add: users_ok_def user_cred_def default_app_def MemoryUserRepository_init_def)
  with register_login[OF _ r] r show ?thesis by (cases x) auto
qed

section \<open>The catalogue\<close>

text \<open>Every book of the catalogue stays valid (non-empty title and author, positive price, non-negative
  stock, status active or inactive) under creation and update, accepted or refused.\<close>

theorem catalogue_stays_valid:
  assumes "books_ok s" "books_room s" "valid_catalogue (book_cat s)"
  shows "valid_catalogue (book_cat (snd (BookService_create_book memory_book_repository b s))) \<and>
         valid_catalogue (book_cat (snd (BookService_update_book memory_book_repository i u s)))"
  using mem_books.create_keeps_valid[OF assms] mem_books.update_keeps_valid[OF assms(1,3)] by simp_all

theorem catalogue_stays_valid_witness:
  "valid_catalogue (book_cat (snd (BookService_update_book memory_book_repository 1
     \<lparr>bu_title = None, bu_author = None, bu_price_cents = Some 100, bu_stock = None, bu_status = None\<rparr> default_app)))"
proof (rule conjunct2[OF catalogue_stays_valid])
  show "books_ok default_app" "books_room default_app"
    by (simp_all add: books_ok_def books_room_def book_room_def default_app_def default_books_def)
  show "valid_catalogue (book_cat default_app)"
    by (auto simp: valid_catalogue_def ran_def book_cat_def default_app_def default_books_def valid_book_def
        split: if_splits)
qed

text \<open>Search returns exactly the active books whose title or author contains the keyword up to letter
  case, in catalogue order and without repetition of positions.\<close>

theorem search_exact:
  "filter_books books keyword =
     [b \<leftarrow> books. bk_status b = ''active'' \<and>
        (\<exists>pre mid post. (bk_title b = pre @ mid @ post \<or> bk_author b = pre @ mid @ post) \<and>
           map tolower mid = map tolower keyword)]"
proof -
  have "contains_ignore_case (bk_title b) keyword \<or> contains_ignore_case (bk_author b) keyword \<longleftrightarrow>
      (\<exists>pre mid post. (bk_title b = pre @ mid @ post \<or> bk_author b = pre @ mid @ post) \<and>
         map tolower mid = map tolower keyword)" for b :: Book
    unfolding contains_ignore_case_iff same_letters_def by blast
  then show ?thesis
    by (simp only: filter_books_def filter_books_loop_eq append_Nil)
qed

section \<open>Recommendation\<close>

text \<open>The index returns the nearest books: all scored books are split into a returned part and the rest,
  the returned part is ordered by distance and then id, nothing in the rest precedes anything returned, and
  the returned part has \<open>limit\<close> books or all there are.\<close>

theorem topk_nearest:
  assumes "bk_id book > 0"
  shows "\<exists>near far. mset (near @ far) = mset (scored_entries entries book) \<and> sorted near \<and>
    (\<forall>x \<in> set near. \<forall>y \<in> set far. x \<le> y) \<and> TopK_search_similar entries book limit = map snd near \<and>
    length near = min (nat limit) (length (scored_entries entries book))"
proof -
  let ?all = "sort (scored_entries entries book)"
  let ?near = "take (nat limit) ?all" and ?far = "drop (nat limit) ?all"
  have "sorted (?near @ ?far)" by simp
  then have "sorted ?near" "\<forall>x \<in> set ?near. \<forall>y \<in> set ?far. x \<le> y"
    unfolding sorted_append by blast+
  moreover have "mset (?near @ ?far) = mset (scored_entries entries book)"
    by simp
  moreover have "TopK_search_similar entries book limit = map snd ?near"
    using assms by (simp add: search_similar_take take_map)
  moreover have "length ?near = min (nat limit) (length (scored_entries entries book))"
    by simp
  ultimately show ?thesis by blast
qed

theorem topk_nearest_witness:
  "\<exists>near far. mset (near @ far) = mset (scored_entries (TopK_build default_books) (hd default_books)) \<and>
     TopK_search_similar (TopK_build default_books) (hd default_books) 5 = map snd near"
  using topk_nearest[of "hd default_books" "TopK_build default_books" 5] by (auto simp: default_books_def)

text \<open>\<^verbatim>\<open>GET /api/books/{id}/similar\<close> recommends at most \<open>limit\<close> books, all of them active books of the
  catalogue and never the book itself.\<close>

theorem similar_books_sound:
  assumes "RecommendService_similar_books (Some (LocalBookClient memory_book_repository)) index i limit s = Some books"
  shows "length books \<le> nat limit \<and>
    (\<forall>b \<in> set books. bk_status b = ''active'' \<and> bk_id b \<noteq> i \<and> book_cat s (bk_id b) = Some b)"
proof -
  let ?BC = "LocalBookClient memory_book_repository"
  let ?pick = "\<lambda>j. case bc_find_book ?BC j s of None \<Rightarrow> [] | Some b \<Rightarrow> if bk_status b \<noteq> ''active'' then [] else [b]"
  have find: "bc_find_book ?BC j s = book_cat s j" for j
    by (simp add: LocalBookClient_def BookService_find_book_def memory_book_repository_def
        MemoryBookRepository_find_book_def book_cat_def)
  have catid: "bk_id b = j" if "book_cat s j = Some b" for b j
    using find_book_loop_SomeD that by (auto simp: book_cat_def)
  obtain source where src: "book_cat s i = Some source"
      and bs: "books = [] \<or> books = concat (map ?pick (TopK_search_similar index source limit))"
    using assms by (auto simp: RecommendService_similar_books_def find split: if_splits option.splits)
  have "length (concat (map ?pick js)) \<le> length js" for js
    by (induction js) (auto split: option.splits)
  moreover have "length (TopK_search_similar index source limit) \<le> nat limit"
    by (simp add: search_similar_take)
  ultimately have "length books \<le> nat limit"
    using bs order_trans by fastforce
  moreover have "bk_status b = ''active'' \<and> bk_id b \<noteq> i \<and> book_cat s (bk_id b) = Some b" if mem: "b \<in> set books" for b
  proof -
    obtain j where j: "j \<in> set (TopK_search_similar index source limit)" "book_cat s j = Some b" "bk_status b = ''active''"
      using bs mem by (auto simp: find split: option.splits if_splits)
    with search_similar_ids[OF j(1)] catid[OF j(2)] catid[OF src] show ?thesis by simp
  qed
  ultimately show ?thesis by blast
qed

theorem similar_books_sound_witness:
  "\<exists>books. RecommendService_similar_books (Some (LocalBookClient memory_book_repository)) [] 1 5 default_app = Some books \<and>
     length books \<le> 5"
proof -
  have "RecommendService_similar_books (Some (LocalBookClient memory_book_repository)) [] 1 5 default_app = Some []"
    by (simp add: RecommendService_similar_books_def LocalBookClient_def BookService_find_book_def TopK_ready_def
        memory_book_repository_def MemoryBookRepository_find_book_def default_app_def default_books_def)
  from similar_books_sound[OF this] this show ?thesis by simp
qed

section \<open>The gateway\<close>

text \<open>The interface of the gateway, written down as a decision on the method and the path of a request, without the
  router and its table: which paths there are, what answers them, which part of the path is the parameter, and whether
  the state may change. An exact path is compared with the path as it was sent, a path with a parameter
  segment by segment.\<close>

definition follows :: "string option list \<Rightarrow> string \<Rightarrow> bool" where
  "follows segments path \<longleftrightarrow> list_all2 (\<lambda>want is. want = None \<or> want = Some is) segments (split_path path)"

definition endpoint :: "HttpRequest \<Rightarrow> 's ApiGateway \<Rightarrow> (HttpResponse \<times> 's ApiGateway) option" where
  "endpoint request g =
     (let path = rq_path request;
          s = gw_data g;
          look = (\<lambda>response. Some (response, g));
          act = (\<lambda>(response, s'). Some (response, g\<lparr>gw_data := s'\<rparr>));
          param = (\<lambda>name i. request\<lparr>rq_path_params := [name \<mapsto> split_path path ! i]\<rparr>) in
      case rq_method request of
        Get \<Rightarrow>
          if path = ''/api/health''
          then look (json_response 200 ''{\"code\":0,\"message\":\"ok\",\"data\":{\"service\":\"web-gateway\"}}'')
          else if path = ''/api/live''
          then look (json_response 200 ''{\"code\":0,\"message\":\"ok\",\"data\":{\"status\":\"alive\"}}'')
          else if path = ''/api/ready'' then look (handle_ready g s)
          else if path = ''/api/books'' then look (handle_list_books request (book_client_of g) s)
          else if path = ''/api/books/search'' then look (handle_search_books request (book_client_of g) s)
          else if path = ''/api/orders'' then look (handle_list_orders request (order_client_of g) s)
          else if follows [Some ''api'', Some ''books'', None] path
          then look (handle_get_book (param ''book_id'' 2) (book_client_of g) s)
          else if follows [Some ''api'', Some ''books'', None, Some ''similar''] path
          then Some (handle_similar (param ''book_id'' 2) g)
          else if follows [Some ''api'', Some ''inventory'', Some ''books'', None] path
          then look (handle_get_inventory (param ''book_id'' 3) (inventory_client_of g) s)
          else if follows [Some ''api'', Some ''orders'', None] path
          then look (handle_get_order (param ''order_id'' 2) (order_client_of g) s)
          else None
      | Post \<Rightarrow>
          if path = ''/api/books'' then act (handle_create_book request (book_client_of g) s)
          else if path = ''/api/auth/register'' then act (handle_register_user request (user_client_of g) s)
          else if path = ''/api/auth/login'' then look (handle_login_user request (user_client_of g) s)
          else if path = ''/api/orders'' then act (handle_create_order request (order_client_of g) s)
          else if follows [Some ''api'', Some ''inventory'', Some ''books'', None, Some ''inbound''] path
          then act (handle_add_inventory (param ''book_id'' 3) (inventory_client_of g) s)
          else if follows [Some ''api'', Some ''orders'', None, Some ''cancel''] path
          then act (handle_cancel_order (param ''order_id'' 2) (order_client_of g) s)
          else None
      | Patch \<Rightarrow>
          if follows [Some ''api'', Some ''books'', None] path
          then act (handle_update_book (param ''book_id'' 2) (book_client_of g) s)
          else None
      | _ \<Rightarrow> None)"

lemma follows_pattern:
  "pattern_matches pats (split_path path) \<longleftrightarrow> follows (map (\<lambda>p. if is_param p then None else Some p) pats) path"
  by (auto simp: pattern_matches_def follows_def list_all2_conv_all_nth)

lemma follows_length: "follows ws path \<Longrightarrow> length (split_path path) = length ws"
  by (simp add: follows_def list_all2_lengthD)

lemma bound_params:
  "follows [w1, w2, w3] path \<Longrightarrow> map_of (rev (bindings [''api'', ''books'', ''{book_id}''] (split_path path))) =
     [''book_id'' \<mapsto> split_path path ! 2]"
  "follows [w1, w2, w3, w4] path \<Longrightarrow> map_of (rev (bindings [''api'', ''books'', ''{book_id}'', ''similar''] (split_path path))) =
     [''book_id'' \<mapsto> split_path path ! 2]"
  "follows [w1, w2, w3, w4] path \<Longrightarrow> map_of (rev (bindings [''api'', ''inventory'', ''books'', ''{book_id}''] (split_path path))) =
     [''book_id'' \<mapsto> split_path path ! 3]"
  "follows [w1, w2, w3] path \<Longrightarrow> map_of (rev (bindings [''api'', ''orders'', ''{order_id}''] (split_path path))) =
     [''order_id'' \<mapsto> split_path path ! 2]"
  "follows [w1, w2, w3, w4, w5] path \<Longrightarrow>
     map_of (rev (bindings [''api'', ''inventory'', ''books'', ''{book_id}'', ''inbound''] (split_path path))) =
     [''book_id'' \<mapsto> split_path path ! 3]"
  "follows [w1, w2, w3, w4] path \<Longrightarrow> map_of (rev (bindings [''api'', ''orders'', ''{order_id}'', ''cancel''] (split_path path))) =
     [''order_id'' \<mapsto> split_path path ! 2]"
  by (drule follows_length, auto simp: bindings_def length_Suc_conv numeral_eq_Suc)+

text \<open>C26: The gateway answers every request as its interface says: the route table registers without an exception, each of
  the seventeen routes reaches its own handler with the client and the path parameter that belong to it, the exact
  path \<^verbatim>\<open>/api/books/search\<close> is not taken for a book id, only the writing routes can change the stored state,
  and a request with any other method or path is answered by no handler.\<close>

theorem gateway_dispatch:
  "dispatch request g = endpoint request g"
proof (cases "rq_method request")
  case Get
  then show ?thesis
    by (simp add: dispatch_table table_lookup_def api_routes_def exact_entry_def pattern_entry_def has_param_def endpoint_def Let_def
        follows_pattern reading_def bound_params ok_json_def)
next
  case Post
  then show ?thesis
    by (simp add: dispatch_table table_lookup_def api_routes_def exact_entry_def pattern_entry_def has_param_def endpoint_def Let_def
        follows_pattern reading_def writing_def bound_params split: prod.splits)
next
  case Patch
  then show ?thesis
    by (simp add: dispatch_table table_lookup_def api_routes_def exact_entry_def pattern_entry_def has_param_def endpoint_def Let_def
        follows_pattern writing_def bound_params split: prod.splits)
qed (simp_all add: dispatch_table table_lookup_def api_routes_def exact_entry_def pattern_entry_def endpoint_def Let_def)

text \<open>The search route is not shadowed by the pattern \<^verbatim>\<open>/api/books/{book_id}\<close> that is registered before it.\<close>

theorem search_route_wins:
  "dispatch (request\<lparr>rq_method := Get, rq_path := ''/api/books/search''\<rparr>) g =
     Some (handle_search_books (request\<lparr>rq_method := Get, rq_path := ''/api/books/search''\<rparr>) (book_client_of g) (gw_data g), g)"
  by (simp add: dispatch_table table_lookup_def api_routes_def exact_entry_def has_param_def reading_def)

end
