(* ===== verification/Http_Conn.thy ===== *)
theory Http_Conn
  imports Gateway
begin

text \<open>
  \<^verbatim>\<open>src/net/http/http_conn.h\<close>, \<^verbatim>\<open>src/net/http/http_conn.cpp\<close> and \<^verbatim>\<open>src/net/http/mmap_guard.h\<close>: one
  connection. The state of the object is the record \<open>HttpConn\<close>; what it shares with the rest of the
  process (the user counter, the calls made to epoll, the gateway) is the record \<open>Net\<close>. The file system and
  the results of \<^verbatim>\<open>recv\<close> and \<^verbatim>\<open>writev\<close> are arguments. Exceptions of the standard library that escape are
  values of \<open>conn_error\<close>.
\<close>

section \<open>State\<close>

definition kReadBufSize :: nat where
  "kReadBufSize = 2048"

definition kWriteBufSize :: nat where
  "kWriteBufSize = 1024"

datatype Method = MethodGet | MethodPost

datatype CheckState = StRequestLine | StHeader | StContent

datatype HttpCode = NoRequest | GetRequest | BadRequest | NoResource | ForbiddenRequest | FileRequest
  | ApiResponse | InternalError | ClosedConnection

datatype LineStatus = LineOk | LineBad | LineOpen

datatype conn_error = StolInvalidArgument | StolOutOfRange | StringLengthError

text \<open>Where an \<^verbatim>\<open>iovec\<close> points to, with its offset there.\<close>

datatype Segment = NullBuf | WriteBuf | MmapFile | ApiBuf

record iovec =
  iov_base :: Segment
  iov_off :: int
  iov_len :: int

record FileInfo =
  fi_other_read :: bool
  fi_is_dir :: bool
  fi_openable :: bool
  fi_mappable :: bool
  fi_content :: string

type_synonym filesystem = "string \<rightharpoonup> FileInfo"

record HttpConn =
  hc_sockfd :: int
  hc_doc_root :: string
  hc_trig_mode :: int
  hc_read_buf :: string
  hc_read_idx :: nat
  hc_checked_idx :: nat
  hc_line_start :: nat
  hc_write_buf :: string
  hc_write_idx :: nat
  hc_bytes_to_send :: int
  hc_bytes_sent :: int
  hc_iv0 :: iovec
  hc_iv1 :: iovec
  hc_iv_count :: nat
  hc_check_state :: CheckState
  hc_method :: Method
  hc_linger :: bool
  hc_url :: string
  hc_version :: string
  hc_host :: string
  hc_content_length :: int
  hc_request_body :: string
  hc_real_file :: string
  hc_file_size :: int
  hc_mmap :: "string option"
  hc_api_response :: string
  hc_improv :: bool
  hc_timer_flag :: bool
  hc_m_state :: int

datatype EpollCall =
    EpollAdd int bool int
  | EpollDel int
  | EpollModIn int int
  | EpollModOut int int

record 's Net =
  nt_user_count :: int
  nt_epoll :: "EpollCall list"
  nt_gateway :: "'s ApiGateway option"

definition epoll_call :: "EpollCall \<Rightarrow> 's Net \<Rightarrow> 's Net" where
  "epoll_call c n = n\<lparr>nt_epoll := nt_epoll n @ [c]\<rparr>"

definition no_iovec :: iovec where
  "no_iovec = \<lparr>iov_base = NullBuf, iov_off = 0, iov_len = 0\<rparr>"

definition to_api_method :: "Method \<Rightarrow> HttpMethod" where
  "to_api_method m = (case m of MethodGet \<Rightarrow> Get | MethodPost \<Rightarrow> Post)"

text \<open>A default-constructed connection.\<close>

definition HttpConn_new :: HttpConn where
  "HttpConn_new =
     \<lparr>hc_sockfd = - 1, hc_doc_root = [], hc_trig_mode = 0, hc_read_buf = replicate kReadBufSize NUL,
      hc_read_idx = 0, hc_checked_idx = 0, hc_line_start = 0, hc_write_buf = replicate kWriteBufSize NUL,
      hc_write_idx = 0, hc_bytes_to_send = 0, hc_bytes_sent = 0, hc_iv0 = no_iovec, hc_iv1 = no_iovec,
      hc_iv_count = 0, hc_check_state = StRequestLine, hc_method = MethodGet, hc_linger = False,
      hc_url = [], hc_version = [], hc_host = [], hc_content_length = 0, hc_request_body = [],
      hc_real_file = [], hc_file_size = 0, hc_mmap = None, hc_api_response = [], hc_improv = False,
      hc_timer_flag = False, hc_m_state = 0\<rparr>"

section \<open>Life cycle\<close>

definition reset_state :: "HttpConn \<Rightarrow> HttpConn" where
  "reset_state c =
     c\<lparr>hc_bytes_to_send := 0, hc_bytes_sent := 0, hc_check_state := StRequestLine, hc_method := MethodGet,
       hc_linger := False, hc_content_length := 0, hc_line_start := 0, hc_checked_idx := 0, hc_read_idx := 0,
       hc_write_idx := 0, hc_iv_count := 0, hc_m_state := 0,
       hc_url := [], hc_version := [], hc_host := [], hc_request_body := [], hc_real_file := [],
       hc_api_response := [], hc_mmap := None, hc_improv := False, hc_timer_flag := False,
       hc_read_buf := replicate kReadBufSize NUL, hc_write_buf := replicate kWriteBufSize NUL,
       hc_iv0 := no_iovec, hc_iv1 := no_iovec, hc_file_size := 0\<rparr>"

definition HttpConn_init :: "int \<Rightarrow> string \<Rightarrow> int \<Rightarrow> HttpConn \<Rightarrow> 's Net \<Rightarrow> HttpConn \<times> 's Net" where
  "HttpConn_init sockfd doc_root trig_mode c n =
     (reset_state (c\<lparr>hc_sockfd := sockfd, hc_doc_root := doc_root, hc_trig_mode := trig_mode\<rparr>),
      (epoll_call (EpollAdd sockfd True trig_mode) n)\<lparr>nt_user_count := nt_user_count n + 1\<rparr>)"

definition close_conn :: "bool \<Rightarrow> HttpConn \<Rightarrow> 's Net \<Rightarrow> HttpConn \<times> 's Net" where
  "close_conn real_close c n =
     (if real_close \<and> hc_sockfd c \<noteq> - 1
      then (c\<lparr>hc_sockfd := - 1\<rparr>,
            (epoll_call (EpollDel (hc_sockfd c)) n)\<lparr>nt_user_count := nt_user_count n - 1\<rparr>)
      else (c, n))"

section \<open>Reading\<close>

text \<open>
  The result of one \<^verbatim>\<open>recv\<close>: bytes, end of file, nothing available now, or another error. The bytes never
  exceed the room that was offered.
\<close>

datatype recv_result = Received string | Eof | WouldBlock | RecvError

definition overwrite :: "'a list \<Rightarrow> nat \<Rightarrow> 'a list \<Rightarrow> 'a list" where
  "overwrite buf pos xs = take pos buf @ xs @ drop (pos + length xs) buf"

definition accept_bytes :: "string \<Rightarrow> HttpConn \<Rightarrow> HttpConn" where
  "accept_bytes bs c =
     c\<lparr>hc_read_buf := overwrite (hc_read_buf c) (hc_read_idx c) bs,
       hc_read_idx := hc_read_idx c + length bs\<rparr>"

text \<open>
  The edge-triggered loop consumes results until it stops; \<open>None\<close> stands for a list of results that is too
  short. A full buffer makes \<^verbatim>\<open>recv\<close> return 0 for a request of zero bytes, which the code takes for the
  end of the stream.
\<close>

fun read_loop :: "recv_result list \<Rightarrow> HttpConn \<Rightarrow> (bool \<times> HttpConn) option" where
  "read_loop [] c = None"
| "read_loop (r # rs) c =
     (if kReadBufSize \<le> hc_read_idx c then Some (False, c)
      else case r of
        WouldBlock \<Rightarrow> Some (True, c)
      | RecvError \<Rightarrow> Some (False, c)
      | Eof \<Rightarrow> Some (False, c)
      | Received bs \<Rightarrow>
          if bs = [] then Some (False, c)
          else read_loop rs (accept_bytes (take (kReadBufSize - hc_read_idx c) bs) c))"

definition read_once :: "recv_result list \<Rightarrow> HttpConn \<Rightarrow> (bool \<times> HttpConn) option" where
  "read_once rs c =
     (if kReadBufSize \<le> hc_read_idx c then Some (False, c)
      else if hc_trig_mode c = 0
      then (case rs of
              [] \<Rightarrow> None
            | Received bs # _ \<Rightarrow>
                if bs = [] then Some (False, c)
                else Some (True, accept_bytes (take (kReadBufSize - hc_read_idx c) bs) c)
            | _ # _ \<Rightarrow> Some (False, c))
      else read_loop rs c)"

section \<open>The parser\<close>

definition get_line :: "HttpConn \<Rightarrow> string" where
  "get_line c = substr (hc_read_buf c) (hc_line_start c) (hc_checked_idx c - hc_line_start c)"

function parse_line :: "HttpConn \<Rightarrow> LineStatus \<times> HttpConn" where
  "parse_line c =
     (let i = hc_checked_idx c in
      if i < hc_read_idx c then
        (let ch = hc_read_buf c ! i in
         if ch = CR then
           (if i + 1 = hc_read_idx c then (LineOpen, c)
            else if hc_read_buf c ! (i + 1) = LF
            then (LineOk, c\<lparr>hc_read_buf := (hc_read_buf c)[i := NUL, i + 1 := NUL], hc_checked_idx := i + 2\<rparr>)
            else (LineBad, c))
         else if ch = LF then
           (if i > 0 \<and> hc_read_buf c ! (i - 1) = CR
            then (LineOk, c\<lparr>hc_read_buf := (hc_read_buf c)[i - 1 := NUL, i := NUL], hc_checked_idx := i + 1\<rparr>)
            else (LineBad, c))
         else parse_line (c\<lparr>hc_checked_idx := i + 1\<rparr>))
      else (LineOpen, c))"
  by pat_completeness auto
termination
  by (relation "measure (\<lambda>c. hc_read_idx c - hc_checked_idx c)") auto

declare parse_line.simps [simp del]

text \<open>\<^verbatim>\<open>strncasecmp(s, p, n) == 0\<close> for a prefix without NUL.\<close>

definition has_prefix_nocase :: "string \<Rightarrow> string \<Rightarrow> bool" where
  "has_prefix_nocase p s \<longleftrightarrow> map tolower (take (length p) s) = map tolower p"

definition strip_version :: "string \<Rightarrow> string" where
  "strip_version s = rev (dropWhile (\<lambda>c. c = NUL \<or> c = CR) (rev s))"

text \<open>The absolute form of a request target loses its scheme and authority.\<close>

definition strip_scheme :: "string \<Rightarrow> string option" where
  "strip_scheme url =
     (if length url > 7 \<and> has_prefix_nocase ''http://'' url
      then (case find_from ''/'' (drop 7 url) 0 of None \<Rightarrow> None | Some slash \<Rightarrow> Some (drop slash (drop 7 url)))
      else if length url > 8 \<and> has_prefix_nocase ''https://'' url
      then (case find_from ''/'' (drop 8 url) 0 of None \<Rightarrow> None | Some slash \<Rightarrow> Some (drop slash (drop 8 url)))
      else Some url)"

definition blanks :: string where
  "blanks = [CHR '' '', TAB]"

definition parse_method :: "string \<Rightarrow> Method option" where
  "parse_method s = (if s = ''GET'' then Some MethodGet else if s = ''POST'' then Some MethodPost else None)"

definition parse_request_line :: "string \<Rightarrow> HttpConn \<Rightarrow> HttpCode \<times> HttpConn" where
  "parse_request_line line c =
     (case find_first_of blanks line 0 of
        None \<Rightarrow> (BadRequest, c)
      | Some sp1 \<Rightarrow>
     (case parse_method (substr line 0 sp1) of
        None \<Rightarrow> (BadRequest, c)
      | Some m \<Rightarrow>
     (let c = c\<lparr>hc_method := m\<rparr> in
      case find_first_not_of blanks line sp1 of
        None \<Rightarrow> (BadRequest, c)
      | Some url_s \<Rightarrow>
     (case find_first_of blanks line url_s of
        None \<Rightarrow> (BadRequest, c)
      | Some url_e \<Rightarrow>
     (case find_first_not_of blanks line url_e of
        None \<Rightarrow> (BadRequest, c)
      | Some ver_s \<Rightarrow>
     (if \<not> has_prefix_nocase ''HTTP/1.1'' (strip_version (drop ver_s line)) then (BadRequest, c)
      else case strip_scheme (substr line url_s (url_e - url_s)) of
        None \<Rightarrow> (BadRequest, c)
      | Some url \<Rightarrow>
          if url = [] \<or> hd url \<noteq> CHR ''/'' then (BadRequest, c)
          else (NoRequest, c\<lparr>hc_url := (if length url = 1 then ''/judge.html'' else url),
                             hc_check_state := StHeader\<rparr>)))))))"

text \<open>\<^verbatim>\<open>std::stol\<close>\<close>

definition stol :: "string \<Rightarrow> conn_error + int" where
  "stol s =
     (let t = dropWhile isspace (c_str s);
          negative = (t \<noteq> [] \<and> hd t = CHR ''-'');
          u = (if t \<noteq> [] \<and> (hd t = CHR ''-'' \<or> hd t = CHR ''+'') then tl t else t);
          ds = takeWhile isdigit u;
          v = (if negative then - dec_value 0 ds else dec_value 0 ds)
      in if ds = [] then Inl StolInvalidArgument
         else if v < - (2 ^ 63) \<or> 2 ^ 63 \<le> v then Inl StolOutOfRange
         else Inr v)"

definition header_val :: "string \<Rightarrow> string \<Rightarrow> string" where
  "header_val line prefix =
     (if length line \<le> length prefix then []
      else if \<not> has_prefix_nocase prefix line then []
      else (case find_first_not_of blanks (drop (length prefix) line) 0 of
              None \<Rightarrow> []
            | Some s \<Rightarrow> drop s (drop (length prefix) line)))"

definition parse_headers :: "string \<Rightarrow> HttpConn \<Rightarrow> conn_error + HttpCode \<times> HttpConn" where
  "parse_headers line c =
     (if line ! 0 = NUL
      then (if hc_content_length c \<noteq> 0 then Inr (NoRequest, c\<lparr>hc_check_state := StContent\<rparr>)
            else Inr (GetRequest, c))
      else if header_val line ''Connection:'' \<noteq> []
      then Inr (NoRequest, c\<lparr>hc_linger := has_prefix_nocase ''keep-alive'' (header_val line ''Connection:'')\<rparr>)
      else if header_val line ''Content-length:'' \<noteq> []
      then (case stol (header_val line ''Content-length:'') of
              Inl e \<Rightarrow> Inl e
            | Inr n \<Rightarrow> Inr (NoRequest, c\<lparr>hc_content_length := n\<rparr>))
      else if header_val line ''Host:'' \<noteq> []
      then Inr (NoRequest, c\<lparr>hc_host := header_val line ''Host:''\<rparr>)
      else Inr (NoRequest, c))"

text \<open>
  \<^verbatim>\<open>checked_idx_ + content_length_\<close> is a 64-bit sum. When it wraps, the length handed to the string
  constructor is beyond \<^verbatim>\<open>max_size\<close> and the constructor throws.
\<close>

definition wrap64 :: "int \<Rightarrow> int" where
  "wrap64 x = (x + 2 ^ 63) mod 2 ^ 64 - 2 ^ 63"

definition parse_content :: "HttpConn \<Rightarrow> conn_error + HttpCode \<times> HttpConn" where
  "parse_content c =
     (if hc_content_length c \<le> 0 \<or>
         int (hc_read_idx c) < wrap64 (int (hc_checked_idx c) + hc_content_length c)
      then Inr (NoRequest, c)
      else if hc_content_length c > 2 ^ 62 - 1 then Inl StringLengthError
      else Inr (GetRequest, c\<lparr>hc_request_body :=
             substr (hc_read_buf c) (hc_checked_idx c) (nat (hc_content_length c))\<rparr>))"

lemma parse_line_skip:
  "hc_checked_idx c < hc_read_idx c \<Longrightarrow> hc_read_buf c ! hc_checked_idx c \<notin> {CR, LF} \<Longrightarrow>
     parse_line c = parse_line (c\<lparr>hc_checked_idx := hc_checked_idx c + 1\<rparr>)"
  by (subst parse_line.simps) (simp add: Let_def)

lemma parse_line_spec:
  "hc_read_idx (snd (parse_line c)) = hc_read_idx c \<and> hc_checked_idx c \<le> hc_checked_idx (snd (parse_line c)) \<and>
   (fst (parse_line c) = LineOk \<longrightarrow>
      hc_checked_idx c < hc_checked_idx (snd (parse_line c)) \<and> hc_checked_idx (snd (parse_line c)) \<le> hc_read_idx c)"
proof (induction c rule: parse_line.induct)
  case (1 c)
  show ?case
  proof (cases "hc_checked_idx c < hc_read_idx c \<and> hc_read_buf c ! hc_checked_idx c \<notin> {CR, LF}")
    case True
    with parse_line_skip[of c] 1[OF refl _ refl] show ?thesis by simp
  next
    case False
    have "parse_line c = (let i = hc_checked_idx c in
      if i < hc_read_idx c then
        (let ch = hc_read_buf c ! i in
         if ch = CR then
           (if i + 1 = hc_read_idx c then (LineOpen, c)
            else if hc_read_buf c ! (i + 1) = LF
            then (LineOk, c\<lparr>hc_read_buf := (hc_read_buf c)[i := NUL, i + 1 := NUL], hc_checked_idx := i + 2\<rparr>)
            else (LineBad, c))
         else
           (if i > 0 \<and> hc_read_buf c ! (i - 1) = CR
            then (LineOk, c\<lparr>hc_read_buf := (hc_read_buf c)[i - 1 := NUL, i := NUL], hc_checked_idx := i + 1\<rparr>)
            else (LineBad, c)))
      else (LineOpen, c))"
      using False by (subst parse_line.simps) (auto simp: Let_def)
    then show ?thesis
      by (auto simp: Let_def)
  qed
qed

text \<open>
  The loop of \<^verbatim>\<open>process_read\<close>, up to the call of \<^verbatim>\<open>do_request\<close>: the result \<open>GetRequest\<close> says that the request
  is complete.
\<close>

function process_read_loop :: "LineStatus \<Rightarrow> HttpConn \<Rightarrow> conn_error + HttpCode \<times> HttpConn" where
  "process_read_loop line_st c =
     (let (st, c1) = (if hc_check_state c = StContent \<and> line_st = LineOk then (LineOk, c) else parse_line c) in
      if st \<noteq> LineOk then Inr (NoRequest, c1)
      else
        (let line = get_line c1; c2 = c1\<lparr>hc_line_start := hc_checked_idx c1\<rparr> in
         case hc_check_state c2 of
           StRequestLine \<Rightarrow>
             (case parse_request_line line c2 of
                (ret, c3) \<Rightarrow>
                  if ret = BadRequest then Inr (BadRequest, c3) else process_read_loop LineOk c3)
         | StHeader \<Rightarrow>
             (case parse_headers line c2 of
                Inl e \<Rightarrow> Inl e
              | Inr (ret, c3) \<Rightarrow>
                  if ret = BadRequest then Inr (BadRequest, c3)
                  else if ret = GetRequest then Inr (GetRequest, c3)
                  else process_read_loop LineOk c3)
         | StContent \<Rightarrow>
             (case parse_content c2 of
                Inl e \<Rightarrow> Inl e
              | Inr (ret, c3) \<Rightarrow>
                  if ret = GetRequest then Inr (GetRequest, c3) else process_read_loop LineOpen c3)))"
  by pat_completeness auto

lemma parse_request_line_idx:
  "parse_request_line line c = (ret, c') \<Longrightarrow>
     hc_read_idx c' = hc_read_idx c \<and> hc_checked_idx c' = hc_checked_idx c"
  by (auto simp: parse_request_line_def Let_def split: option.splits if_splits)

lemma parse_headers_idx:
  "parse_headers line c = Inr (ret, c') \<Longrightarrow>
     hc_read_idx c' = hc_read_idx c \<and> hc_checked_idx c' = hc_checked_idx c"
  by (auto simp: parse_headers_def split: sum.splits if_splits)

lemma parse_content_idx:
  "parse_content c = Inr (ret, c') \<Longrightarrow>
     hc_read_idx c' = hc_read_idx c \<and> hc_checked_idx c' = hc_checked_idx c"
  by (auto simp: parse_content_def split: if_splits)

text \<open>
  Every turn consumes a line of the buffer, or spends the one free visit of the content state.
\<close>

definition turn_measure :: "LineStatus \<times> HttpConn \<Rightarrow> nat" where
  "turn_measure = (\<lambda>(st, c). 2 * (hc_read_idx c - hc_checked_idx c) + (if st = LineOk then 1 else 0))"

lemma line_turn:
  assumes "parse_line c = (LineOk, c1)" "hc_read_idx c3 = hc_read_idx c1" "hc_checked_idx c3 = hc_checked_idx c1"
  shows "turn_measure (st', c3) < turn_measure (st, c)"
  using parse_line_spec[of c] assms by (auto simp: turn_measure_def)

termination process_read_loop
proof (relation "measure turn_measure", goal_cases)
  case 1
  show ?case by simp
next
  case (2 line_st c x st c1 line c2 ret c3)
  then have ok: "parse_line c = (LineOk, c1)"
    by (auto split: if_splits)
  show ?case
    using line_turn[OF ok, of c3 LineOk line_st] parse_request_line_idx[of line c2 ret c3] 2 by simp
next
  case (3 line_st c x st c1 line c2 b ret c3)
  then have ok: "parse_line c = (LineOk, c1)"
    by (auto split: if_splits)
  show ?case
    using line_turn[OF ok, of c3 LineOk line_st] parse_headers_idx[of line c2 ret c3] 3 by simp
next
  case (4 line_st c x st c1 line c2 b ret c3)
  have i: "hc_read_idx c3 = hc_read_idx c1 \<and> hc_checked_idx c3 = hc_checked_idx c1"
    using parse_content_idx[of c2 ret c3] 4 by simp
  show ?case
  proof (cases "hc_check_state c = StContent \<and> line_st = LineOk")
    case True
    with 4 i show ?thesis by (simp add: turn_measure_def)
  next
    case False
    with 4 have ok: "parse_line c = (LineOk, c1)"
      by (auto split: if_splits)
    show ?thesis
      using line_turn[OF ok, of c3 LineOpen line_st] i by simp
  qed
qed

declare process_read_loop.simps [simp del]

section \<open>Dispatch\<close>

definition api_not_found :: HttpResponse where
  "api_not_found = error_json 404 ''api route not found''"

definition api_request :: "HttpConn \<Rightarrow> HttpRequest" where
  "api_request c =
     (case split_path_and_query (hc_url c) of
        (path, query) \<Rightarrow>
          \<lparr>rq_method = to_api_method (hc_method c), rq_path = path, rq_body = hc_request_body c,
           rq_headers = (if hc_host c \<noteq> [] then [''Host'' \<mapsto> hc_host c] else Map.empty),
           rq_path_params = Map.empty, rq_query_params = query\<rparr>)"

definition do_request :: "filesystem \<Rightarrow> HttpConn \<Rightarrow> 's Net \<Rightarrow> HttpCode \<times> HttpConn \<times> 's Net" where
  "do_request fs c n =
     (if is_prefix ''/api/'' (hc_url c)
      then (case nt_gateway n of
              None \<Rightarrow> (InternalError, c, n)
            | Some g \<Rightarrow>
                (case dispatch (api_request c) g of
                   None \<Rightarrow> (ApiResponse, c\<lparr>hc_api_response := to_http_string api_not_found (hc_linger c)\<rparr>, n)
                 | Some (response, g') \<Rightarrow>
                     (ApiResponse, c\<lparr>hc_api_response := to_http_string response (hc_linger c)\<rparr>,
                      n\<lparr>nt_gateway := Some g'\<rparr>)))
      else
        (let c = c\<lparr>hc_real_file := hc_doc_root c @ hc_url c\<rparr> in
         case fs (c_str (hc_real_file c)) of
           None \<Rightarrow> (NoResource, c, n)
         | Some f \<Rightarrow>
             (let c = c\<lparr>hc_file_size := int (length (fi_content f))\<rparr> in
              if \<not> fi_other_read f then (ForbiddenRequest, c, n)
              else if fi_is_dir f then (BadRequest, c, n)
              else if \<not> fi_openable f then (NoResource, c, n)
              else if \<not> fi_mappable f then (InternalError, c, n)
              else (FileRequest, c\<lparr>hc_mmap := Some (fi_content f)\<rparr>, n))))"

definition process_read ::
  "filesystem \<Rightarrow> HttpConn \<Rightarrow> 's Net \<Rightarrow> conn_error + HttpCode \<times> HttpConn \<times> 's Net" where
  "process_read fs c n =
     (case process_read_loop LineOk c of
        Inl e \<Rightarrow> Inl e
      | Inr (ret, c') \<Rightarrow> if ret = GetRequest then Inr (do_request fs c' n) else Inr (ret, c', n))"

section \<open>Building the response\<close>

text \<open>
  \<^verbatim>\<open>vsnprintf\<close> writes at most the offered size, the last byte being NUL, and returns the full length.
\<close>

definition add_response :: "string \<Rightarrow> HttpConn \<Rightarrow> bool \<times> HttpConn" where
  "add_response out c =
     (if kWriteBufSize \<le> hc_write_idx c then (False, c)
      else
        (let size = kWriteBufSize - 1 - hc_write_idx c;
             c' = (if size = 0 then c
                   else c\<lparr>hc_write_buf := overwrite (hc_write_buf c) (hc_write_idx c) (take (size - 1) out @ [NUL])\<rparr>)
         in if length out \<ge> size then (False, c')
            else (True, c'\<lparr>hc_write_idx := hc_write_idx c + length out\<rparr>)))"

definition add_status_line :: "int \<Rightarrow> string \<Rightarrow> HttpConn \<Rightarrow> bool \<times> HttpConn" where
  "add_status_line status title = add_response (''HTTP/1.1 '' @ to_string status @ '' '' @ title @ crlf)"

definition add_content_length :: "int \<Rightarrow> HttpConn \<Rightarrow> bool \<times> HttpConn" where
  "add_content_length content_len = add_response (''Content-Length:'' @ to_string content_len @ crlf)"

definition kMimeTypes :: "(string \<times> string) list" where
  "kMimeTypes =
     [(''.html'', ''text/html''), (''.htm'', ''text/html''), (''.css'', ''text/css''),
      (''.js'', ''application/javascript''), (''.json'', ''application/json''), (''.jpg'', ''image/jpeg''),
      (''.jpeg'', ''image/jpeg''), (''.png'', ''image/png''), (''.gif'', ''image/gif''),
      (''.ico'', ''image/x-icon''), (''.svg'', ''image/svg+xml''), (''.mp4'', ''video/mp4''),
      (''.webm'', ''video/webm''), (''.txt'', ''text/plain''), (''.xml'', ''application/xml''),
      (''.pdf'', ''application/pdf'')]"

text \<open>\<^verbatim>\<open>rfind\<close> of one character\<close>

definition rfind_char :: "char \<Rightarrow> string \<Rightarrow> nat option" where
  "rfind_char ch s = map_option (\<lambda>i. length s - 1 - i) (find_if ((=) ch) (rev s))"

definition content_type_of :: "string \<Rightarrow> string" where
  "content_type_of file =
     (case rfind_char (CHR ''.'') file of
        None \<Rightarrow> ''application/octet-stream''
      | Some dot \<Rightarrow>
          (case map_of kMimeTypes (c_str (drop dot file)) of
             None \<Rightarrow> ''application/octet-stream''
           | Some mime \<Rightarrow> mime))"

definition add_content_type :: "HttpConn \<Rightarrow> bool \<times> HttpConn" where
  "add_content_type c = add_response (''Content-Type:'' @ content_type_of (hc_real_file c) @ crlf) c"

definition add_linger :: "HttpConn \<Rightarrow> bool \<times> HttpConn" where
  "add_linger c = add_response (''Connection:'' @ (if hc_linger c then ''keep-alive'' else ''close'') @ crlf) c"

definition add_blank_line :: "HttpConn \<Rightarrow> bool \<times> HttpConn" where
  "add_blank_line = add_response crlf"

text \<open>\<^verbatim>\<open>a && b\<close> on two operations of the connection\<close>

definition and_then :: "(HttpConn \<Rightarrow> bool \<times> HttpConn) \<Rightarrow> (HttpConn \<Rightarrow> bool \<times> HttpConn) \<Rightarrow> HttpConn \<Rightarrow> bool \<times> HttpConn" where
  "and_then f g c = (case f c of (ok, c') \<Rightarrow> if ok then g c' else (False, c'))"

definition add_headers :: "int \<Rightarrow> HttpConn \<Rightarrow> bool \<times> HttpConn" where
  "add_headers content_len = and_then (and_then (add_content_length content_len) add_linger) add_blank_line"

definition add_content :: "string \<Rightarrow> HttpConn \<Rightarrow> bool \<times> HttpConn" where
  "add_content content = add_response content"

definition k400Body :: string where
  "k400Body = ''Your request has bad syntax or is inherently impossible to satisfy.'' @ [LF]"

definition k403Body :: string where
  "k403Body = ''You do not have permission to get file from this server.'' @ [LF]"

definition k404Body :: string where
  "k404Body = ''The requested file was not found on this server.'' @ [LF]"

definition k500Body :: string where
  "k500Body = ''There was an unusual problem serving the request file.'' @ [LF]"

definition kErrTable :: "HttpCode \<Rightarrow> (int \<times> string \<times> string) option" where
  "kErrTable code =
     (case code of
        InternalError \<Rightarrow> Some (500, ''Internal Error'', k500Body)
      | BadRequest \<Rightarrow> Some (400, ''Bad Request'', k400Body)
      | ForbiddenRequest \<Rightarrow> Some (403, ''Forbidden'', k403Body)
      | NoResource \<Rightarrow> Some (404, ''Not Found'', k404Body)
      | _ \<Rightarrow> None)"

definition kEmpty :: string where
  "kEmpty = ''<html><body></body></html>''"

text \<open>The label \<^verbatim>\<open>finish\<close>\<close>

definition send_write_buf :: "HttpConn \<Rightarrow> bool \<times> HttpConn" where
  "send_write_buf c =
     (True, c\<lparr>hc_iv0 := \<lparr>iov_base = WriteBuf, iov_off = 0, iov_len = int (hc_write_idx c)\<rparr>, hc_iv_count := 1,
              hc_bytes_to_send := int (hc_write_idx c)\<rparr>)"

definition process_write :: "HttpCode \<Rightarrow> HttpConn \<Rightarrow> bool \<times> HttpConn" where
  "process_write ret c =
     (if ret = ApiResponse
      then (let len = int (length (hc_api_response c));
                c' = c\<lparr>hc_iv0 := \<lparr>iov_base = ApiBuf, iov_off = 0, iov_len = len\<rparr>, hc_iv_count := 1,
                       hc_bytes_to_send := wrap32 len\<rparr>
            in (hc_bytes_to_send c' > 0, c'))
      else if ret = FileRequest
      then (let c1 = snd (add_content_type (snd (add_status_line 200 ''OK'' c))) in
            if hc_file_size c1 \<noteq> 0
            then (let c2 = snd (add_headers (wrap32 (hc_file_size c1)) c1) in
                  (True, c2\<lparr>hc_iv0 := \<lparr>iov_base = WriteBuf, iov_off = 0, iov_len = int (hc_write_idx c2)\<rparr>,
                            hc_iv1 := \<lparr>iov_base = MmapFile, iov_off = 0, iov_len = hc_file_size c2\<rparr>,
                            hc_iv_count := 2,
                            hc_bytes_to_send := wrap32 (int (hc_write_idx c2) + wrap32 (hc_file_size c2))\<rparr>))
            else (let c2 = snd (add_headers (int (length kEmpty)) (snd (add_content_type c1))) in
                  case add_content kEmpty c2 of
                    (ok, c3) \<Rightarrow> if \<not> ok then (False, c3) else send_write_buf c3))
      else (case kErrTable ret of
              None \<Rightarrow> (False, c)
            | Some (status, title, body) \<Rightarrow>
                (let c1 = snd (add_status_line status title c);
                     c2 = snd (add_response (''Content-Type:text/html'' @ crlf) c1);
                     c3 = snd (add_headers (int (length body)) c2)
                 in case add_content body c3 of
                      (ok, c4) \<Rightarrow> if \<not> ok then (False, c4) else send_write_buf c4)))"

section \<open>Writing\<close>

datatype writev_result = Sent nat | SendAgain | SendError

text \<open>
  The bytes an \<^verbatim>\<open>iovec\<close> denotes. A base outside its buffer has no bytes there: \<open>None\<close> stands for reading
  memory the buffer does not own.
\<close>

definition segment :: "Segment \<Rightarrow> HttpConn \<Rightarrow> string option" where
  "segment b c =
     (case b of NullBuf \<Rightarrow> None | WriteBuf \<Rightarrow> Some (hc_write_buf c) | MmapFile \<Rightarrow> hc_mmap c
      | ApiBuf \<Rightarrow> Some (hc_api_response c))"

definition iov_bytes :: "iovec \<Rightarrow> HttpConn \<Rightarrow> string option" where
  "iov_bytes v c =
     (if iov_len v = 0 then Some []
      else case segment (iov_base v) c of
        None \<Rightarrow> None
      | Some buf \<Rightarrow>
          if iov_off v < 0 \<or> iov_len v < 0 \<or> int (length buf) < iov_off v + iov_len v then None
          else Some (substr buf (nat (iov_off v)) (nat (iov_len v))))"

text \<open>What \<^verbatim>\<open>writev\<close> is asked to send.\<close>

definition pending :: "HttpConn \<Rightarrow> string option" where
  "pending c =
     (case iov_bytes (hc_iv0 c) c of
        None \<Rightarrow> None
      | Some a \<Rightarrow>
          if hc_iv_count c = 1 then Some a
          else map_option (\<lambda>b. a @ b) (iov_bytes (hc_iv1 c) c))"

definition adjust_iovec :: "nat \<Rightarrow> HttpConn \<Rightarrow> HttpConn" where
  "adjust_iovec k c =
     (if hc_bytes_sent c \<ge> iov_len (hc_iv0 c)
      then c\<lparr>hc_iv0 := (hc_iv0 c)\<lparr>iov_len := 0\<rparr>,
             hc_iv1 := \<lparr>iov_base = MmapFile, iov_off = hc_bytes_sent c - int (hc_write_idx c),
                       iov_len = hc_bytes_to_send c\<rparr>\<rparr>
      else c\<lparr>hc_iv0 := \<lparr>iov_base = WriteBuf, iov_off = hc_bytes_sent c, iov_len = iov_len (hc_iv0 c) - int k\<rparr>\<rparr>)"

text \<open>
  The loop of \<^verbatim>\<open>write\<close> over the results of \<^verbatim>\<open>writev\<close>; the list of results may be too short (\<open>None\<close>). The
  last component collects the bytes handed to the kernel, \<open>None\<close> once they came from outside a buffer.
\<close>

fun write_loop ::
  "writev_result list \<Rightarrow> HttpConn \<Rightarrow> 's Net \<Rightarrow> string option \<Rightarrow> (bool \<times> HttpConn \<times> 's Net \<times> string option) option" where
  "write_loop [] c n out = None"
| "write_loop (SendAgain # rs) c n out =
     Some (True, c, epoll_call (EpollModOut (hc_sockfd c) (hc_trig_mode c)) n, out)"
| "write_loop (SendError # rs) c n out = Some (False, c\<lparr>hc_mmap := None\<rparr>, n, out)"
| "write_loop (Sent k # rs) c n out =
     (let out' = (case (out, pending c) of (Some xs, Some ys) \<Rightarrow> Some (xs @ take k ys) | _ \<Rightarrow> None);
          c1 = c\<lparr>hc_bytes_sent := hc_bytes_sent c + int k, hc_bytes_to_send := hc_bytes_to_send c - int k\<rparr>
      in if hc_bytes_to_send c1 \<le> 0
         then (let c2 = c1\<lparr>hc_mmap := None\<rparr>;
                   n2 = epoll_call (EpollModIn (hc_sockfd c) (hc_trig_mode c)) n
               in if hc_linger c2 then Some (True, reset_state c2, n2, out') else Some (False, c2, n2, out'))
         else write_loop rs (adjust_iovec k c1) n out')"

definition HttpConn_write ::
  "writev_result list \<Rightarrow> HttpConn \<Rightarrow> 's Net \<Rightarrow> (bool \<times> HttpConn \<times> 's Net \<times> string option) option" where
  "HttpConn_write rs c n =
     (if hc_bytes_to_send c = 0
      then Some (True, reset_state c, epoll_call (EpollModIn (hc_sockfd c) (hc_trig_mode c)) n, Some [])
      else write_loop rs c n (Some []))"

section \<open>The entry point of the thread pool\<close>

definition HttpConn_process :: "filesystem \<Rightarrow> HttpConn \<Rightarrow> 's Net \<Rightarrow> conn_error + HttpConn \<times> 's Net" where
  "HttpConn_process fs c n =
     (case process_read fs c n of
        Inl e \<Rightarrow> Inl e
      | Inr (read_ret, c1, n1) \<Rightarrow>
          if read_ret = NoRequest
          then Inr (c1, epoll_call (EpollModIn (hc_sockfd c1) (hc_trig_mode c1)) n1)
          else (case process_write read_ret c1 of
                  (write_ret, c2) \<Rightarrow>
                    if \<not> write_ret then Inr (close_conn True c2 n1)
                    else Inr (c2, epoll_call (EpollModOut (hc_sockfd c2) (hc_trig_mode c2)) n1)))"

end
