(* ===== verification/Http_Parsing.thy ===== *)
theory Http_Parsing
  imports Http_Conn
begin

text \<open>
  The request parser of \<^verbatim>\<open>HttpConn\<close>: how it consumes its buffer, that it does not matter how the head of a
  request is cut into reads, and that a rendered request is read back.
\<close>

section \<open>The buffer\<close>

definition well :: "HttpConn \<Rightarrow> bool" where
  "well c \<longleftrightarrow> length (hc_read_buf c) = kReadBufSize \<and> hc_read_idx c \<le> kReadBufSize \<and>
     hc_line_start c \<le> hc_checked_idx c \<and> hc_checked_idx c \<le> hc_read_idx c"

text \<open>The bytes that were received and not yet looked at.\<close>

definition unread :: "HttpConn \<Rightarrow> string" where
  "unread c = substr (hc_read_buf c) (hc_checked_idx c) (hc_read_idx c - hc_checked_idx c)"

lemma overwrite_length: "pos + length xs \<le> length buf \<Longrightarrow> length (overwrite buf pos xs) = length buf"
  by (simp add: overwrite_def)

lemma overwrite_nth: "i < pos \<Longrightarrow> pos \<le> length buf \<Longrightarrow> overwrite buf pos xs ! i = buf ! i"
  by (simp add: overwrite_def nth_append)

lemma overwrite_update:
  "i < pos \<Longrightarrow> pos \<le> length buf \<Longrightarrow> overwrite (buf[i := x]) pos xs = (overwrite buf pos xs)[i := x]"
  by (simp add: overwrite_def take_update_swap list_update_append1)

lemma overwrite_take: "i \<le> pos \<Longrightarrow> pos \<le> length buf \<Longrightarrow> take i (overwrite buf pos xs) = take i buf"
  by (simp add: overwrite_def)

lemma accept_simps [simp]:
  "hc_checked_idx (accept_bytes bs c) = hc_checked_idx c" "hc_line_start (accept_bytes bs c) = hc_line_start c"
  "hc_read_idx (accept_bytes bs c) = hc_read_idx c + length bs"
  "hc_check_state (accept_bytes bs c) = hc_check_state c"
  "hc_read_buf (accept_bytes bs c) = overwrite (hc_read_buf c) (hc_read_idx c) bs"
  "hc_content_length (accept_bytes bs c) = hc_content_length c"
  by (simp_all add: accept_bytes_def)

lemma substr_nth: "pos < length s \<Longrightarrow> 0 < n \<Longrightarrow> substr s pos n = s ! pos # substr s (Suc pos) (n - 1)"
  by (cases n) (simp_all add: substr_def Cons_nth_drop_Suc[symmetric])

lemma unread_Cons:
  assumes "well c" "unread c = ch # s"
  shows "hc_checked_idx c < hc_read_idx c" "hc_read_buf c ! hc_checked_idx c = ch"
    "unread (c\<lparr>hc_checked_idx := hc_checked_idx c + 1\<rparr>) = s"
proof -
  show less: "hc_checked_idx c < hc_read_idx c"
    using assms(2) by (cases "hc_checked_idx c < hc_read_idx c") (simp_all add: unread_def substr_def)
  have "unread c = hc_read_buf c ! hc_checked_idx c #
      substr (hc_read_buf c) (hc_checked_idx c + 1) (hc_read_idx c - (hc_checked_idx c + 1))"
    using less assms(1) substr_nth[of "hc_checked_idx c" "hc_read_buf c"] by (simp add: unread_def well_def)
  with assms(2) show "hc_read_buf c ! hc_checked_idx c = ch"
    "unread (c\<lparr>hc_checked_idx := hc_checked_idx c + 1\<rparr>) = s"
    by (simp_all add: unread_def)
qed

lemma well_advance: "well c \<Longrightarrow> hc_checked_idx c < hc_read_idx c \<Longrightarrow> well (c\<lparr>hc_checked_idx := hc_checked_idx c + 1\<rparr>)"
  by (simp add: well_def)

lemma unread_append_drop:
  assumes "well c" "unread c = xs @ ys"
  shows "unread (c\<lparr>hc_checked_idx := hc_checked_idx c + length xs\<rparr>) = ys \<and>
         hc_checked_idx c + length xs \<le> hc_read_idx c"
proof -
  have len: "length (unread c) = hc_read_idx c - hc_checked_idx c"
    using assms(1) by (auto simp: unread_def substr_def well_def)
  have "ys = drop (length xs) (unread c)"
    using assms(2) by simp
  also have "\<dots> = unread (c\<lparr>hc_checked_idx := hc_checked_idx c + length xs\<rparr>)"
    by (simp add: unread_def substr_def drop_take ac_simps)
  finally show ?thesis
    using len assms by (auto simp: well_def)
qed

section \<open>Lines\<close>

text \<open>A complete line is consumed, and its line end is overwritten with two NUL bytes.\<close>

lemma parse_line_complete:
  assumes "well c" "unread c = line @ crlf @ rest" "CR \<notin> set line" "LF \<notin> set line"
  shows "parse_line c =
     (LineOk, c\<lparr>hc_read_buf := (hc_read_buf c)[hc_checked_idx c + length line := NUL,
                                               hc_checked_idx c + length line + 1 := NUL],
               hc_checked_idx := hc_checked_idx c + length line + 2\<rparr>)"
  using assms
proof (induction line arbitrary: c)
  case Nil
  have u: "unread c = CR # LF # rest"
    using Nil.prems(2) by (simp add: crlf_def)
  note a = unread_Cons[OF Nil.prems(1) u]
  note b = unread_Cons[OF well_advance[OF Nil.prems(1) a(1)] a(3)]
  show ?case
    using a b by (subst parse_line.simps) (simp add: Let_def)
next
  case (Cons ch line)
  note a = unread_Cons[OF Cons.prems(1), of ch "line @ crlf @ rest"]
  have a: "hc_checked_idx c < hc_read_idx c" "hc_read_buf c ! hc_checked_idx c = ch"
      "unread (c\<lparr>hc_checked_idx := hc_checked_idx c + 1\<rparr>) = line @ crlf @ rest"
    using Cons.prems(2) a by simp_all
  have "parse_line c = parse_line (c\<lparr>hc_checked_idx := hc_checked_idx c + 1\<rparr>)"
    using a Cons.prems(3,4) by (intro parse_line_skip) auto
  with Cons.IH[OF well_advance[OF Cons.prems(1) a(1)] a(3)] Cons.prems(3,4) show ?case
    by simp
qed

lemma line_read:
  assumes "well c" "unread c = line @ crlf @ rest" "hc_line_start c = hc_checked_idx c"
    and "c1 = c\<lparr>hc_read_buf := (hc_read_buf c)[hc_checked_idx c + length line := NUL,
                                               hc_checked_idx c + length line + 1 := NUL],
               hc_checked_idx := hc_checked_idx c + length line + 2\<rparr>"
    and "c2 = c1\<lparr>hc_line_start := hc_checked_idx c1\<rparr>"
  shows "get_line c1 = line @ [NUL, NUL]" and "unread c2 = rest" and "well c2"
proof -
  have u: "unread (c\<lparr>hc_checked_idx := hc_checked_idx c + length (line @ crlf)\<rparr>) = rest"
      and le: "hc_checked_idx c + length (line @ crlf) \<le> hc_read_idx c"
    using unread_append_drop[OF assms(1), of "line @ crlf" rest] assms(2) by simp_all
  have le': "hc_checked_idx c + length line + 2 \<le> hc_read_idx c"
    using le by (simp add: crlf_def)
  have len: "hc_read_idx c \<le> length (hc_read_buf c)"
    using assms(1) by (simp add: well_def)
  show "unread c2 = rest"
    using u by (simp add: assms(4,5) unread_def substr_def crlf_def drop_update_cancel)
  show "well c2"
    using assms(1) le' by (simp add: assms(4,5) well_def)
  let ?i = "hc_checked_idx c"
  have whole: "take (length line + 2) (drop ?i (hc_read_buf c)) = line @ crlf"
  proof -
    have "take (length line + 2) (unread c) = line @ crlf"
      using assms(2) by (simp add: crlf_def)
    then show ?thesis
      using le' by (simp add: unread_def substr_def min_def split: if_splits)
  qed
  have "get_line c1 = take (length line + 2) (drop ?i ((hc_read_buf c)[?i + length line := NUL, ?i + length line + 1 := NUL]))"
    by (simp add: get_line_def substr_def assms(3,4))
  also have "\<dots> = (take (length line + 2) (drop ?i (hc_read_buf c)))[length line := NUL, length line + 1 := NUL]"
    by (simp add: drop_update_swap take_update_swap)
  also have "\<dots> = line @ [NUL, NUL]"
    unfolding whole by (simp add: crlf_def list_update_append)
  finally show "get_line c1 = line @ [NUL, NUL]" .
qed

text \<open>What the parser does once the next line is complete.\<close>

definition after_line :: "string \<Rightarrow> HttpConn \<Rightarrow> HttpConn" where
  "after_line line c =
     c\<lparr>hc_read_buf := (hc_read_buf c)[hc_checked_idx c + length line := NUL,
                                      hc_checked_idx c + length line + 1 := NUL],
       hc_checked_idx := hc_checked_idx c + length line + 2,
       hc_line_start := hc_checked_idx c + length line + 2\<rparr>"

definition at_line :: "string \<Rightarrow> string \<Rightarrow> HttpConn \<Rightarrow> bool" where
  "at_line line rest c \<longleftrightarrow> well c \<and> unread c = line @ crlf @ rest \<and> CR \<notin> set line \<and> LF \<notin> set line \<and>
     hc_line_start c = hc_checked_idx c"

lemma after_line_simps [simp]:
  "hc_check_state (after_line line c) = hc_check_state c" "hc_content_length (after_line line c) = hc_content_length c"
  "hc_line_start (after_line line c) = hc_checked_idx (after_line line c)"
  by (simp_all add: after_line_def)

lemma at_line_after: "at_line line rest c \<Longrightarrow> unread (after_line line c) = rest \<and> well (after_line line c)"
  using line_read[OF _ _ _ refl refl, of c line rest] by (simp add: at_line_def after_line_def)

lemma loop_line:
  assumes "at_line line rest c" "hc_check_state c \<noteq> StContent"
  shows "process_read_loop LineOk c =
    (case hc_check_state c of
       StRequestLine \<Rightarrow>
         (case parse_request_line (line @ [NUL, NUL]) (after_line line c) of
            (ret, c3) \<Rightarrow> if ret = BadRequest then Inr (BadRequest, c3) else process_read_loop LineOk c3)
     | _ \<Rightarrow>
         (case parse_headers (line @ [NUL, NUL]) (after_line line c) of
            Inl e \<Rightarrow> Inl e
          | Inr (ret, c3) \<Rightarrow>
              if ret = BadRequest then Inr (BadRequest, c3)
              else if ret = GetRequest then Inr (GetRequest, c3)
              else process_read_loop LineOk c3))"
proof -
  have a: "well c" "unread c = line @ crlf @ rest" "CR \<notin> set line" "LF \<notin> set line"
      "hc_line_start c = hc_checked_idx c"
    using assms(1) by (auto simp: at_line_def)
  obtain c1 where p: "parse_line c = (LineOk, c1)" and g: "get_line c1 = line @ [NUL, NUL]"
      and al: "c1\<lparr>hc_line_start := hc_checked_idx c1\<rparr> = after_line line c" "hc_check_state c1 = hc_check_state c"
    using parse_line_complete[OF a(1-4)] line_read(1)[OF a(1,2,5) refl refl] by (auto simp: after_line_def)
  show ?thesis
    using assms(2) by (cases "hc_check_state c") (subst process_read_loop.simps; simp add: p g al)+
qed

section \<open>A rendered request\<close>

definition method_name :: "Method \<Rightarrow> string" where
  "method_name m = (case m of MethodGet \<Rightarrow> ''GET'' | MethodPost \<Rightarrow> ''POST'')"

definition request_line :: "Method \<Rightarrow> string \<Rightarrow> string" where
  "request_line m url = method_name m @ '' '' @ url @ '' HTTP/1.1''"

definition target_ok :: "string \<Rightarrow> bool" where
  "target_ok url \<longleftrightarrow> url \<noteq> [] \<and> hd url = CHR ''/'' \<and> CHR '' '' \<notin> set url \<and> TAB \<notin> set url \<and>
     CR \<notin> set url \<and> LF \<notin> set url"

definition host_ok :: "string \<Rightarrow> bool" where
  "host_ok host \<longleftrightarrow> host \<noteq> [] \<and> hd host \<noteq> CHR '' '' \<and> hd host \<noteq> TAB \<and> CR \<notin> set host \<and> LF \<notin> set host"

definition connection_line :: "bool \<Rightarrow> string" where
  "connection_line keep = ''Connection: '' @ (if keep then ''keep-alive'' else ''close'')"

definition length_line :: "string \<Rightarrow> string" where
  "length_line body = ''Content-Length: '' @ to_string (int (length body))"

definition render_request :: "Method \<Rightarrow> string \<Rightarrow> string \<Rightarrow> bool \<Rightarrow> string \<Rightarrow> string" where
  "render_request m url host keep body =
     request_line m url @ crlf @ (''Host: '' @ host) @ crlf @ connection_line keep @ crlf @
     length_line body @ crlf @ crlf @ body"

lemma find_if_first: "\<forall>x \<in> set xs. \<not> P x \<Longrightarrow> P y \<Longrightarrow> find_if P (xs @ y # zs) = Some (length xs)"
  by (simp add: find_if_append)

lemma parse_request_line_rendered:
  assumes "target_ok url"
  shows "parse_request_line (request_line m url @ [NUL, NUL]) c =
    (NoRequest, c\<lparr>hc_method := m, hc_url := (if length url = 1 then ''/judge.html'' else url),
                  hc_check_state := StHeader\<rparr>)"
proof -
  obtain u where url: "url = CHR ''/'' # u"
    using assms by (cases url) (auto simp: target_ok_def)
  have nb: "\<forall>x \<in> set url. x \<notin> set blanks"
    using assms by (auto simp: target_ok_def blanks_def)
  let ?mm = "method_name m" and ?ver = "''HTTP/1.1'' @ [NUL, NUL]"
  let ?line = "?mm @ CHR '' '' # url @ CHR '' '' # ?ver"
  have line: "request_line m url @ [NUL, NUL] = ?line"
    by (simp add: request_line_def)
  have mb: "\<forall>x \<in> set ?mm. x \<notin> set blanks"
    by (cases m) (simp_all add: method_name_def blanks_def)
  have sp1: "find_first_of blanks ?line 0 = Some (length ?mm)"
    using find_if_first[OF mb, of "CHR '' ''"] by (simp add: find_first_of_def blanks_def)
  have url_s: "find_first_not_of blanks ?line (length ?mm) = Some (length ?mm + 1)"
    by (simp add: find_first_not_of_def url blanks_def)
  have url_e: "find_first_of blanks ?line (length ?mm + 1) = Some (length ?mm + 1 + length url)"
    using find_if_first[OF nb, of "CHR '' ''" ?ver] by (simp add: find_first_of_def blanks_def)
  have ver_s: "find_first_not_of blanks ?line (length ?mm + 1 + length url) = Some (length ?mm + 1 + length url + 1)"
    by (simp add: find_first_not_of_def blanks_def)
  have ver: "has_prefix_nocase ''HTTP/1.1'' (strip_version ?ver)"
    by (simp add: strip_version_def has_prefix_nocase_def)
  have slash: "tolower (CHR ''/'') \<noteq> tolower (CHR ''h'')"
    by (simp add: tolower_def)
  have sch: "strip_scheme url = Some url"
    using slash by (simp add: strip_scheme_def has_prefix_nocase_def url)
  have pm: "parse_method ?mm = Some m"
    by (cases m) (simp_all add: parse_method_def method_name_def)
  have d: "drop (length ?mm + 1 + length url + 1) ?line = ?ver"
    by simp
  have su: "substr ?line (length ?mm + 1) (length ?mm + 1 + length url - (length ?mm + 1)) = url"
    by (simp add: substr_def)
  have sm: "substr ?line 0 (length ?mm) = ?mm"
    by (simp add: substr_def)
  show ?thesis
    unfolding line parse_request_line_def sp1 sm option.case pm Let_def url_s url_e ver_s d su sch
    using ver by (simp add: url)
qed

lemma has_prefix_append: "length p \<le> length q \<Longrightarrow> has_prefix_nocase p (q @ s) \<longleftrightarrow> has_prefix_nocase p q"
  by (simp add: has_prefix_nocase_def)

lemma char_of_108: "char_of (108 :: nat) = CHR ''l''"
  by code_simp

lemma header_names:
  "\<not> has_prefix_nocase ''Connection:'' (''Host: '' @ s)" "\<not> has_prefix_nocase ''Content-length:'' (''Host: '' @ s)"
  "has_prefix_nocase ''Host:'' (''Host: '' @ s)"
  "\<not> has_prefix_nocase ''Connection:'' (''Content-Length: '' @ s)"
  "has_prefix_nocase ''Content-length:'' (''Content-Length: '' @ s)"
  "has_prefix_nocase ''Connection:'' (''Connection: '' @ s)"
  by (simp_all add: has_prefix_nocase_def tolower_def char_of_108)

lemma header_val_hit:
  assumes "has_prefix_nocase p (q @ '' '' @ v)" "length q = length p" "v \<noteq> []" "hd v \<noteq> CHR '' ''" "hd v \<noteq> TAB"
  shows "header_val (q @ '' '' @ v) p = v"
  using assms by (cases v) (auto simp: header_val_def find_first_not_of_def blanks_def)

lemma stol_length: "n < 2 ^ 63 \<Longrightarrow> stol (to_string (int n) @ [NUL, NUL]) = Inr (int n)"
proof -
  assume n: "n < 2 ^ 63"
  obtain d ds where ds: "string_of_nat n = d # ds" and d: "isdigit d" "\<forall>x \<in> set ds. isdigit x"
    using string_of_nat_digits[of n] by (cases "string_of_nat n") auto
  have nn: "\<forall>x \<in> set (d # ds). x \<noteq> NUL"
    using d by (auto simp: isdigit_def)
  have cs: "c_str (to_string (int n) @ [NUL, NUL]) = d # ds"
    using nn by (simp add: c_str_def to_string_def ds takeWhile_tail)
  have sign: "\<not> isspace d" "d \<noteq> CHR ''-''" "d \<noteq> CHR ''+''"
    using d by (auto simp: isdigit_def isspace_def)
  have tw: "takeWhile isdigit (d # ds) = d # ds"
    using d by (simp add: takeWhile_eq_all_conv)
  have val: "dec_value 0 (d # ds) = int n"
    using dec_value_string_of_nat[of n] ds by simp
  show ?thesis
    using n by (simp add: stol_def Let_def cs sign tw val del: dec_value_Cons takeWhile.simps)
qed

text \<open>The three header lines of a rendered request.\<close>

lemma parse_host:
  assumes "host_ok host"
  shows "parse_headers ((''Host: '' @ host) @ [NUL, NUL]) c = Inr (NoRequest, c\<lparr>hc_host := host @ [NUL, NUL]\<rparr>)"
proof -
  have v: "header_val (''Host: '' @ host @ [NUL, NUL]) ''Host:'' = host @ [NUL, NUL]"
    using header_val_hit[of "''Host:''" "''Host:''" "host @ [NUL, NUL]"] header_names(3)[of "host @ [NUL, NUL]"] assms
    by (cases host) (auto simp: host_ok_def)
  have o: "header_val (''Host: '' @ host @ [NUL, NUL]) ''Connection:'' = []"
      "header_val (''Host: '' @ host @ [NUL, NUL]) ''Content-length:'' = []"
    using header_names(1,2)[of "host @ [NUL, NUL]"] by (simp_all add: header_val_def)
  show ?thesis
    using v o by (simp add: parse_headers_def)
qed

lemma parse_connection:
  "parse_headers (connection_line keep @ [NUL, NUL]) c = Inr (NoRequest, c\<lparr>hc_linger := keep\<rparr>)"
proof -
  let ?v = "(if keep then ''keep-alive'' else ''close'') @ [NUL, NUL]"
  have v: "header_val (''Connection: '' @ ?v) ''Connection:'' = ?v"
    using header_val_hit[of "''Connection:''" "''Connection:''" ?v] header_names(6)[of ?v] by auto
  have k: "has_prefix_nocase ''keep-alive'' ?v = keep"
    by (simp add: has_prefix_nocase_def tolower_def)
  show ?thesis
    using v k by (simp add: parse_headers_def connection_line_def)
qed

lemma parse_length:
  assumes "length body < 2 ^ 63"
  shows "parse_headers (length_line body @ [NUL, NUL]) c =
    Inr (NoRequest, c\<lparr>hc_content_length := int (length body)\<rparr>)"
proof -
  let ?v = "to_string (int (length body)) @ [NUL, NUL]"
  obtain d ds where ds: "string_of_nat (length body) = d # ds" "isdigit d"
    using string_of_nat_digits[of "length body"] by (cases "string_of_nat (length body)") auto
  have "hd ?v \<noteq> CHR '' ''" "hd ?v \<noteq> TAB"
    using ds by (auto simp: to_string_def isdigit_def)
  then have v: "header_val (''Content-Length: '' @ ?v) ''Content-length:'' = ?v"
    using header_val_hit[of "''Content-length:''" "''Content-Length:''" ?v] header_names(5)[of ?v] by auto
  have o: "header_val (''Content-Length: '' @ ?v) ''Connection:'' = []"
    using header_names(4)[of ?v] by (simp add: header_val_def)
  show ?thesis
    using v o stol_length[OF assms] by (simp add: parse_headers_def length_line_def)
qed

lemma parse_blank:
  "parse_headers ([] @ [NUL, NUL]) c =
     Inr (if hc_content_length c \<noteq> 0 then (NoRequest, c\<lparr>hc_check_state := StContent\<rparr>) else (GetRequest, c))"
  by (simp add: parse_headers_def)

lemma at_line_frame [simp]:
  "at_line l r (c\<lparr>hc_method := m\<rparr>) = at_line l r c" "at_line l r (c\<lparr>hc_url := u\<rparr>) = at_line l r c"
  "at_line l r (c\<lparr>hc_check_state := st\<rparr>) = at_line l r c" "at_line l r (c\<lparr>hc_host := h\<rparr>) = at_line l r c"
  "at_line l r (c\<lparr>hc_linger := b\<rparr>) = at_line l r c" "at_line l r (c\<lparr>hc_content_length := n\<rparr>) = at_line l r c"
  by (simp_all add: at_line_def well_def unread_def)

lemma at_line_next:
  "at_line line (line' @ crlf @ rest) c \<Longrightarrow> CR \<notin> set line' \<Longrightarrow> LF \<notin> set line' \<Longrightarrow>
     at_line line' rest (after_line line c)"
  using at_line_after[of line "line' @ crlf @ rest" c] by (simp add: at_line_def[of line'])

text \<open>One turn of the loop for each kind of line.\<close>

lemma turn_request_line:
  assumes "at_line (request_line m url) rest c" "hc_check_state c = StRequestLine" "target_ok url"
  shows "process_read_loop LineOk c = process_read_loop LineOk
    ((after_line (request_line m url) c)\<lparr>hc_method := m,
       hc_url := (if length url = 1 then ''/judge.html'' else url), hc_check_state := StHeader\<rparr>)"
  using loop_line[OF assms(1)] assms(2) parse_request_line_rendered[OF assms(3)] by simp

lemma turn_header:
  assumes "at_line line rest c" "hc_check_state c = StHeader"
    and "parse_headers (line @ [NUL, NUL]) (after_line line c) = Inr (NoRequest, c')"
  shows "process_read_loop LineOk c = process_read_loop LineOk c'"
  using loop_line[OF assms(1)] assms(2,3) by simp

lemma turn_content:
  assumes "well c" "hc_check_state c = StContent" "unread c = body" "hc_content_length c = int (length body)"
    and "body \<noteq> []"
  shows "process_read_loop LineOk c =
    Inr (GetRequest, c\<lparr>hc_line_start := hc_checked_idx c, hc_request_body := body\<rparr>)"
proof -
  have idx: "hc_read_idx c = hc_checked_idx c + length body" "hc_checked_idx c + length body \<le> 2048"
    using assms(1,3) by (auto simp: unread_def substr_def well_def kReadBufSize_def)
  have body: "substr (hc_read_buf c) (hc_checked_idx c) (length body) = body"
    using assms(3) by (simp add: unread_def idx(1))
  have "wrap64 (int (hc_checked_idx c) + int (length body)) = int (hc_read_idx c)"
    using idx by (simp add: wrap64_def)
  then have "parse_content (c\<lparr>hc_line_start := hc_checked_idx c\<rparr>) =
      Inr (GetRequest, c\<lparr>hc_line_start := hc_checked_idx c, hc_request_body := body\<rparr>)"
    using assms(4,5) idx(2) body by (simp add: parse_content_def)
  then show ?thesis
    using assms(2) by (subst process_read_loop.simps) simp
qed

lemma no_lf_to_string: "LF \<notin> set (to_string n)"
  by (auto simp: to_string_def isdigit_def dest!: bspec[OF string_of_nat_digits])

lemma header_lines_plain:
  "target_ok url \<Longrightarrow> CR \<notin> set (request_line m url) \<and> LF \<notin> set (request_line m url)"
  "host_ok host \<Longrightarrow> CR \<notin> set (''Host: '' @ host) \<and> LF \<notin> set (''Host: '' @ host)"
  "CR \<notin> set (connection_line keep) \<and> LF \<notin> set (connection_line keep)"
  "CR \<notin> set (length_line body) \<and> LF \<notin> set (length_line body)"
  using no_cr_to_string no_lf_to_string
  by (auto simp: request_line_def method_name_def target_ok_def host_ok_def connection_line_def length_line_def
      split: Method.splits)

lemma parse_rendered:
  assumes ok: "target_ok url" "host_ok host"
    and st: "hc_check_state c = StRequestLine" "hc_request_body c = []" "well c" "hc_line_start c = hc_checked_idx c"
    and u: "unread c = render_request m url host keep body"
  shows "\<exists>c'. process_read_loop LineOk c = Inr (GetRequest, c') \<and> hc_method c' = m \<and>
     hc_url c' = (if length url = 1 then ''/judge.html'' else url) \<and> hc_host c' = host @ [NUL, NUL] \<and>
     hc_linger c' = keep \<and> hc_content_length c' = int (length body) \<and> hc_request_body c' = body"
proof -
  note plain = header_lines_plain(1)[OF ok(1), of m] header_lines_plain(2)[OF ok(2)] header_lines_plain(3)[of keep]
    header_lines_plain(4)[of body]
  have "length (unread c) \<le> 2048"
    using st(3) by (auto simp: unread_def substr_def well_def kReadBufSize_def)
  then have small: "length body < 2 ^ 63"
    by (simp add: u render_request_def)
  let ?l4 = "length_line body" and ?l3 = "connection_line keep" and ?l2 = "''Host: '' @ host"
  let ?l1 = "request_line m url"
  define c1 where "c1 = (after_line ?l1 c)\<lparr>hc_method := m,
       hc_url := (if length url = 1 then ''/judge.html'' else url), hc_check_state := StHeader\<rparr>"
  define c2 where "c2 = (after_line ?l2 c1)\<lparr>hc_host := host @ [NUL, NUL]\<rparr>"
  define c3 where "c3 = (after_line ?l3 c2)\<lparr>hc_linger := keep\<rparr>"
  define c4 where "c4 = (after_line ?l4 c3)\<lparr>hc_content_length := int (length body)\<rparr>"
  have a1: "at_line ?l1 (?l2 @ crlf @ ?l3 @ crlf @ ?l4 @ crlf @ [] @ crlf @ body) c"
    using st u plain by (simp add: at_line_def render_request_def)
  have a2: "at_line ?l2 (?l3 @ crlf @ ?l4 @ crlf @ [] @ crlf @ body) c1"
    unfolding c1_def at_line_frame by (rule at_line_next[OF a1]) (use plain in simp_all)
  have a3: "at_line ?l3 (?l4 @ crlf @ [] @ crlf @ body) c2"
    unfolding c2_def at_line_frame by (rule at_line_next[OF a2]) (use plain in simp_all)
  have a4: "at_line ?l4 ([] @ crlf @ body) c3"
    unfolding c3_def at_line_frame by (rule at_line_next[OF a3]) (use plain in simp_all)
  have a5: "at_line [] body c4"
    unfolding c4_def at_line_frame by (rule at_line_next[OF a4]) simp_all
  have hs: "hc_check_state c1 = StHeader" "hc_check_state c2 = StHeader" "hc_check_state c3 = StHeader"
      "hc_check_state c4 = StHeader"
    by (simp_all add: c1_def c2_def c3_def c4_def)
  have "process_read_loop LineOk c = process_read_loop LineOk c1"
    unfolding c1_def by (rule turn_request_line[OF a1 st(1) ok(1)])
  also have "\<dots> = process_read_loop LineOk c2"
    unfolding c2_def by (rule turn_header[OF a2 hs(1) parse_host[OF ok(2)]])
  also have "\<dots> = process_read_loop LineOk c3"
    unfolding c3_def by (rule turn_header[OF a3 hs(2) parse_connection])
  also have "\<dots> = process_read_loop LineOk c4"
    unfolding c4_def by (rule turn_header[OF a4 hs(3) parse_length[OF small]])
  finally have run: "process_read_loop LineOk c = process_read_loop LineOk c4" .
  have f: "hc_method c4 = m" "hc_url c4 = (if length url = 1 then ''/judge.html'' else url)"
      "hc_host c4 = host @ [NUL, NUL]" "hc_linger c4 = keep" "hc_content_length c4 = int (length body)"
      "hc_request_body c4 = []"
    using st(2) by (simp_all add: c1_def c2_def c3_def c4_def after_line_def)
  show ?thesis
  proof (cases "body = []")
    case True
    then show ?thesis
      using run f loop_line[OF a5] hs(4) parse_blank[of "after_line [] c4"] by (simp add: after_line_def)
  next
    case False
    let ?c5 = "(after_line [] c4)\<lparr>hc_check_state := StContent\<rparr>"
    have r5: "process_read_loop LineOk c4 = process_read_loop LineOk ?c5"
      using turn_header[OF a5 hs(4), of ?c5] parse_blank[of "after_line [] c4"] f(5) False by simp
    have "well ?c5" "unread ?c5 = body"
      using at_line_after[OF a5] by (simp_all add: well_def unread_def)
    from turn_content[OF this(1) _ this(2)] f False run r5 show ?thesis
      by (simp add: after_line_def)
  qed
qed

section \<open>Reads may cut the head of a request anywhere\<close>

definition room_for :: "string \<Rightarrow> HttpConn \<Rightarrow> bool" where
  "room_for bs c \<longleftrightarrow> well c \<and> hc_read_idx c + length bs \<le> kReadBufSize"

lemma accept_advance:
  "accept_bytes bs (c\<lparr>hc_checked_idx := i\<rparr>) = (accept_bytes bs c)\<lparr>hc_checked_idx := i\<rparr>"
  by (simp add: accept_bytes_def)

lemma accept_frame:
  "accept_bytes bs (c\<lparr>hc_line_start := i\<rparr>) = (accept_bytes bs c)\<lparr>hc_line_start := i\<rparr>"
  "accept_bytes bs (c\<lparr>hc_method := m\<rparr>) = (accept_bytes bs c)\<lparr>hc_method := m\<rparr>"
  "accept_bytes bs (c\<lparr>hc_url := u\<rparr>) = (accept_bytes bs c)\<lparr>hc_url := u\<rparr>"
  "accept_bytes bs (c\<lparr>hc_check_state := st\<rparr>) = (accept_bytes bs c)\<lparr>hc_check_state := st\<rparr>"
  "accept_bytes bs (c\<lparr>hc_host := h\<rparr>) = (accept_bytes bs c)\<lparr>hc_host := h\<rparr>"
  "accept_bytes bs (c\<lparr>hc_linger := b\<rparr>) = (accept_bytes bs c)\<lparr>hc_linger := b\<rparr>"
  "accept_bytes bs (c\<lparr>hc_content_length := n\<rparr>) = (accept_bytes bs c)\<lparr>hc_content_length := n\<rparr>"
  by (simp_all add: accept_bytes_def)

lemma accept_nth:
  "room_for bs c \<Longrightarrow> i < hc_read_idx c \<Longrightarrow> hc_read_buf (accept_bytes bs c) ! i = hc_read_buf c ! i"
  by (simp add: room_for_def well_def overwrite_nth)

lemma accept_line_end:
  assumes "room_for bs c" "i < hc_read_idx c" "j < hc_read_idx c"
  shows "(accept_bytes bs c)\<lparr>hc_read_buf := (hc_read_buf (accept_bytes bs c))[i := NUL, j := NUL], hc_checked_idx := k\<rparr> =
     accept_bytes bs (c\<lparr>hc_read_buf := (hc_read_buf c)[i := NUL, j := NUL], hc_checked_idx := k\<rparr>)"
  using assms by (simp add: accept_bytes_def overwrite_update room_for_def well_def)

lemma room_for_advance:
  "room_for bs c \<Longrightarrow> hc_checked_idx c < hc_read_idx c \<Longrightarrow> room_for bs (c\<lparr>hc_checked_idx := hc_checked_idx c + 1\<rparr>)"
  by (simp add: room_for_def well_def)

text \<open>
  More bytes do not change a line that was already complete; on an incomplete or bad line, the parser
  resumes where it stopped.
\<close>

lemma parse_line_end:
  assumes "\<not> (hc_checked_idx c < hc_read_idx c \<and> hc_read_buf c ! hc_checked_idx c \<notin> {CR, LF})"
  obtains (stop) st where "st \<noteq> LineOk" "parse_line c = (st, c)"
    | (crlf) i where "i = hc_checked_idx c" "i + 1 < hc_read_idx c" "hc_read_buf c ! i = CR" "hc_read_buf c ! (i + 1) = LF"
        "parse_line c = (LineOk, c\<lparr>hc_read_buf := (hc_read_buf c)[i := NUL, i + 1 := NUL], hc_checked_idx := i + 2\<rparr>)"
    | (lf) i where "i = hc_checked_idx c" "i < hc_read_idx c" "hc_read_buf c ! i = LF" "i > 0" "hc_read_buf c ! (i - 1) = CR"
        "parse_line c = (LineOk, c\<lparr>hc_read_buf := (hc_read_buf c)[i - 1 := NUL, i := NUL], hc_checked_idx := i + 1\<rparr>)"
proof -
  let ?i = "hc_checked_idx c"
  consider "\<not> ?i < hc_read_idx c"
    | "?i < hc_read_idx c" "hc_read_buf c ! ?i = CR" "?i + 1 = hc_read_idx c"
    | "?i + 1 < hc_read_idx c" "hc_read_buf c ! ?i = CR" "hc_read_buf c ! (?i + 1) = LF"
    | "?i + 1 < hc_read_idx c" "hc_read_buf c ! ?i = CR" "hc_read_buf c ! (?i + 1) \<noteq> LF"
    | "?i < hc_read_idx c" "hc_read_buf c ! ?i = LF" "?i > 0 \<and> hc_read_buf c ! (?i - 1) = CR"
    | "?i < hc_read_idx c" "hc_read_buf c ! ?i = LF" "\<not> (?i > 0 \<and> hc_read_buf c ! (?i - 1) = CR)"
    using assms by force
  then show thesis
  proof cases
    case 1
    then have "parse_line c = (LineOpen, c)" by (subst parse_line.simps) (simp add: Let_def)
    with stop show thesis by blast
  next
    case 2
    then have "parse_line c = (LineOpen, c)" by (subst parse_line.simps) (simp add: Let_def)
    with stop show thesis by blast
  next
    case 3
    then have "parse_line c = (LineOk, c\<lparr>hc_read_buf := (hc_read_buf c)[?i := NUL, ?i + 1 := NUL], hc_checked_idx := ?i + 2\<rparr>)"
      by (subst parse_line.simps) (simp add: Let_def)
    with 3 crlf show thesis by blast
  next
    case 4
    then have "parse_line c = (LineBad, c)" by (subst parse_line.simps) (simp add: Let_def)
    with stop show thesis by blast
  next
    case 5
    then have "parse_line c = (LineOk, c\<lparr>hc_read_buf := (hc_read_buf c)[?i - 1 := NUL, ?i := NUL], hc_checked_idx := ?i + 1\<rparr>)"
      by (subst parse_line.simps) (simp add: Let_def)
    with 5 lf show thesis by blast
  next
    case 6
    then have "parse_line c = (LineBad, c)" by (subst parse_line.simps) (simp add: Let_def)
    with stop show thesis by blast
  qed
qed

lemma parse_line_accept:
  assumes "room_for bs c" "parse_line c = (st, c')"
  shows "(st = LineOk \<longrightarrow> parse_line (accept_bytes bs c) = (LineOk, accept_bytes bs c')) \<and>
         (st \<noteq> LineOk \<longrightarrow> parse_line (accept_bytes bs c) = parse_line (accept_bytes bs c'))"
  using assms
proof (induction c arbitrary: st c' rule: parse_line.induct)
  case (1 c)
  let ?i = "hc_checked_idx c" and ?d = "accept_bytes bs c"
  show ?case
  proof (cases "?i < hc_read_idx c \<and> hc_read_buf c ! ?i \<notin> {CR, LF}")
    case True
    let ?c1 = "c\<lparr>hc_checked_idx := ?i + 1\<rparr>"
    have "parse_line ?c1 = (st, c')"
      using 1(3) True parse_line_skip[of c] by simp
    moreover have "parse_line ?d = parse_line (accept_bytes bs ?c1)"
      using True accept_nth[OF 1(2), of ?i] parse_line_skip[of ?d] by (simp add: accept_advance)
    ultimately show ?thesis
      using 1(1)[OF refl _ refl _ _ room_for_advance[OF 1(2)]] True by simp
  next
    case False
    have b: "hc_read_idx c \<le> length (hc_read_buf c)" and r: "room_for bs c"
      using 1(2) by (simp_all add: room_for_def well_def)
    from False show ?thesis
    proof (cases rule: parse_line_end)
      case stop
      with 1(3) show ?thesis by simp
    next
      case (crlf i)
      have "hc_read_buf ?d ! i = CR" "hc_read_buf ?d ! (i + 1) = LF"
        using crlf accept_nth[OF r, of i] accept_nth[OF r, of "i + 1"] by simp_all
      then have "parse_line ?d = (LineOk, ?d\<lparr>hc_read_buf := (hc_read_buf ?d)[i := NUL, i + 1 := NUL],
          hc_checked_idx := i + 2\<rparr>)"
        using crlf(1,2) by (subst parse_line.simps) (simp add: Let_def del: accept_simps(5))
      then show ?thesis
        using crlf 1(3) accept_line_end[OF r, of i "i + 1" "i + 2"] by simp
    next
      case (lf i)
      have "hc_read_buf ?d ! i = LF" "hc_read_buf ?d ! (i - 1) = CR"
        using lf accept_nth[OF r, of i] accept_nth[OF r, of "i - 1"] by simp_all
      then have "parse_line ?d = (LineOk, ?d\<lparr>hc_read_buf := (hc_read_buf ?d)[i - 1 := NUL, i := NUL],
          hc_checked_idx := i + 1\<rparr>)"
        using lf(1,2,4) by (subst parse_line.simps) (simp add: Let_def del: accept_simps(5))
      then show ?thesis
        using lf 1(3) accept_line_end[OF r, of "i - 1" i "i + 1"] by simp
    qed
  qed
qed

lemma parse_request_line_accept:
  "parse_request_line line (accept_bytes bs c) = apsnd (accept_bytes bs) (parse_request_line line c)"
  by (simp add: parse_request_line_def Let_def accept_frame split: option.splits)

lemma parse_headers_accept:
  "parse_headers line (accept_bytes bs c) = map_sum id (apsnd (accept_bytes bs)) (parse_headers line c)"
  by (simp add: parse_headers_def accept_frame split: sum.splits)

lemma parse_request_line_frame:
  "parse_request_line line c = (ret, c') \<Longrightarrow> room_for bs c' = room_for bs c"
  by (auto simp: parse_request_line_def Let_def room_for_def well_def split: option.splits if_splits)

lemma parse_headers_frame: "parse_headers line c = Inr (ret, c') \<Longrightarrow> room_for bs c' = room_for bs c"
  by (auto simp: parse_headers_def room_for_def well_def split: sum.splits if_splits)

lemma parse_content_state: "parse_content c = Inr (ret, c') \<Longrightarrow> hc_check_state c' = hc_check_state c"
  by (auto simp: parse_content_def split: if_splits)

lemma parse_line_state: "hc_check_state (snd (parse_line c)) = hc_check_state c"
proof (induction c rule: parse_line.induct)
  case (1 c)
  show ?case
  proof (cases "hc_checked_idx c < hc_read_idx c \<and> hc_read_buf c ! hc_checked_idx c \<notin> {CR, LF}")
    case True
    with 1[OF refl _ refl] parse_line_skip[of c] show ?thesis by simp
  next
    case False
    then show ?thesis by (cases rule: parse_line_end) simp_all
  qed
qed

lemma parse_line_well:
  "parse_line c = (LineOk, c1) \<Longrightarrow> room_for bs c \<Longrightarrow> room_for bs (c1\<lparr>hc_line_start := hc_checked_idx c1\<rparr>)"
proof (induction c rule: parse_line.induct)
  case (1 c)
  show ?case
  proof (cases "hc_checked_idx c < hc_read_idx c \<and> hc_read_buf c ! hc_checked_idx c \<notin> {CR, LF}")
    case True
    with 1(1)[OF refl _ refl] 1(2) parse_line_skip[of c] room_for_advance[OF 1(3)] show ?thesis by simp
  next
    case False
    then show ?thesis
      using 1(2,3) by (cases rule: parse_line_end) (auto simp: room_for_def well_def)
  qed
qed

lemma get_line_accept:
  assumes "hc_read_idx c \<le> length (hc_read_buf c)" "hc_checked_idx c \<le> hc_read_idx c"
  shows "get_line (accept_bytes bs c) = get_line c"
proof -
  have "take (hc_checked_idx c) (hc_read_buf (accept_bytes bs c)) = take (hc_checked_idx c) (hc_read_buf c)"
    using assms by (simp add: overwrite_take)
  then have "drop (hc_line_start c) (take (hc_checked_idx c) (hc_read_buf (accept_bytes bs c))) =
      drop (hc_line_start c) (take (hc_checked_idx c) (hc_read_buf c))"
    by simp
  then show ?thesis
    by (simp add: get_line_def substr_def drop_take)
qed

text \<open>Once in the content state, the parser stays there.\<close>

lemma loop_content:
  "hc_check_state c = StContent \<Longrightarrow> process_read_loop st c = Inr (ret, c') \<Longrightarrow> hc_check_state c' = StContent"
proof (induction st c rule: process_read_loop.induct)
  case (1 st c)
  obtain ls c1 where p: "(if hc_check_state c = StContent \<and> st = LineOk then (LineOk, c) else parse_line c) = (ls, c1)"
    by fastforce
  have s1: "hc_check_state c1 = StContent"
    using p 1(4) parse_line_state[of c] by (auto split: if_splits)
  show ?case
  proof (cases "ls = LineOk")
    case False
    with 1(5) p s1 show ?thesis by (subst (asm) process_read_loop.simps) simp
  next
    case True
    let ?c2 = "c1\<lparr>hc_line_start := hc_checked_idx c1\<rparr>"
    obtain r c3 where r: "parse_content ?c2 = Inr (r, c3)"
      using 1(5) p s1 True by (subst (asm) process_read_loop.simps) (auto split: sum.splits)
    have s3: "hc_check_state c3 = StContent"
      using parse_content_state[OF r] s1 by simp
    show ?thesis
    proof (cases "r = GetRequest")
      case g: True
      with 1(5) p s1 True r s3 show ?thesis by (subst (asm) process_read_loop.simps) simp
    next
      case False
      have "process_read_loop LineOpen c3 = Inr (ret, c')"
        using 1(5) p s1 True r False by (subst (asm) process_read_loop.simps) simp
      with 1(3)[OF p[symmetric] refl _ refl refl _ r refl False s3] True s1 show ?thesis by simp
    qed
  qed
qed

lemma loop_accept:
  assumes "room_for bs c" "process_read_loop LineOk c = Inr (NoRequest, c')" "hc_check_state c' \<noteq> StContent"
  shows "process_read_loop LineOk (accept_bytes bs c) = process_read_loop LineOk (accept_bytes bs c')"
  using assms
proof (induction LineOk c rule: process_read_loop.induct)
  case (1 c)
  have nc: "hc_check_state c \<noteq> StContent"
    using loop_content[of c LineOk] 1(4,5) by blast
  obtain ls c1 where p: "parse_line c = (ls, c1)"
    by fastforce
  then have pi: "(if hc_check_state c = StContent \<and> LineOk = LineOk then (LineOk, c) else parse_line c) = (ls, c1)"
    using nc by simp
  have s1: "hc_check_state c1 = hc_check_state c"
    using p parse_line_state[of c] by simp
  show ?case
  proof (cases "ls = LineOk")
    case False
    then have "c' = c1"
      using 1(4) p nc by (subst (asm) process_read_loop.simps) simp
    moreover have "parse_line (accept_bytes bs c) = parse_line (accept_bytes bs c1)"
      using parse_line_accept[OF 1(3) p] False by simp
    ultimately show ?thesis
      using nc s1 by (subst (1 2) process_read_loop.simps) simp
  next
    case True
    let ?c2 = "c1\<lparr>hc_line_start := hc_checked_idx c1\<rparr>" and ?l = "get_line c1"
    have pa: "parse_line (accept_bytes bs c) = (LineOk, accept_bytes bs c1)"
      using parse_line_accept[OF 1(3) p] True by simp
    have r2: "room_for bs ?c2"
      using parse_line_well[OF _ 1(3)] p True by simp
    have r1: "hc_read_idx c1 \<le> length (hc_read_buf c1)" "hc_checked_idx c1 \<le> hc_read_idx c1"
      using r2 parse_line_spec[of c] p True 1(3) by (auto simp: room_for_def well_def)
    have ga: "get_line (accept_bytes bs c1) = ?l"
      by (rule get_line_accept[OF r1])
    have c2: "(accept_bytes bs c1)\<lparr>hc_line_start := hc_checked_idx c1\<rparr> = accept_bytes bs ?c2"
      by (simp add: accept_frame)
    consider (req) "hc_check_state c = StRequestLine" | (hdr) "hc_check_state c = StHeader"
      using nc by (cases "hc_check_state c") simp_all
    then show ?thesis
    proof cases
      case req
      obtain ret c3 where r: "parse_request_line ?l ?c2 = (ret, c3)" by fastforce
      have nb: "ret \<noteq> BadRequest"
        using 1(4) p True s1 req r by (subst (asm) process_read_loop.simps) (auto split: if_splits)
      have "process_read_loop LineOk c3 = Inr (NoRequest, c')"
        using 1(4) p True s1 req r nb by (subst (asm) process_read_loop.simps) simp
      then have ih: "process_read_loop LineOk (accept_bytes bs c3) = process_read_loop LineOk (accept_bytes bs c')"
        using 1(1)[OF pi[symmetric] refl _ refl refl _ r[symmetric] nb] r2 parse_request_line_frame[OF r] 1(5)
          True s1 req by simp
      have "process_read_loop LineOk (accept_bytes bs c) = process_read_loop LineOk (accept_bytes bs c3)"
        using pa ga c2 s1 req r nb parse_request_line_accept[of ?l bs ?c2]
        by (subst process_read_loop.simps) simp
      with ih show ?thesis by simp
    next
      case hdr
      obtain ret c3 where r: "parse_headers ?l ?c2 = Inr (ret, c3)"
        using 1(4) p True s1 hdr by (subst (asm) process_read_loop.simps) (auto split: sum.splits)
      have nb: "ret \<noteq> BadRequest" "ret \<noteq> GetRequest"
        using 1(4) p True s1 hdr r by (subst (asm) process_read_loop.simps, auto split: if_splits)+
      have "process_read_loop LineOk c3 = Inr (NoRequest, c')"
        using 1(4) p True s1 hdr r nb by (subst (asm) process_read_loop.simps) simp
      then have ih: "process_read_loop LineOk (accept_bytes bs c3) = process_read_loop LineOk (accept_bytes bs c')"
        using 1(2)[OF pi[symmetric] refl _ refl refl _ r refl nb] r2 parse_headers_frame[OF r] 1(5)
          True s1 hdr by simp
      have "process_read_loop LineOk (accept_bytes bs c) = process_read_loop LineOk (accept_bytes bs c3)"
        using pa ga c2 s1 hdr r nb parse_headers_accept[of ?l bs ?c2]
        by (subst process_read_loop.simps) simp
      with ih show ?thesis by simp
    qed
  qed
qed

section \<open>A body that arrives in two reads\<close>

text \<open>
  Without a line end the line parser runs to the end of the data. In the content state this moves
  \<open>hc_checked_idx\<close>, from which the body is measured, past the bytes of the body that are already there.
\<close>

lemma parse_line_open:
  assumes "well c" "CR \<notin> set (unread c)" "LF \<notin> set (unread c)"
  shows "parse_line c = (LineOpen, c\<lparr>hc_checked_idx := hc_read_idx c\<rparr>)"
  using assms
proof (induction "unread c" arbitrary: c)
  case Nil
  then have "hc_checked_idx c = hc_read_idx c"
    by (auto simp: unread_def substr_def well_def)
  then show ?case
    by (subst parse_line.simps) (simp add: Let_def)
next
  case (Cons ch s)
  note u = unread_Cons[OF Cons.prems(1) Cons.hyps(2)[symmetric]]
  have "ch \<noteq> CR" "ch \<noteq> LF"
    using Cons.prems Cons.hyps(2) by (metis list.set_intros(1))+
  then have "parse_line c = parse_line (c\<lparr>hc_checked_idx := hc_checked_idx c + 1\<rparr>)"
    using u by (intro parse_line_skip) auto
  moreover have "CR \<notin> set s" "LF \<notin> set s"
    using Cons.prems Cons.hyps(2) by (metis list.set_intros(2))+
  ultimately show ?case
    using Cons.hyps(1)[of "c\<lparr>hc_checked_idx := hc_checked_idx c + 1\<rparr>"] u well_advance[OF Cons.prems(1) u(1)] by simp
qed

lemma unread_accept_at_end:
  assumes "hc_checked_idx c = hc_read_idx c" "hc_read_idx c + length bs \<le> length (hc_read_buf c)"
  shows "unread (accept_bytes bs c) = bs"
  using assms by (simp add: unread_def substr_def overwrite_def)

end
