(* ===== verification/Http_Properties.thy ===== *)
theory Http_Properties
  imports Http_Parsing
begin

text \<open>The properties of a connection: parsing a request, memory safety of the parser, sending a response.\<close>

section \<open>Parsing\<close>

lemma reset_state_simps [simp]:
  "hc_check_state (reset_state c) = StRequestLine" "hc_request_body (reset_state c) = []"
  "hc_line_start (reset_state c) = 0" "hc_checked_idx (reset_state c) = 0" "hc_read_idx (reset_state c) = 0"
  "hc_read_buf (reset_state c) = replicate kReadBufSize NUL" "hc_content_length (reset_state c) = 0"
  by (simp_all add: reset_state_def)

lemma well_reset: "well (reset_state c)"
  by (simp add: well_def)

lemma accept_reset:
  assumes "length bs \<le> kReadBufSize"
  shows "well (accept_bytes bs (reset_state c))" and "unread (accept_bytes bs (reset_state c)) = bs"
  using assms unread_accept_at_end[of "reset_state c" bs] by (simp_all add: well_def overwrite_length)

lemma accept_request_body: "hc_request_body (accept_bytes bs c) = hc_request_body c"
  by (simp add: accept_bytes_def)

lemma request_loop:
  assumes "target_ok url" "host_ok host" "length (render_request m url host keep body) \<le> 2048"
  shows "\<exists>c'. process_read_loop LineOk (accept_bytes (render_request m url host keep body) (reset_state c)) =
      Inr (GetRequest, c') \<and> hc_method c' = m \<and>
      hc_url c' = (if length url = 1 then ''/judge.html'' else url) \<and> hc_host c' = host @ [NUL, NUL] \<and>
      hc_linger c' = keep \<and> hc_content_length c' = int (length body) \<and> hc_request_body c' = body"
  using assms accept_reset[of "render_request m url host keep body" c]
  by (intro parse_rendered) (simp_all add: kReadBufSize_def accept_request_body)

text \<open>C22: A rendered request that arrives in one read on a fresh connection is parsed completely: method,
  target (the root becomes the start page), keep-alive flag, length and body are the ones that were sent.
  The stored host keeps the two NUL bytes that replaced the line end.\<close>

theorem request_roundtrip:
  assumes "target_ok url" "host_ok host" "length (render_request m url host keep body) \<le> 2048"
  shows "\<exists>c'. process_read_loop LineOk (accept_bytes (render_request m url host keep body) (reset_state c)) =
      Inr (GetRequest, c') \<and> hc_method c' = m \<and>
      hc_url c' = (if length url = 1 then ''/judge.html'' else url) \<and> hc_host c' = host @ [NUL, NUL] \<and>
      hc_linger c' = keep \<and> hc_content_length c' = int (length body) \<and> hc_request_body c' = body"
  by (rule request_loop[OF assms])

theorem request_roundtrip_witness:
  "\<exists>c'. process_read_loop LineOk (accept_bytes (render_request MethodPost ''/api/orders'' ''shop'' True ''{}'')
      (reset_state HttpConn_new)) = Inr (GetRequest, c') \<and> hc_request_body c' = ''{}''"
proof -
  have "target_ok ''/api/orders''" "host_ok ''shop''"
      "length (render_request MethodPost ''/api/orders'' ''shop'' True ''{}'') \<le> 2048"
    by (simp_all add: target_ok_def host_ok_def render_request_def request_line_def method_name_def
        connection_line_def length_line_def crlf_def to_string_def string_of_nat.simps)
  from request_roundtrip[OF this, of HttpConn_new] show ?thesis by auto
qed

text \<open>C23: The head of a request may be cut into reads anywhere. When the parser asks for more data, running it
  again after more bytes arrived gives the same result as running it once on all the bytes.\<close>

theorem head_resumable:
  assumes "room_for bs c" "process_read_loop LineOk c = Inr (NoRequest, c')" "hc_check_state c' \<noteq> StContent"
  shows "process_read_loop LineOk (accept_bytes bs c') = process_read_loop LineOk (accept_bytes bs c)"
  using loop_accept[OF assms] by simp

theorem head_resumable_witness:
  "\<exists>c'. process_read_loop LineOk (accept_bytes ''GET /ind'' (reset_state HttpConn_new)) = Inr (NoRequest, c') \<and>
     process_read_loop LineOk (accept_bytes ''ex.html HTTP'' c') =
     process_read_loop LineOk (accept_bytes ''ex.html HTTP'' (accept_bytes ''GET /ind'' (reset_state HttpConn_new)))"
proof -
  let ?c = "accept_bytes ''GET /ind'' (reset_state HttpConn_new)"
  have w: "well ?c" and u: "unread ?c = ''GET /ind''"
    by (rule accept_reset; simp add: kReadBufSize_def)+
  have "parse_line ?c = (LineOpen, ?c\<lparr>hc_checked_idx := hc_read_idx ?c\<rparr>)"
    by (rule parse_line_open[OF w]) (simp_all add: u)
  then have r: "process_read_loop LineOk ?c = Inr (NoRequest, ?c\<lparr>hc_checked_idx := hc_read_idx ?c\<rparr>)"
    by (subst process_read_loop.simps) simp
  have "room_for ''ex.html HTTP'' ?c"
    using w by (simp add: room_for_def kReadBufSize_def)
  from head_resumable[OF this r] r show ?thesis by simp
qed

lemma parse_line_keeps_well: "well c \<Longrightarrow> parse_line c = (st, c') \<Longrightarrow> well c' \<and> hc_read_idx c' = hc_read_idx c"
proof (induction c rule: parse_line.induct)
  case (1 c)
  show ?case
  proof (cases "hc_checked_idx c < hc_read_idx c \<and> hc_read_buf c ! hc_checked_idx c \<notin> {CR, LF}")
    case True
    with 1(1)[OF refl _ refl] 1(3) parse_line_skip[of c] well_advance[OF 1(2)] show ?thesis by simp
  next
    case False
    then show ?thesis
      using 1(2,3) by (cases rule: parse_line_end) (auto simp: well_def)
  qed
qed

lemma parse_steps_well:
  "parse_request_line line c = (ret, c') \<Longrightarrow> well c' = well c \<and> hc_read_idx c' = hc_read_idx c"
  "parse_headers line c = Inr (ret, c') \<Longrightarrow> well c' = well c \<and> hc_read_idx c' = hc_read_idx c"
  "parse_content c = Inr (ret, c') \<Longrightarrow> well c' = well c \<and> hc_read_idx c' = hc_read_idx c"
  by (auto simp: parse_request_line_def parse_headers_def parse_content_def Let_def well_def
      split: option.splits sum.splits if_splits)

lemma parse_line_content: "hc_content_length (snd (parse_line c)) = hc_content_length c"
proof (induction c rule: parse_line.induct)
  case (1 c)
  show ?case
  proof (cases "hc_checked_idx c < hc_read_idx c \<and> hc_read_buf c ! hc_checked_idx c \<notin> {CR, LF}")
    case True
    with parse_line_skip[of c] 1[OF refl _ refl] show ?thesis by simp
  next
    case False
    then show ?thesis by (cases rule: parse_line_end) simp_all
  qed
qed

text \<open>A connection that waits for a body longer than what is left behind its scan position goes on waiting: the scan
  for a line end never goes back, and it passes the bytes that \<^verbatim>\<open>parse_content\<close> has not taken.\<close>

definition short_of_body :: "HttpConn \<Rightarrow> bool" where
  "short_of_body c \<longleftrightarrow> well c \<and> hc_check_state c = StContent \<and> hc_content_length c < 2 ^ 32 \<and>
     int (hc_read_idx c) < int (hc_checked_idx c) + hc_content_length c"

lemma short_parse_content: "short_of_body c \<Longrightarrow> parse_content c = Inr (NoRequest, c)"
proof -
  assume "short_of_body c"
  then have "int (hc_read_idx c) < int (hc_checked_idx c) + hc_content_length c" "hc_checked_idx c \<le> 2048"
    "hc_content_length c < 2 ^ 32" "hc_checked_idx c \<le> hc_read_idx c"
    by (auto simp: short_of_body_def well_def kReadBufSize_def)
  then show ?thesis by (simp add: parse_content_def wrap64_def)
qed

lemma short_loop:
  "short_of_body c \<Longrightarrow> \<exists>c'. process_read_loop st c = Inr (NoRequest, c') \<and> short_of_body c' \<and>
     hc_read_idx c' = hc_read_idx c \<and> hc_content_length c' = hc_content_length c \<and> hc_checked_idx c \<le> hc_checked_idx c' \<and>
     (st \<noteq> LineOk \<longrightarrow> hc_checked_idx (snd (parse_line c)) \<le> hc_checked_idx c')"
proof (induction st c rule: process_read_loop.induct)
  case (1 st c)
  have c: "hc_check_state c = StContent" "well c" using 1(4) by (simp_all add: short_of_body_def)
  define s1 where "s1 = (if hc_check_state c = StContent \<and> st = LineOk then (LineOk, c) else parse_line c)"
  obtain t c1 where tc: "s1 = (t, c1)" by force
  have pl: "hc_checked_idx c \<le> hc_checked_idx (snd (parse_line c))" using parse_line_spec[of c] by blast
  have c1: "short_of_body c1" "hc_read_idx c1 = hc_read_idx c" "hc_content_length c1 = hc_content_length c"
    "hc_checked_idx c \<le> hc_checked_idx c1" "st \<noteq> LineOk \<longrightarrow> c1 = snd (parse_line c)"
  proof -
    obtain t' d where d: "parse_line c = (t', d)" by force
    have "well d" "hc_read_idx d = hc_read_idx c" using parse_line_keeps_well[OF c(2) d] by simp_all
    moreover have "hc_check_state d = StContent" "hc_content_length d = hc_content_length c" "hc_checked_idx c \<le> hc_checked_idx d"
      using parse_line_state[of c] parse_line_content[of c] pl c(1) d by simp_all
    ultimately have "short_of_body d" using 1(4) by (simp add: short_of_body_def)
    then show "short_of_body c1" "hc_read_idx c1 = hc_read_idx c" "hc_content_length c1 = hc_content_length c"
      "hc_checked_idx c \<le> hc_checked_idx c1" "st \<noteq> LineOk \<longrightarrow> c1 = snd (parse_line c)"
      using tc d c(1) 1(4) \<open>hc_read_idx d = _\<close> \<open>hc_content_length d = _\<close> \<open>hc_checked_idx c \<le> hc_checked_idx d\<close>
      by (auto simp: s1_def split: if_splits)
  qed
  show ?case
  proof (cases "t = LineOk")
    case False
    have "process_read_loop st c = Inr (NoRequest, c1)"
      using False tc by (subst process_read_loop.simps) (simp add: s1_def)
    with c1 show ?thesis by auto
  next
    case True
    let ?c2 = "c1\<lparr>hc_line_start := hc_checked_idx c1\<rparr>"
    have c2: "short_of_body ?c2" using c1(1) by (simp add: short_of_body_def well_def)
    note pc = short_parse_content[OF c2]
    have "hc_check_state ?c2 = StContent" using c2 by (simp add: short_of_body_def)
    then have step: "process_read_loop st c = process_read_loop LineOpen ?c2"
      using True tc pc by (subst process_read_loop.simps) (simp add: s1_def Let_def)
    have "\<exists>c'. process_read_loop LineOpen ?c2 = Inr (NoRequest, c') \<and> short_of_body c' \<and>
      hc_read_idx c' = hc_read_idx ?c2 \<and> hc_content_length c' = hc_content_length ?c2 \<and> hc_checked_idx ?c2 \<le> hc_checked_idx c' \<and>
      (LineOpen \<noteq> LineOk \<longrightarrow> hc_checked_idx (snd (parse_line ?c2)) \<le> hc_checked_idx c')"
      by (rule 1(3)[OF tc[unfolded s1_def, symmetric] refl _ refl refl \<open>hc_check_state ?c2 = _\<close> pc refl])
        (use True c2 in simp_all)
    then show ?thesis using c1 step by auto
  qed
qed

text \<open>The parser, run after every read; the first list are the bytes of the later reads.\<close>

fun feed :: "string list \<Rightarrow> HttpConn \<Rightarrow> conn_error + HttpCode \<times> HttpConn" where
  "feed [] c = process_read_loop LineOk c"
| "feed (part # parts) c =
     (case process_read_loop LineOk c of
        Inr (NoRequest, c1) \<Rightarrow> feed parts (accept_bytes part c1)
      | r \<Rightarrow> r)"

lemma feed_short:
  "short_of_body c \<Longrightarrow> int (hc_read_idx c + length (concat parts)) < int (hc_checked_idx c) + hc_content_length c \<Longrightarrow>
     hc_read_idx c + length (concat parts) \<le> kReadBufSize \<Longrightarrow> \<exists>c'. feed parts c = Inr (NoRequest, c')"
proof (induction parts arbitrary: c)
  case Nil
  then show ?case using short_loop[of c LineOk] by auto
next
  case (Cons part parts)
  obtain c1 where c1: "process_read_loop LineOk c = Inr (NoRequest, c1)" "short_of_body c1" "hc_read_idx c1 = hc_read_idx c"
    "hc_content_length c1 = hc_content_length c" "hc_checked_idx c \<le> hc_checked_idx c1"
    using short_loop[OF Cons.prems(1), of LineOk] by blast
  let ?d = "accept_bytes part c1"
  have "short_of_body ?d"
    using c1 Cons.prems by (simp add: short_of_body_def well_def overwrite_length)
  then have "\<exists>c'. feed parts ?d = Inr (NoRequest, c')"
    using c1 Cons.prems by (intro Cons.IH) simp_all
  then show ?case using c1(1) by simp
qed

text \<open>C36: The body of a request may not be cut. A connection at the beginning of the body that has received some bytes of it
  but not all, the first of them no part of a line end, answers \<open>NoRequest\<close> after that read and after every later one,
  in whatever parts the rest of the body arrives and whatever bytes it holds: the complete body is in the buffer and the
  request is never finished.\<close>

theorem split_body_stalls:
  assumes "well c" "hc_check_state c = StContent" "unread c = ch # part" "ch \<notin> {CR, LF}"
    and "hc_content_length c = int (length (ch # part @ concat parts))" "concat parts \<noteq> []"
    and "hc_read_idx c + length (concat parts) \<le> kReadBufSize"
  shows "\<exists>c'. feed parts c = Inr (NoRequest, c')"
proof -
  have idx: "hc_read_idx c = hc_checked_idx c + length (ch # part)"
    using assms(1) arg_cong[OF assms(3), of length] by (auto simp: well_def unread_def substr_def)
  have fst: "hc_checked_idx c < hc_read_idx c" "hc_read_buf c ! hc_checked_idx c = ch"
    using unread_Cons[OF assms(1,3)] by simp_all
  have "length (concat parts) \<le> 2048" using assms(7) by (simp add: kReadBufSize_def)
  then have short: "short_of_body c"
    using assms(1,2,5,6,7) idx by (auto simp: short_of_body_def well_def kReadBufSize_def)
  let ?c2 = "c\<lparr>hc_line_start := hc_checked_idx c\<rparr>"
  have s2: "short_of_body ?c2" using short by (simp add: short_of_body_def well_def)
  have step: "process_read_loop LineOk c = process_read_loop LineOpen ?c2"
    using short_parse_content[OF s2] assms(2) by (subst process_read_loop.simps) simp
  have "parse_line ?c2 = parse_line (?c2\<lparr>hc_checked_idx := hc_checked_idx ?c2 + 1\<rparr>)"
    using fst assms(4) by (intro parse_line_skip) auto
  then have moved: "hc_checked_idx c < hc_checked_idx (snd (parse_line ?c2))"
    using parse_line_spec[of "?c2\<lparr>hc_checked_idx := hc_checked_idx ?c2 + 1\<rparr>"] by simp
  obtain c1 where c1: "process_read_loop LineOk c = Inr (NoRequest, c1)" "short_of_body c1" "hc_read_idx c1 = hc_read_idx c"
    "hc_content_length c1 = hc_content_length c" "hc_checked_idx c < hc_checked_idx c1"
    using short_loop[OF s2, of LineOpen] moved step by auto
  show ?thesis
  proof (cases parts)
    case Nil
    then show ?thesis using assms(6) by simp
  next
    case (Cons p ps)
    let ?d = "accept_bytes p c1"
    have "short_of_body ?d"
      using c1 assms(5,7) idx by (simp add: short_of_body_def well_def overwrite_length Cons)
    then have "\<exists>c'. feed ps ?d = Inr (NoRequest, c')"
      using c1 assms(5,7) idx by (intro feed_short) (simp_all add: Cons)
    then show ?thesis using c1(1) by (simp add: Cons)
  qed
qed

theorem split_body_stalls_witness:
  "\<exists>c'. feed [''a'', [CR, LF], ''}''] ((accept_bytes ''{'' (reset_state HttpConn_new))\<lparr>hc_check_state := StContent, hc_content_length := 5\<rparr>)
      = Inr (NoRequest, c')"
proof (rule split_body_stalls)
  let ?c = "accept_bytes ''{'' (reset_state HttpConn_new)"
  have "well ?c" "unread ?c = ''{''"
    by (rule accept_reset; simp add: kReadBufSize_def)+
  then show "well (?c\<lparr>hc_check_state := StContent, hc_content_length := 5\<rparr>)"
      "unread (?c\<lparr>hc_check_state := StContent, hc_content_length := 5\<rparr>) = ''{''"
    by (simp_all add: well_def unread_def)
qed (simp_all add: kReadBufSize_def)

text \<open>C24: The parser never leaves its buffer: the buffer keeps its size and the positions of line start,
  scan and data end keep their order within it, whatever bytes arrived.\<close>

theorem parser_stays_in_buffer:
  assumes "well c" "process_read_loop st c = Inr (ret, c')"
  shows "well c' \<and> hc_read_idx c' = hc_read_idx c"
  using assms
proof (induction st c rule: process_read_loop.induct)
  case (1 st c)
  obtain ls c1 where p: "(if hc_check_state c = StContent \<and> st = LineOk then (LineOk, c) else parse_line c) = (ls, c1)"
    by fastforce
  then have w1: "well c1" "hc_read_idx c1 = hc_read_idx c"
    using parse_line_keeps_well[OF 1(4)] 1(4) by (auto split: if_splits)
  let ?c2 = "c1\<lparr>hc_line_start := hc_checked_idx c1\<rparr>"
  have w2: "well ?c2" "hc_read_idx ?c2 = hc_read_idx c"
    using w1 by (simp_all add: well_def)
  note eq = 1(5)[unfolded process_read_loop.simps[of st c] p]
  show ?case
  proof (cases "ls = LineOk")
    case False
    with eq w1 show ?thesis by simp
  next
    case True
    show ?thesis
    proof (cases "hc_check_state ?c2")
      case StRequestLine
      obtain r c3 where r: "parse_request_line (get_line c1) ?c2 = (r, c3)" by fastforce
      with 1(1)[OF p[symmetric] refl _ refl refl StRequestLine r[symmetric]] eq True StRequestLine w2
        parse_steps_well(1)[OF r] show ?thesis by (auto split: if_splits)
    next
      case StHeader
      then obtain r c3 where r: "parse_headers (get_line c1) ?c2 = Inr (r, c3)"
        using eq True by (auto split: sum.splits)
      with 1(2)[OF p[symmetric] refl _ refl refl StHeader r refl] eq True StHeader w2
        parse_steps_well(2)[OF r] show ?thesis by (auto split: if_splits)
    next
      case StContent
      then obtain r c3 where r: "parse_content ?c2 = Inr (r, c3)"
        using eq True by (auto split: sum.splits)
      with 1(3)[OF p[symmetric] refl _ refl refl StContent r refl] eq True StContent w2
        parse_steps_well(3)[OF r] show ?thesis by (auto split: if_splits)
    qed
  qed
qed

theorem parser_stays_in_buffer_witness:
  "\<exists>c'. process_read_loop LineOk (reset_state HttpConn_new) = Inr (NoRequest, c') \<and> well c'"
proof -
  have "process_read_loop LineOk (reset_state HttpConn_new) = Inr (NoRequest, reset_state HttpConn_new)"
    by (subst process_read_loop.simps) (simp add: parse_line.simps Let_def)
  with parser_stays_in_buffer[OF well_reset this] show ?thesis by simp
qed

text \<open>A Content-Length header whose value does not start with a number makes \<^verbatim>\<open>std::stol\<close> throw, and the
  exception leaves \<^verbatim>\<open>process_read\<close>; nothing up the call chain handles it.\<close>

theorem bad_length_throws:
  assumes "at_line (''Content-Length: '' @ v) rest c" "hc_check_state c = StHeader"
    and "v \<noteq> []" "\<not> isspace (hd v)" "\<not> isdigit (hd v)" "hd v \<noteq> CHR ''-''" "hd v \<noteq> CHR ''+''"
  shows "process_read fs c n = Inl StolInvalidArgument"
proof -
  let ?l = "''Content-Length: '' @ v" and ?v = "v @ [NUL, NUL]"
  obtain d ds where v: "v = d # ds"
    using assms(3) by (cases v) auto
  have nb: "hd ?v \<noteq> CHR '' ''" "hd ?v \<noteq> TAB"
    using assms(4) by (auto simp: v isspace_def)
  then have hv: "header_val (''Content-Length: '' @ ?v) ''Content-length:'' = ?v"
    using header_val_hit[of "''Content-length:''" "''Content-Length:''" ?v] header_names(5)[of ?v] by auto
  have o: "header_val (''Content-Length: '' @ ?v) ''Connection:'' = []"
    using header_names(4)[of ?v] by (simp add: header_val_def)
  have "stol ?v = Inl StolInvalidArgument"
  proof (cases "d = NUL")
    case True
    then show ?thesis by (simp add: stol_def c_str_def v Let_def)
  next
    case False
    then show ?thesis
      using assms(4-7) by (simp add: stol_def c_str_def v Let_def)
  qed
  then have "parse_headers (?l @ [NUL, NUL]) (after_line ?l c) = Inl StolInvalidArgument"
    using hv o by (simp add: parse_headers_def)
  then have "process_read_loop LineOk c = Inl StolInvalidArgument"
    using loop_line[OF assms(1)] assms(2) by simp
  then show ?thesis
    by (simp add: process_read_def)
qed

theorem bad_length_throws_witness:
  "process_read Map.empty ((accept_bytes (''Content-Length: many'' @ crlf) (reset_state HttpConn_new))\<lparr>hc_check_state := StHeader\<rparr>)
     \<lparr>nt_user_count = 1, nt_epoll = [], nt_gateway = (None :: App ApiGateway option)\<rparr> = Inl StolInvalidArgument"
proof -
  let ?bs = "''Content-Length: many'' @ crlf"
  let ?c = "(accept_bytes ?bs (reset_state HttpConn_new))\<lparr>hc_check_state := StHeader\<rparr>"
  have "well (accept_bytes ?bs (reset_state HttpConn_new))" "unread (accept_bytes ?bs (reset_state HttpConn_new)) = ?bs"
    by (rule accept_reset; simp add: kReadBufSize_def crlf_def)+
  then have "at_line (''Content-Length: '' @ ''many'') [] (accept_bytes ?bs (reset_state HttpConn_new))"
    by (simp add: at_line_def)
  then have "at_line (''Content-Length: '' @ ''many'') [] ?c"
    by (simp only: at_line_frame)
  then show ?thesis
    by (rule bad_length_throws) (simp_all add: isspace_def isdigit_def)
qed

section \<open>Sending\<close>

text \<open>When the kernel takes a gateway response in one call, exactly the response is sent; the connection is
  re-armed for reading and, if it is kept alive, its parser state is cleared, otherwise the caller is told
  to close it.\<close>

theorem api_response_sent:
  assumes "hc_api_response c \<noteq> []" "length (hc_api_response c) < 2 ^ 31" "hc_bytes_sent c = 0"
  shows "\<exists>c'. process_write ApiResponse c = (True, c') \<and>
    HttpConn_write (Sent (length (hc_api_response c)) # rs) c' n =
      Some (hc_linger c,
            (if hc_linger c then reset_state c' else
               c'\<lparr>hc_bytes_sent := int (length (hc_api_response c)), hc_bytes_to_send := 0, hc_mmap := None\<rparr>),
            epoll_call (EpollModIn (hc_sockfd c) (hc_trig_mode c)) n,
            Some (hc_api_response c))"
proof -
  have "wrap32 (int (length (hc_api_response c))) = int (length (hc_api_response c))"
    using assms(2) by (intro wrap32_id) (simp add: int32_def)
  then show ?thesis
    using assms by (simp add: process_write_def HttpConn_write_def Let_def pending_def iov_bytes_def segment_def
        substr_def reset_state_def)
qed

theorem api_response_sent_witness:
  "\<exists>c'. process_write ApiResponse (HttpConn_new\<lparr>hc_api_response := ''HTTP''\<rparr>) = (True, c') \<and>
     HttpConn_write [Sent (length ''HTTP'')] c' \<lparr>nt_user_count = 1, nt_epoll = [], nt_gateway = (None :: App ApiGateway option)\<rparr> =
       Some (False, c'\<lparr>hc_bytes_sent := 4, hc_bytes_to_send := 0, hc_mmap := None\<rparr>,
             \<lparr>nt_user_count = 1, nt_epoll = [EpollModIn (- 1) 0], nt_gateway = None\<rparr>, Some ''HTTP'')"
  using api_response_sent[of "HttpConn_new\<lparr>hc_api_response := ''HTTP''\<rparr>" "[]"
      "\<lparr>nt_user_count = 1, nt_epoll = [], nt_gateway = (None :: App ApiGateway option)\<rparr>"]
  by (auto simp: HttpConn_new_def epoll_call_def)

text \<open>The wake-ups of one response: \<^verbatim>\<open>write\<close> runs once for each, with the results its calls of \<^verbatim>\<open>writev\<close> have,
  until it reports that the connection is to be closed. The last component are the bytes of all of them.\<close>

definition both_out :: "string option \<Rightarrow> string option \<Rightarrow> string option" where
  "both_out out tail = (case (out, tail) of (Some xs, Some ys) \<Rightarrow> Some (xs @ ys) | _ \<Rightarrow> None)"

fun write_events ::
  "writev_result list list \<Rightarrow> HttpConn \<Rightarrow> 's Net \<Rightarrow> (bool \<times> HttpConn \<times> 's Net \<times> string option) option" where
  "write_events [] c n = Some (True, c, n, Some [])"
| "write_events (rs # rss) c n =
     (case HttpConn_write rs c n of
        None \<Rightarrow> None
      | Some (keep, c1, n1, out) \<Rightarrow>
          if \<not> keep then Some (keep, c1, n1, out)
          else map_option (\<lambda>(keep2, c2, n2, tail). (keep2, c2, n2, both_out out tail)) (write_events rss c1 n1))"

lemma both_out_simps [simp]:
  "both_out None out = None" "both_out out None = None" "both_out (Some xs) (Some ys) = Some (xs @ ys)"
  by (simp_all add: both_out_def split: option.splits)

lemma both_out_neutral [simp]: "both_out (Some []) out = out" "both_out out (Some []) = out"
  by (cases out; simp)+

lemma both_out_assoc: "both_out (both_out a b) c = both_out a (both_out b c)"
  by (cases a; cases b; cases c) simp_all

lemma sent_both:
  "(case out of None \<Rightarrow> None | Some xs \<Rightarrow> (case p of None \<Rightarrow> None | Some ys \<Rightarrow> Some (xs @ take k ys))) =
     both_out out (map_option (take k) p)"
  by (cases out; cases p) simp_all

lemma write_loop_sent:
  "write_loop (Sent k # rs) c n out =
     (let out' = both_out out (map_option (take k) (pending c));
          c1 = c\<lparr>hc_bytes_sent := hc_bytes_sent c + int k, hc_bytes_to_send := hc_bytes_to_send c - int k\<rparr>
      in if hc_bytes_to_send c1 \<le> 0
         then (let c2 = c1\<lparr>hc_mmap := None\<rparr>;
                   n2 = epoll_call (EpollModIn (hc_sockfd c) (hc_trig_mode c)) n
               in if hc_linger c2 then Some (True, reset_state c2, n2, out') else Some (False, c2, n2, out'))
         else write_loop rs (adjust_iovec k c1) n out')"
  by (simp add: both_out_def Let_def split: option.splits)

declare write_loop.simps(4) [simp del]

text \<open>A gateway response of which a part is out: what is left in the vector lies in the write buffer, which holds NUL bytes
  only, or outside of it.\<close>

definition wrong_buffer :: "HttpConn \<Rightarrow> bool" where
  "wrong_buffer c \<longleftrightarrow> hc_bytes_to_send c = 0 \<or>
     iov_base (hc_iv0 c) = WriteBuf \<and> hc_iv_count c = 1 \<and> set (hc_write_buf c) \<subseteq> {NUL}"

lemma wrong_buffer_pending:
  assumes "wrong_buffer c" "hc_bytes_to_send c \<noteq> 0"
  shows "pending c = None \<or> (\<exists>m. pending c = Some (replicate m NUL))"
proof -
  have "\<exists>m. take j (drop i (hc_write_buf c)) = replicate m NUL" for i j
  proof -
    have "\<forall>x \<in> set (take j (drop i (hc_write_buf c))). x = NUL"
      using assms set_take_subset[of j "drop i (hc_write_buf c)"] set_drop_subset[of i "hc_write_buf c"]
      by (auto simp: wrong_buffer_def)
    then show ?thesis by (metis replicate_length_same)
  qed
  then show ?thesis
    using assms by (auto simp: wrong_buffer_def pending_def iov_bytes_def segment_def substr_def)
qed

definition only_nul :: "string option \<Rightarrow> bool" where
  "only_nul out \<longleftrightarrow> out = None \<or> (\<exists>m. out = Some (replicate m NUL))"

lemma only_nul_simps [simp]: "only_nul None" "only_nul (Some [])"
  by (auto simp: only_nul_def intro: exI[of _ 0])

lemma only_nul_both: "only_nul a \<Longrightarrow> only_nul b \<Longrightarrow> only_nul (both_out a b)"
  by (auto simp: only_nul_def simp flip: replicate_add)

lemma wrong_buffer_loop:
  "wrong_buffer c \<Longrightarrow> hc_bytes_to_send c \<noteq> 0 \<Longrightarrow> write_loop rs c n out = Some (keep, c', n', out') \<Longrightarrow>
     \<exists>tail. out' = both_out out tail \<and> only_nul tail \<and> (keep \<longrightarrow> wrong_buffer c')"
proof (induction rs c n out rule: write_loop.induct)
  case (2 rs c n out)
  then show ?case by (auto intro!: exI[of _ "Some []"])
next
  case (3 rs c n out)
  then show ?case by (auto intro!: exI[of _ "Some []"])
next
  case (4 k rs c n out)
  let ?p = "map_option (take k) (pending c)"
  let ?c1 = "c\<lparr>hc_bytes_sent := hc_bytes_sent c + int k, hc_bytes_to_send := hc_bytes_to_send c - int k\<rparr>"
  have p: "only_nul ?p"
    using wrong_buffer_pending[OF 4(2,3)] by (auto simp: only_nul_def)
  show ?case
  proof (cases "hc_bytes_to_send ?c1 \<le> 0")
    case True
    then show ?thesis
      using 4(4) p by (auto simp: write_loop_sent Let_def wrong_buffer_def reset_state_def split: if_splits)
  next
    case False
    have "wrong_buffer (adjust_iovec k ?c1)" "hc_bytes_to_send (adjust_iovec k ?c1) \<noteq> 0"
      using 4(2,3) False by (auto simp: wrong_buffer_def adjust_iovec_def)
    moreover have "write_loop rs (adjust_iovec k ?c1) n (both_out out ?p) = Some (keep, c', n', out')"
      using 4(4) False by (simp add: write_loop_sent Let_def)
    moreover have out: "(case (out, pending c) of (Some xs, Some ys) \<Rightarrow> Some (xs @ take k ys) | _ \<Rightarrow> None) = both_out out ?p"
      by (simp add: sent_both)
    ultimately have "\<exists>tail. out' = both_out (both_out out ?p) tail \<and> only_nul tail \<and> (keep \<longrightarrow> wrong_buffer c')"
      using 4(1)[OF refl refl, unfolded out] False by simp
    then show ?thesis
      using only_nul_both[OF p] by (auto simp: both_out_assoc)
  qed
qed simp

lemma wrong_buffer_events:
  "wrong_buffer c \<Longrightarrow> write_events rss c n = Some (keep, c', n', out) \<Longrightarrow> only_nul out"
proof (induction rss c n arbitrary: keep c' n' out rule: write_events.induct)
  case (2 rs rss c n)
  show ?case
  proof (cases "hc_bytes_to_send c = 0")
    case True
    have "wrong_buffer (reset_state c)" by (simp add: wrong_buffer_def reset_state_def)
    with True 2 show ?thesis by (auto simp: HttpConn_write_def)
  next
    case False
    obtain k c1 n1 o1 where w: "write_loop rs c n (Some []) = Some (k, c1, n1, o1)"
      using 2(3) False by (auto simp: HttpConn_write_def split: option.splits)
    with wrong_buffer_loop[OF 2(2) False w] have o1: "only_nul o1" "k \<longrightarrow> wrong_buffer c1" by auto
    with 2 False w show ?thesis by (auto simp: HttpConn_write_def only_nul_both split: if_splits)
  qed
qed simp

text \<open>C37: A gateway response that the kernel does not take in one piece is corrupted. After the first \<open>k\<close> bytes the code
  points the vector at the write buffer, which was cleared and never written, instead of the response: whatever
  the kernel does then, at once or after other wake-ups, all bytes that follow are NUL bytes or come from behind the end of
  the buffer, so a response that does not end in a NUL byte never reaches the client. If the rest is taken in one piece, the
  client gets NUL bytes in its place for a response of up to 1024 bytes, and memory that is not the buffer's for a longer one.\<close>

theorem api_partial_write_corrupts:
  assumes "0 < k" "k < length (hc_api_response c)" "length (hc_api_response c) < 2 ^ 31"
    and "hc_bytes_sent c = 0" "hc_write_buf c = replicate kWriteBufSize NUL"
  shows "\<exists>c'. process_write ApiResponse c = (True, c') \<and>
    (\<forall>rs rss keep c2 n2 out. write_events ((Sent k # rs) # rss) c' n = Some (keep, c2, n2, out) \<longrightarrow>
      (out = None \<or> (\<exists>m. out = Some (take k (hc_api_response c) @ replicate m NUL))) \<and>
      (last (hc_api_response c) \<noteq> NUL \<longrightarrow> out \<noteq> Some (hc_api_response c))) \<and>
    (\<exists>c2 n2. write_events [[Sent k, Sent (length (hc_api_response c) - k)]] c' n =
      Some (hc_linger c, c2, n2,
        if length (hc_api_response c) \<le> 1024
        then Some (take k (hc_api_response c) @ replicate (length (hc_api_response c) - k) NUL) else None))"
proof -
  let ?A = "hc_api_response c"
  let ?L = "length ?A"
  have "wrap32 (int ?L) = int ?L"
    using assms(3) by (intro wrap32_id) (simp add: int32_def)
  then obtain c' where c': "process_write ApiResponse c = (True, c')" "hc_bytes_sent c' = 0" "hc_bytes_to_send c' = int ?L"
    "hc_iv0 c' = \<lparr>iov_base = ApiBuf, iov_off = 0, iov_len = int ?L\<rparr>" "hc_iv_count c' = 1" "hc_api_response c' = ?A"
    "hc_write_buf c' = replicate kWriteBufSize NUL" "hc_linger c' = hc_linger c"
    using assms(2,4,5) by (cases "?A = []") (auto simp: process_write_def Let_def)
  let ?d = "adjust_iovec k (c'\<lparr>hc_bytes_sent := int k, hc_bytes_to_send := int ?L - int k\<rparr>)"
  have pend: "pending c' = Some ?A"
    by (simp add: pending_def iov_bytes_def segment_def substr_def c')
  have first: "HttpConn_write (Sent k # rs) c' n = write_loop rs ?d n (Some (take k ?A))" for rs
    using assms(1,2) by (cases "?A = []") (simp_all add: HttpConn_write_def write_loop_sent pend c' Let_def)
  have d: "hc_iv0 ?d = \<lparr>iov_base = WriteBuf, iov_off = int k, iov_len = int ?L - int k\<rparr>" "hc_iv_count ?d = 1"
    "hc_bytes_to_send ?d = int ?L - int k" "hc_write_buf ?d = replicate kWriteBufSize NUL" "hc_linger ?d = hc_linger c"
    using assms(2) by (simp_all add: adjust_iovec_def c')
  then have wrong: "wrong_buffer ?d" "hc_bytes_to_send ?d \<noteq> 0"
    using assms(2) by (auto simp: wrong_buffer_def)
  have any: "\<exists>tail. out = both_out (Some (take k ?A)) tail \<and> only_nul tail"
    if run: "write_events ((Sent k # rs) # rss) c' n = Some (keep, c2, n2, out)" for rs rss keep c2 n2 out
  proof -
    obtain k1 c1 n1 o1 where w: "write_loop rs ?d n (Some (take k ?A)) = Some (k1, c1, n1, o1)"
      using run by (cases "write_loop rs ?d n (Some (take k ?A))") (auto simp: first)
    obtain tail where m: "o1 = both_out (Some (take k ?A)) tail" "only_nul tail" "k1 \<longrightarrow> wrong_buffer c1"
      using wrong_buffer_loop[OF wrong w] by blast
    show ?thesis
    proof (cases k1)
      case False
      with run w m show ?thesis by (auto simp: first)
    next
      case True
      with run w obtain out2 where "out = both_out o1 out2" "write_events rss c1 n1 = Some (keep, c2, n2, out2)"
        by (auto simp: first)
      moreover from this True m(3) have "only_nul out2" using wrong_buffer_events by blast
      ultimately show ?thesis using m only_nul_both by (auto simp: both_out_assoc)
    qed
  qed
  have "out = None \<or> (\<exists>m. out = Some (take k ?A @ replicate m NUL))"
    "last ?A \<noteq> NUL \<longrightarrow> out \<noteq> Some ?A"
    if "write_events ((Sent k # rs) # rss) c' n = Some (keep, c2, n2, out)" for rs rss keep c2 n2 out
  proof -
    show out: "out = None \<or> (\<exists>m. out = Some (take k ?A @ replicate m NUL))"
      using any[OF that] by (auto simp: only_nul_def)
    have "last ?A = NUL" if "?A = take k ?A @ replicate m NUL" for m
    proof -
      have "m \<noteq> 0" using that assms(2) by (metis append_Nil2 length_take min.absorb4 nat_less_le replicate_0)
      then show ?thesis by (subst that) simp
    qed
    with out show "last ?A \<noteq> NUL \<longrightarrow> out \<noteq> Some ?A" by (metis option.distinct(1) option.inject)
  qed
  moreover have "\<exists>c2 n2. write_events [[Sent k, Sent (?L - k)]] c' n = Some (hc_linger c, c2, n2,
      if ?L \<le> 1024 then Some (take k ?A @ replicate (?L - k) NUL) else None)"
  proof -
    have "pending ?d = (if ?L \<le> 1024 then Some (replicate (?L - k) NUL) else None)"
      using assms(1,2) d by (auto simp: pending_def iov_bytes_def segment_def substr_def kWriteBufSize_def)
    then show ?thesis
      using assms(2) d by (auto simp: first write_loop_sent Let_def)
  qed
  ultimately show ?thesis using c'(1) by blast
qed

theorem api_partial_write_corrupts_witness:
  "\<exists>c' c2 n2. process_write ApiResponse (HttpConn_new\<lparr>hc_api_response := ''HTTP''\<rparr>) = (True, c') \<and>
     write_events [[Sent 1, Sent 3]] c' \<lparr>nt_user_count = 1, nt_epoll = [], nt_gateway = (None :: App ApiGateway option)\<rparr> =
       Some (False, c2, n2, Some (CHR ''H'' # replicate 3 NUL))"
  using api_partial_write_corrupts[of 1 "HttpConn_new\<lparr>hc_api_response := ''HTTP''\<rparr>"
      "\<lparr>nt_user_count = 1, nt_epoll = [], nt_gateway = (None :: App ApiGateway option)\<rparr>"]
  by (auto simp: HttpConn_new_def numeral_3_eq_3 simp del: write_events.simps)

text \<open>The response builders change the write buffer and its index only, and stay inside it.\<close>

definition buffer_step :: "HttpConn \<Rightarrow> HttpConn \<Rightarrow> bool" where
  "buffer_step c c' \<longleftrightarrow> c' = c\<lparr>hc_write_buf := hc_write_buf c', hc_write_idx := hc_write_idx c'\<rparr> \<and>
     (length (hc_write_buf c) = kWriteBufSize \<and> hc_write_idx c < kWriteBufSize \<longrightarrow>
      length (hc_write_buf c') = kWriteBufSize \<and> hc_write_idx c' < kWriteBufSize)"

lemma buffer_step_trans: "buffer_step a b \<Longrightarrow> buffer_step b c \<Longrightarrow> buffer_step a c"
  unfolding buffer_step_def
  by (cases a; cases b; cases c) simp

lemma buffer_step_refl: "buffer_step c c"
  by (simp add: buffer_step_def)

lemma add_response_step: "buffer_step c (snd (add_response out c))"
  by (auto simp: buffer_step_def add_response_def Let_def overwrite_def kWriteBufSize_def)

lemma and_then_step:
  "(\<And>c. buffer_step c (snd (f c))) \<Longrightarrow> (\<And>c. buffer_step c (snd (g c))) \<Longrightarrow> buffer_step c (snd (and_then f g c))"
  by (auto simp: and_then_def split: prod.splits intro: buffer_step_trans)
     (metis buffer_step_trans snd_conv)+

lemma builder_steps:
  "buffer_step c (snd (add_status_line st title c))" "buffer_step c (snd (add_content_type c))"
  "buffer_step c (snd (add_headers len c))"
  by (auto simp: add_status_line_def add_content_type_def add_headers_def add_content_length_def add_linger_def
      add_blank_line_def intro!: add_response_step and_then_step)

lemma file_response:
  assumes "process_write FileRequest c = (ok, c')" "hc_file_size c \<noteq> 0"
  obtains c2 where "buffer_step c c2"
    "c' = c2\<lparr>hc_iv0 := \<lparr>iov_base = WriteBuf, iov_off = 0, iov_len = int (hc_write_idx c2)\<rparr>,
            hc_iv1 := \<lparr>iov_base = MmapFile, iov_off = 0, iov_len = hc_file_size c2\<rparr>, hc_iv_count := 2,
            hc_bytes_to_send := wrap32 (int (hc_write_idx c2) + wrap32 (hc_file_size c2))\<rparr>"
proof -
  let ?c1 = "snd (add_content_type (snd (add_status_line 200 ''OK'' c)))"
  have s1: "buffer_step c ?c1"
    using builder_steps buffer_step_trans by blast
  then have "hc_file_size ?c1 = hc_file_size c"
    by (metis (no_types, lifting) HttpConn.select_convs(24) HttpConn.surjective HttpConn.update_convs(8,9) buffer_step_def)
  moreover have "buffer_step c (snd (add_headers (wrap32 (hc_file_size ?c1)) ?c1))"
    using s1 builder_steps buffer_step_trans by blast
  ultimately show thesis
    using that assms by (simp add: process_write_def Let_def)
qed

text \<open>The state of a file response of which \<open>S\<close> bytes are out, none of them lost.\<close>

definition sending :: "string \<Rightarrow> string \<Rightarrow> nat \<Rightarrow> HttpConn \<Rightarrow> bool" where
  "sending head content S c \<longleftrightarrow> hc_mmap c = Some content \<and> hc_write_idx c = length head \<and>
     length head \<le> length (hc_write_buf c) \<and> take (length head) (hc_write_buf c) = head \<and> hc_iv_count c = 2 \<and>
     hc_bytes_sent c = int S \<and> hc_bytes_to_send c = int (length head + length content) - int S \<and>
     S < length head + length content \<and>
     (if S < length head
      then hc_iv0 c = \<lparr>iov_base = WriteBuf, iov_off = int S, iov_len = int (length head) - int S\<rparr> \<and>
        hc_iv1 c = \<lparr>iov_base = MmapFile, iov_off = 0, iov_len = int (length content)\<rparr>
      else iov_len (hc_iv0 c) = 0 \<and> hc_iv1 c = \<lparr>iov_base = MmapFile, iov_off = int S - int (length head),
        iov_len = int (length head + length content) - int S\<rparr>)"

lemma sending_pending:
  assumes "sending head content S c"
  shows "pending c = Some (drop S (head @ content))"
proof -
  have t: "take (length head - S) (drop S (hc_write_buf c)) = drop S head"
    using assms by (metis drop_take sending_def)
  show ?thesis
  proof (cases "S < length head")
    case True
    then show ?thesis
      using assms t by (auto simp: sending_def pending_def iov_bytes_def segment_def substr_def nat_diff_distrib)
  next
    case False
    then show ?thesis
      using assms by (auto simp: sending_def pending_def iov_bytes_def segment_def substr_def nat_diff_distrib)
  qed
qed

text \<open>One piece of \<open>k\<close> bytes with more to come, and a list of them.\<close>

definition piece :: "nat \<Rightarrow> HttpConn \<Rightarrow> HttpConn" where
  "piece k c = adjust_iovec k
     (c\<lparr>hc_bytes_sent := hc_bytes_sent c + int k, hc_bytes_to_send := hc_bytes_to_send c - int k\<rparr>)"

fun pieces :: "nat list \<Rightarrow> HttpConn \<times> string option \<Rightarrow> HttpConn \<times> string option" where
  "pieces [] s = s"
| "pieces (k # ks) (c, out) = pieces ks (piece k c, both_out out (map_option (take k) (pending c)))"

lemma piece_simps [simp]:
  "hc_bytes_to_send (piece k c) = hc_bytes_to_send c - int k" "hc_linger (piece k c) = hc_linger c"
  "hc_sockfd (piece k c) = hc_sockfd c" "hc_trig_mode (piece k c) = hc_trig_mode c"
  by (simp_all add: piece_def adjust_iovec_def)

lemma pieces_frame:
  "hc_bytes_to_send (fst (pieces ks s)) = hc_bytes_to_send (fst s) - int (sum_list ks) \<and>
     hc_linger (fst (pieces ks s)) = hc_linger (fst s)"
  by (induction ks s rule: pieces.induct) simp_all

lemma pieces_out: "pieces ks (c, both_out a b) = (fst (pieces ks (c, b)), both_out a (snd (pieces ks (c, b))))"
  by (induction ks "(c, b)" arbitrary: c b rule: pieces.induct) (simp_all add: both_out_assoc)

lemma pieces_append: "pieces (ks @ js) s = pieces js (pieces ks s)"
  by (induction ks s rule: pieces.induct) simp_all

lemma loop_pieces:
  "int (sum_list ks) < hc_bytes_to_send c \<Longrightarrow>
     write_loop (map Sent ks @ rs) c n out = write_loop rs (fst (pieces ks (c, out))) n (snd (pieces ks (c, out)))"
proof (induction ks arbitrary: c out)
  case (Cons k ks)
  then have "int (sum_list ks) < hc_bytes_to_send (piece k c)" by simp
  from Cons.IH[OF this] Cons.prems show ?case
    by (simp add: write_loop_sent Let_def piece_def)
qed simp

lemma events_pieces:
  "int (sum_list (concat kss)) < hc_bytes_to_send c \<Longrightarrow>
     \<exists>n'. write_events (map (\<lambda>ks. map Sent ks @ [SendAgain]) kss @ [map Sent ks]) c n =
       write_loop (map Sent ks) (fst (pieces (concat kss) (c, Some []))) n' (snd (pieces (concat kss) (c, Some [])))"
proof (induction kss arbitrary: c n)
  case Nil
  have "write_loop rs c n (Some []) = map_option (\<lambda>(keep, c', n', out). (keep, c', n', both_out out (Some []))) (write_loop rs c n (Some []))"
    for rs by (cases "write_loop rs c n (Some [])") auto
  with Nil show ?case
    by (auto simp: HttpConn_write_def split: option.splits intro!: exI[of _ n])
next
  case (Cons js kss)
  let ?c = "fst (pieces js (c, Some []))" and ?o = "snd (pieces js (c, Some []))"
  let ?n = "epoll_call (EpollModOut (hc_sockfd ?c) (hc_trig_mode ?c)) n"
  have "int (sum_list js) < hc_bytes_to_send c" "hc_bytes_to_send c \<noteq> 0"
    using Cons.prems by simp_all
  then have first: "HttpConn_write (map Sent js @ [SendAgain]) c n = Some (True, ?c, ?n, ?o)"
    by (simp add: HttpConn_write_def loop_pieces)
  have "int (sum_list (concat kss)) < hc_bytes_to_send ?c"
    using Cons.prems by (simp add: pieces_frame)
  from Cons.IH[OF this, of ?n] obtain n' where n':
    "write_events (map (\<lambda>ks. map Sent ks @ [SendAgain]) kss @ [map Sent ks]) ?c ?n =
       write_loop (map Sent ks) (fst (pieces (concat kss) (?c, Some []))) n' (snd (pieces (concat kss) (?c, Some [])))"
    by blast
  have p: "pieces (concat (js # kss)) (c, Some []) =
      (fst (pieces (concat kss) (?c, Some [])), both_out ?o (snd (pieces (concat kss) (?c, Some []))))"
    using pieces_out[of "concat kss" ?c ?o "Some []"] by (simp add: pieces_append)
  have "map_option (\<lambda>(keep, c', n', out). (keep, c', n', both_out ?o out)) (write_loop rs d m out) = write_loop rs d m (both_out ?o out)"
    for rs d m out
    by (induction rs d m out rule: write_loop.induct) (simp_all add: write_loop_sent Let_def both_out_assoc sent_both)
  then have "write_events (map (\<lambda>ks. map Sent ks @ [SendAgain]) (js # kss) @ [map Sent ks]) c n =
      write_loop (map Sent ks) (fst (pieces (concat (js # kss)) (c, Some []))) n' (snd (pieces (concat (js # kss)) (c, Some [])))"
    using first n' by (simp add: p del: concat.simps)
  then show ?case by blast
qed

text \<open>The cuts that the code survives: after a piece that ends inside the head, the bytes sent before it and after it have to
  add up to less than the head, because \<^verbatim>\<open>write\<close> compares all bytes sent with what was left of the head.\<close>

fun clean_cuts :: "nat \<Rightarrow> nat \<Rightarrow> nat list \<Rightarrow> bool" where
  "clean_cuts H S [] = True"
| "clean_cuts H S (k # ks) = ((S + k < H \<longrightarrow> S + (S + k) < H) \<and> clean_cuts H (S + k) ks)"

lemma sending_piece:
  assumes "sending head content S c" "S + k < length head + length content"
  shows "if S + k < length head \<longrightarrow> S + (S + k) < length head then sending head content (S + k) (piece k c) else pending (piece k c) = None"
proof (cases "S < length head")
  case True
  with assms show ?thesis
    by (auto simp: sending_def piece_def adjust_iovec_def pending_def iov_bytes_def segment_def)
next
  case False
  with assms show ?thesis
    by (auto simp: sending_def piece_def adjust_iovec_def)
qed

lemma lost_pieces: "snd (pieces ks (c, None)) = None"
  by (induction ks arbitrary: c) simp_all

lemma pieces_sending:
  "sending head content S c \<Longrightarrow> S + sum_list ks < length head + length content \<Longrightarrow>
     (case pieces ks (c, Some (take S (head @ content))) of (c', out) \<Rightarrow>
        if clean_cuts (length head) S ks
        then sending head content (S + sum_list ks) c' \<and> out = Some (take (S + sum_list ks) (head @ content))
        else out = None \<or> pending c' = None)"
proof (induction ks arbitrary: S c)
  case (Cons k ks)
  let ?m = "head @ content"
  have out: "both_out (Some (take S ?m)) (map_option (take k) (pending c)) = Some (take (S + k) ?m)"
    by (simp only: sending_pending[OF Cons.prems(1)] option.map both_out_simps take_add)
  have k: "S + k < length head + length content" using Cons.prems(2) by simp
  show ?case
  proof (cases "S + k < length head \<longrightarrow> S + (S + k) < length head")
    case True
    then have "sending head content (S + k) (piece k c)"
      using sending_piece[OF Cons.prems(1) k] by simp
    from Cons.IH[OF this] Cons.prems(2) True out show ?thesis
      by (simp add: add.assoc case_prod_beta del: take_append split: if_splits)
  next
    case False
    then have lost: "pending (piece k c) = None"
      using sending_piece[OF Cons.prems(1) k] by simp
    have "snd (pieces ks (piece k c, Some (take (S + k) ?m))) = None \<or> pending (fst (pieces ks (piece k c, Some (take (S + k) ?m)))) = None"
      using lost by (cases ks) (simp_all add: lost_pieces)
    with False out show ?thesis by (auto simp: case_prod_beta simp del: take_append)
  qed
qed simp

text \<open>C33: A static file is sent completely and in order, in however many pieces the kernel takes it and over however many
  wake-ups, as long as no piece ends inside the head so far that the bytes sent before and after it add up to the head or
  more; in particular whenever the first piece takes the whole head. With any other cut, the client gets bytes from in front
  of the mapped file.\<close>

theorem file_sent_in_order:
  assumes "process_write FileRequest c = (ok, c')" "hc_mmap c = Some content" "content \<noteq> []"
    and "hc_file_size c = int (length content)" "length content < 2 ^ 30" "hc_bytes_sent c = 0"
    and "length (hc_write_buf c) = kWriteBufSize" "hc_write_idx c < kWriteBufSize"
    and "sum_list (concat kss @ ks) + k = hc_write_idx c' + length content" "0 < k"
  shows "\<exists>c2 n2. write_events (map (\<lambda>js. map Sent js @ [SendAgain]) kss @ [map Sent (ks @ [k])]) c' n =
    Some (hc_linger c, c2, n2,
      if clean_cuts (hc_write_idx c') 0 (concat kss @ ks) then Some (take (hc_write_idx c') (hc_write_buf c') @ content) else None)"
proof -
  obtain d where d: "buffer_step c d"
      and c': "c' = d\<lparr>hc_iv0 := \<lparr>iov_base = WriteBuf, iov_off = 0, iov_len = int (hc_write_idx d)\<rparr>,
            hc_iv1 := \<lparr>iov_base = MmapFile, iov_off = 0, iov_len = hc_file_size d\<rparr>, hc_iv_count := 2,
            hc_bytes_to_send := wrap32 (int (hc_write_idx d) + wrap32 (hc_file_size d))\<rparr>"
    using file_response[OF assms(1)] assms(3,4) by auto
  obtain b i where di: "d = c\<lparr>hc_write_buf := b, hc_write_idx := i\<rparr>"
    using d unfolding buffer_step_def by blast
  have wb: "length (hc_write_buf d) = 1024" "hc_write_idx d < 1024"
    using d assms(7,8) by (auto simp: buffer_step_def kWriteBufSize_def)
  let ?head = "take (hc_write_idx c') (hc_write_buf c')" and ?F = "length content"
  have head: "length ?head = hc_write_idx c'" using wb by (simp add: c')
  have "int32 (int ?F)" "int32 (int (hc_write_idx d) + int ?F)"
    using assms(5) wb(2) by (simp_all add: int32_def)
  then have ts: "hc_bytes_to_send c' = int (hc_write_idx c' + ?F)"
    using assms(4) by (simp add: c' di wrap_simps)
  have s0: "sending ?head content 0 c'"
    using assms(2,3,4,6) wb ts unfolding sending_def head by (auto simp: c' di)
  let ?all = "concat kss @ ks"
  let ?p = "pieces ?all (c', Some [])"
  have less: "sum_list ?all < hc_write_idx c' + ?F" using assms(9,10) by simp
  then have "int (sum_list (concat kss)) < hc_bytes_to_send c'" by (simp add: ts)
  then obtain n' where "write_events (map (\<lambda>js. map Sent js @ [SendAgain]) kss @ [map Sent (ks @ [k])]) c' n =
      write_loop (map Sent ks @ [Sent k]) (fst (pieces (concat kss) (c', Some []))) n' (snd (pieces (concat kss) (c', Some [])))"
    using events_pieces[of kss c' "ks @ [k]" n] by auto
  also have "\<dots> = write_loop [Sent k] (fst ?p) n' (snd ?p)"
    using less by (subst loop_pieces) (simp_all add: pieces_append pieces_frame ts)
  finally have run: "write_events (map (\<lambda>js. map Sent js @ [SendAgain]) kss @ [map Sent (ks @ [k])]) c' n =
      write_loop [Sent k] (fst ?p) n' (snd ?p)" .
  have sp: "if clean_cuts (hc_write_idx c') 0 ?all
      then sending ?head content (sum_list ?all) (fst ?p) \<and> snd ?p = Some (take (sum_list ?all) (?head @ content))
      else snd ?p = None \<or> pending (fst ?p) = None"
    using pieces_sending[OF s0, of ?all] less unfolding head by (simp add: case_prod_beta split: if_splits)
  have "both_out (snd ?p) (map_option (take k) (pending (fst ?p))) =
      (if clean_cuts (hc_write_idx c') 0 ?all then Some (?head @ content) else None)"
  proof (cases "clean_cuts (hc_write_idx c') 0 ?all")
    case True
    then have p: "snd ?p = Some (take (sum_list ?all) (?head @ content))" "pending (fst ?p) = Some (drop (sum_list ?all) (?head @ content))"
      using sp True sending_pending[of ?head content "sum_list ?all" "fst ?p"] by (auto simp only: if_True)
    have "take (sum_list ?all) (?head @ content) @ take k (drop (sum_list ?all) (?head @ content)) = take (sum_list ?all + k) (?head @ content)"
      by (simp only: take_add)
    also have "\<dots> = ?head @ content" using assms(9) head by simp
    finally show ?thesis using True p by (simp only: option.map both_out_simps if_True)
  next
    case False
    with sp show ?thesis by auto
  qed
  moreover have "hc_bytes_to_send (fst ?p) = int k" "hc_linger (fst ?p) = hc_linger c'"
    using assms(9) by (simp_all add: pieces_frame ts)
  moreover have "hc_linger c' = hc_linger c" by (simp add: c' di)
  ultimately show ?thesis
    unfolding run by (auto simp: write_loop_sent Let_def)
qed

theorem file_sent_in_order_witness:
  "\<exists>ok c' c2 n2. process_write FileRequest (HttpConn_new\<lparr>hc_mmap := Some ''hi'', hc_file_size := 2\<rparr>) = (ok, c') \<and>
     write_events [[Sent (hc_write_idx c'), SendAgain], [Sent 1, Sent 1]] c'
       \<lparr>nt_user_count = 1, nt_epoll = [], nt_gateway = (None :: App ApiGateway option)\<rparr> =
     Some (False, c2, n2, Some (take (hc_write_idx c') (hc_write_buf c') @ ''hi''))"
proof -
  let ?c = "HttpConn_new\<lparr>hc_mmap := Some ''hi'', hc_file_size := 2\<rparr>"
  obtain ok c' where p: "process_write FileRequest ?c = (ok, c')" by fastforce
  have m: "hc_mmap ?c = Some ''hi''" by simp
  have sum: "sum_list (concat [[hc_write_idx c']] @ [1]) + 1 = hc_write_idx c' + length ''hi''" by simp
  from file_sent_in_order[OF p m _ _ _ _ _ _ sum] p show ?thesis
    by (simp add: HttpConn_new_def kWriteBufSize_def del: write_events.simps)
qed

end
