(* ===== verification/End_To_End.thy ===== *)
theory End_To_End
  imports Http_Properties Service_Properties
begin

text \<open>
  The components together: from the bytes of an HTTP request on a connection through the parser, the gateway,
  the controller, the JSON readers and the services to the repositories, and back to the bytes of the response.
\<close>

section \<open>A request for the gateway\<close>

text \<open>What the connection hands to the gateway for a request it has read completely.\<close>

definition gateway_request :: "Method \<Rightarrow> string \<Rightarrow> string \<Rightarrow> string \<Rightarrow> HttpRequest" where
  "gateway_request m url host body =
     (case split_path_and_query url of
        (path, query) \<Rightarrow>
          \<lparr>rq_method = to_api_method m, rq_path = path, rq_body = body, rq_headers = [''Host'' \<mapsto> host @ [NUL, NUL]],
           rq_path_params = Map.empty, rq_query_params = query\<rparr>)"

lemma api_url_long: "is_prefix ''/api/'' url \<Longrightarrow> length url \<noteq> 1"
  using is_prefix_length[of "''/api/''" url] by auto

lemma api_read:
  assumes "target_ok url" "host_ok host" "length (render_request m url host keep body) \<le> 2048"
    and "is_prefix ''/api/'' url" "nt_gateway n = Some g"
    and "dispatch (gateway_request m url host body) g = Some (response, g')"
  shows "\<exists>c'. process_read fs (accept_bytes (render_request m url host keep body) (reset_state c)) n =
      Inr (ApiResponse, c', n\<lparr>nt_gateway := Some g'\<rparr>) \<and> hc_api_response c' = to_http_string response keep"
proof -
  obtain c' where r: "process_read_loop LineOk (accept_bytes (render_request m url host keep body) (reset_state c)) =
      Inr (GetRequest, c')" "hc_method c' = m" "hc_url c' = url" "hc_host c' = host @ [NUL, NUL]" "hc_linger c' = keep"
      "hc_request_body c' = body"
    using request_loop[OF assms(1-3), of c] api_url_long[OF assms(4)] by auto
  have "api_request c' = gateway_request m url host body"
    using r by (simp add: api_request_def gateway_request_def split: prod.splits)
  then show ?thesis
    using r assms(4-6) by (simp add: process_read_def do_request_def)
qed

section \<open>Placing an order\<close>

text \<open>The body a browser client sends.\<close>

definition order_body :: "int \<Rightarrow> OrderItemRequest list \<Rightarrow> string" where
  "order_body user_id items =
     ''{\"user_id\":'' @ to_string user_id @ '',\"items\":['' @
     comma_join (map (\<lambda>i. item_text (oir_book_id i, oir_quantity i, [])) items) @ '']}''"

lemma order_body_items:
  assumes "\<forall>i \<in> set items. int32 (oir_book_id i) \<and> int32 (oir_quantity i)"
  shows "json_order_items (order_body user_id items) = items"
proof -
  let ?f = "\<lambda>i. (oir_book_id i, oir_quantity i, [] :: string)" and ?k = "quoted ''book_id''"
  let ?pre = "''{\"user_id\":'' @ to_string user_id @ '',\"items\":[''"
  have ok: "\<forall>it \<in> set (map ?f items). item_ok it"
    using assms by (auto simp: item_ok_def)
  have pre: "skips ?k ?pre t" for t
    unfolding skips_append using skips_to_string[of "''book_id''"] by (simp add: quoted_def)
  have post: "find_sub ?k '']}'' = None" by (simp add: quoted_def)
  have "order_body user_id items = [] @ ?pre @ comma_join (map item_text (map ?f items)) @ '']}''"
    by (simp add: order_body_def o_def)
  from json_order_items_rendered[OF ok pre post this] show ?thesis
    by (simp add: json_order_items_def item_request_def o_def map_idI)
qed

lemma order_body_user:
  assumes "int32 user_id"
  shows "json_int_value (order_body user_id items) ''user_id'' = Some user_id"
proof -
  let ?rest = "'',\"items\":['' @ comma_join (map (\<lambda>i. item_text (oir_book_id i, oir_quantity i, [])) items) @ '']}''"
  have "order_body user_id items = ''{'' @ quoted ''user_id'' @ '':'' @ to_string user_id @ ?rest"
    by (simp add: order_body_def quoted_def)
  moreover have "skips (quoted ''user_id'') ''{'' (quoted ''user_id'' @ '':'' @ to_string user_id @ ?rest)"
    by (simp add: quoted_def)
  ultimately show ?thesis
    using json_int_field[of "''user_id''" "''{''" "to_string user_id @ ?rest" "[]"]
      json_read_int_to_string[OF assms, of ?rest]
    by (simp add: json_int_value_def plain_key_def isdigit_def)
qed

lemma dispatch_create_order:
  assumes "rq_method request = Post" "rq_path request = ''/api/orders''"
    and "dp_order_client (gw_dependencies g) = Some client"
  shows "dispatch request g =
    Some (case handle_create_order request client (gw_data g) of (r, s) \<Rightarrow> (r, g\<lparr>gw_data := s\<rparr>))"
  using assms
  by (simp add: dispatch_table table_lookup_def api_routes_def exact_entry_def has_param_def writing_def
      order_client_of_def)

section \<open>Properties\<close>

text \<open>C3: An order over HTTP, end to end. A client sends the JSON body of an order with \<^verbatim>\<open>POST /api/orders\<close>. The order
  is created exactly when the user id is positive, there are lines, they ask for positive quantities of known books
  and the stock covers the sum of the lines of each book; then the connection answers 201 with the order as it was
  stored, the stock drops by exactly the lines, and the order is appended. Otherwise it answers 400 for an order
  without lines and 409 for the others, and stock, orders and catalogue are as before.\<close>

theorem post_order_over_http:
  assumes "host_ok host" "int32 u" "\<forall>i \<in> set items. int32 (oir_book_id i) \<and> int32 (oir_quantity i)"
    and "length (render_request MethodPost ''/api/orders'' host keep (order_body u items)) \<le> 2048"
    and "nt_gateway n = Some g" "dp_order_client (gw_dependencies g) = Some (LocalOrderClient memory_order_service)"
    and "app_ok (gw_data g)" "order_room (gw_data g) > 0"
  shows "\<exists>c' s' response.
    process_read fs (accept_bytes (render_request MethodPost ''/api/orders'' host keep (order_body u items)) (reset_state c)) n =
      Inr (ApiResponse, c', n\<lparr>nt_gateway := Some (g\<lparr>gw_data := s'\<rparr>)\<rparr>) \<and>
    hc_api_response c' = to_http_string response keep \<and> app_ok s' \<and> book_cat s' = book_cat (gw_data g) \<and>
    (if u > 0 \<and> items \<noteq> [] \<and> orderable (book_cat (gw_data g)) items \<and>
        servable (app_stock (gw_data g)) (reservation_items_of items)
     then \<exists>r. response = ok_json 201 (order_data r) \<and> ord_user_id r = u \<and> ord_items r = priced (book_cat (gw_data g)) items \<and>
            app_stock s' = deduct (app_stock (gw_data g)) (reservation_items_of items) \<and>
            app_order_list s' = app_order_list (gw_data g) @ [r]
     else rs_status_code response = (if items = [] then 400 else 409) \<and> app_stock s' = app_stock (gw_data g) \<and>
          app_order_list s' = app_order_list (gw_data g))"
proof -
  let ?s = "gw_data g" and ?body = "order_body u items"
  let ?client = "LocalOrderClient memory_order_service"
  let ?rq = "gateway_request MethodPost ''/api/orders'' host ?body"
  have rq: "rq_method ?rq = Post" "rq_path ?rq = ''/api/orders''" "rq_body ?rq = ?body"
    by (simp_all add: gateway_request_def split_path_and_query_def find_from_def to_api_method_def)
  obtain x s1 where c: "OrderService_create_order memory_order_service u items ?s = (x, s1)" by force
  obtain response s' where h: "handle_create_order ?rq ?client ?s = (response, s')" by force
  have read: "\<exists>c'. process_read fs (accept_bytes (render_request MethodPost ''/api/orders'' host keep ?body) (reset_state c)) n =
      Inr (ApiResponse, c', n\<lparr>nt_gateway := Some (g\<lparr>gw_data := s'\<rparr>)\<rparr>) \<and> hc_api_response c' = to_http_string response keep"
    using assms(1,4-6) dispatch_create_order[OF rq(1,2) assms(6)] h
    by (intro api_read) (simp_all add: target_ok_def)
  have items: "json_order_items ?body = items" "json_int_value ?body ''user_id'' = Some u"
    using order_body_items[OF assms(3)] order_body_user[OF assms(2)] by simp_all
  note accept = mem_orders.create_order_iff[OF assms(7,8), of u items]
  note effect = mem_orders.create_order_cases[OF assms(7,8) c]
  let ?P = "u > 0 \<and> items \<noteq> [] \<and> orderable (book_cat ?s) items \<and> servable (app_stock ?s) (reservation_items_of items)"
  have out: "app_ok s' \<and> book_cat s' = book_cat ?s \<and>
    (if ?P
     then \<exists>r. response = ok_json 201 (order_data r) \<and> ord_user_id r = u \<and> ord_items r = priced (book_cat ?s) items \<and>
            app_stock s' = deduct (app_stock ?s) (reservation_items_of items) \<and> app_order_list s' = app_order_list ?s @ [r]
     else rs_status_code response = (if items = [] then 400 else 409) \<and> app_stock s' = app_stock ?s \<and>
          app_order_list s' = app_order_list ?s)"
  proof (cases "items = []")
    case True
    with h items rq(3) assms(7) show ?thesis by (auto simp: handle_create_order_def)
  next
    case False
    have s1: "s' = s1" and resp: "response = (case x of None \<Rightarrow> error_json 409 ''insufficient stock or invalid order''
        | Some r \<Rightarrow> ok_json 201 (order_data r))"
      using h items rq(3) False c
      by (auto simp: handle_create_order_def LocalOrderClient_def split: option.splits)
    show ?thesis
    proof (cases x)
      case None
      then have "\<not> ?P" using accept c by simp
      with effect None False resp s1 show ?thesis by auto
    next
      case (Some r)
      then have "?P" using accept c by simp
      with effect Some resp s1 show ?thesis by simp
    qed
  qed
  show ?thesis using read out by blast
qed

theorem post_order_over_http_witness:
  "\<exists>c' s' r. process_read Map.empty (accept_bytes (render_request MethodPost ''/api/orders'' ''shop'' True
        (order_body 1 [\<lparr>oir_book_id = 2, oir_quantity = 3\<rparr>])) (reset_state HttpConn_new))
      \<lparr>nt_user_count = 1, nt_epoll = [], nt_gateway = Some default_gateway\<rparr> =
      Inr (ApiResponse, c', \<lparr>nt_user_count = 1, nt_epoll = [], nt_gateway = Some (default_gateway\<lparr>gw_data := s'\<rparr>)\<rparr>) \<and>
    hc_api_response c' = to_http_string (ok_json 201 (order_data r)) True \<and> app_stock s' = [1 \<mapsto> 12, 2 \<mapsto> 1]"
proof -
  let ?items = "[\<lparr>oir_book_id = 2, oir_quantity = 3\<rparr>]"
  let ?n = "\<lparr>nt_user_count = 1, nt_epoll = [], nt_gateway = Some default_gateway\<rparr>"
  have len: "length (render_request MethodPost ''/api/orders'' ''shop'' True (order_body 1 ?items)) \<le> 2048"
    by (simp add: render_request_def request_line_def method_name_def connection_line_def length_line_def crlf_def
        to_string_def string_of_nat.simps order_body_def item_text_def quoted_def)
  have g: "dp_order_client (gw_dependencies default_gateway) = Some (LocalOrderClient memory_order_service)"
    "gw_data default_gateway = default_app"
    by (simp_all add: default_gateway_def ApiGateway_init_def ensure_clients_def ensure_user_client_def
        ensure_book_client_def ensure_inventory_client_def ensure_order_client_def default_dependencies_def Let_def
        memory_order_service_def OrderService_of_repositories_def)
  have ok: "app_ok default_app" "order_room default_app > 0"
    using default_app_sound by (simp_all add: app_sound_def)
  have P: "orderable (book_cat default_app) ?items" "servable (app_stock default_app) (reservation_items_of ?items)"
    by (simp_all add: orderable_def book_cat_def default_app_def default_books_def servable_def reservation_items_of_def
        demand_def app_stock_def MemoryInventoryRepository_init_def)
  have "deduct (app_stock default_app) (reservation_items_of ?items) = [1 \<mapsto> 12, 2 \<mapsto> 1]"
    by (auto simp: deduct_def demand_def reservation_items_of_def fun_eq_iff)
  then show ?thesis
    using post_order_over_http[of "''shop''" 1 ?items True ?n default_gateway Map.empty HttpConn_new] len g ok P
    by (simp add: host_ok_def int32_def) blast
qed

end
