(* ===== verification/Block_Queue.thy ===== *)
theory Block_Queue
  imports Prelude
begin

text \<open>
  \<^verbatim>\<open>src/log/block_queue.h\<close>, the ring buffer between the request threads and the log writer, and the
  contract \<open>bounded_fifo\<close> that it shares with the work queue of the thread pool.

  Every member function takes the mutex, so it is one atomic step on the record \<open>block_queue\<close>. A call of
  \<^verbatim>\<open>pop\<close> whose wait condition is false blocks: \<open>pop_wait\<close> is \<open>None\<close> then. The elements of the array that were
  never written hold the value \<open>d\<close> of the default constructor of \<^verbatim>\<open>T\<close>.
\<close>

section \<open>The contract of a bounded first-in first-out queue\<close>

datatype 'a queue_call = Put 'a | Take

text \<open>Producers and consumers in some interleaving: what was accepted, and what was handed out, in order.
  A consumer that finds the queue empty gets nothing.\<close>

fun traffic :: "('a \<Rightarrow> 'q \<Rightarrow> bool \<times> 'q) \<Rightarrow> ('q \<Rightarrow> ('a \<times> 'q) option) \<Rightarrow> 'a queue_call list \<Rightarrow> 'q \<Rightarrow>
    'a list \<times> 'a list \<times> 'q" where
  "traffic enq deq [] q = ([], [], q)"
| "traffic enq deq (Put x # cs) q =
     (let (ok, q1) = enq x q; (acc, out, q2) = traffic enq deq cs q1
      in (if ok then x # acc else acc, out, q2))"
| "traffic enq deq (Take # cs) q =
     (case deq q of
        None \<Rightarrow> traffic enq deq cs q
      | Some (x, q1) \<Rightarrow> (let (acc, out, q2) = traffic enq deq cs q1 in (acc, x # out, q2)))"

locale bounded_fifo =
  fixes valid :: "'q \<Rightarrow> bool"
    and content :: "'q \<Rightarrow> 'a list"
    and capacity :: "'q \<Rightarrow> nat"
    and enq :: "'a \<Rightarrow> 'q \<Rightarrow> bool \<times> 'q"
    and deq :: "'q \<Rightarrow> ('a \<times> 'q) option"
  assumes within: "valid q \<Longrightarrow> length (content q) \<le> capacity q"
    and enq_law: "valid q \<Longrightarrow> enq x q = (ok, q') \<Longrightarrow>
      valid q' \<and> capacity q' = capacity q \<and> (ok \<longleftrightarrow> length (content q) < capacity q) \<and>
      content q' = (if ok then content q @ [x] else content q)"
    and deq_empty: "valid q \<Longrightarrow> deq q = None \<longleftrightarrow> content q = []"
    and deq_law: "valid q \<Longrightarrow> deq q = Some (x, q') \<Longrightarrow>
      valid q' \<and> capacity q' = capacity q \<and> content q = x # content q'"
begin

lemma traffic_fifo:
  "valid q \<Longrightarrow> traffic enq deq cs q = (acc, out, q') \<Longrightarrow>
     content q @ acc = out @ content q' \<and> valid q' \<and> capacity q' = capacity q"
proof (induction cs arbitrary: q acc out q')
  case Nil
  then show ?case by simp
next
  case (Cons call cs)
  show ?case
  proof (cases call)
    case (Put x)
    obtain ok q1 where e: "enq x q = (ok, q1)" by force
    obtain acc1 out1 q2 where t: "traffic enq deq cs q1 = (acc1, out1, q2)"
      by (cases "traffic enq deq cs q1") auto
    from Cons.IH[OF _ t] enq_law[OF Cons.prems(1) e] Cons.prems(2) Put e t show ?thesis
      by (auto split: if_splits)
  next
    case Take
    show ?thesis
    proof (cases "deq q")
      case None
      with Cons.IH[OF Cons.prems(1)] Cons.prems(2) Take show ?thesis by simp
    next
      case (Some p)
      obtain x q1 where p: "p = (x, q1)" by force
      obtain acc1 out1 q2 where t: "traffic enq deq cs q1 = (acc1, out1, q2)"
        by (cases "traffic enq deq cs q1") auto
      from Cons.IH[OF _ t] deq_law[OF Cons.prems(1), of x q1] Cons.prems(2) Some p Take t show ?thesis
        by auto
    qed
  qed
qed

text \<open>As many takes as there are elements empty the queue in order.\<close>

lemma takes_drain:
  "valid q \<Longrightarrow> traffic enq deq (replicate (length (content q)) Take) q = (acc, out, q') \<Longrightarrow>
     acc = [] \<and> out = content q \<and> content q' = []"
proof (induction "length (content q)" arbitrary: q acc out q')
  case 0
  then show ?case by simp
next
  case (Suc n)
  have "content q \<noteq> []" using Suc.hyps(2) by auto
  then obtain x q1 where d: "deq q = Some (x, q1)"
    using deq_empty[OF Suc.prems(1)] by (cases "deq q") auto
  note law = deq_law[OF Suc.prems(1) d]
  obtain acc1 out1 q2 where t: "traffic enq deq (replicate (length (content q1)) Take) q1 = (acc1, out1, q2)"
    by (cases "traffic enq deq (replicate (length (content q1)) Take) q1") auto
  have n: "n = length (content q1)"
    using Suc.hyps(2) law by simp
  from Suc.hyps(1)[OF n _ t] law have "acc1 = [] \<and> out1 = content q1 \<and> content q2 = []" by simp
  with Suc.prems(2) d t law show ?case by simp
qed

end

section \<open>The ring buffer\<close>

record 'a block_queue =
  m_array :: "'a list"
  m_size :: int
  m_max_size :: int
  m_front :: int
  m_back :: int
  m_closed :: bool

datatype queue_error = QueueInvalidArgument

definition block_queue_new :: "'a \<Rightarrow> int \<Rightarrow> queue_error + 'a block_queue" where
  "block_queue_new d max_size =
     (if max_size \<le> 0 then Inl QueueInvalidArgument
      else Inr \<lparr>m_array = replicate (nat max_size) d, m_size = 0, m_max_size = max_size,
                m_front = -1, m_back = -1, m_closed = False\<rparr>)"

definition bq_clear :: "'a block_queue \<Rightarrow> 'a block_queue" where
  "bq_clear q = q\<lparr>m_size := 0, m_front := -1, m_back := -1\<rparr>"

definition bq_close :: "'a block_queue \<Rightarrow> 'a block_queue" where
  "bq_close q = q\<lparr>m_closed := True\<rparr>"

definition bq_full :: "'a block_queue \<Rightarrow> bool" where
  "bq_full q \<longleftrightarrow> m_size q \<ge> m_max_size q"

definition bq_empty :: "'a block_queue \<Rightarrow> bool" where
  "bq_empty q \<longleftrightarrow> m_size q = 0"

definition bq_front :: "'a block_queue \<Rightarrow> 'a option" where
  "bq_front q =
     (if m_size q = 0 then None else Some (m_array q ! nat ((m_front q + 1) mod m_max_size q)))"

definition bq_back :: "'a block_queue \<Rightarrow> 'a option" where
  "bq_back q = (if m_size q = 0 then None else Some (m_array q ! nat (m_back q)))"

definition bq_push :: "'a \<Rightarrow> 'a block_queue \<Rightarrow> bool \<times> 'a block_queue" where
  "bq_push item q =
     (if m_size q \<ge> m_max_size q then (False, q)
      else
        (let back = (m_back q + 1) mod m_max_size q in
         (True, q\<lparr>m_back := back, m_array := (m_array q)[nat back := item], m_size := m_size q + 1\<rparr>)))"

text \<open>The part of both versions of \<^verbatim>\<open>pop\<close> behind the wait.\<close>

definition pop_ready :: "'a block_queue \<Rightarrow> bool" where
  "pop_ready q \<longleftrightarrow> m_size q > 0 \<or> m_closed q"

definition pop_item :: "'a block_queue \<Rightarrow> 'a option \<times> 'a block_queue" where
  "pop_item q =
     (if m_closed q \<and> m_size q \<le> 0 then (None, q)
      else
        (let front = (m_front q + 1) mod m_max_size q in
         (Some (m_array q ! nat front), q\<lparr>m_front := front, m_size := m_size q - 1\<rparr>)))"

definition pop_wait :: "'a block_queue \<Rightarrow> ('a option \<times> 'a block_queue) option" where
  "pop_wait q = (if pop_ready q then Some (pop_item q) else None)"

text \<open>\<^verbatim>\<open>pop(item, ms_timeout)\<close> seen when its wait ends: \<^verbatim>\<open>wait_for\<close> returns the value of the condition, which
  is false after a timeout.\<close>

definition pop_timeout :: "'a block_queue \<Rightarrow> 'a option \<times> 'a block_queue" where
  "pop_timeout q = (if pop_ready q then pop_item q else (None, q))"

section \<open>Refinement of the bounded queue\<close>

text \<open>The elements in the order in which they will be popped.\<close>

definition bq_items :: "'a block_queue \<Rightarrow> 'a list" where
  "bq_items q =
     map (\<lambda>i. m_array q ! nat ((m_front q + 1 + int i) mod m_max_size q)) [0..<nat (m_size q)]"

definition bq_ok :: "'a block_queue \<Rightarrow> bool" where
  "bq_ok q \<longleftrightarrow> m_max_size q > 0 \<and> length (m_array q) = nat (m_max_size q) \<and>
     0 \<le> m_size q \<and> m_size q \<le> m_max_size q \<and> -1 \<le> m_front q \<and> m_front q < m_max_size q \<and>
     -1 \<le> m_back q \<and> m_back q < m_max_size q \<and>
     (m_front q + m_size q) mod m_max_size q = m_back q mod m_max_size q \<and> (m_size q > 0 \<longrightarrow> 0 \<le> m_back q)"

definition bq_take :: "'a block_queue \<Rightarrow> ('a \<times> 'a block_queue) option" where
  "bq_take q = (case pop_wait q of Some (Some x, q') \<Rightarrow> Some (x, q') | _ \<Rightarrow> None)"

lemma length_bq_items [simp]: "length (bq_items q) = nat (m_size q)"
  by (simp add: bq_items_def)

lemma bq_items_close [simp]: "bq_items (bq_close q) = bq_items q" "bq_ok (bq_close q) = bq_ok q"
  by (simp_all add: bq_items_def bq_ok_def bq_close_def)

lemma new_ok:
  "block_queue_new d n = Inr q \<Longrightarrow> bq_ok q \<and> bq_items q = [] \<and> m_max_size q = n \<and> 0 < n"
  by (auto simp: block_queue_new_def bq_ok_def bq_items_def split: if_splits)

lemma clear_ok: "bq_ok q \<Longrightarrow> bq_ok (bq_clear q) \<and> bq_items (bq_clear q) = []"
  by (simp add: bq_clear_def bq_ok_def bq_items_def)

text \<open>Different offsets below the capacity are different slots.\<close>

lemma slot_inj:
  fixes a i j m :: int
  assumes "0 < m" "0 \<le> i" "i < m" "0 \<le> j" "j < m" "(a + i) mod m = (a + j) mod m"
  shows "i = j"
proof -
  have "i mod m = j mod m"
    using assms(6) by (simp add: mod_eq_dvd_iff)
  with assms show ?thesis by simp
qed

lemma push_items:
  assumes "bq_ok q" "m_size q < m_max_size q"
  shows "bq_items (snd (bq_push x q)) = bq_items q @ [x]" and "bq_ok (snd (bq_push x q))"
proof -
  let ?m = "m_max_size q" and ?b = "(m_back q + 1) mod m_max_size q"
  have m: "0 < ?m" and n: "0 \<le> m_size q" "nat (m_size q + 1) = Suc (nat (m_size q))"
    using assms by (auto simp: bq_ok_def)
  have b: "?b = (m_front q + 1 + m_size q) mod ?m"
  proof -
    have "?b = (m_back q mod ?m + 1) mod ?m" by (simp add: mod_add_left_eq)
    also have "\<dots> = ((m_front q + m_size q) mod ?m + 1) mod ?m"
      using assms(1) by (simp add: bq_ok_def)
    also have "\<dots> = (m_front q + 1 + m_size q) mod ?m"
      using mod_add_left_eq[of "m_front q + m_size q" ?m 1] by (simp add: ac_simps)
    finally show ?thesis .
  qed
  have range: "0 \<le> ?b" "?b < ?m" using m by simp_all
  have g: "-1 \<le> ?b" using range by linarith
  have other: "(m_array q)[nat ?b := x] ! nat ((m_front q + 1 + int i) mod ?m) =
      m_array q ! nat ((m_front q + 1 + int i) mod ?m)" if "i < nat (m_size q)" for i
  proof -
    have "(m_front q + 1 + int i) mod ?m \<noteq> (m_front q + 1 + m_size q) mod ?m"
      using slot_inj[of ?m "int i" "m_size q" "m_front q + 1"] zless_nat_eq_int_zless[of i "m_size q"] that assms m n(1)
      by linarith
    then have "nat ?b \<noteq> nat ((m_front q + 1 + int i) mod ?m)"
      using m by (simp add: b nat_eq_iff)
    then show ?thesis by simp
  qed
  have last: "(m_array q)[nat ?b := x] ! nat ((m_front q + 1 + int (nat (m_size q))) mod ?m) = x"
    using range n(1) assms(1) by (simp add: b[symmetric] bq_ok_def)
  show "bq_items (snd (bq_push x q)) = bq_items q @ [x]"
    using assms(2) other last n by (simp add: bq_push_def Let_def bq_items_def)
  have "(m_front q + (m_size q + 1)) mod ?m = ?b mod ?m"
    unfolding b by (simp add: algebra_simps)
  then show "bq_ok (snd (bq_push x q))"
    using assms range by (simp add: g bq_push_def Let_def bq_ok_def)
qed

lemma pop_items:
  assumes "bq_ok q" "m_size q > 0"
  shows "pop_item q = (Some (hd (bq_items q)), snd (pop_item q))"
    and "bq_items (snd (pop_item q)) = tl (bq_items q)" and "bq_ok (snd (pop_item q))"
    and "m_max_size (snd (pop_item q)) = m_max_size q"
proof -
  let ?m = "m_max_size q" and ?f = "(m_front q + 1) mod m_max_size q"
  have m: "0 < ?m" using assms by (simp add: bq_ok_def)
  obtain n where n: "nat (m_size q) = Suc n" "nat (m_size q - 1) = n"
    using assms(2) by (cases "nat (m_size q)") auto
  have items: "bq_items q = (m_array q ! nat ?f) #
      map (\<lambda>i. m_array q ! nat ((m_front q + 1 + int (Suc i)) mod ?m)) [0..<n]"
    unfolding bq_items_def n(1) upt_conv_Cons[OF zero_less_Suc] map_Suc_upt[symmetric] by (simp add: o_def)
  have shift: "(?f + 1 + int i) mod ?m = (m_front q + 1 + int (Suc i)) mod ?m" for i
    using mod_add_left_eq[of "m_front q + 1" ?m "1 + int i"] by (simp add: ac_simps)
  show "pop_item q = (Some (hd (bq_items q)), snd (pop_item q))"
    using assms(2) items by (simp add: pop_item_def Let_def)
  show "bq_items (snd (pop_item q)) = tl (bq_items q)"
    unfolding items using assms(2) by (simp add: pop_item_def Let_def bq_items_def n(2) shift)
  have f: "0 \<le> ?f" "?f < ?m" using m by simp_all
  have g: "-1 \<le> ?f" using f by linarith
  have "(?f + (m_size q - 1)) mod ?m = (m_front q + m_size q) mod ?m"
    using mod_add_left_eq[of "m_front q + 1" ?m "m_size q - 1"] by simp
  then show "bq_ok (snd (pop_item q))"
    using assms f by (simp add: g pop_item_def Let_def bq_ok_def)
  show "m_max_size (snd (pop_item q)) = ?m"
    using assms(2) by (simp add: pop_item_def Let_def)
qed

lemma bq_take_cases:
  assumes "bq_ok q"
  shows "bq_take q = (if bq_items q = [] then None else Some (hd (bq_items q), snd (pop_item q)))"
proof (cases "m_size q > 0")
  case True
  then have "bq_items q \<noteq> []" by (metis length_bq_items list.size(3) nat_0_iff not_le)
  moreover from True have "pop_wait q = Some (Some (hd (bq_items q)), snd (pop_item q))"
    using pop_items(1)[OF assms True] by (simp add: pop_wait_def pop_ready_def)
  ultimately show ?thesis by (simp add: bq_take_def)
next
  case False
  then have "bq_items q = []" by (simp add: bq_items_def)
  with False show ?thesis by (simp add: bq_take_def pop_wait_def pop_ready_def pop_item_def)
qed

lemma bq_push_capacity: "m_max_size (snd (bq_push x q)) = m_max_size q"
  by (simp add: bq_push_def Let_def)

interpretation log_queue: bounded_fifo bq_ok bq_items "\<lambda>q. nat (m_max_size q)" bq_push bq_take
proof
  fix q :: "'a block_queue"
  assume q: "bq_ok q"
  then show "length (bq_items q) \<le> nat (m_max_size q)" by (auto simp: bq_ok_def)
  show "bq_take q = None \<longleftrightarrow> bq_items q = []" by (simp add: bq_take_cases[OF q])
next
  fix q q' :: "'a block_queue" and x ok
  assume q: "bq_ok q" and p: "bq_push x q = (ok, q')"
  show "bq_ok q' \<and> nat (m_max_size q') = nat (m_max_size q) \<and> ok = (length (bq_items q) < nat (m_max_size q)) \<and>
      bq_items q' = (if ok then bq_items q @ [x] else bq_items q)"
  proof (cases "m_size q < m_max_size q")
    case True
    with q p push_items[OF q True, of x] bq_push_capacity[of x q] show ?thesis
      by (auto simp: bq_push_def Let_def bq_ok_def)
  next
    case False
    with q p show ?thesis by (auto simp: bq_push_def bq_ok_def)
  qed
next
  fix q q' :: "'a block_queue" and x
  assume q: "bq_ok q" and t: "bq_take q = Some (x, q')"
  then have ne: "bq_items q \<noteq> []" by (auto simp: bq_take_cases split: if_splits)
  then have "m_size q > 0" by (simp add: bq_items_def split: if_splits)
  from pop_items[OF q this] t ne show "bq_ok q' \<and> nat (m_max_size q') = nat (m_max_size q) \<and> bq_items q = x # bq_items q'"
    by (auto simp: bq_take_cases[OF q])
qed

lemma front_back_items:
  assumes "bq_ok q"
  shows "bq_front q = (if bq_items q = [] then None else Some (hd (bq_items q)))"
    and "bq_back q = (if bq_items q = [] then None else Some (last (bq_items q)))"
proof -
  have e: "bq_items q = [] \<longleftrightarrow> m_size q = 0"
    using assms by (auto simp: bq_items_def bq_ok_def)
  show "bq_front q = (if bq_items q = [] then None else Some (hd (bq_items q)))"
    using pop_items(1)[OF assms] assms by (auto simp: bq_front_def e pop_item_def Let_def bq_ok_def)
  show "bq_back q = (if bq_items q = [] then None else Some (last (bq_items q)))"
  proof (cases "m_size q = 0")
    case False
    then have n: "0 < m_size q" "int (nat (m_size q) - Suc 0) = m_size q - 1"
      using assms by (auto simp: bq_ok_def)
    have "(m_front q + m_size q) mod m_max_size q = m_back q"
      using assms n by (simp add: bq_ok_def)
    with n show ?thesis
      by (simp add: bq_back_def e last_map bq_items_def)
  qed (simp add: bq_back_def e)
qed

text \<open>A closed queue stays closed.\<close>

lemma traffic_closed:
  "traffic bq_push bq_take cs q = (acc, out, q') \<Longrightarrow> m_closed q' = m_closed q"
proof (induction "bq_push :: 'a \<Rightarrow> _" "bq_take :: 'a block_queue \<Rightarrow> _" cs q arbitrary: acc out rule: traffic.induct)
  case (2 x cs q)
  obtain ok q1 where e: "bq_push x q = (ok, q1)" by force
  then have "m_closed q1 = m_closed q"
    by (auto simp: bq_push_def Let_def split: if_splits)
  with 2 e show ?case by (auto split: prod.splits)
next
  case (3 cs q)
  have "m_closed r = m_closed q" if "bq_take q = Some (x, r)" for x r
    using that by (auto simp: bq_take_def pop_wait_def pop_item_def Let_def split: if_splits option.splits)
  with 3 show ?case by (auto split: prod.splits option.splits)
qed simp

section \<open>Properties\<close>

text \<open>C29: The ring buffer of the log refines a bounded first-in first-out queue. From a fresh queue of
  positive capacity, in any interleaving of pushes and pops, the accepted elements are the popped ones
  followed by those still in the queue, in order; a push is accepted exactly when fewer than
  \<open>max_size\<close> elements are in it, and \<open>front\<close> and \<open>back\<close> show its two ends.\<close>

theorem block_queue_fifo:
  assumes "block_queue_new d n = Inr q" "traffic bq_push bq_take calls q = (accepted, taken, q')"
  shows "accepted = taken @ bq_items q' \<and> int (length (bq_items q')) \<le> n \<and>
    fst (bq_push x q') = (int (length (bq_items q')) < n) \<and>
    bq_items (snd (bq_push x q')) = (if fst (bq_push x q') then bq_items q' @ [x] else bq_items q') \<and>
    bq_front q' = (if bq_items q' = [] then None else Some (hd (bq_items q'))) \<and>
    bq_back q' = (if bq_items q' = [] then None else Some (last (bq_items q')))"
proof -
  have q: "bq_ok q" "bq_items q = []" "m_max_size q = n" "0 < n"
    using new_ok[OF assms(1)] by simp_all
  have t: "accepted = taken @ bq_items q'" "bq_ok q'" "nat (m_max_size q') = nat n"
    using log_queue.traffic_fifo[OF q(1) assms(2)] q by simp_all
  have "length (bq_items q') \<le> nat n"
    using log_queue.within[OF t(2)] t(3) by simp
  with t q(4) log_queue.enq_law[OF t(2), of x "fst (bq_push x q')" "snd (bq_push x q')"]
    front_back_items[OF t(2)] show ?thesis by auto
qed

theorem block_queue_fifo_witness:
  "\<exists>q accepted taken q'. block_queue_new (0 :: int) 2 = Inr q \<and>
     traffic bq_push bq_take [Put 1, Put 2, Put 3, Take, Put 4, Take, Take, Take] q = (accepted, taken, q') \<and>
     accepted = taken @ bq_items q' \<and> taken = [1, 2, 4]"
proof -
  let ?q = "\<lparr>m_array = [0, 0], m_size = 0, m_max_size = 2, m_front = -1, m_back = -1, m_closed = False\<rparr> :: int block_queue"
  have n: "block_queue_new 0 2 = Inr ?q"
    by (simp add: block_queue_new_def numeral_2_eq_2)
  obtain acc out q' where t: "traffic bq_push bq_take [Put 1, Put 2, Put 3, Take, Put 4, Take, Take, Take] ?q = (acc, out, q')"
    by (cases "traffic bq_push bq_take [Put 1, Put 2, Put 3, Take, Put 4, Take, Take, Take] ?q") auto
  have "out = [1, 2, 4]"
    using t by (auto simp: bq_push_def bq_take_def pop_wait_def pop_ready_def pop_item_def Let_def split: if_splits)
  with block_queue_fifo[OF n t, of 0] n t show ?thesis by blast
qed

text \<open>C30: Closing the queue loses nothing and never leaves a consumer blocked: after \<open>close\<close> every \<open>pop\<close>
  returns at once, the next pops deliver all elements that were in the queue in order, and the pop after
  them reports the end.\<close>

theorem close_drains:
  assumes "bq_ok q" "traffic bq_push bq_take (replicate (length (bq_items q)) Take) (bq_close q) = (acc, out, q')"
  shows "out = bq_items q \<and> pop_wait (bq_close q) \<noteq> None \<and> pop_wait q' = Some (None, q')"
proof -
  have "bq_ok (bq_close q)" using assms(1) by simp
  with log_queue.takes_drain[of "bq_close q" acc out q'] assms
  have d: "out = bq_items q" "bq_items q' = []" by simp_all
  have "m_size q' \<le> 0"
    using d(2) by (simp add: bq_items_def split: if_splits)
  moreover have "m_closed q'"
    using traffic_closed[OF assms(2)] by (simp add: bq_close_def)
  ultimately show ?thesis
    using d by (simp add: pop_wait_def pop_ready_def bq_close_def pop_item_def)
qed

theorem close_drains_witness:
  "\<exists>q acc out q'. bq_ok q \<and> bq_items q = [7, 8 :: int] \<and>
     traffic bq_push bq_take (replicate (length (bq_items q)) Take) (bq_close q) = (acc, out, q') \<and>
     out = [7, 8] \<and> pop_wait q' = Some (None, q')"
proof -
  let ?q = "\<lparr>m_array = [8, 0, 7], m_size = 2, m_max_size = 3, m_front = 1, m_back = 0, m_closed = False\<rparr> :: int block_queue"
  have q: "bq_ok ?q" "bq_items ?q = [7, 8]"
    by (simp_all add: bq_ok_def bq_items_def upt_rec[of 0 2] upt_rec[of "Suc 0" 2])
  obtain acc out q' where t: "traffic bq_push bq_take (replicate (length (bq_items ?q)) Take) (bq_close ?q) = (acc, out, q')"
    by (cases "traffic bq_push bq_take (replicate (length (bq_items ?q)) Take) (bq_close ?q)") auto
  have "out = [7, 8] \<and> pop_wait q' = Some (None, q')"
    using close_drains[OF q(1) t] q(2) by simp
  with q t show ?thesis by blast
qed

end
