(* ===== verification/Log.thy ===== *)
theory Log
  imports Block_Queue "HOL-Library.Signed_Division"
begin

text \<open>
  \<^verbatim>\<open>src/log/log.h\<close> and \<^verbatim>\<open>src/log/log.cpp\<close>: the log with its rotation, and the writer thread of the
  asynchronous mode. The files are a map from names to contents; \<open>opens name\<close> says whether \<^verbatim>\<open>fopen\<close> in append
  mode succeeds. The clock is an argument, and so is \<open>text\<close>, what \<^verbatim>\<open>vsnprintf\<close> makes of the format and its
  arguments. Closing a file that is not open is undefined, as are a line limit of 0 and a line buffer too small for
  the prefix of a line: the operation is \<open>None\<close> then.
\<close>

section \<open>State\<close>

record clock =
  ck_year :: int
  ck_mon :: int
  ck_mday :: int
  ck_hour :: int
  ck_min :: int
  ck_sec :: int
  ck_usec :: int

record Log =
  lg_dir_name :: string
  lg_log_name :: string
  lg_split_lines :: int
  lg_log_buf_size :: int
  lg_count :: int
  lg_today :: int
  lg_fp :: "string option"
  lg_queue :: "string block_queue option"
  lg_close_log :: int
  lg_files :: "string \<Rightarrow> string"

definition Log_new :: "(string \<Rightarrow> string) \<Rightarrow> Log" where
  "Log_new files =
     \<lparr>lg_dir_name = [], lg_log_name = [], lg_split_lines = 0, lg_log_buf_size = 0, lg_count = 0, lg_today = 0,
      lg_fp = None, lg_queue = None, lg_close_log = 0, lg_files = files\<rparr>"

section \<open>Opening\<close>

text \<open>\<^verbatim>\<open>%02d\<close> and \<^verbatim>\<open>%06ld\<close> for a number that is not negative\<close>

definition padded :: "nat \<Rightarrow> int \<Rightarrow> string" where
  "padded n i = replicate (n - length (to_string i)) (CHR ''0'') @ to_string i"

text \<open>\<^verbatim>\<open>"%d_%02d_%02d_"\<close>\<close>

definition date_tag :: "clock \<Rightarrow> string" where
  "date_tag c = to_string (ck_year c) @ ''_'' @ padded 2 (ck_mon c) @ ''_'' @ padded 2 (ck_mday c) @ ''_''"

text \<open>The position of the last slash.\<close>

definition last_slash :: "string \<Rightarrow> nat option" where
  "last_slash s = map_option (\<lambda>i. length s - 1 - i) (find_if ((=) (CHR ''/'')) (rev s))"

definition Log_init :: "(string \<Rightarrow> bool) \<Rightarrow> clock \<Rightarrow> string \<Rightarrow> int \<Rightarrow> int \<Rightarrow> int \<Rightarrow> int \<Rightarrow> Log \<Rightarrow> bool \<times> Log" where
  "Log_init opens now file_name close_log log_buf_size split_lines max_queue_size lg =
     (let queue = (if max_queue_size \<ge> 1
                   then (case block_queue_new [] max_queue_size of Inr q \<Rightarrow> Some q | Inl e \<Rightarrow> lg_queue lg)
                   else lg_queue lg);
          lg1 = lg\<lparr>lg_queue := queue, lg_close_log := close_log, lg_log_buf_size := log_buf_size,
                  lg_split_lines := split_lines\<rparr>;
          (lg2, full_name) =
            (case last_slash file_name of
               None \<Rightarrow> (lg1, take 254 (date_tag now @ file_name))
             | Some p \<Rightarrow>
                 (lg1\<lparr>lg_log_name := drop (p + 1) file_name, lg_dir_name := take (p + 1) file_name\<rparr>,
                  take 254 (take (p + 1) file_name @ date_tag now @ drop (p + 1) file_name)));
          fp = (if opens full_name then Some full_name else None)
      in (fp \<noteq> None, lg2\<lparr>lg_today := ck_mday now, lg_fp := fp\<rparr>))"

section \<open>Writing\<close>

definition level_tag :: "int \<Rightarrow> string" where
  "level_tag level =
     (if level = 0 then ''[debug]:'' else if level = 2 then ''[warn]:'' else if level = 3 then ''[erro]:''
      else ''[info]:'')"

text \<open>The prefix of a line, of which at most 47 bytes are stored.\<close>

definition line_prefix :: "int \<Rightarrow> clock \<Rightarrow> string" where
  "line_prefix level now =
     to_string (ck_year now) @ ''-'' @ padded 2 (ck_mon now) @ ''-'' @ padded 2 (ck_mday now) @ '' '' @
     padded 2 (ck_hour now) @ '':'' @ padded 2 (ck_min now) @ '':'' @ padded 2 (ck_sec now) @ ''.'' @
     padded 6 (ck_usec now) @ '' '' @ level_tag level @ '' ''"

text \<open>The bytes of the line buffer up to the first NUL, the text cut to the room that is left.\<close>

definition log_line :: "int \<Rightarrow> clock \<Rightarrow> string \<Rightarrow> int \<Rightarrow> string option" where
  "log_line level now text log_buf_size =
     (let prefix = line_prefix level now; n = length prefix in
      if n > 47 \<or> log_buf_size < int n + 2 then None
      else Some (c_str (prefix @ take (nat (log_buf_size - int n - 2)) text @ [LF])))"

text \<open>\<^verbatim>\<open>fputs\<close> on the open file\<close>

definition append_line :: "string \<Rightarrow> Log \<Rightarrow> Log" where
  "append_line line lg =
     (case lg_fp lg of
        None \<Rightarrow> lg
      | Some name \<Rightarrow> lg\<lparr>lg_files := (lg_files lg)(name := lg_files lg name @ line)\<rparr>)"

definition rotate_due :: "clock \<Rightarrow> Log \<Rightarrow> bool" where
  "rotate_due now lg \<longleftrightarrow> lg_today lg \<noteq> ck_mday now \<or> lg_count lg mod lg_split_lines lg = 0"

definition rotate :: "(string \<Rightarrow> bool) \<Rightarrow> clock \<Rightarrow> Log \<Rightarrow> Log option" where
  "rotate opens now lg =
     (if lg_fp lg = None then None
      else
        (let tail = take 15 (date_tag now);
             (lg1, new_log) =
               (if lg_today lg \<noteq> ck_mday now
                then (lg\<lparr>lg_today := ck_mday now, lg_count := 0\<rparr>, take 254 (lg_dir_name lg @ tail @ lg_log_name lg))
                else (lg, take 254 (lg_dir_name lg @ tail @ lg_log_name lg @ ''.'' @
                                    to_string (lg_count lg sdiv lg_split_lines lg))))
         in Some (lg1\<lparr>lg_fp := (if opens new_log then Some new_log else None)\<rparr>)))"

definition write_log :: "(string \<Rightarrow> bool) \<Rightarrow> int \<Rightarrow> string \<Rightarrow> clock \<Rightarrow> Log \<Rightarrow> Log option" where
  "write_log opens level text now lg =
     (if lg_close_log lg \<noteq> 0 then Some lg
      else
        (let lg1 = lg\<lparr>lg_count := lg_count lg + 1\<rparr> in
         case (if lg_today lg1 = ck_mday now \<and> lg_split_lines lg1 = 0 then None
               else if rotate_due now lg1 then rotate opens now lg1 else Some lg1) of
           None \<Rightarrow> None
         | Some lg2 \<Rightarrow>
             (case log_line level now text (lg_log_buf_size lg2) of
                None \<Rightarrow> None
              | Some line \<Rightarrow>
                  Some (case lg_queue lg2 of
                          None \<Rightarrow> append_line line lg2
                        | Some q \<Rightarrow> if bq_full q then lg2 else lg2\<lparr>lg_queue := Some (snd (bq_push line q))\<rparr>))))"

text \<open>One turn of the loop of \<^verbatim>\<open>async_write_log\<close>: \<open>None\<close> where the writer waits, the flag says whether it goes on.\<close>

definition async_write_log :: "Log \<Rightarrow> (bool \<times> Log) option" where
  "async_write_log lg =
     (case lg_queue lg of
        None \<Rightarrow> None
      | Some q \<Rightarrow>
          (case pop_wait q of
             None \<Rightarrow> None
           | Some (None, q') \<Rightarrow> Some (False, lg\<lparr>lg_queue := Some q'\<rparr>)
           | Some (Some line, q') \<Rightarrow> Some (True, append_line line (lg\<lparr>lg_queue := Some q'\<rparr>))))"

text \<open>\<^verbatim>\<open>~Log\<close> closes the queue and waits for the writer; \<open>None\<close> if it does not end within the fuel.\<close>

fun writer_loop :: "nat \<Rightarrow> Log \<Rightarrow> Log option" where
  "writer_loop 0 lg = None"
| "writer_loop (Suc fuel) lg =
     (case async_write_log lg of
        None \<Rightarrow> None
      | Some (False, lg') \<Rightarrow> Some lg'
      | Some (True, lg') \<Rightarrow> writer_loop fuel lg')"

definition close_queue :: "Log \<Rightarrow> Log" where
  "close_queue lg = lg\<lparr>lg_queue := map_option bq_close (lg_queue lg)\<rparr>"

section \<open>Lemmas\<close>

lemma append_line_queue [simp]: "lg_queue (append_line line lg) = lg_queue lg" "lg_fp (append_line line lg) = lg_fp lg"
  by (simp_all add: append_line_def split: option.splits)

lemma pop_item_closed: "m_closed (snd (pop_item q)) = m_closed q"
  by (simp add: pop_item_def Let_def)

lemma writer_drains:
  "lg_queue lg = Some q \<Longrightarrow> bq_ok q \<Longrightarrow> m_closed q \<Longrightarrow> lg_fp lg = Some name \<Longrightarrow> fuel > length (bq_items q) \<Longrightarrow>
     \<exists>lg' q'. writer_loop fuel lg = Some lg' \<and> lg_queue lg' = Some q' \<and> bq_items q' = [] \<and>
       lg_files lg' = (lg_files lg)(name := lg_files lg name @ concat (bq_items q))"
proof (induction fuel arbitrary: lg q)
  case (Suc fuel)
  show ?case
  proof (cases "m_size q > 0")
    case True
    let ?q = "snd (pop_item q)" and ?line = "hd (bq_items q)"
    note p = pop_items[OF Suc.prems(2) True]
    have ne: "bq_items q \<noteq> []" using True by (metis length_bq_items list.size(3) not_le nat_0_iff)
    define lg1 where "lg1 = append_line ?line (lg\<lparr>lg_queue := Some ?q\<rparr>)"
    have "pop_wait q = Some (Some ?line, ?q)"
      using True p(1) by (simp add: pop_wait_def pop_ready_def)
    then have w: "async_write_log lg = Some (True, lg1)"
      using Suc.prems(1) by (simp add: async_write_log_def lg1_def)
    have c: "m_closed ?q" using Suc.prems(3) by (simp add: pop_item_closed)
    have l: "length (bq_items ?q) < fuel" using Suc.prems(5) ne unfolding p(2) by (cases "bq_items q") auto
    obtain lg' q' where r: "writer_loop fuel lg1 = Some lg'" "lg_queue lg' = Some q'" "bq_items q' = []"
      "lg_files lg' = (lg_files lg1)(name := lg_files lg1 name @ concat (bq_items ?q))"
    proof -
      have "lg_queue lg1 = Some ?q" "lg_fp lg1 = Some name" using Suc.prems(4) by (simp_all add: lg1_def)
      from Suc.IH[OF this(1) p(3) c this(2) l] show ?thesis using that by blast
    qed
    have "lg_files lg1 = (lg_files lg)(name := lg_files lg name @ ?line)"
      using Suc.prems(4) by (simp add: lg1_def append_line_def)
    moreover have "concat (bq_items q) = ?line @ concat (bq_items ?q)"
      unfolding p(2) using ne by (cases "bq_items q") simp_all
    ultimately show ?thesis using w r by (auto simp: fun_eq_iff)
  next
    case False
    then have "async_write_log lg = Some (False, lg\<lparr>lg_queue := Some q\<rparr>)" "bq_items q = []"
      using Suc.prems by (simp_all add: async_write_log_def pop_wait_def pop_ready_def pop_item_def bq_items_def)
    then show ?thesis by simp
  qed
qed simp

section \<open>Properties\<close>

text \<open>C31: A call of the synchronous log writes one line and loses nothing, rotation included: exactly one file
  changes, it gains exactly the line, it is the file that was open unless a day or a full file made the log
  rotate, and the log is ready for the next call.\<close>

theorem sync_log_appends:
  assumes "lg_close_log lg = 0" "lg_queue lg = None" "lg_fp lg \<noteq> None" "\<forall>name. opens name"
    and "lg_split_lines lg \<noteq> 0"
    and "log_line level now text (lg_log_buf_size lg) = Some line"
  shows "\<exists>lg' name. write_log opens level text now lg = Some lg' \<and> lg_fp lg' = Some name \<and>
    lg_files lg' = (lg_files lg)(name := lg_files lg name @ line) \<and>
    (lg_today lg = ck_mday now \<and> (lg_count lg + 1) mod lg_split_lines lg \<noteq> 0 \<longrightarrow> lg_fp lg = Some name) \<and>
    lg_today lg' = ck_mday now \<and> lg_queue lg' = None \<and> lg_log_buf_size lg' = lg_log_buf_size lg"
  using assms
  by (cases "rotate_due now (lg\<lparr>lg_count := lg_count lg + 1\<rparr>)")
    (auto simp: write_log_def Let_def rotate_def append_line_def rotate_due_def split: if_splits)

text \<open>The asynchronous log is flushed at shutdown: when the queue is closed with a writer and an open file, the writer
  ends, and the file has gained exactly the queued lines, in order.\<close>

theorem async_log_flushed:
  assumes "lg_queue lg = Some q" "bq_ok q" "lg_fp lg = Some name" "length (bq_items q) < fuel"
  shows "\<exists>lg' q'. writer_loop fuel (close_queue lg) = Some lg' \<and> lg_queue lg' = Some q' \<and> bq_items q' = [] \<and>
    lg_files lg' = (lg_files lg)(name := lg_files lg name @ concat (bq_items q))"
  using writer_drains[of "close_queue lg" "bq_close q" name fuel] assms
  by (simp add: close_queue_def bq_close_def[of q, THEN arg_cong[where f = m_closed], simplified])

definition sample_log :: "string block_queue option \<Rightarrow> Log" where
  "sample_log q = \<lparr>lg_dir_name = ''./'', lg_log_name = ''Log'', lg_split_lines = 2, lg_log_buf_size = 64, lg_count = 1,
     lg_today = 3, lg_fp = Some ''./a'', lg_queue = q, lg_close_log = 0, lg_files = (\<lambda>_. [])\<rparr>"

theorem sync_log_appends_witness:
  "\<exists>lg' name line. write_log (\<lambda>_. True) 1 ''hello''
      \<lparr>ck_year = 2026, ck_mon = 5, ck_mday = 3, ck_hour = 7, ck_min = 8, ck_sec = 9, ck_usec = 10\<rparr> (sample_log None) = Some lg' \<and>
     lg_files lg' name = line \<and> line = ''2026-05-03 07:08:09.000010 [info]: hello'' @ [LF]"
proof -
  let ?now = "\<lparr>ck_year = 2026, ck_mon = 5, ck_mday = 3, ck_hour = 7, ck_min = 8, ck_sec = 9, ck_usec = 10\<rparr>"
  have "log_line 1 ?now ''hello'' (lg_log_buf_size (sample_log None)) =
      Some (''2026-05-03 07:08:09.000010 [info]: hello'' @ [LF])"
    by code_simp
  from sync_log_appends[OF _ _ _ _ _ this, of "\<lambda>_. True"] show ?thesis
    by (auto simp: sample_log_def)
qed

theorem async_log_flushed_witness:
  "\<exists>q lg'. lg_queue (sample_log (Some q)) = Some q \<and> bq_items q = [''a'', ''b''] \<and>
     writer_loop 3 (close_queue (sample_log (Some q))) = Some lg' \<and> lg_files lg' ''./a'' = ''ab''"
proof -
  let ?q = "\<lparr>m_array = [''b'', [], ''a''], m_size = 2, m_max_size = 3, m_front = 1, m_back = 0, m_closed = False\<rparr> :: string block_queue"
  have q: "bq_ok ?q" "bq_items ?q = [''a'', ''b'']"
    by (simp_all add: bq_ok_def bq_items_def upt_rec[of 0 2] upt_rec[of "Suc 0" 2])
  have "\<exists>lg' q'. writer_loop 3 (close_queue (sample_log (Some ?q))) = Some lg' \<and> lg_queue lg' = Some q' \<and> bq_items q' = [] \<and>
      lg_files lg' = (lg_files (sample_log (Some ?q)))(''./a'' := lg_files (sample_log (Some ?q)) ''./a'' @ concat (bq_items ?q))"
    by (rule async_log_flushed[OF _ q(1)]) (simp_all add: sample_log_def)
  with q(2) show ?thesis by (intro exI[of _ ?q]) (auto simp: sample_log_def)
qed

end
