(* ===== verification/Conn_Pool.thy ===== *)
theory Conn_Pool
  imports Prelude "HOL-Library.Multiset"
begin

text \<open>
  \<^verbatim>\<open>src/db/sql_connection_pool.h\<close> and \<^verbatim>\<open>src/db/sql_connection_pool.cpp\<close>. A connection is an opaque handle of
  type \<open>'c\<close> (the \<^verbatim>\<open>MYSQL*\<close>); opening one (\<^verbatim>\<open>mysql_init\<close>, \<^verbatim>\<open>mysql_options\<close>, \<^verbatim>\<open>mysql_real_connect\<close> and the
  \<^verbatim>\<open>SET NAMES\<close> query) is the argument \<open>connect\<close>, \<open>None\<close> for a failure, after which the program exits.
  Every member function holds the lock, so it is one atomic step; \<open>GetConnection\<close> is \<open>None\<close> where the
  condition variable would go on waiting.
\<close>

section \<open>The contract of a lender\<close>

text \<open>What code that borrows a connection for a scope relies on.\<close>

locale lender =
  fixes valid :: "'p \<Rightarrow> bool"
    and free :: "'p \<Rightarrow> 'c multiset"
    and acquire :: "'p \<Rightarrow> ('c option \<times> 'p) option"
    and release :: "'c option \<Rightarrow> 'p \<Rightarrow> bool \<times> 'p"
  assumes acquire_law: "valid p \<Longrightarrow> acquire p = Some (c, p') \<Longrightarrow>
      \<exists>x. c = Some x \<and> valid p' \<and> free p = add_mset x (free p')"
    and acquire_waits: "valid p \<Longrightarrow> acquire p = None \<longleftrightarrow> free p = {#}"
    and release_law: "valid p \<Longrightarrow> release (Some x) p = (ok, p') \<Longrightarrow>
      ok \<and> valid p' \<and> free p' = add_mset x (free p)"
begin

text \<open>Borrowing and returning gives the pool its connections back.\<close>

lemma borrow_return:
  assumes "valid p" "acquire p = Some (c, p')"
  shows "\<exists>x. c = Some x \<and> fst (release c p') \<and> free (snd (release c p')) = free p \<and> valid (snd (release c p'))"
proof -
  obtain x where x: "c = Some x" "valid p'" "free p = add_mset x (free p')"
    using acquire_law[OF assms] by blast
  obtain ok q where "release (Some x) p' = (ok, q)" by force
  with x release_law[OF x(2), of x ok q] show ?thesis by auto
qed

end

section \<open>The pool\<close>

record 'c connection_pool =
  m_url :: string
  m_Port :: string
  m_User :: string
  m_PassWord :: string
  m_DatabaseName :: string
  m_close_log :: int
  m_MaxConn :: int
  m_CurConn :: int
  m_FreeConn :: int
  m_shutdown :: bool
  connList :: "'c list"

datatype pool_exit = ConnectFailed

definition connection_pool_new :: "'c connection_pool" where
  "connection_pool_new =
     \<lparr>m_url = [], m_Port = [], m_User = [], m_PassWord = [], m_DatabaseName = [], m_close_log = 0,
      m_MaxConn = 0, m_CurConn = 0, m_FreeConn = 0, m_shutdown = False, connList = []\<rparr>"

text \<open>The loop of \<^verbatim>\<open>init\<close>: the results of the \<^verbatim>\<open>MaxConn\<close> attempts, in order.\<close>

fun connect_loop :: "'c option list \<Rightarrow> 'c connection_pool \<Rightarrow> pool_exit + 'c connection_pool" where
  "connect_loop [] p = Inr p"
| "connect_loop (None # rs) p = Inl ConnectFailed"
| "connect_loop (Some con # rs) p =
     connect_loop rs (p\<lparr>connList := connList p @ [con], m_FreeConn := m_FreeConn p + 1\<rparr>)"

definition connection_pool_init ::
  "(nat \<Rightarrow> 'c option) \<Rightarrow> string \<Rightarrow> string \<Rightarrow> string \<Rightarrow> string \<Rightarrow> int \<Rightarrow> int \<Rightarrow> int \<Rightarrow> 'c connection_pool \<Rightarrow>
     pool_exit + 'c connection_pool" where
  "connection_pool_init connect url User PassWord DBName Port MaxConn close_log p =
     (case connect_loop (map connect [0..<nat MaxConn])
             (p\<lparr>m_url := url, m_Port := to_string Port, m_User := User, m_PassWord := PassWord,
                m_DatabaseName := DBName, m_close_log := close_log\<rparr>) of
        Inl e \<Rightarrow> Inl e
      | Inr p' \<Rightarrow> Inr (p'\<lparr>m_MaxConn := m_FreeConn p'\<rparr>))"

definition GetConnection :: "'c connection_pool \<Rightarrow> ('c option \<times> 'c connection_pool) option" where
  "GetConnection p =
     (if connList p = [] \<and> \<not> m_shutdown p then None
      else if m_shutdown p then Some (None, p)
      else Some (Some (hd (connList p)),
                 p\<lparr>connList := tl (connList p), m_FreeConn := m_FreeConn p - 1, m_CurConn := m_CurConn p + 1\<rparr>))"

definition ReleaseConnection :: "'c option \<Rightarrow> 'c connection_pool \<Rightarrow> bool \<times> 'c connection_pool" where
  "ReleaseConnection con p =
     (case con of
        None \<Rightarrow> (False, p)
      | Some c \<Rightarrow>
          (True, p\<lparr>connList := connList p @ [c], m_FreeConn := m_FreeConn p + 1, m_CurConn := m_CurConn p - 1\<rparr>))"

text \<open>The closed connections and the new state.\<close>

definition DestroyPool :: "'c connection_pool \<Rightarrow> 'c list \<times> 'c connection_pool" where
  "DestroyPool p = (connList p, p\<lparr>connList := [], m_CurConn := 0, m_FreeConn := 0, m_shutdown := True\<rparr>)"

definition GetFreeConn :: "'c connection_pool \<Rightarrow> int" where
  "GetFreeConn p = m_FreeConn p"

text \<open>The scope of a \<^verbatim>\<open>connectionRAII\<close>: the body runs with the connection, the destructor gives it back.\<close>

definition with_connection ::
  "('c option \<Rightarrow> 'c connection_pool \<Rightarrow> 'r \<times> 'c connection_pool) \<Rightarrow> 'c connection_pool \<Rightarrow>
     ('r \<times> 'c connection_pool) option" where
  "with_connection body p =
     (case GetConnection p of
        None \<Rightarrow> None
      | Some (con, p1) \<Rightarrow>
          (case body con p1 of (r, p2) \<Rightarrow> Some (r, snd (ReleaseConnection con p2))))"

section \<open>Threads that borrow and return\<close>

text \<open>The calls of all threads, in the order of the lock. The second component counts the connections that
  are lent, one entry per holder.\<close>

datatype 'c pool_call = Acquire | Release 'c | Destroy

inductive pool_step :: "'c connection_pool \<times> 'c multiset \<Rightarrow> 'c pool_call \<Rightarrow> 'c connection_pool \<times> 'c multiset \<Rightarrow> bool"
where
  acquire: "GetConnection p = Some (Some c, p') \<Longrightarrow> pool_step (p, lent) Acquire (p', add_mset c lent)"
| acquire_null: "GetConnection p = Some (None, p') \<Longrightarrow> pool_step (p, lent) Acquire (p', lent)"
| release: "c \<in># lent \<Longrightarrow> ReleaseConnection (Some c) p = (ok, p') \<Longrightarrow>
    pool_step (p, lent) (Release c) (p', lent - {#c#})"
| destroy: "DestroyPool p = (closed, p') \<Longrightarrow> pool_step (p, lent) Destroy (p', lent)"

inductive_simps pool_step_simps:
  "pool_step (p, lent) Acquire s" "pool_step (p, lent) (Release c) s" "pool_step (p, lent) Destroy s"

inductive pool_run :: "'c connection_pool \<times> 'c multiset \<Rightarrow> 'c pool_call list \<Rightarrow> 'c connection_pool \<times> 'c multiset \<Rightarrow> bool"
where
  run_refl: "pool_run s [] s"
| run_step: "pool_run s calls t \<Longrightarrow> pool_step t call u \<Longrightarrow> pool_run s (calls @ [call]) u"

definition pool_ok :: "'c connection_pool \<Rightarrow> bool" where
  "pool_ok p \<longleftrightarrow> \<not> m_shutdown p \<and> m_FreeConn p = int (length (connList p)) \<and> m_CurConn p + m_FreeConn p = m_MaxConn p"

lemma get_cases:
  assumes "pool_ok p" "GetConnection p = Some (c, p')"
  shows "\<exists>x. c = Some x \<and> pool_ok p' \<and> connList p = x # connList p' \<and> m_MaxConn p' = m_MaxConn p \<and>
    m_CurConn p' = m_CurConn p + 1"
  using assms by (cases "connList p") (auto simp: GetConnection_def pool_ok_def)

interpretation mysql_pool: lender pool_ok "\<lambda>p. mset (connList p)" GetConnection ReleaseConnection
proof
  fix p p' :: "'c connection_pool" and c
  assume "pool_ok p" "GetConnection p = Some (c, p')"
  from get_cases[OF this]
  show "\<exists>x. c = Some x \<and> pool_ok p' \<and> mset (connList p) = add_mset x (mset (connList p'))" by auto
next
  fix p :: "'c connection_pool"
  assume "pool_ok p"
  then show "GetConnection p = None \<longleftrightarrow> mset (connList p) = {#}"
    by (auto simp: GetConnection_def pool_ok_def)
next
  fix p p' :: "'c connection_pool" and x ok
  assume "pool_ok p" "ReleaseConnection (Some x) p = (ok, p')"
  then show "ok \<and> pool_ok p' \<and> mset (connList p') = add_mset x (mset (connList p))"
    by (auto simp: ReleaseConnection_def pool_ok_def)
qed

lemma connect_loop_spec:
  "connect_loop rs p = Inr p' \<Longrightarrow> m_FreeConn p = int (length (connList p)) \<Longrightarrow>
     connList p' = connList p @ map the rs \<and> None \<notin> set rs \<and> m_FreeConn p' = int (length (connList p')) \<and>
     m_CurConn p' = m_CurConn p \<and> m_shutdown p' = m_shutdown p"
  by (induction rs p rule: connect_loop.induct) auto

lemma init_spec:
  assumes "connection_pool_init connect url usr pw db port n cl connection_pool_new = Inr p"
  shows "pool_ok p \<and> connList p = map (the \<circ> connect) [0..<nat n] \<and> m_MaxConn p = int (nat n) \<and>
    (\<forall>i < nat n. connect i \<noteq> None)"
proof -
  from assms obtain p1 where p1: "p = p1\<lparr>m_MaxConn := m_FreeConn p1\<rparr>"
    and l: "connect_loop (map connect [0..<nat n])
      (connection_pool_new\<lparr>m_url := url, m_Port := to_string port, m_User := usr, m_PassWord := pw,
        m_DatabaseName := db, m_close_log := cl\<rparr>) = Inr p1"
    by (auto simp: connection_pool_init_def split: sum.splits)
  show ?thesis
    using connect_loop_spec[OF l] unfolding p1
    by (simp add: connection_pool_new_def pool_ok_def) (metis atLeastLessThan_iff imageI zero_le not_Some_eq)
qed

text \<open>While nobody destroys the pool, free and lent connections together are those of the start.\<close>

lemma run_conserves:
  assumes "pool_run (p, {#}) calls (q, lent)" "pool_ok p" "Destroy \<notin> set calls"
  shows "pool_ok q \<and> mset (connList q) + lent = mset (connList p) \<and> m_MaxConn q = m_MaxConn p \<and>
    m_CurConn q = int (size lent) + m_CurConn p"
  using assms
proof (induction "(p, {#} :: 'a multiset)" calls "(q, lent)" arbitrary: q lent rule: pool_run.induct)
  case run_refl
  then show ?case by simp
next
  case (run_step calls t call)
  obtain r held where t: "t = (r, held)" by force
  from run_step.hyps(2)[OF t] run_step.prems
  have IH: "pool_ok r" "mset (connList r) + held = mset (connList p)" "m_MaxConn r = m_MaxConn p"
    "m_CurConn r = int (size held) + m_CurConn p"
    by simp_all
  have call: "call \<noteq> Destroy" using run_step.prems by auto
  have st: "pool_step (r, held) call (q, lent)" using run_step.hyps(3) t by simp
  show ?case
  proof (cases call)
    case Acquire
    with st consider (lends) c where "GetConnection r = Some (Some c, q)" "lent = add_mset c held"
      | (null) "GetConnection r = Some (None, q)"
      by (auto simp: pool_step_simps)
    then show ?thesis
    proof cases
      case lends
      with get_cases[OF IH(1)] IH show ?thesis
        by (auto simp: GetConnection_def split: if_splits)
    next
      case null
      with get_cases[OF IH(1)] show ?thesis by blast
    qed
  next
    case (Release c)
    with st obtain ok where c: "c \<in># held" "ReleaseConnection (Some c) r = (ok, q)" "lent = held - {#c#}"
      by (auto simp: pool_step_simps)
    then have "held = add_mset c lent" by simp
    with c(2) IH show ?thesis by (auto simp: ReleaseConnection_def pool_ok_def)
  qed (use call in simp)
qed

text \<open>With \<^verbatim>\<open>DestroyPool\<close> among the calls, connections disappear but none appears twice.\<close>

lemma step_bounds:
  assumes "pool_step (r, held) call (q, lent)"
  shows "mset (connList q) + lent \<subseteq># mset (connList r) + held \<and>
    (m_shutdown r \<or> call = Destroy \<longrightarrow> m_shutdown q)"
proof (cases call)
  case Acquire
  with assms show ?thesis
    by (cases "connList r") (auto simp: pool_step_simps GetConnection_def split: if_splits)
next
  case (Release c)
  with assms obtain ok where c: "c \<in># held" "ReleaseConnection (Some c) r = (ok, q)" "lent = held - {#c#}"
    by (auto simp: pool_step_simps)
  then have "held = add_mset c lent" by simp
  with c(2) Release show ?thesis by (auto simp: ReleaseConnection_def)
next
  case Destroy
  with assms show ?thesis by (auto simp: pool_step_simps DestroyPool_def)
qed

lemma run_bounds:
  assumes "pool_run (p, {#}) calls (q, lent)"
  shows "mset (connList q) + lent \<subseteq># mset (connList p) \<and> (Destroy \<in> set calls \<longrightarrow> m_shutdown q)"
  using assms
proof (induction "(p, {#} :: 'a multiset)" calls "(q, lent)" arbitrary: q lent rule: pool_run.induct)
  case run_refl
  then show ?case by simp
next
  case (run_step calls t call)
  obtain r held where t: "t = (r, held)" by force
  show ?case
    using run_step.hyps(2)[OF t] step_bounds[OF run_step.hyps(3)[unfolded t]] by (auto intro: subset_mset.order_trans)
qed

section \<open>Properties\<close>

text \<open>C27: Two threads never hold the same connection. After \<open>init\<close> with distinct handles, in any interleaving
  of calls that returns only what was lent, no handle is free or lent twice and only opened ones are, also when the pool
  is destroyed on the way. As long as it is not, none is lost: free and lent connections together are exactly the
  opened ones, both counters are exact, and a thread that asks for a connection waits exactly when all of them are
  lent. Once it is destroyed, whoever asks gets the null connection at once.\<close>

theorem connections_exclusive:
  assumes "connection_pool_init connect url usr pw db port n cl connection_pool_new = Inr p"
    and "inj connect" "pool_run (p, {#}) calls (q, lent)"
  shows "(\<forall>c. count (mset (connList q) + lent) c \<le> 1) \<and>
    mset (connList q) + lent \<subseteq># mset (map (the \<circ> connect) [0..<nat n]) \<and>
    (Destroy \<notin> set calls \<longrightarrow>
      mset (connList q) + lent = mset (map (the \<circ> connect) [0..<nat n]) \<and>
      GetFreeConn q = int (length (connList q)) \<and> m_CurConn q = int (size lent) \<and>
      (GetConnection q = None \<longleftrightarrow> size lent = nat n)) \<and>
    (Destroy \<in> set calls \<longrightarrow> GetConnection q = Some (None, q))"
proof -
  have p: "pool_ok p" "connList p = map (the \<circ> connect) [0..<nat n]" "m_MaxConn p = int (nat n)"
    "\<forall>i < nat n. connect i \<noteq> None"
    using init_spec[OF assms(1)] by simp_all
  note bounds = run_bounds[OF assms(3)]
  have "inj_on (the \<circ> connect) {0..<nat n}"
  proof (rule inj_onI)
    fix i j assume ij: "i \<in> {0..<nat n}" "j \<in> {0..<nat n}" "(the \<circ> connect) i = (the \<circ> connect) j"
    with p(4) obtain x y where "connect i = Some x" "connect j = Some y" by fastforce
    with ij have "connect i = connect j" by simp
    then show "i = j" using assms(2) by (simp add: inj_eq)
  qed
  then have "distinct (connList p)" by (simp add: p(2) distinct_map)
  then have "count (mset (connList p)) c \<le> 1" for c by (simp add: distinct_count_atmost_1)
  then have "count (mset (connList q) + lent) c \<le> 1" for c
    using mset_subset_eq_count[OF conjunct1[OF bounds]] by (rule order_trans[rotated])
  moreover have "mset (connList q) + lent = mset (map (the \<circ> connect) [0..<nat n]) \<and>
      GetFreeConn q = int (length (connList q)) \<and> m_CurConn q = int (size lent) \<and>
      (GetConnection q = None \<longleftrightarrow> size lent = nat n)" if "Destroy \<notin> set calls"
  proof -
    note q = run_conserves[OF assms(3) p(1) that]
    have "size (mset (connList q) + lent) = nat n"
      using q by (simp add: p(2))
    then have "connList q = [] \<longleftrightarrow> size lent = nat n" by auto
    moreover have "GetConnection q = None \<longleftrightarrow> connList q = []"
      using q by (auto simp: GetConnection_def pool_ok_def)
    ultimately show ?thesis
      using q p by (simp add: GetFreeConn_def pool_ok_def)
  qed
  moreover have "GetConnection q = Some (None, q)" if "Destroy \<in> set calls"
    using bounds that by (simp add: GetConnection_def)
  ultimately show ?thesis
    using bounds by (simp add: p(2))
qed

theorem connections_exclusive_witness:
  "\<exists>p q. connection_pool_init (Some :: nat \<Rightarrow> nat option) ''db'' ''root'' ''pw'' ''shop'' 3306 2 0 connection_pool_new = Inr p \<and>
     pool_run (p, {#}) [Acquire, Acquire, Release 0, Acquire] (q, {#0, 1#}) \<and> GetConnection q = None"
proof -
  define p where "p = (connection_pool_new :: nat connection_pool)\<lparr>m_url := ''db'', m_Port := to_string 3306,
    m_User := ''root'', m_PassWord := ''pw'', m_DatabaseName := ''shop'', m_close_log := 0,
    connList := [0, 1], m_FreeConn := 2, m_MaxConn := 2\<rparr>"
  define q where "q = p\<lparr>connList := [], m_FreeConn := 0, m_CurConn := 2\<rparr>"
  have i: "connection_pool_init Some ''db'' ''root'' ''pw'' ''shop'' 3306 2 0 connection_pool_new = Inr p"
    by (simp add: connection_pool_init_def connection_pool_new_def p_def numeral_2_eq_2)
  define p1 where "p1 = p\<lparr>connList := [1], m_FreeConn := 1, m_CurConn := 1\<rparr>"
  define p2 where "p2 = p\<lparr>connList := [0], m_FreeConn := 1, m_CurConn := 1\<rparr>"
  have steps: "GetConnection p = Some (Some 0, p1)" "GetConnection p1 = Some (Some 1, q)"
    "ReleaseConnection (Some 0) q = (True, p2)" "GetConnection p2 = Some (Some 0, q)"
    by (simp_all add: GetConnection_def ReleaseConnection_def p_def p1_def p2_def q_def connection_pool_new_def)
  have "pool_run (p, {#}) [] (p, {#})" by (rule run_refl)
  from run_step[OF this acquire[OF steps(1)]] have "pool_run (p, {#}) [Acquire] (p1, {#0#})" by simp
  from run_step[OF this acquire[OF steps(2)]] have "pool_run (p, {#}) [Acquire, Acquire] (q, {#1, 0#})" by simp
  from run_step[OF this release[OF _ steps(3)]]
  have "pool_run (p, {#}) [Acquire, Acquire, Release 0] (p2, {#1#})" by simp
  from run_step[OF this acquire[OF steps(4)]]
  have r: "pool_run (p, {#}) [Acquire, Acquire, Release 0, Acquire] (q, {#0, 1#})" by simp
  have "GetConnection q = None"
    using connections_exclusive[OF i _ r] by simp
  with i r show ?thesis by blast
qed

text \<open>The scope of a \<^verbatim>\<open>connectionRAII\<close> whose body leaves the pool alone gives every connection back.\<close>

lemma with_connection_restores:
  assumes "pool_ok p" "\<And>c p. snd (body c p) = p" "with_connection body p = Some (r, p')"
  shows "pool_ok p' \<and> mset (connList p') = mset (connList p)"
proof -
  obtain c p1 where g: "GetConnection p = Some (c, p1)" and p': "p' = snd (ReleaseConnection c (snd (body c p1)))"
    using assms(3) by (auto simp: with_connection_def split: option.splits prod.splits)
  then show ?thesis
    using mysql_pool.borrow_return[OF assms(1) g] by (auto simp: assms(2))
qed

text \<open>A connection that is returned after \<open>DestroyPool\<close> is put back into the list of the closed pool, where
  nobody closes it, and the counter of lent connections drops below zero.\<close>

lemma release_after_destroy:
  "GetConnection p = Some (Some c, p1) \<Longrightarrow> DestroyPool p1 = (closed, p2) \<Longrightarrow>
     ReleaseConnection (Some c) p2 = (ok, p3) \<Longrightarrow> connList p3 = [c] \<and> m_CurConn p3 = - 1 \<and> m_FreeConn p3 = 1 \<and> m_shutdown p3"
  by (auto simp: DestroyPool_def ReleaseConnection_def)

end
