(* ===== verification/Thread_Pool.thy ===== *)
theory Thread_Pool
  imports Http_Conn Block_Queue Conn_Pool
begin

text \<open>
  \<^verbatim>\<open>src/pool/threadpool.h\<close>, and the hand-over between a worker and the main loop that
  \<^verbatim>\<open>WebServer::wait_improv\<close> waits for. A request is the index of a connection in the array \<^verbatim>\<open>users\<close> of the
  server. The body of \<^verbatim>\<open>run\<close> is cut at its atomic parts: a worker takes a request under the mutex
  (\<open>Started\<close>), hands it to the dispatcher without the mutex (\<open>Finished\<close>), or leaves (\<open>Left\<close>).
\<close>

section \<open>State and operations\<close>

datatype worker = Idle | Busy nat | Gone

record threadpool =
  tp_thread_number :: int
  tp_max_requests :: int
  tp_workqueue :: "nat list"
  tp_stop :: bool
  tp_actor_model :: int
  tp_workers :: "worker list"

datatype threadpool_error = PoolInvalidArgument

definition threadpool_new :: "int \<Rightarrow> int \<Rightarrow> int \<Rightarrow> threadpool_error + threadpool" where
  "threadpool_new actor_model thread_number max_requests =
     (if thread_number \<le> 0 \<or> max_requests \<le> 0 then Inl PoolInvalidArgument
      else Inr \<lparr>tp_thread_number = thread_number, tp_max_requests = max_requests, tp_workqueue = [],
                tp_stop = False, tp_actor_model = actor_model, tp_workers = replicate (nat thread_number) Idle\<rparr>)"

definition append_p :: "nat \<Rightarrow> threadpool \<Rightarrow> bool \<times> threadpool" where
  "append_p request tp =
     (if int (length (tp_workqueue tp)) \<ge> tp_max_requests tp then (False, tp)
      else (True, tp\<lparr>tp_workqueue := tp_workqueue tp @ [request]\<rparr>))"

text \<open>\<^verbatim>\<open>append\<close> also notes in the connection which kind of event it is about.\<close>

definition append_state ::
  "nat \<Rightarrow> int \<Rightarrow> threadpool \<Rightarrow> (nat \<Rightarrow> HttpConn) \<Rightarrow> bool \<times> threadpool \<times> (nat \<Rightarrow> HttpConn)" where
  "append_state request state tp users =
     (if int (length (tp_workqueue tp)) \<ge> tp_max_requests tp then (False, tp, users)
      else (True, tp\<lparr>tp_workqueue := tp_workqueue tp @ [request]\<rparr>,
            users(request := (users request)\<lparr>hc_m_state := state\<rparr>)))"

text \<open>The critical section of \<^verbatim>\<open>run\<close>: \<open>None\<close> where the worker waits; a request, or none when it is to return.\<close>

definition run_take :: "threadpool \<Rightarrow> (nat option \<times> threadpool) option" where
  "run_take tp =
     (if \<not> tp_stop tp \<and> tp_workqueue tp = [] then None
      else if tp_stop tp \<and> tp_workqueue tp = [] then Some (None, tp)
      else Some (Some (hd (tp_workqueue tp)), tp\<lparr>tp_workqueue := tl (tp_workqueue tp)\<rparr>))"

text \<open>The first half of the destructor; the second half joins the workers.\<close>

definition pool_stop :: "threadpool \<Rightarrow> threadpool" where
  "pool_stop tp = tp\<lparr>tp_stop := True\<rparr>"

definition joined :: "threadpool \<Rightarrow> bool" where
  "joined tp \<longleftrightarrow> set (tp_workers tp) \<subseteq> {Gone}"

section \<open>The dispatchers\<close>

text \<open>
  What a worker does with a connection: \<open>reads\<close> and \<open>writes\<close> are the results of its system calls. The
  database connection of the scope is not used by the connection, so only its waiting and its return
  matter; an exception of \<open>process\<close> ends the program.
\<close>

definition run_process ::
  "filesystem \<Rightarrow> HttpConn \<Rightarrow> 's Net \<Rightarrow> 'c connection_pool \<Rightarrow>
     ((conn_error + HttpConn \<times> 's Net) \<times> 'c connection_pool) option" where
  "run_process fs c n = with_connection (\<lambda>con p. (HttpConn_process fs c n, p))"

definition proactor_dispatch ::
  "filesystem \<Rightarrow> HttpConn \<Rightarrow> 's Net \<Rightarrow> 'c connection_pool \<Rightarrow>
     ((conn_error + HttpConn \<times> 's Net) \<times> 'c connection_pool) option" where
  "proactor_dispatch fs c n pool = run_process fs c n pool"

definition reactor_dispatch ::
  "filesystem \<Rightarrow> recv_result list \<Rightarrow> writev_result list \<Rightarrow> HttpConn \<Rightarrow> 's Net \<Rightarrow> 'c connection_pool \<Rightarrow>
     ((conn_error + HttpConn \<times> 's Net) \<times> 'c connection_pool) option" where
  "reactor_dispatch fs reads writes c n pool =
     (if hc_m_state c = 0
      then (case read_once reads c of
              None \<Rightarrow> None
            | Some (True, c1) \<Rightarrow> run_process fs (c1\<lparr>hc_improv := True\<rparr>) n pool
            | Some (False, c1) \<Rightarrow> Some (Inr (c1\<lparr>hc_improv := True, hc_timer_flag := True\<rparr>, n), pool))
      else (case HttpConn_write writes c n of
              None \<Rightarrow> None
            | Some (True, c1, n1, out) \<Rightarrow> Some (Inr (c1\<lparr>hc_improv := True\<rparr>, n1), pool)
            | Some (False, c1, n1, out) \<Rightarrow> Some (Inr (c1\<lparr>hc_improv := True, hc_timer_flag := True\<rparr>, n1), pool)))"

section \<open>Interleavings\<close>

datatype pool_event = Appended nat | Started nat | Finished nat | Stopped | Left nat

text \<open>What an event does, \<open>None\<close> where it cannot happen. The argument of \<open>Started\<close>, \<open>Finished\<close> and \<open>Left\<close>
  is the worker.\<close>

fun pool_do :: "pool_event \<Rightarrow> threadpool \<Rightarrow> threadpool option" where
  "pool_do (Appended r) tp = Some (snd (append_p r tp))"
| "pool_do (Started w) tp =
     (if w < length (tp_workers tp) \<and> tp_workers tp ! w = Idle
      then (case run_take tp of
              Some (Some r, tp') \<Rightarrow> Some (tp'\<lparr>tp_workers := (tp_workers tp')[w := Busy r]\<rparr>)
            | _ \<Rightarrow> None)
      else None)"
| "pool_do (Finished w) tp =
     (if w < length (tp_workers tp)
      then (case tp_workers tp ! w of
              Busy r \<Rightarrow> Some (tp\<lparr>tp_workers := (tp_workers tp)[w := Idle]\<rparr>)
            | _ \<Rightarrow> None)
      else None)"
| "pool_do Stopped tp = Some (pool_stop tp)"
| "pool_do (Left w) tp =
     (if w < length (tp_workers tp) \<and> tp_workers tp ! w = Idle
      then (case run_take tp of
              Some (None, tp') \<Rightarrow> Some (tp'\<lparr>tp_workers := (tp_workers tp')[w := Gone]\<rparr>)
            | _ \<Rightarrow> None)
      else None)"

text \<open>A run, with the requests that were accepted, started and finished, each in order.\<close>

definition accepted_by :: "pool_event \<Rightarrow> threadpool \<Rightarrow> nat list" where
  "accepted_by e tp = (case e of Appended r \<Rightarrow> if fst (append_p r tp) then [r] else [] | _ \<Rightarrow> [])"

definition started_by :: "pool_event \<Rightarrow> threadpool \<Rightarrow> nat list" where
  "started_by e tp = (case e of Started w \<Rightarrow> [hd (tp_workqueue tp)] | _ \<Rightarrow> [])"

definition finished_by :: "pool_event \<Rightarrow> threadpool \<Rightarrow> nat list" where
  "finished_by e tp =
     (case e of Finished w \<Rightarrow> (case tp_workers tp ! w of Busy r \<Rightarrow> [r] | _ \<Rightarrow> []) | _ \<Rightarrow> [])"

fun pool_trace :: "pool_event list \<Rightarrow> threadpool \<Rightarrow> (nat list \<times> nat list \<times> nat list \<times> threadpool) option" where
  "pool_trace [] tp = Some ([], [], [], tp)"
| "pool_trace (e # es) tp =
     (case pool_do e tp of
        None \<Rightarrow> None
      | Some tp1 \<Rightarrow>
          map_option (\<lambda>(acc, out, fin, tp2).
            (accepted_by e tp @ acc, started_by e tp @ out, finished_by e tp @ fin, tp2)) (pool_trace es tp1))"

definition queue_ok :: "threadpool \<Rightarrow> bool" where
  "queue_ok tp \<longleftrightarrow> int (length (tp_workqueue tp)) \<le> tp_max_requests tp"

definition queue_take :: "threadpool \<Rightarrow> (nat \<times> threadpool) option" where
  "queue_take tp = (case run_take tp of Some (Some r, tp') \<Rightarrow> Some (r, tp') | _ \<Rightarrow> None)"

interpretation work_queue: bounded_fifo queue_ok tp_workqueue "\<lambda>tp. nat (tp_max_requests tp)" append_p queue_take
  by unfold_locales
    (auto simp: queue_ok_def queue_take_def run_take_def append_p_def split: if_splits)

text \<open>The requests that are being handled.\<close>

definition busy :: "threadpool \<Rightarrow> nat multiset" where
  "busy tp = mset (concat (map (\<lambda>w. case w of Busy r \<Rightarrow> [r] | _ \<Rightarrow> []) (tp_workers tp)))"

lemma mset_concat_update:
  "i < length xs \<Longrightarrow> mset (concat (map f (xs[i := y]))) + mset (f (xs ! i)) = mset (concat (map f xs)) + mset (f y)"
  by (induction xs arbitrary: i) (auto split: nat.splits simp: nth_Cons')

lemma busy_update:
  assumes "w < length (tp_workers tp)" "tp_workers tp' = (tp_workers tp)[w := v]"
  shows "busy tp' + (case tp_workers tp ! w of Busy r \<Rightarrow> {#r#} | _ \<Rightarrow> {#}) =
    busy tp + (case v of Busy r \<Rightarrow> {#r#} | _ \<Rightarrow> {#})"
  using mset_concat_update[OF assms(1), of "\<lambda>w. case w of Busy r \<Rightarrow> [r] | _ \<Rightarrow> []" v]
  unfolding busy_def assms(2) by (auto split: worker.splits)

lemma run_take_Some:
  "run_take tp = Some (Some r, tp') \<longleftrightarrow>
     (\<exists>rs. tp_workqueue tp = r # rs \<and> tp' = tp\<lparr>tp_workqueue := rs\<rparr>)"
  by (cases "tp_workqueue tp") (auto simp: run_take_def)

lemma run_take_None: "run_take tp = Some (None, tp') \<longleftrightarrow> tp_stop tp \<and> tp_workqueue tp = [] \<and> tp' = tp"
  by (auto simp: run_take_def)

lemmas pool_do_simps = run_take_Some run_take_None accepted_by_def started_by_def finished_by_def

lemma pool_do_Started:
  "pool_do (Started w) tp = Some tp' \<longleftrightarrow>
     w < length (tp_workers tp) \<and> tp_workers tp ! w = Idle \<and>
     (\<exists>r rs. tp_workqueue tp = r # rs \<and> tp' = tp\<lparr>tp_workqueue := rs, tp_workers := (tp_workers tp)[w := Busy r]\<rparr>)"
  by (cases "tp_workqueue tp") (auto simp: run_take_def)

lemma pool_do_Left:
  "pool_do (Left w) tp = Some tp' \<longleftrightarrow>
     w < length (tp_workers tp) \<and> tp_workers tp ! w = Idle \<and> tp_stop tp \<and> tp_workqueue tp = [] \<and>
     tp' = tp\<lparr>tp_workers := (tp_workers tp)[w := Gone]\<rparr>"
  by (auto simp: run_take_def)

lemma pool_do_Finished:
  "pool_do (Finished w) tp = Some tp' \<longleftrightarrow>
     w < length (tp_workers tp) \<and> (\<exists>r. tp_workers tp ! w = Busy r) \<and>
     tp' = tp\<lparr>tp_workers := (tp_workers tp)[w := Idle]\<rparr>"
  by (auto split: worker.splits)

lemmas pool_do_iff = pool_do_Started pool_do_Left pool_do_Finished

lemma pool_do_step:
  assumes "queue_ok tp" "pool_do e tp = Some tp'"
  shows "tp_workqueue tp @ accepted_by e tp = started_by e tp @ tp_workqueue tp' \<and>
    busy tp + mset (started_by e tp) = mset (finished_by e tp) + busy tp' \<and>
    queue_ok tp' \<and> tp_max_requests tp' = tp_max_requests tp \<and> length (tp_workers tp') = length (tp_workers tp)"
proof (cases e)
  case (Appended r)
  then have tp': "tp' = snd (append_p r tp)" using assms(2) by simp
  then have "tp_workers tp' = tp_workers tp" by (auto simp: append_p_def)
  then show ?thesis
    using work_queue.enq_law[OF assms(1), of r "fst (append_p r tp)" tp'] tp' Appended assms(1)
    by (auto simp: pool_do_simps busy_def append_p_def queue_ok_def)
next
  case (Started w)
  then obtain r rs where s: "w < length (tp_workers tp)" "tp_workers tp ! w = Idle" "tp_workqueue tp = r # rs"
    "tp' = tp\<lparr>tp_workqueue := rs, tp_workers := (tp_workers tp)[w := Busy r]\<rparr>"
    using assms(2) by (auto simp: pool_do_Started simp del: pool_do.simps)
  with busy_update[of w tp tp' "Busy r"] assms(1) Started show ?thesis
    by (auto simp: pool_do_simps queue_ok_def)
next
  case (Finished w)
  then obtain r where f: "w < length (tp_workers tp)" "tp_workers tp ! w = Busy r"
    "tp' = tp\<lparr>tp_workers := (tp_workers tp)[w := Idle]\<rparr>"
    using assms(2) by (auto simp: pool_do_Finished simp del: pool_do.simps)
  with busy_update[of w tp tp' Idle] assms(1) Finished show ?thesis
    by (auto simp: pool_do_simps queue_ok_def)
next
  case Stopped
  with assms show ?thesis by (auto simp: pool_do_simps pool_stop_def queue_ok_def busy_def)
next
  case (Left w)
  then have l: "w < length (tp_workers tp)" "tp_workers tp ! w = Idle"
    "tp' = tp\<lparr>tp_workers := (tp_workers tp)[w := Gone]\<rparr>"
    using assms(2) by (auto simp: pool_do_Left simp del: pool_do.simps)
  with busy_update[of w tp tp' Gone] assms(1) Left show ?thesis
    by (auto simp: pool_do_simps queue_ok_def)
qed

lemma pool_trace_sound:
  "queue_ok tp \<Longrightarrow> pool_trace es tp = Some (acc, out, fin, tp') \<Longrightarrow>
     tp_workqueue tp @ acc = out @ tp_workqueue tp' \<and> busy tp + mset out = mset fin + busy tp' \<and>
     queue_ok tp' \<and> tp_max_requests tp' = tp_max_requests tp \<and> length (tp_workers tp') = length (tp_workers tp)"
proof (induction es arbitrary: tp acc out fin)
  case (Cons e es)
  from Cons.prems(2) obtain tp1 acc1 out1 fin1 where
    d: "pool_do e tp = Some tp1" and t: "pool_trace es tp1 = Some (acc1, out1, fin1, tp')"
    and r: "acc = accepted_by e tp @ acc1" "out = started_by e tp @ out1" "fin = finished_by e tp @ fin1"
    by (auto split: option.splits simp del: pool_do.simps)
  note step = pool_do_step[OF Cons.prems(1) d]
  note IH = Cons.IH[OF _ t]
  have "tp_workqueue tp @ acc = started_by e tp @ (tp_workqueue tp1 @ acc1)"
    using step r by simp
  moreover have "busy tp + mset out = (busy tp + mset (started_by e tp)) + mset out1"
    using r by simp
  ultimately show ?case
    using step IH r by (simp add: ac_simps)
qed simp

section \<open>Shutting down\<close>

text \<open>What the workers still have to do once the pool is stopped.\<close>

definition worker_work :: "worker \<Rightarrow> nat" where
  "worker_work w = (case w of Idle \<Rightarrow> 1 | Busy r \<Rightarrow> 2 | Gone \<Rightarrow> 0)"

definition work_left :: "threadpool \<Rightarrow> nat" where
  "work_left tp = 2 * length (tp_workqueue tp) + sum_list (map worker_work (tp_workers tp))"

definition by_worker :: "pool_event \<Rightarrow> bool" where
  "by_worker e \<longleftrightarrow> (case e of Appended r \<Rightarrow> False | Stopped \<Rightarrow> False | _ \<Rightarrow> True)"

text \<open>A worker leaves only when the pool is stopped and nothing is queued.\<close>

definition leaves_last :: "threadpool \<Rightarrow> bool" where
  "leaves_last tp \<longleftrightarrow> (Gone \<in> set (tp_workers tp) \<longrightarrow> tp_stop tp \<and> tp_workqueue tp = [])"

lemma sum_list_work_update:
  "i < length ws \<Longrightarrow>
     sum_list (map worker_work (ws[i := v])) + worker_work (ws ! i) = sum_list (map worker_work ws) + worker_work v"
  by (induction ws arbitrary: i) (auto split: nat.splits simp: nth_Cons')

lemma worker_event_work:
  assumes "by_worker e" "pool_do e tp = Some tp'"
  shows "work_left tp' < work_left tp \<and> tp_stop tp' = tp_stop tp"
proof (cases e)
  case (Started w)
  then obtain r rs where s: "w < length (tp_workers tp)" "tp_workers tp ! w = Idle" "tp_workqueue tp = r # rs"
    "tp' = tp\<lparr>tp_workqueue := rs, tp_workers := (tp_workers tp)[w := Busy r]\<rparr>"
    using assms(2) by (auto simp: pool_do_Started simp del: pool_do.simps)
  with sum_list_work_update[OF s(1), of "Busy r"] show ?thesis
    by (simp add: work_left_def worker_work_def)
next
  case (Finished w)
  then obtain r where f: "w < length (tp_workers tp)" "tp_workers tp ! w = Busy r"
    "tp' = tp\<lparr>tp_workers := (tp_workers tp)[w := Idle]\<rparr>"
    using assms(2) by (auto simp: pool_do_Finished simp del: pool_do.simps)
  with sum_list_work_update[OF f(1), of Idle] show ?thesis
    by (simp add: work_left_def worker_work_def)
next
  case (Left w)
  then have l: "w < length (tp_workers tp)" "tp_workers tp ! w = Idle"
    "tp' = tp\<lparr>tp_workers := (tp_workers tp)[w := Gone]\<rparr>"
    using assms(2) by (auto simp: pool_do_Left simp del: pool_do.simps)
  with sum_list_work_update[OF l(1), of Gone] show ?thesis
    by (simp add: work_left_def worker_work_def)
qed (use assms in \<open>simp_all add: by_worker_def\<close>)

lemma leaves_last_step:
  assumes "leaves_last tp" "pool_do e tp = Some tp'" "tp_stop tp \<longrightarrow> by_worker e \<or> e = Stopped"
  shows "leaves_last tp'"
proof (cases e)
  case (Appended r)
  with assms show ?thesis
    by (auto simp: leaves_last_def by_worker_def append_p_def split: if_splits)
next
  case (Started w)
  with assms show ?thesis
    by (auto simp: leaves_last_def pool_do_Started simp del: pool_do.simps dest!: set_update_subset_insert[THEN subsetD])
next
  case (Finished w)
  with assms show ?thesis
    by (auto simp: leaves_last_def pool_do_Finished simp del: pool_do.simps dest!: set_update_subset_insert[THEN subsetD])
next
  case Stopped
  with assms show ?thesis by (auto simp: leaves_last_def pool_stop_def)
next
  case (Left w)
  with assms show ?thesis
    by (auto simp: leaves_last_def pool_do_Left simp del: pool_do.simps)
qed

lemma some_worker_can_go_on:
  assumes "tp_stop tp" "\<not> joined tp"
  shows "\<exists>e tp'. by_worker e \<and> pool_do e tp = Some tp'"
proof -
  obtain w where w: "w < length (tp_workers tp)" "tp_workers tp ! w \<noteq> Gone"
    using assms(2) unfolding joined_def by (metis in_set_conv_nth insertI1 subsetI)
  show ?thesis
  proof (cases "tp_workers tp ! w")
    case Idle
    show ?thesis
    proof (cases "tp_workqueue tp")
      case Nil
      with Idle w assms(1) have "pool_do (Left w) tp = Some (tp\<lparr>tp_workers := (tp_workers tp)[w := Gone]\<rparr>)"
        by (simp add: pool_do_Left del: pool_do.simps)
      then show ?thesis by (intro exI[of _ "Left w"]) (auto simp: by_worker_def simp del: pool_do.simps)
    next
      case (Cons r rs)
      with Idle w have "\<exists>tp'. pool_do (Started w) tp = Some tp'"
        by (simp add: pool_do_Started del: pool_do.simps)
      then show ?thesis by (intro exI[of _ "Started w"]) (auto simp: by_worker_def simp del: pool_do.simps)
    qed
  next
    case (Busy r)
    with w have "\<exists>tp'. pool_do (Finished w) tp = Some tp'"
      by (simp add: pool_do_Finished del: pool_do.simps)
    then show ?thesis by (intro exI[of _ "Finished w"]) (auto simp: by_worker_def simp del: pool_do.simps)
  qed (use w in simp)
qed

lemma pool_trace_Cons:
  "pool_trace (e # es) tp = Some (acc, out, fin, tp') \<longleftrightarrow>
     (\<exists>tp1 acc1 out1 fin1. pool_do e tp = Some tp1 \<and> pool_trace es tp1 = Some (acc1, out1, fin1, tp') \<and>
        acc = accepted_by e tp @ acc1 \<and> out = started_by e tp @ out1 \<and> fin = finished_by e tp @ fin1)"
  by (auto split: option.splits simp del: pool_do.simps)

lemma trace_before_stop:
  "pool_trace es tp = Some (acc, out, fin, tp') \<Longrightarrow> Stopped \<notin> set es \<Longrightarrow> leaves_last tp \<Longrightarrow> \<not> tp_stop tp \<Longrightarrow>
     leaves_last tp' \<and> \<not> tp_stop tp'"
proof (induction es arbitrary: tp acc out fin)
  case (Cons e es)
  from Cons.prems(1) obtain tp1 acc1 out1 fin1 where
    d: "pool_do e tp = Some tp1" and t: "pool_trace es tp1 = Some (acc1, out1, fin1, tp')"
    by (auto simp: pool_trace_Cons simp del: pool_trace.simps pool_do.simps)
  have "tp_stop tp1 = tp_stop tp"
    using d Cons.prems(2)
    by (cases e) (auto simp: append_p_def run_take_def split: if_splits option.splits worker.splits)
  with Cons.IH[OF t] leaves_last_step[OF Cons.prems(3) d] Cons.prems show ?case by simp
qed simp

lemma trace_after_stop:
  "pool_trace es tp = Some (acc, out, fin, tp') \<Longrightarrow> \<forall>e \<in> set es. by_worker e \<Longrightarrow> leaves_last tp \<Longrightarrow>
     leaves_last tp' \<and> tp_stop tp' = tp_stop tp \<and> length es + work_left tp' \<le> work_left tp \<and> acc = []"
proof (induction es arbitrary: tp acc out fin)
  case (Cons e es)
  from Cons.prems(1) obtain tp1 acc1 out1 fin1 where
    d: "pool_do e tp = Some tp1" and t: "pool_trace es tp1 = Some (acc1, out1, fin1, tp')"
    and a: "acc = accepted_by e tp @ acc1"
    by (auto simp: pool_trace_Cons simp del: pool_trace.simps pool_do.simps)
  have e: "by_worker e" using Cons.prems(2) by simp
  then have "accepted_by e tp = []" by (simp add: by_worker_def accepted_by_def split: pool_event.splits)
  with Cons.IH[OF t] worker_event_work[OF e d] leaves_last_step[OF Cons.prems(3) d] Cons.prems(2) e a
  show ?case by simp
qed simp

lemma threadpool_new_facts:
  assumes "threadpool_new a n m = Inr tp"
  shows "queue_ok tp" "leaves_last tp" "\<not> tp_stop tp" "tp_workqueue tp = []" "busy tp = {#}"
    "tp_max_requests tp = m" "length (tp_workers tp) = nat n" "0 < n"
  using assms by (auto simp: threadpool_new_def queue_ok_def leaves_last_def busy_def split: if_splits)

lemma work_left_bound: "work_left tp \<le> 2 * length (tp_workqueue tp) + 2 * length (tp_workers tp)"
proof -
  have "sum_list (map worker_work ws) \<le> 2 * length ws" for ws
    by (induction ws) (auto simp: worker_work_def split: worker.splits)
  then show ?thesis by (simp add: work_left_def)
qed

section \<open>The hand-over of reactor mode\<close>

text \<open>
  The worker stores into the two flags of the connection one after the other, the main loop of
  \<^verbatim>\<open>wait_improv\<close> reads and clears them one after the other. \<open>h_worker\<close> and \<open>h_main\<close> are the program points;
  \<open>Refused\<close> is the case that the work queue was full and no worker ever sees the request. \<open>h_closed\<close>
  says whether \<^verbatim>\<open>deal_timer\<close> has closed the connection.
\<close>

datatype worker_point = Refused | AtIo bool | AtImprov bool | AtTimerFlag | WorkerDone

datatype main_point = AtWait | AtCheck | AtClearFlag | AtClearImprov | MainDone

record handover =
  h_improv :: bool
  h_timer_flag :: bool
  h_worker :: worker_point
  h_main :: main_point
  h_closed :: bool

datatype hand_event = DoIo | SetImprov | SetTimerFlag | SeeImprov | CheckFlag | ClearFlag | ClearImprov

text \<open>One atomic step, \<open>None\<close> where its thread is elsewhere or waits.\<close>

fun hand_do :: "hand_event \<Rightarrow> handover \<Rightarrow> handover option" where
  "hand_do DoIo h = (case h_worker h of AtIo ok \<Rightarrow> Some (h\<lparr>h_worker := AtImprov ok\<rparr>) | _ \<Rightarrow> None)"
| "hand_do SetImprov h =
     (case h_worker h of
        AtImprov ok \<Rightarrow> Some (h\<lparr>h_improv := True, h_worker := (if ok then WorkerDone else AtTimerFlag)\<rparr>)
      | _ \<Rightarrow> None)"
| "hand_do SetTimerFlag h =
     (if h_worker h = AtTimerFlag then Some (h\<lparr>h_timer_flag := True, h_worker := WorkerDone\<rparr>) else None)"
| "hand_do SeeImprov h = (if h_main h = AtWait \<and> h_improv h then Some (h\<lparr>h_main := AtCheck\<rparr>) else None)"
| "hand_do CheckFlag h =
     (if h_main h = AtCheck
      then Some (if h_timer_flag h then h\<lparr>h_closed := True, h_main := AtClearFlag\<rparr> else h\<lparr>h_main := AtClearImprov\<rparr>)
      else None)"
| "hand_do ClearFlag h =
     (if h_main h = AtClearFlag then Some (h\<lparr>h_timer_flag := False, h_main := AtClearImprov\<rparr>) else None)"
| "hand_do ClearImprov h =
     (if h_main h = AtClearImprov then Some (h\<lparr>h_improv := False, h_main := MainDone\<rparr>) else None)"

fun hand_run :: "hand_event list \<Rightarrow> handover \<Rightarrow> handover option" where
  "hand_run [] h = Some h"
| "hand_run (e # es) h = (case hand_do e h of None \<Rightarrow> None | Some h' \<Rightarrow> hand_run es h')"

definition hand_start :: "worker_point \<Rightarrow> handover" where
  "hand_start w = \<lparr>h_improv = False, h_timer_flag = False, h_worker = w, h_main = AtWait, h_closed = False\<rparr>"

definition success_inv :: "handover \<Rightarrow> bool" where
  "success_inv h \<longleftrightarrow> \<not> h_closed h \<and> \<not> h_timer_flag h \<and> h_worker h \<in> {AtIo True, AtImprov True, WorkerDone} \<and>
    h_main h \<noteq> AtClearFlag \<and> (h_improv h \<longleftrightarrow> h_worker h = WorkerDone \<and> h_main h \<noteq> MainDone) \<and>
    (h_main h \<noteq> AtWait \<longrightarrow> h_worker h = WorkerDone)"

lemma success_inv_step: "success_inv h \<Longrightarrow> hand_do e h = Some h' \<Longrightarrow> success_inv h'"
  by (cases e) (auto simp: success_inv_def split: if_splits)

lemma success_inv_run: "hand_run es h = Some h' \<Longrightarrow> success_inv h \<Longrightarrow> success_inv h'"
  by (induction es arbitrary: h) (auto split: option.splits dest: success_inv_step simp del: hand_do.simps)

lemma refused_run: "hand_run es (hand_start Refused) = Some h \<Longrightarrow> es = [] \<and> h = hand_start Refused"
  by (cases es; cases "hd es") (auto simp: hand_start_def)

section \<open>Properties\<close>

text \<open>C18: No accepted request is lost, duplicated or overtaken. In every interleaving of the threads the accepted
  requests are the started ones followed by the queued ones, in order; every started request is either
  finished or with exactly one worker; and the queue never holds more than \<open>max_requests\<close>.\<close>

theorem pool_serves_in_order:
  assumes "threadpool_new a n m = Inr tp" "pool_trace es tp = Some (acc, out, fin, tp')"
  shows "acc = out @ tp_workqueue tp' \<and> mset out = mset fin + busy tp' \<and>
    int (length (tp_workqueue tp')) \<le> m \<and> length (tp_workers tp') = nat n"
  using pool_trace_sound[OF threadpool_new_facts(1)[OF assms(1)] assms(2)] threadpool_new_facts[OF assms(1)]
  by (simp add: queue_ok_def)

theorem pool_serves_in_order_witness:
  "\<exists>tp acc out fin tp'. threadpool_new 0 2 2 = Inr tp \<and>
     pool_trace [Appended 5, Started 1, Appended 6, Appended 7, Appended 8, Started 0, Finished 1] tp = Some (acc, out, fin, tp') \<and>
     acc = [5, 6, 7] \<and> acc = out @ tp_workqueue tp' \<and> mset out = mset fin + busy tp'"
proof -
  obtain tp where n: "threadpool_new 0 2 2 = Inr tp" by (simp add: threadpool_new_def)
  obtain out fin tp' where
    t: "pool_trace [Appended 5, Started 1, Appended 6, Appended 7, Appended 8, Started 0, Finished 1] tp = Some ([5, 6, 7], out, fin, tp')"
    using n by (auto simp: threadpool_new_def append_p_def run_take_def accepted_by_def numeral_2_eq_2)
  from pool_serves_in_order[OF n t] n t show ?thesis by blast
qed

text \<open>C19: The destructor ends. After \<open>stop\<close>, with no more calls of \<open>append\<close>, the workers make at most twice
  as many steps as there are queued requests and workers, some worker can always go on until all have left, and when
  all have left the queue is empty and every request that was ever accepted has been handled once.\<close>

theorem pool_shuts_down:
  assumes "threadpool_new a n m = Inr tp0" "Stopped \<notin> set es"
    and "pool_trace es tp0 = Some (acc, out, fin, tp1)"
    and "list_all by_worker es2" "pool_trace es2 (pool_stop tp1) = Some (acc2, out2, fin2, tp2)"
  shows "length es2 \<le> 2 * length (tp_workqueue tp1) + 2 * nat n \<and>
    (\<not> joined tp2 \<longrightarrow> (\<exists>e tp3. by_worker e \<and> pool_do e tp2 = Some tp3)) \<and>
    (joined tp2 \<longrightarrow> tp_workqueue tp2 = [] \<and> acc = out @ out2 \<and> mset acc = mset (fin @ fin2))"
proof -
  note new = threadpool_new_facts[OF assms(1)]
  note before = trace_before_stop[OF assms(3,2) new(2,3)]
  have stop: "leaves_last (pool_stop tp1)" "tp_stop (pool_stop tp1)" "queue_ok (pool_stop tp1)"
    using before leaves_last_step[of tp1 Stopped "pool_stop tp1"] pool_trace_sound[OF new(1) assms(3)]
    by (simp_all add: pool_stop_def queue_ok_def)
  have same: "tp_workqueue (pool_stop tp1) = tp_workqueue tp1" "tp_workers (pool_stop tp1) = tp_workers tp1"
    "busy (pool_stop tp1) = busy tp1"
    by (simp_all add: pool_stop_def busy_def)
  note s1 = pool_trace_sound[OF new(1) assms(3)]
  note s2 = pool_trace_sound[OF stop(3) assms(5)]
  note after = trace_after_stop[OF assms(5) _ stop(1)]
  have af: "leaves_last tp2" "tp_stop tp2" "length es2 \<le> work_left (pool_stop tp1)" "acc2 = []"
    using after assms(4) stop(2) by (simp_all add: list_all_iff)
  have "work_left (pool_stop tp1) \<le> 2 * length (tp_workqueue tp1) + 2 * nat n"
    using work_left_bound[of "pool_stop tp1"] s1 new(7) by (simp add: same)
  moreover have "tp_workqueue tp2 = [] \<and> busy tp2 = {#}" if "joined tp2"
  proof -
    have "tp_workers tp2 \<noteq> []" using s1 s2 new(7,8) same by auto
    with that have w: "tp_workers tp2 = replicate (length (tp_workers tp2)) Gone" "Gone \<in> set (tp_workers tp2)"
      by (auto simp: joined_def intro!: replicate_eqI) (metis list.set_intros(1) neq_Nil_conv singletonD subsetD)
    have "busy tp2 = {#}" using that by (force simp: busy_def joined_def)
    with w(2) af(1) show ?thesis by (simp add: leaves_last_def)
  qed
  ultimately show ?thesis
    using af some_worker_can_go_on[OF af(2)] s1 s2 new(4,5) by (auto simp: same)
qed

theorem pool_shuts_down_witness:
  "\<exists>tp0 acc out fin tp1 acc2 out2 fin2 tp2. threadpool_new 0 1 2 = Inr tp0 \<and>
     pool_trace [Appended 5, Started 0, Appended 6] tp0 = Some (acc, out, fin, tp1) \<and>
     pool_trace [Finished 0, Started 0, Finished 0, Left 0] (pool_stop tp1) = Some (acc2, out2, fin2, tp2) \<and>
     joined tp2 \<and> acc = [5, 6] \<and> tp_workqueue tp2 = [] \<and> acc = out @ out2"
proof -
  obtain tp0 where n: "threadpool_new 0 1 2 = Inr tp0" by (simp add: threadpool_new_def)
  obtain out fin tp1 where t: "pool_trace [Appended 5, Started 0, Appended 6] tp0 = Some ([5, 6], out, fin, tp1)"
    and tp1: "tp_workqueue tp1 = [6]" "tp_workers tp1 = [Busy 5]" "\<not> tp_stop tp1"
    using n by (auto simp: threadpool_new_def append_p_def run_take_def accepted_by_def)
  obtain acc2 out2 fin2 tp2 where
    u: "pool_trace [Finished 0, Started 0, Finished 0, Left 0] (pool_stop tp1) = Some (acc2, out2, fin2, tp2)" "joined tp2"
    using tp1 by (auto simp: pool_stop_def run_take_def joined_def)
  have "Stopped \<notin> set [Appended 5, Started 0, Appended 6]" by simp
  moreover have "list_all by_worker [Finished 0, Started 0, Finished 0, Left 0]" by (simp add: by_worker_def)
  ultimately have "tp_workqueue tp2 = [] \<and> [5, 6] = out @ out2"
    using pool_shuts_down[OF n _ t _ u(1)] u(2) by blast
  with n t u show ?thesis by blast
qed

text \<open>The hand-over of a request whose input or output succeeded: the main loop never closes the
  connection, it always gets on once the worker has, and it leaves both flags clear for the next event.\<close>

theorem handover_success:
  assumes "hand_run es (hand_start (AtIo True)) = Some h"
  shows "\<not> h_closed h \<and> (h_main h = MainDone \<or> (\<exists>e h'. hand_do e h = Some h')) \<and>
    (h_main h = MainDone \<longrightarrow> \<not> h_improv h \<and> \<not> h_timer_flag h)"
proof -
  have inv: "success_inv h"
    using success_inv_run[OF assms] by (simp add: success_inv_def hand_start_def)
  have "\<exists>e h'. hand_do e h = Some h'" if "h_main h \<noteq> MainDone"
  proof (cases "h_worker h")
    case (AtIo ok)
    then show ?thesis by (intro exI[of _ DoIo]) simp
  next
    case (AtImprov ok)
    then show ?thesis by (intro exI[of _ SetImprov]) simp
  next
    case WorkerDone
    with that inv show ?thesis
      by (intro exI[of _ "case h_main h of AtWait \<Rightarrow> SeeImprov | AtCheck \<Rightarrow> CheckFlag | _ \<Rightarrow> ClearImprov"])
        (auto simp: success_inv_def split: main_point.splits)
  qed (use inv in \<open>auto simp: success_inv_def\<close>)
  with inv show ?thesis by (auto simp: success_inv_def)
qed

theorem handover_success_witness:
  "\<exists>h. hand_run [DoIo, SetImprov, SeeImprov, CheckFlag, ClearImprov] (hand_start (AtIo True)) = Some h \<and>
     h_main h = MainDone \<and> \<not> h_closed h \<and> \<not> h_improv h"
proof -
  obtain h where h: "hand_run [DoIo, SetImprov, SeeImprov, CheckFlag, ClearImprov] (hand_start (AtIo True)) = Some h"
    "h_main h = MainDone"
    by (simp add: hand_start_def)
  with handover_success[OF h(1)] show ?thesis by blast
qed

text \<open>The hand-over of a request whose input or output failed can go wrong: the worker stores \<open>improv\<close> before
  \<open>timer_flag\<close>, so the main loop may read the second flag too early, go on without closing the connection and
  leave the flag set. The other order of events closes it.\<close>

theorem handover_misses_failure:
  "(\<exists>h. hand_run [DoIo, SetImprov, SeeImprov, CheckFlag, ClearImprov, SetTimerFlag] (hand_start (AtIo False)) = Some h \<and>
      h_main h = MainDone \<and> h_worker h = WorkerDone \<and> \<not> h_closed h \<and> h_timer_flag h) \<and>
   (\<exists>h. hand_run [DoIo, SetImprov, SetTimerFlag, SeeImprov, CheckFlag, ClearFlag, ClearImprov] (hand_start (AtIo False)) = Some h \<and>
      h_main h = MainDone \<and> h_worker h = WorkerDone \<and> h_closed h \<and> \<not> h_timer_flag h)"
  by (simp add: hand_start_def)

text \<open>In reactor mode a full work queue stops the server: \<open>append\<close> refuses the request, its result is not
  looked at, no worker will ever set \<open>improv\<close>, and \<open>wait_improv\<close> waits for it forever.\<close>

theorem full_queue_hangs:
  assumes "int (length (tp_workqueue tp)) \<ge> tp_max_requests tp"
  shows "append_state r state tp users = (False, tp, users) \<and>
    (\<forall>es h. hand_run es (hand_start Refused) = Some h \<longrightarrow> h_main h = AtWait \<and> (\<forall>e. hand_do e h = None))"
proof (intro conjI allI impI)
  show "append_state r state tp users = (False, tp, users)"
    using assms by (simp add: append_state_def)
next
  fix es h
  assume "hand_run es (hand_start Refused) = Some h"
  then have h: "h = hand_start Refused" by (simp add: refused_run)
  then show "h_main h = AtWait" by (simp add: hand_start_def)
  show "hand_do e h = None" for e
    by (cases e) (simp_all add: h hand_start_def)
qed

theorem full_queue_hangs_witness:
  "\<exists>tp. threadpool_new 1 1 1 = Inr tp \<and> tp_workqueue (snd (append_p 8 tp)) = [8] \<and>
     (\<forall>users. append_state 9 0 (snd (append_p 8 tp)) users = (False, snd (append_p 8 tp), users))"
  using full_queue_hangs[of "snd (append_p 8 (projr (threadpool_new 1 1 1)))" 9 0]
  by (simp add: threadpool_new_def append_p_def)

end
