(* ===== verification/Timer_Heap.thy ===== *)
theory Timer_Heap
  imports Prelude "HOL-Library.Multiset"
begin

text \<open>
  The binary heap behind \<^verbatim>\<open>std::priority_queue<util_timer*, std::vector<util_timer*>, cmp_expire>\<close> of
  \<^verbatim>\<open>src/timer/lst_timer.h\<close>: \<^verbatim>\<open>std::push_heap\<close> and \<^verbatim>\<open>std::pop_heap\<close> on the vector, with the
  comparison \<^verbatim>\<open>cmp_expire\<close>, which puts the smallest key on top. The key of an element is looked up through
  the pointer at every comparison, so it is the argument \<open>key\<close>. The vector is rearranged as in libstdc++.
\<close>

section \<open>The contract of a priority queue\<close>

locale priority_queue =
  fixes key :: "'a \<Rightarrow> int"
    and ordered :: "'q \<Rightarrow> bool"
    and elems :: "'q \<Rightarrow> 'a multiset"
    and top :: "'q \<Rightarrow> 'a"
    and push :: "'a \<Rightarrow> 'q \<Rightarrow> 'q"
    and pop :: "'q \<Rightarrow> 'q"
  assumes push_law: "ordered q \<Longrightarrow> ordered (push x q) \<and> elems (push x q) = add_mset x (elems q)"
    and pop_law: "ordered q \<Longrightarrow> elems q \<noteq> {#} \<Longrightarrow> ordered (pop q) \<and> elems q = add_mset (top q) (elems (pop q))"
    and top_law: "ordered q \<Longrightarrow> x \<in># elems q \<Longrightarrow> key (top q) \<le> key x"
begin

lemma none_due:
  assumes "ordered q" "cur < key (top q)"
  shows "\<forall>x \<in># elems q. cur < key x"
  using top_law[OF assms(1)] assms(2) by (meson less_le_trans)

lemma push_all: "ordered q \<Longrightarrow> ordered (foldl (\<lambda>q x. push x q) q xs) \<and> elems (foldl (\<lambda>q x. push x q) q xs) = elems q + mset xs"
  by (induction xs arbitrary: q) (simp_all add: push_law)

end

section \<open>Heap operations\<close>

text \<open>\<^verbatim>\<open>cmp_expire()(a, b)\<close>\<close>

definition cmp_expire :: "('a \<Rightarrow> int) \<Rightarrow> 'a \<Rightarrow> 'a \<Rightarrow> bool" where
  "cmp_expire key a b \<longleftrightarrow> key a > key b"

definition parent :: "nat \<Rightarrow> nat" where
  "parent i = (i - 1) div 2"

lemma parent_less: "0 < i \<Longrightarrow> parent i < i"
  by (simp add: parent_def)

lemma parent_eq: "0 < j \<Longrightarrow> parent j = i \<longleftrightarrow> j = 2 * i + 1 \<or> j = 2 * i + 2"
  unfolding parent_def by presburger

function sift_up :: "('a \<Rightarrow> int) \<Rightarrow> 'a list \<Rightarrow> nat \<Rightarrow> 'a \<Rightarrow> 'a list" where
  "sift_up key xs i v =
     (if 0 < i \<and> cmp_expire key (xs ! parent i) v
      then sift_up key (xs[i := xs ! parent i]) (parent i) v
      else xs[i := v])"
  by pat_completeness auto
termination
  by (relation "measure (\<lambda>(key, xs, i, v). i)") (auto simp: parent_less)

declare sift_up.simps [simp del]

text \<open>The way of the hole down to a leaf.\<close>

function sift_down :: "('a \<Rightarrow> int) \<Rightarrow> 'a list \<Rightarrow> nat \<Rightarrow> 'a list \<times> nat" where
  "sift_down key xs i =
     (if 2 * i + 2 < length xs
      then (let c = (if cmp_expire key (xs ! (2 * i + 2)) (xs ! (2 * i + 1)) then 2 * i + 1 else 2 * i + 2)
            in sift_down key (xs[i := xs ! c]) c)
      else if 2 * i + 1 < length xs then (xs[i := xs ! (2 * i + 1)], 2 * i + 1)
      else (xs, i))"
  by pat_completeness auto
termination
  by (relation "measure (\<lambda>(key, xs, i). length xs - i)") auto

declare sift_down.simps [simp del]

definition pq_push :: "('a \<Rightarrow> int) \<Rightarrow> 'a \<Rightarrow> 'a list \<Rightarrow> 'a list" where
  "pq_push key x xs = sift_up key (xs @ [x]) (length xs) x"

definition pq_pop :: "('a \<Rightarrow> int) \<Rightarrow> 'a list \<Rightarrow> 'a list" where
  "pq_pop key xs =
     (if length xs \<le> 1 then []
      else (case sift_down key (butlast xs) 0 of (ys, hole) \<Rightarrow> sift_up key ys hole (last xs)))"

section \<open>What they do to the elements\<close>

lemma mset_update_swap:
  "i < length xs \<Longrightarrow> j < length xs \<Longrightarrow> i \<noteq> j \<Longrightarrow> mset (xs[i := xs ! j, j := v]) = mset (xs[i := v])"
proof -
  assume a: "i < length xs" "j < length xs" "i \<noteq> j"
  have "mset ((xs[i := v])[i := (xs[i := v]) ! j, j := (xs[i := v]) ! i]) = mset (xs[i := v])"
    using a by (intro mset_swap) simp_all
  then show ?thesis using a by (simp add: list_update_swap)
qed

lemma sift_up_mset: "i < length xs \<Longrightarrow> mset (sift_up key xs i v) = mset (xs[i := v])"
proof (induction key xs i v rule: sift_up.induct)
  case (1 key xs i v)
  show ?case
  proof (cases "0 < i \<and> cmp_expire key (xs ! parent i) v")
    case True
    then have p: "parent i < i" by (simp add: parent_less)
    have "mset (sift_up key xs i v) = mset (xs[i := xs ! parent i, parent i := v])"
      using 1(1)[OF True] 1(2) True p by (subst sift_up.simps) simp
    with mset_update_swap[of i xs "parent i" v] 1(2) p show ?thesis by simp
  next
    case False
    then show ?thesis by (subst sift_up.simps) auto
  qed
qed

lemma sift_up_length [simp]: "length (sift_up key xs i v) = length xs"
proof (induction key xs i v rule: sift_up.induct)
  case (1 key xs i v)
  then show ?case by (subst sift_up.simps) simp
qed

lemma sift_down_props:
  "i < length xs \<Longrightarrow> sift_down key xs i = (ys, h) \<Longrightarrow>
     length ys = length xs \<and> h < length xs \<and> length xs \<le> 2 * h + 1 \<and> mset (ys[h := v]) = mset (xs[i := v])"
proof (induction key xs i arbitrary: ys h rule: sift_down.induct)
  case (1 key xs i)
  define c where "c = (if cmp_expire key (xs ! (2 * i + 2)) (xs ! (2 * i + 1)) then 2 * i + 1 else 2 * i + 2)"
  show ?case
  proof (cases "2 * i + 2 < length xs")
    case True
    then have c: "c < length xs" "i \<noteq> c" by (auto simp: c_def)
    have "sift_down key (xs[i := xs ! c]) c = (ys, h)"
      using 1(3) True unfolding sift_down.simps[of key xs i] by (simp add: c_def Let_def split: if_splits)
    from 1(1)[OF True c_def _ this] c mset_update_swap[OF 1(2) c] show ?thesis by simp
  next
    case False
    then show ?thesis
      using 1(2,3) mset_update_swap[of i xs "2 * i + 1" v] unfolding sift_down.simps[of key xs i]
      by (auto split: if_splits)
  qed
qed

lemma pq_push_mset [simp]: "mset (pq_push key x xs) = add_mset x (mset xs)"
  using sift_up_mset[of "length xs" "xs @ [x]" key x] by (simp add: pq_push_def)

lemma pq_push_length [simp]: "length (pq_push key x xs) = Suc (length xs)"
  by (simp add: pq_push_def)

lemma pq_pop_mset: "xs \<noteq> [] \<Longrightarrow> mset xs = add_mset (hd xs) (mset (pq_pop key xs))"
proof (cases "length xs \<le> 1")
  case True
  assume "xs \<noteq> []"
  with True obtain x where "xs = [x]" by (cases xs) auto
  then show ?thesis by (simp add: pq_pop_def)
next
  case False
  then obtain x y ys where xs: "xs = x # ys @ [y]"
    by (metis One_nat_def append_butlast_last_id impossible_Cons length_0_conv length_Cons list.exhaust nat_le_linear)
  obtain zs h where d: "sift_down key (x # ys) 0 = (zs, h)" by force
  from sift_down_props[OF _ d, of y] have "h < length zs" "mset (zs[h := y]) = mset (y # ys)" by simp_all
  then have "mset (pq_pop key xs) = mset (y # ys)"
    using False d sift_up_mset[of h zs key y] by (simp add: pq_pop_def xs butlast_append)
  then show ?thesis by (simp add: xs)
qed

lemma pq_pop_length [simp]: "length (pq_pop key xs) = length xs - 1"
proof (cases "xs = []")
  case False
  then show ?thesis
    by (metis add_diff_cancel_left' mset_eq_length pq_pop_mset size_add_mset size_mset plus_1_eq_Suc)
qed (simp add: pq_pop_def)

section \<open>Heap order\<close>

definition is_heap :: "('a \<Rightarrow> int) \<Rightarrow> 'a list \<Rightarrow> bool" where
  "is_heap key xs \<longleftrightarrow> (\<forall>i < length xs. 0 < i \<longrightarrow> key (xs ! parent i) \<le> key (xs ! i))"

text \<open>The order holds everywhere but around the hole \<open>i\<close>.\<close>

definition hole_heap :: "('a \<Rightarrow> int) \<Rightarrow> 'a list \<Rightarrow> nat \<Rightarrow> bool" where
  "hole_heap key xs i \<longleftrightarrow>
     (\<forall>j < length xs. 0 < j \<and> j \<noteq> i \<and> parent j \<noteq> i \<longrightarrow> key (xs ! parent j) \<le> key (xs ! j)) \<and>
     (\<forall>j < length xs. 0 < j \<and> 0 < i \<and> parent j = i \<longrightarrow> key (xs ! parent i) \<le> key (xs ! j))"

lemma sift_up_heap:
  "i < length xs \<Longrightarrow> hole_heap key xs i \<Longrightarrow> (\<forall>j < length xs. 0 < j \<and> parent j = i \<longrightarrow> key v \<le> key (xs ! j)) \<Longrightarrow>
     is_heap key (sift_up key xs i v)"
proof (induction key xs i v rule: sift_up.induct)
  case (1 key xs i v)
  show ?case
  proof (cases "0 < i \<and> cmp_expire key (xs ! parent i) v")
    case True
    let ?p = "parent i" and ?ys = "xs[i := xs ! parent i]"
    have p: "?p < i" using True by (simp add: parent_less)
    have pp: "0 < ?p \<Longrightarrow> parent ?p < ?p" by (rule parent_less)
    have up: "0 < ?p \<Longrightarrow> key (xs ! parent ?p) \<le> key (xs ! ?p)"
      using 1(2,3) p pp by (auto simp: hole_heap_def)
    have kids: "key (xs ! ?p) \<le> key (?ys ! j)" if "j < length xs" "0 < j" "parent j = ?p" for j
      using that 1(2,3) p by (cases "j = i") (auto simp: hole_heap_def)
    have "hole_heap key ?ys ?p"
      unfolding hole_heap_def
    proof (intro conjI allI impI)
      fix j assume j: "j < length ?ys" "0 < j \<and> j \<noteq> ?p \<and> parent j \<noteq> ?p"
      then have "j \<noteq> i" "parent j < length xs" using parent_less[of j] by auto
      with j 1(2,3) True show "key (?ys ! parent j) \<le> key (?ys ! j)"
        by (cases "parent j = i") (auto simp: hole_heap_def)
    next
      fix j assume j: "j < length ?ys" "0 < j \<and> 0 < ?p \<and> parent j = ?p"
      then have "key (xs ! parent ?p) \<le> key (?ys ! j)"
        using up kids[of j] by force
      then show "key (?ys ! parent ?p) \<le> key (?ys ! j)"
        using p pp j by (simp add: nth_list_update)
    qed
    moreover have "\<forall>j < length ?ys. 0 < j \<and> parent j = ?p \<longrightarrow> key v \<le> key (?ys ! j)"
      using kids True by (force simp: cmp_expire_def)
    ultimately have "is_heap key (sift_up key ?ys ?p v)"
      using 1(1)[OF True] 1(2) p by simp
    with True show ?thesis by (subst sift_up.simps) simp
  next
    case False
    have "is_heap key (xs[i := v])"
      unfolding is_heap_def
    proof (intro allI impI)
      fix j assume j: "j < length (xs[i := v])" "0 < j"
      then have pj: "parent j < j" "parent j < length xs" using parent_less[of j] by auto
      consider "j = i" | "j \<noteq> i" "parent j = i" | "j \<noteq> i" "parent j \<noteq> i" by blast
      then show "key (xs[i := v] ! parent j) \<le> key (xs[i := v] ! j)"
        using 1(2-4) False j pj by cases (auto simp: cmp_expire_def hole_heap_def nth_list_update)
    qed
    with False show ?thesis by (subst sift_up.simps) auto
  qed
qed

lemma sift_down_heap:
  "i < length xs \<Longrightarrow> hole_heap key xs i \<Longrightarrow> sift_down key xs i = (ys, h) \<Longrightarrow> hole_heap key ys h"
proof (induction key xs i arbitrary: ys h rule: sift_down.induct)
  case (1 key xs i)
  have step: "hole_heap key (xs[i := xs ! c]) c"
    if c: "c < length xs" "0 < c" "parent c = i"
      and least: "\<And>j. j < length xs \<Longrightarrow> 0 < j \<Longrightarrow> parent j = i \<Longrightarrow> key (xs ! c) \<le> key (xs ! j)" for c
    unfolding hole_heap_def
  proof (intro conjI allI impI)
    fix j assume j: "j < length (xs[i := xs ! c])" "0 < j \<and> j \<noteq> c \<and> parent j \<noteq> c"
    then have pj: "parent j < j" "parent j < length xs" using parent_less[of j] by auto
    consider "j = i" | "j \<noteq> i" "parent j = i" | "j \<noteq> i" "parent j \<noteq> i" by blast
    then show "key (xs[i := xs ! c] ! parent j) \<le> key (xs[i := xs ! c] ! j)"
      using 1(2,3) j pj c least[of j] by cases (auto simp: hole_heap_def)
  next
    fix j assume j: "j < length (xs[i := xs ! c])" "0 < j \<and> 0 < c \<and> parent j = c"
    then have "j \<noteq> i" "parent j \<noteq> i" using parent_less[of j] parent_less[of c] c by auto
    with j 1(2,3) c show "key (xs[i := xs ! c] ! parent c) \<le> key (xs[i := xs ! c] ! j)"
      by (auto simp: hole_heap_def)
  qed
  define c where "c = (if cmp_expire key (xs ! (2 * i + 2)) (xs ! (2 * i + 1)) then 2 * i + 1 else 2 * i + 2)"
  show ?case
  proof (cases "2 * i + 2 < length xs")
    case True
    have c: "c < length xs" "0 < c" "parent c = i"
      using True by (auto simp: c_def parent_def)
    have d: "sift_down key (xs[i := xs ! c]) c = (ys, h)"
      using 1(4) True unfolding sift_down.simps[of key xs i] by (simp add: c_def Let_def split: if_splits)
    have "hole_heap key (xs[i := xs ! c]) c"
      by (rule step[OF c]) (auto simp: parent_eq c_def cmp_expire_def)
    from 1(1)[OF True c_def _ this d] c show ?thesis by simp
  next
    case False
    show ?thesis
    proof (cases "2 * i + 1 < length xs")
      case True
      have "hole_heap key (xs[i := xs ! (2 * i + 1)]) (2 * i + 1)"
        by (rule step) (use True False in \<open>auto simp: parent_eq\<close>)
      with 1(4) True False show ?thesis unfolding sift_down.simps[of key xs i] by auto
    next
      case False
      with 1(3,4) show ?thesis unfolding sift_down.simps[of key xs i] by simp
    qed
  qed
qed

lemma pq_push_heap:
  assumes "is_heap key xs"
  shows "is_heap key (pq_push key x xs)"
  unfolding pq_push_def
proof (rule sift_up_heap)
  have leaf: "parent j \<noteq> length xs" if "j < Suc (length xs)" "0 < j" for j
    using that parent_less[of j] by simp
  show "hole_heap key (xs @ [x]) (length xs)"
    using assms leaf by (auto simp: hole_heap_def is_heap_def nth_append dest: parent_less)
  show "\<forall>j<length (xs @ [x]). 0 < j \<and> parent j = length xs \<longrightarrow> key x \<le> key ((xs @ [x]) ! j)"
    using leaf by auto
qed simp

lemma pq_pop_heap:
  assumes "is_heap key xs"
  shows "is_heap key (pq_pop key xs)"
proof (cases "length xs \<le> 1")
  case True
  then show ?thesis by (simp add: pq_pop_def is_heap_def)
next
  case False
  let ?ys = "butlast xs"
  obtain zs h where d: "sift_down key ?ys 0 = (zs, h)" by force
  have n: "0 < length ?ys" using False by simp
  have "hole_heap key ?ys 0"
    unfolding hole_heap_def
  proof (intro conjI allI impI)
    fix j assume j: "j < length ?ys" "0 < j \<and> j \<noteq> 0 \<and> parent j \<noteq> 0"
    then have "parent j < length ?ys" using parent_less[of j] by simp
    with j assms show "key (?ys ! parent j) \<le> key (?ys ! j)"
      by (simp add: nth_butlast is_heap_def)
  qed simp
  from sift_down_heap[OF n this d] sift_down_props[OF n d]
  have z: "hole_heap key zs h" "h < length zs" "length zs \<le> 2 * h + 1" by simp_all
  have leaf: "parent j \<noteq> h" if "j < length zs" "0 < j" for j
    using that z(3) parent_eq[of j h] by auto
  have "is_heap key (sift_up key zs h (last xs))"
    using z(1,2) leaf by (intro sift_up_heap) auto
  with False d show ?thesis by (simp add: pq_pop_def)
qed

lemma heap_top:
  assumes "is_heap key xs" "x \<in> set xs"
  shows "key (hd xs) \<le> key x"
proof -
  have "key (xs ! 0) \<le> key (xs ! i)" if "i < length xs" for i
    using that
  proof (induction i rule: less_induct)
    case (less i)
    show ?case
    proof (cases "i = 0")
      case False
      then have "parent i < i" by (simp add: parent_less)
      with less False assms(1) show ?thesis unfolding is_heap_def by (meson dual_order.strict_trans le_less_trans neq0_conv order_trans)
    qed simp
  qed
  moreover have "hd xs = xs ! 0" using assms(2) by (cases xs) simp_all
  ultimately show ?thesis using assms(2) by (auto simp: in_set_conv_nth)
qed

interpretation pq: priority_queue key "is_heap key" mset hd "pq_push key" "pq_pop key" for key :: "'a \<Rightarrow> int"
proof
  fix xs :: "'a list" and x
  assume h: "is_heap key xs"
  then show "is_heap key (pq_push key x xs) \<and> mset (pq_push key x xs) = add_mset x (mset xs)"
    by (simp add: pq_push_heap)
  show "x \<in># mset xs \<Longrightarrow> key (hd xs) \<le> key x"
    using heap_top[OF h] by simp
next
  fix xs :: "'a list"
  assume "is_heap key xs" "mset xs \<noteq> {#}"
  then show "is_heap key (pq_pop key xs) \<and> mset xs = add_mset (hd xs) (mset (pq_pop key xs))"
    using pq_pop_heap[of key xs] pq_pop_mset[of xs key] by simp
qed

lemma is_heap_cong: "(\<And>x. x \<in> set xs \<Longrightarrow> key x = key' x) \<Longrightarrow> is_heap key xs = is_heap key' xs"
  unfolding is_heap_def by (metis nth_mem parent_less less_trans)

end
