(* ===== verification/Timers.thy ===== *)
theory Timers
  imports Timer_Heap
begin

text \<open>
  \<^verbatim>\<open>sort_timer_lst\<close> of \<^verbatim>\<open>src/timer/lst_timer.h\<close> and \<^verbatim>\<open>src/timer/lst_timer.cpp\<close>. Timers are objects on the
  heap that the list, the table of clients and the server share by pointer, so they live in the
  explicit store \<open>tl_mem\<close>: an address that is not in it was freed, and an operation that would follow such a
  pointer is \<open>None\<close>. A null pointer is the address \<open>None\<close>. Every timer of the program has the same callback
  \<^verbatim>\<open>cb_func\<close>; \<open>tick\<close> returns the clients it is called for, in order.
\<close>

section \<open>State\<close>

record util_timer =
  tm_expire :: int
  tm_user_data :: nat
  tm_cancelled :: bool

record sort_timer_lst =
  tl_heap :: "nat list"
  tl_cancelled_count :: int
  tl_mem :: "nat \<rightharpoonup> util_timer"
  tl_next :: nat

definition no_timers :: sort_timer_lst where
  "no_timers = \<lparr>tl_heap = [], tl_cancelled_count = 0, tl_mem = Map.empty, tl_next = 0\<rparr>"

text \<open>What \<^verbatim>\<open>cmp_expire\<close> reads through the pointer.\<close>

definition expire_of :: "sort_timer_lst \<Rightarrow> nat \<Rightarrow> int" where
  "expire_of s a = (case tl_mem s a of Some t \<Rightarrow> tm_expire t | None \<Rightarrow> 0)"

text \<open>\<^verbatim>\<open>new util_timer\<close> with its fields assigned\<close>

definition new_timer :: "int \<Rightarrow> nat \<Rightarrow> sort_timer_lst \<Rightarrow> nat \<times> sort_timer_lst" where
  "new_timer expire user_data s =
     (tl_next s,
      s\<lparr>tl_mem := (tl_mem s)(tl_next s \<mapsto> \<lparr>tm_expire = expire, tm_user_data = user_data, tm_cancelled = False\<rparr>),
        tl_next := tl_next s + 1\<rparr>)"

definition heap_push :: "nat \<Rightarrow> sort_timer_lst \<Rightarrow> sort_timer_lst" where
  "heap_push a s = s\<lparr>tl_heap := pq_push (expire_of s) a (tl_heap s)\<rparr>"

definition heap_pop :: "sort_timer_lst \<Rightarrow> sort_timer_lst" where
  "heap_pop s = s\<lparr>tl_heap := pq_pop (expire_of s) (tl_heap s)\<rparr>"

definition delete_timer :: "nat \<Rightarrow> sort_timer_lst \<Rightarrow> sort_timer_lst" where
  "delete_timer a s = s\<lparr>tl_mem := (tl_mem s)(a := None)\<rparr>"

section \<open>Operations\<close>

definition add_timer :: "nat option \<Rightarrow> sort_timer_lst \<Rightarrow> sort_timer_lst" where
  "add_timer timer s = (case timer of None \<Rightarrow> s | Some a \<Rightarrow> heap_push a s)"

text \<open>\<^verbatim>\<open>purge\<close>: take everything off the heap, free the cancelled timers, push the others again.\<close>

function purge_loop :: "sort_timer_lst \<Rightarrow> nat list \<Rightarrow> (sort_timer_lst \<times> nat list) option" where
  "purge_loop s live =
     (if tl_heap s = [] then Some (s, live)
      else
        (let a = hd (tl_heap s); s1 = heap_pop s in
         case tl_mem s a of
           None \<Rightarrow> None
         | Some t \<Rightarrow>
             if tm_cancelled t then purge_loop (delete_timer a s1) live else purge_loop s1 (live @ [a])))"
  by pat_completeness auto
termination
  by (relation "measure (\<lambda>(s, live). length (tl_heap s))") (auto simp: heap_pop_def delete_timer_def)

declare purge_loop.simps [simp del]

definition purge :: "sort_timer_lst \<Rightarrow> sort_timer_lst option" where
  "purge s =
     (case purge_loop s [] of
        None \<Rightarrow> None
      | Some (s1, live) \<Rightarrow> Some ((foldl (\<lambda>s a. heap_push a s) s1 live)\<lparr>tl_cancelled_count := 0\<rparr>))"

definition adjust_timer :: "nat option \<Rightarrow> sort_timer_lst \<Rightarrow> (nat option \<times> sort_timer_lst) option" where
  "adjust_timer timer s =
     (case timer of
        None \<Rightarrow> Some (None, s)
      | Some a \<Rightarrow>
          (case tl_mem s a of
             None \<Rightarrow> None
           | Some t \<Rightarrow>
               (let s1 = s\<lparr>tl_mem := (tl_mem s)(a \<mapsto> t\<lparr>tm_cancelled := True\<rparr>),
                           tl_cancelled_count := tl_cancelled_count s + 1\<rparr>;
                    (fresh, s2) = new_timer (tm_expire t) (tm_user_data t) s1;
                    s3 = heap_push fresh s2
                in map_option (\<lambda>s4. (Some fresh, s4)) (if tl_cancelled_count s3 \<ge> 512 then purge s3 else Some s3))))"

definition del_timer :: "nat option \<Rightarrow> sort_timer_lst \<Rightarrow> sort_timer_lst option" where
  "del_timer timer s =
     (case timer of
        None \<Rightarrow> Some s
      | Some a \<Rightarrow>
          (case tl_mem s a of
             None \<Rightarrow> None
           | Some t \<Rightarrow>
               Some (s\<lparr>tl_mem := (tl_mem s)(a \<mapsto> t\<lparr>tm_cancelled := True\<rparr>),
                       tl_cancelled_count := tl_cancelled_count s + 1\<rparr>)))"

text \<open>The loop of \<^verbatim>\<open>tick\<close> at time \<open>cur\<close>; the first component are the clients whose callback is called.\<close>

function tick_loop :: "int \<Rightarrow> sort_timer_lst \<Rightarrow> (nat list \<times> sort_timer_lst) option" where
  "tick_loop cur s =
     (if tl_heap s = [] then Some ([], s)
      else
        (let a = hd (tl_heap s) in
         case tl_mem s a of
           None \<Rightarrow> None
         | Some t \<Rightarrow>
             if tm_expire t > cur then Some ([], s)
             else
               (let s1 = delete_timer a (heap_pop s) in
                if tm_cancelled t then tick_loop cur (s1\<lparr>tl_cancelled_count := tl_cancelled_count s1 - 1\<rparr>)
                else map_option (\<lambda>(fired, s2). (tm_user_data t # fired, s2)) (tick_loop cur s1))))"
  by pat_completeness auto
termination tick_loop
  by (relation "measure (\<lambda>(cur, s). length (tl_heap s))") (auto simp: heap_pop_def delete_timer_def)

declare tick_loop.simps [simp del]

definition tick :: "int \<Rightarrow> sort_timer_lst \<Rightarrow> (nat list \<times> sort_timer_lst) option" where
  "tick cur s =
     (if tl_heap s = [] then Some ([], s)
      else (case tick_loop cur s of
              None \<Rightarrow> None
            | Some (fired, s1) \<Rightarrow>
                map_option (\<lambda>s2. (fired, s2)) (if tl_cancelled_count s1 \<ge> 512 then purge s1 else Some s1)))"

section \<open>Invariant and abstraction\<close>

text \<open>The list owns every timer once and counts the cancelled ones.\<close>

definition cancelled_at :: "sort_timer_lst \<Rightarrow> nat \<Rightarrow> bool" where
  "cancelled_at s a = (case tl_mem s a of Some t \<Rightarrow> tm_cancelled t | None \<Rightarrow> False)"

definition timers_ok :: "sort_timer_lst \<Rightarrow> bool" where
  "timers_ok s \<longleftrightarrow> distinct (tl_heap s) \<and> set (tl_heap s) = dom (tl_mem s) \<and> (\<forall>a \<in> dom (tl_mem s). a < tl_next s) \<and>
     tl_cancelled_count s = int (size (filter_mset (cancelled_at s) (mset (tl_heap s))))"

definition in_order :: "sort_timer_lst \<Rightarrow> bool" where
  "in_order s \<longleftrightarrow> is_heap (expire_of s) (tl_heap s)"

text \<open>The timers that are still to fire: when, and for which client.\<close>

definition due_of :: "sort_timer_lst \<Rightarrow> nat \<Rightarrow> int \<times> nat" where
  "due_of s a = (case tl_mem s a of Some t \<Rightarrow> (tm_expire t, tm_user_data t) | None \<Rightarrow> (0, 0))"

definition waiting :: "sort_timer_lst \<Rightarrow> (int \<times> nat) multiset" where
  "waiting s = image_mset (due_of s) (filter_mset (\<lambda>a. \<not> cancelled_at s a) (mset (tl_heap s)))"

lemma fst_due_of: "fst (due_of s a) = expire_of s a"
  by (simp add: due_of_def expire_of_def split: option.splits)

lemma frame_off:
  assumes "a \<notin># A"
  shows "filter_mset (cancelled_at (s\<lparr>tl_mem := (tl_mem s)(a := x)\<rparr>)) A = filter_mset (cancelled_at s) A"
    and "image_mset (due_of (s\<lparr>tl_mem := (tl_mem s)(a := x)\<rparr>)) A = image_mset (due_of s) A"
    and "filter_mset (\<lambda>b. \<not> cancelled_at (s\<lparr>tl_mem := (tl_mem s)(a := x)\<rparr>) b) A = filter_mset (\<lambda>b. \<not> cancelled_at s b) A"
proof -
  have "b \<noteq> a" if "b \<in># A" for b using that assms by auto
  then show "filter_mset (cancelled_at (s\<lparr>tl_mem := (tl_mem s)(a := x)\<rparr>)) A = filter_mset (cancelled_at s) A"
    "image_mset (due_of (s\<lparr>tl_mem := (tl_mem s)(a := x)\<rparr>)) A = image_mset (due_of s) A"
    "filter_mset (\<lambda>b. \<not> cancelled_at (s\<lparr>tl_mem := (tl_mem s)(a := x)\<rparr>) b) A = filter_mset (\<lambda>b. \<not> cancelled_at s b) A"
    by (auto intro!: filter_mset_cong image_mset_cong simp: cancelled_at_def due_of_def)
qed

lemma of_heap [simp]:
  "cancelled_at (s\<lparr>tl_heap := h\<rparr>) = cancelled_at s" "due_of (s\<lparr>tl_heap := h\<rparr>) = due_of s"
  "expire_of (s\<lparr>tl_heap := h\<rparr>) = expire_of s"
  "cancelled_at (s\<lparr>tl_cancelled_count := n\<rparr>) = cancelled_at s" "due_of (s\<lparr>tl_cancelled_count := n\<rparr>) = due_of s"
  "expire_of (s\<lparr>tl_cancelled_count := n\<rparr>) = expire_of s"
  "cancelled_at (s\<lparr>tl_next := m\<rparr>) = cancelled_at s" "due_of (s\<lparr>tl_next := m\<rparr>) = due_of s"
  "expire_of (s\<lparr>tl_next := m\<rparr>) = expire_of s"
  by (simp_all add: fun_eq_iff cancelled_at_def due_of_def expire_of_def)

text \<open>Taking the top timer off the heap and freeing it.\<close>

lemma take_top:
  assumes "timers_ok s" "tl_heap s \<noteq> []"
  shows "mset (tl_heap s) = add_mset (hd (tl_heap s)) (mset (tl_heap (heap_pop s)))"
    and "hd (tl_heap s) \<notin># mset (tl_heap (heap_pop s))"
    and "distinct (tl_heap (heap_pop s))"
    and "set (tl_heap (heap_pop s)) = dom (tl_mem s) - {hd (tl_heap s)}"
    and "\<exists>t. tl_mem s (hd (tl_heap s)) = Some t"
proof -
  let ?a = "hd (tl_heap s)" and ?h = "tl_heap (heap_pop s)"
  show m: "mset (tl_heap s) = add_mset ?a (mset ?h)"
    using pq_pop_mset[OF assms(2)] by (simp add: heap_pop_def)
  have d: "distinct (?a # ?h)"
    using assms(1) m by (metis mset.simps(2) mset_eq_imp_distinct_iff timers_ok_def)
  then show "?a \<notin># mset ?h" "distinct ?h" by simp_all
  have i: "insert ?a (set ?h) = dom (tl_mem s)"
    using m assms(1) by (metis set_mset_add_mset_insert set_mset_mset timers_ok_def)
  with d show "set ?h = dom (tl_mem s) - {?a}" by auto
  show "\<exists>t. tl_mem s ?a = Some t" using i by blast
qed

lemma heap_moves_simps [simp]:
  "tl_cancelled_count (delete_timer a s) = tl_cancelled_count s" "tl_cancelled_count (heap_pop s) = tl_cancelled_count s"
  "tl_cancelled_count (heap_push a s) = tl_cancelled_count s"
  by (simp_all add: delete_timer_def heap_pop_def heap_push_def)

lemma in_order_pop: "in_order s \<Longrightarrow> in_order (heap_pop s)"
  by (simp add: in_order_def heap_pop_def pq_pop_heap)

lemma in_order_delete:
  "in_order s \<Longrightarrow> a \<notin> set (tl_heap s) \<Longrightarrow> in_order (delete_timer a s)"
  unfolding in_order_def delete_timer_def
  by (subst is_heap_cong[where key' = "expire_of s"]) (auto simp: expire_of_def)

lemma free_top:
  assumes "timers_ok s" "tl_heap s \<noteq> []" "tl_mem s (hd (tl_heap s)) = Some t"
    and "s' = (delete_timer (hd (tl_heap s)) (heap_pop s))\<lparr>tl_cancelled_count :=
           tl_cancelled_count s - (if tm_cancelled t then 1 else 0)\<rparr>"
  shows "timers_ok s' \<and> (in_order s \<longrightarrow> in_order s') \<and>
    waiting s = (if tm_cancelled t then {#} else {#(tm_expire t, tm_user_data t)#}) + waiting s' \<and>
    length (tl_heap s') < length (tl_heap s)"
proof -
  let ?a = "hd (tl_heap s)" and ?h = "tl_heap (heap_pop s)"
  note top = take_top[OF assms(1,2)]
  have heap': "tl_heap s' = ?h" "tl_mem s' = (tl_mem s)(?a := None)" "tl_next s' = tl_next s"
    by (simp_all add: assms(4) delete_timer_def heap_pop_def)
  have s': "cancelled_at s' = cancelled_at (s\<lparr>tl_mem := (tl_mem s)(?a := None)\<rparr>)"
    "due_of s' = due_of (s\<lparr>tl_mem := (tl_mem s)(?a := None)\<rparr>)"
    by (simp_all add: fun_eq_iff cancelled_at_def due_of_def heap')
  have c: "cancelled_at s ?a = tm_cancelled t" "due_of s ?a = (tm_expire t, tm_user_data t)"
    using assms(3) by (simp_all add: cancelled_at_def due_of_def)
  have "?a \<notin># filter_mset (\<lambda>b. \<not> cancelled_at s b) (mset ?h)" using top(2) by simp
  note frame = frame_off[OF top(2)] frame_off(2)[OF this]
  have "tl_cancelled_count s' = int (size (filter_mset (cancelled_at s') (mset ?h)))"
    using assms(1) top(1) unfolding s' frame by (simp add: timers_ok_def assms(4) c)
  then have "timers_ok s'"
    using assms(1) top(3,4) by (auto simp: timers_ok_def heap')
  moreover have "in_order s \<longrightarrow> in_order s'"
    using in_order_delete[OF in_order_pop, of s ?a] top(2) by (simp add: assms(4) in_order_def delete_timer_def)
  moreover have "waiting s = (if tm_cancelled t then {#} else {#(tm_expire t, tm_user_data t)#}) + waiting s'"
    unfolding waiting_def heap' top(1) s' frame by (simp add: c)
  moreover have "length (tl_heap s') < length (tl_heap s)"
    using assms(2) by (simp add: heap' heap_pop_def)
  ultimately show ?thesis by blast
qed

lemma waiting_later:
  assumes "timers_ok s" "in_order s" "tl_heap s \<noteq> []"
  shows "\<forall>p \<in># waiting s. expire_of s (hd (tl_heap s)) \<le> fst p"
  using pq.top_law[of "expire_of s" "tl_heap s"] assms(2)
  by (auto simp: waiting_def in_order_def fst_due_of)

lemma tick_loop_spec:
  "timers_ok s \<Longrightarrow> in_order s \<Longrightarrow>
     \<exists>due s'. tick_loop cur s = Some (map snd due, s') \<and> timers_ok s' \<and> in_order s' \<and>
       sorted (map fst due) \<and> mset due = filter_mset (\<lambda>p. fst p \<le> cur) (waiting s) \<and>
       waiting s' = filter_mset (\<lambda>p. cur < fst p) (waiting s)"
proof (induction cur s rule: tick_loop.induct)
  case (1 cur s)
  show ?case
  proof (cases "tl_heap s = []")
    case True
    then show ?thesis
      using 1(3,4) by (subst tick_loop.simps) (auto simp: waiting_def intro!: exI[of _ "[]"])
  next
    case False
    let ?a = "hd (tl_heap s)"
    obtain t where t: "tl_mem s ?a = Some t" using take_top(5)[OF 1(3) False] by blast
    note later = waiting_later[OF 1(3,4) False]
    have key: "expire_of s ?a = tm_expire t" using t by (simp add: expire_of_def)
    show ?thesis
    proof (cases "tm_expire t > cur")
      case True
      then have "filter_mset (\<lambda>p. fst p \<le> cur) (waiting s) = {#}" "filter_mset (\<lambda>p. cur < fst p) (waiting s) = waiting s"
        using later key by (force simp: filter_mset_eq_mempty_iff filter_mset_eq_conv)+
      then show ?thesis
        using 1(3,4) True False t by (subst tick_loop.simps) (auto simp: Let_def intro!: exI[of _ "[]"])
    next
      case due: False
      define s1 where "s1 = delete_timer ?a (heap_pop s)"
      show ?thesis
      proof (cases "tm_cancelled t")
        case True
        let ?s2 = "s1\<lparr>tl_cancelled_count := tl_cancelled_count s1 - 1\<rparr>"
        from free_top[OF 1(3) False t, of ?s2] True 1(4)
        have ok: "timers_ok ?s2" "in_order ?s2" "waiting s = waiting ?s2" by (simp_all add: s1_def)
        have "tick_loop cur s = tick_loop cur ?s2"
          using False t due True by (subst tick_loop.simps) (simp add: Let_def s1_def)
        with 1(1)[OF False refl t due s1_def True ok(1,2)] ok(3) show ?thesis by simp
      next
        case live: False
        from free_top[OF 1(3) False t, of s1] live 1(4)
        have ok: "timers_ok s1" "in_order s1" "waiting s = add_mset (tm_expire t, tm_user_data t) (waiting s1)"
          by (simp_all add: s1_def)
        from 1(2)[OF False refl t due s1_def live ok(1,2)] obtain due' s' where
          r: "tick_loop cur s1 = Some (map snd due', s')" "timers_ok s'" "in_order s'" "sorted (map fst due')"
            "mset due' = filter_mset (\<lambda>p. fst p \<le> cur) (waiting s1)" "waiting s' = filter_mset (\<lambda>p. cur < fst p) (waiting s1)"
          by blast
        have "tick_loop cur s = Some (map snd ((tm_expire t, tm_user_data t) # due'), s')"
          using False t due live r(1) by (subst tick_loop.simps) (simp add: Let_def s1_def)
        moreover have "\<forall>p \<in> set due'. tm_expire t \<le> fst p"
        proof -
          have "set due' \<subseteq> set_mset (waiting s1)"
            using r(5) by (metis multiset_filter_subset set_mset_mono set_mset_mset)
          then show ?thesis using later by (auto simp: key ok(3))
        qed
        ultimately show ?thesis
          using r due ok(3) by (intro exI[of _ "(tm_expire t, tm_user_data t) # due'"]) auto
      qed
    qed
  qed
qed

text \<open>\<^verbatim>\<open>purge\<close> frees exactly the cancelled timers and rebuilds the order of the others.\<close>

lemma purge_loop_spec:
  "distinct (tl_heap s @ live) \<Longrightarrow> set (tl_heap s @ live) = dom (tl_mem s) \<Longrightarrow>
     \<exists>s' live'. purge_loop s live = Some (s', live') \<and> tl_heap s' = [] \<and> tl_next s' = tl_next s \<and>
       mset live' = mset live + filter_mset (\<lambda>a. \<not> cancelled_at s a) (mset (tl_heap s)) \<and>
       (\<forall>a. tl_mem s' a = (if a \<in> set (tl_heap s) \<and> cancelled_at s a then None else tl_mem s a))"
proof (induction s live rule: purge_loop.induct)
  case (1 s live)
  show ?case
  proof (cases "tl_heap s = []")
    case True
    then show ?thesis by (subst purge_loop.simps) simp
  next
    case False
    let ?a = "hd (tl_heap s)" and ?s1 = "heap_pop s"
    have m: "mset (tl_heap s) = add_mset ?a (mset (tl_heap ?s1))"
      using pq_pop_mset[OF False] by (simp add: heap_pop_def)
    then have set1: "set (tl_heap s) = insert ?a (set (tl_heap ?s1))"
      by (metis set_mset_add_mset_insert set_mset_mset)
    have d: "distinct (?a # tl_heap ?s1)"
      using 1(3) m by (metis distinct_append mset.simps(2) mset_eq_imp_distinct_iff)
    have rest: "distinct (tl_heap ?s1 @ live)" "?a \<notin> set (tl_heap ?s1) \<union> set live"
      using 1(3) d set1 by auto
    obtain t where t: "tl_mem s ?a = Some t" using 1(4) False by (cases "tl_heap s") auto
    have mem: "tl_mem ?s1 = tl_mem s" "tl_next ?s1 = tl_next s" by (simp_all add: heap_pop_def)
    show ?thesis
    proof (cases "tm_cancelled t")
      case True
      let ?s2 = "delete_timer ?a ?s1"
      have h2: "tl_heap ?s2 = tl_heap ?s1" "tl_mem ?s2 = (tl_mem s)(?a := None)" "tl_next ?s2 = tl_next s"
        by (simp_all add: delete_timer_def mem)
      have c2: "\<forall>b \<in> set (tl_heap ?s1). cancelled_at ?s2 b = cancelled_at s b"
        using rest(2) by (auto simp: cancelled_at_def h2)
      have "set (tl_heap ?s2 @ live) = dom (tl_mem ?s2)" "distinct (tl_heap ?s2 @ live)"
        using 1(4) rest by (auto simp: h2 set1)
      from 1(1)[OF False refl refl t True this(2,1), unfolded h2(1,3)] obtain s' live' where
        r: "purge_loop ?s2 live = Some (s', live')" "tl_heap s' = []" "tl_next s' = tl_next s"
          "mset live' = mset live + filter_mset (\<lambda>a. \<not> cancelled_at ?s2 a) (mset (tl_heap ?s1))"
          "\<forall>a. tl_mem s' a = (if a \<in> set (tl_heap ?s1) \<and> cancelled_at ?s2 a then None else tl_mem ?s2 a)"
        by blast
      have "filter_mset (\<lambda>a. \<not> cancelled_at ?s2 a) (mset (tl_heap ?s1)) = filter_mset (\<lambda>a. \<not> cancelled_at s a) (mset (tl_heap ?s1))"
        using c2 by (auto intro: filter_mset_cong)
      moreover have "cancelled_at s ?a" using t True by (simp add: cancelled_at_def)
      moreover have "purge_loop s live = Some (s', live')"
        using False t True r(1) by (subst purge_loop.simps) (simp add: Let_def)
      ultimately show ?thesis
        using r c2 by (auto simp: m set1 h2)
    next
      case live: False
      have c1: "cancelled_at ?s1 = cancelled_at s" by (simp add: heap_pop_def)
      have "set (tl_heap ?s1 @ live @ [?a]) = dom (tl_mem ?s1)"
        using 1(4) by (auto simp: mem set1)
      moreover have "distinct (tl_heap ?s1 @ live @ [?a])" using rest by auto
      ultimately obtain s' live' where
        r: "purge_loop ?s1 (live @ [?a]) = Some (s', live')" "tl_heap s' = []" "tl_next s' = tl_next s"
          "mset live' = mset (live @ [?a]) + filter_mset (\<lambda>a. \<not> cancelled_at s a) (mset (tl_heap ?s1))"
          "\<forall>a. tl_mem s' a = (if a \<in> set (tl_heap ?s1) \<and> cancelled_at s a then None else tl_mem s a)"
        using 1(2)[OF False refl refl t live] by (auto simp: mem c1)
      have "\<not> cancelled_at s ?a" using t live by (simp add: cancelled_at_def)
      moreover have "purge_loop s live = Some (s', live')"
        using False t live r(1) by (subst purge_loop.simps) (simp add: Let_def)
      ultimately show ?thesis
        using r by (auto simp: m set1)
    qed
  qed
qed

lemma heap_push_simps [simp]:
  "expire_of (heap_push a s) = expire_of s" "cancelled_at (heap_push a s) = cancelled_at s"
  "due_of (heap_push a s) = due_of s" "tl_mem (heap_push a s) = tl_mem s" "tl_next (heap_push a s) = tl_next s"
  by (simp_all add: heap_push_def)

lemma foldl_heap_push:
  "foldl (\<lambda>s a. heap_push a s) s xs = s\<lparr>tl_heap := foldl (\<lambda>q x. pq_push (expire_of s) x q) (tl_heap s) xs\<rparr>"
  by (induction xs arbitrary: s) (simp_all add: heap_push_def)

lemma purge_spec:
  assumes "timers_ok s"
  shows "\<exists>s'. purge s = Some s' \<and> timers_ok s' \<and> in_order s' \<and> waiting s' = waiting s \<and>
    (\<forall>a. tl_mem s' a = (if cancelled_at s a then None else tl_mem s a))"
proof -
  obtain s1 live where p: "purge_loop s [] = Some (s1, live)" "tl_heap s1 = []" "tl_next s1 = tl_next s"
    "mset live = filter_mset (\<lambda>a. \<not> cancelled_at s a) (mset (tl_heap s))"
    "\<forall>a. tl_mem s1 a = (if a \<in> set (tl_heap s) \<and> cancelled_at s a then None else tl_mem s a)"
    using purge_loop_spec[of s "[]"] assms by (auto simp: timers_ok_def)
  define h where "h = foldl (\<lambda>q x. pq_push (expire_of s1) x q) [] live"
  have h: "is_heap (expire_of s1) h" "mset h = mset live"
    using pq.push_all[of "expire_of s1" "[]" live] by (simp_all add: is_heap_def h_def)
  define s' where "s' = s1\<lparr>tl_heap := h, tl_cancelled_count := 0\<rparr>"
  have purge: "purge s = Some s'"
    using p(1,2) by (simp add: purge_def foldl_heap_push s'_def h_def)
  have live: "set h = {a \<in> set (tl_heap s). \<not> cancelled_at s a}"
    using h(2) p(4) by (metis set_mset_filter set_mset_mset)
  have keep: "tl_mem s1 a = tl_mem s a" if "\<not> cancelled_at s a" for a using p(5) that by simp
  have "filter_mset (cancelled_at s') (mset h) = {#}" "filter_mset (\<lambda>a. \<not> cancelled_at s' a) (mset h) = mset h"
    using live keep by (auto simp: s'_def cancelled_at_def filter_mset_eq_conv)
  moreover have "distinct h"
    using h(2) p(4) assms by (metis distinct_filter mset_eq_imp_distinct_iff mset_filter timers_ok_def)
  moreover have "set h = dom (tl_mem s1)"
  proof (rule set_eqI)
    fix a
    have heap: "a \<in> set (tl_heap s) \<longleftrightarrow> tl_mem s a \<noteq> None" using assms by (auto simp: timers_ok_def)
    have "cancelled_at s a \<Longrightarrow> tl_mem s a \<noteq> None" by (auto simp: cancelled_at_def split: option.splits)
    then show "a \<in> set h \<longleftrightarrow> a \<in> dom (tl_mem s1)"
      using heap p(5)[rule_format, of a] unfolding live by (cases "cancelled_at s a") auto
  qed
  moreover have "\<forall>a \<in> dom (tl_mem s1). a < tl_next s"
  proof
    fix a assume "a \<in> dom (tl_mem s1)"
    then have "a \<in> dom (tl_mem s)" using p(5)[rule_format, of a] by (cases "tl_mem s a") (auto split: if_splits)
    then show "a < tl_next s" using assms by (simp add: timers_ok_def)
  qed
  ultimately have "timers_ok s'" by (simp add: timers_ok_def s'_def p(3))
  moreover have "waiting s' = waiting s"
    using live keep \<open>filter_mset (\<lambda>a. \<not> cancelled_at s' a) (mset h) = mset h\<close> h(2) p(4)
    by (auto simp: waiting_def s'_def due_of_def intro!: image_mset_cong)
  moreover have "tl_mem s1 a = (if cancelled_at s a then None else tl_mem s a)" for a
  proof -
    have "cancelled_at s a \<Longrightarrow> a \<in> set (tl_heap s)"
      using assms by (auto simp: timers_ok_def cancelled_at_def split: option.splits)
    then show ?thesis using p(5)[rule_format, of a] by auto
  qed
  ultimately show ?thesis
    using purge h(1) by (simp add: in_order_def s'_def)
qed

text \<open>Scheduling, cancelling, and moving a timer to a fresh node.\<close>

lemma waiting_frame:
  assumes "tl_heap s' = tl_heap s" "\<And>b. b \<in> set (tl_heap s) \<Longrightarrow> b \<noteq> a \<Longrightarrow> tl_mem s' b = tl_mem s b"
    and "distinct (tl_heap s)" "a \<in> set (tl_heap s)"
  shows "waiting s = (if cancelled_at s a then {#} else {#due_of s a#}) +
      image_mset (due_of s) (filter_mset (\<lambda>b. \<not> cancelled_at s b) (mset (remove1 a (tl_heap s))))"
    and "waiting s' = (if cancelled_at s' a then {#} else {#due_of s' a#}) +
      image_mset (due_of s) (filter_mset (\<lambda>b. \<not> cancelled_at s b) (mset (remove1 a (tl_heap s))))"
    and "size (filter_mset (cancelled_at s') (mset (tl_heap s))) + (if cancelled_at s a then 1 else 0) =
      size (filter_mset (cancelled_at s) (mset (tl_heap s))) + (if cancelled_at s' a then 1 else 0)"
proof -
  have m: "mset (tl_heap s) = add_mset a (mset (remove1 a (tl_heap s)))"
    using assms(4) by simp
  have "b \<noteq> a \<and> b \<in> set (tl_heap s)" if "b \<in> set (remove1 a (tl_heap s))" for b
    using that assms(3) by simp
  then have off: "cancelled_at s' b = cancelled_at s b" "due_of s' b = due_of s b" if "b \<in> set (remove1 a (tl_heap s))" for b
  proof -
    have "tl_mem s' b = tl_mem s b" using that assms(2)[of b] assms(3) by simp
    then show "cancelled_at s' b = cancelled_at s b" "due_of s' b = due_of s b"
      by (simp_all add: cancelled_at_def due_of_def)
  qed
  have f: "filter_mset (cancelled_at s') (mset (remove1 a (tl_heap s))) = filter_mset (cancelled_at s) (mset (remove1 a (tl_heap s)))"
    "filter_mset (\<lambda>b. \<not> cancelled_at s' b) (mset (remove1 a (tl_heap s))) = filter_mset (\<lambda>b. \<not> cancelled_at s b) (mset (remove1 a (tl_heap s)))"
    by (rule filter_mset_cong, simp, simp add: off del: mset_remove1)+
  show "waiting s = (if cancelled_at s a then {#} else {#due_of s a#}) +
      image_mset (due_of s) (filter_mset (\<lambda>b. \<not> cancelled_at s b) (mset (remove1 a (tl_heap s))))"
    unfolding waiting_def by (subst m) simp
  have "waiting s' = (if cancelled_at s' a then {#} else {#due_of s' a#}) +
      image_mset (due_of s') (filter_mset (\<lambda>b. \<not> cancelled_at s b) (mset (remove1 a (tl_heap s))))"
    unfolding waiting_def assms(1) by (subst m) (simp add: f(2) del: mset_remove1)
  also have "image_mset (due_of s') (filter_mset (\<lambda>b. \<not> cancelled_at s b) (mset (remove1 a (tl_heap s)))) =
      image_mset (due_of s) (filter_mset (\<lambda>b. \<not> cancelled_at s b) (mset (remove1 a (tl_heap s))))"
    by (rule image_mset_cong) (simp add: off del: mset_remove1 filter_diff_mset)
  finally show "waiting s' = (if cancelled_at s' a then {#} else {#due_of s' a#}) +
      image_mset (due_of s) (filter_mset (\<lambda>b. \<not> cancelled_at s b) (mset (remove1 a (tl_heap s))))" .
  show "size (filter_mset (cancelled_at s') (mset (tl_heap s))) + (if cancelled_at s a then 1 else 0) =
      size (filter_mset (cancelled_at s) (mset (tl_heap s))) + (if cancelled_at s' a then 1 else 0)"
  proof -
    have "size (filter_mset P (mset (tl_heap s))) =
        (if P a then 1 else 0) + size (filter_mset P (mset (remove1 a (tl_heap s))))" for P
      by (subst m) (simp del: mset_remove1)
    then show ?thesis unfolding f(1)[symmetric] by (metis (no_types, lifting) add.commute add.left_commute f(1))
  qed
qed

lemma add_new_timer:
  assumes "timers_ok s" "new_timer e u s = (a, s1)" "s2 = add_timer (Some a) s1"
  shows "timers_ok s2 \<and> (in_order s \<longrightarrow> in_order s2) \<and> waiting s2 = add_mset (e, u) (waiting s) \<and>
    tl_mem s a = None \<and> tl_mem s2 = (tl_mem s)(a \<mapsto> \<lparr>tm_expire = e, tm_user_data = u, tm_cancelled = False\<rparr>) \<and>
    tl_cancelled_count s2 = tl_cancelled_count s"
proof -
  have a: "a = tl_next s" "tl_mem s a = None"
    using assms(1,2) by (auto simp: new_timer_def timers_ok_def)
  let ?m = "(tl_mem s)(a \<mapsto> \<lparr>tm_expire = e, tm_user_data = u, tm_cancelled = False\<rparr>)"
  have s1: "s1 = s\<lparr>tl_mem := ?m, tl_next := Suc a\<rparr>" using assms(2) by (auto simp: new_timer_def)
  have fresh: "a \<notin> set (tl_heap s)" using assms(1) a(2) by (auto simp: timers_ok_def)
  have s2: "tl_heap s2 = pq_push (expire_of s1) a (tl_heap s)" "tl_mem s2 = ?m" "tl_next s2 = Suc a"
    "tl_cancelled_count s2 = tl_cancelled_count s" "expire_of s2 = expire_of s1"
    by (simp_all add: assms(3) add_timer_def heap_push_def s1)
  have off: "cancelled_at s2 b = cancelled_at s b" "due_of s2 b = due_of s b" "expire_of s1 b = expire_of s b"
    if "b \<in> set (tl_heap s)" for b
    using that fresh by (auto simp: cancelled_at_def due_of_def expire_of_def s2 s1)
  have new: "\<not> cancelled_at s2 a" "due_of s2 a = (e, u)" by (simp_all add: cancelled_at_def due_of_def s2)
  have f: "filter_mset (cancelled_at s2) (mset (tl_heap s)) = filter_mset (cancelled_at s) (mset (tl_heap s))"
    "filter_mset (\<lambda>b. \<not> cancelled_at s2 b) (mset (tl_heap s)) = filter_mset (\<lambda>b. \<not> cancelled_at s b) (mset (tl_heap s))"
    by (intro filter_mset_cong; simp add: off)+
  have "in_order s \<Longrightarrow> is_heap (expire_of s1) (tl_heap s)"
    using is_heap_cong[of "tl_heap s" "expire_of s1" "expire_of s"] off(3) by (simp add: in_order_def)
  then have "in_order s \<longrightarrow> in_order s2" using s2 by (simp add: in_order_def pq_push_heap)
  moreover have "distinct (tl_heap s2)" "set (tl_heap s2) = insert a (set (tl_heap s))"
  proof -
    have "mset (tl_heap s2) = mset (a # tl_heap s)" by (simp add: s2)
    moreover have "distinct (a # tl_heap s)" using assms(1) fresh by (simp add: timers_ok_def)
    ultimately show "distinct (tl_heap s2)" "set (tl_heap s2) = insert a (set (tl_heap s))"
      by (metis mset_eq_imp_distinct_iff, metis list.simps(15) mset_eq_setD)
  qed
  moreover have "image_mset (due_of s2) (filter_mset (\<lambda>b. \<not> cancelled_at s b) (mset (tl_heap s))) = waiting s"
    unfolding waiting_def by (rule image_mset_cong) (auto simp: off)
  moreover have "\<forall>b \<in> dom (tl_mem s2). b < tl_next s2"
    using assms(1) by (auto simp: s2 a(1) timers_ok_def less_Suc_eq)
  moreover have "set (tl_heap s) = dom (tl_mem s)"
    "tl_cancelled_count s = int (size (filter_mset (cancelled_at s) (mset (tl_heap s))))"
    using assms(1) by (auto simp: timers_ok_def)
  ultimately show ?thesis
    using a f new s2 by (auto simp: timers_ok_def waiting_def)
qed

lemma cancel_timer:
  assumes "timers_ok s" "tl_mem s a = Some t" "\<not> tm_cancelled t"
    and "s' = s\<lparr>tl_mem := (tl_mem s)(a \<mapsto> t\<lparr>tm_cancelled := True\<rparr>), tl_cancelled_count := tl_cancelled_count s + 1\<rparr>"
  shows "timers_ok s' \<and> (in_order s \<longrightarrow> in_order s') \<and>
    waiting s = add_mset (tm_expire t, tm_user_data t) (waiting s')"
proof -
  have a: "a \<in> set (tl_heap s)" "distinct (tl_heap s)" using assms(1,2) by (auto simp: timers_ok_def)
  have c: "\<not> cancelled_at s a" "cancelled_at s' a" "due_of s a = (tm_expire t, tm_user_data t)"
    using assms(2,3) by (simp_all add: cancelled_at_def due_of_def assms(4))
  have fr: "tl_heap s' = tl_heap s" "\<And>b. b \<in> set (tl_heap s) \<Longrightarrow> b \<noteq> a \<Longrightarrow> tl_mem s' b = tl_mem s b"
    by (simp_all add: assms(4))
  have "expire_of s' = expire_of s"
    using assms(2) by (auto simp: fun_eq_iff expire_of_def assms(4))
  then have "in_order s \<longrightarrow> in_order s'" using fr(1) by (simp add: in_order_def)
  moreover have "timers_ok s'"
    using assms(1,2) waiting_frame(3)[OF fr a(2,1)] c fr(1) by (auto simp: timers_ok_def assms(4))
  ultimately show ?thesis
    using waiting_frame(1,2)[OF fr a(2,1)] c by simp
qed

definition live_at :: "sort_timer_lst \<Rightarrow> nat \<Rightarrow> util_timer \<Rightarrow> bool" where
  "live_at s a t \<longleftrightarrow> tl_mem s a = Some t \<and> \<not> tm_cancelled t"

lemma adjust_spec:
  assumes "timers_ok s" "live_at s a t"
  shows "\<exists>b s'. adjust_timer (Some a) s = Some (Some b, s') \<and> timers_ok s' \<and> (in_order s \<longrightarrow> in_order s') \<and>
    waiting s' = waiting s \<and> b \<noteq> a \<and> (\<forall>c u. live_at s' c u \<longleftrightarrow> c = b \<and> u = t \<or> c \<noteq> a \<and> live_at s c u) \<and>
    tl_mem s' a = (if tl_cancelled_count s \<ge> 511 then None else Some (t\<lparr>tm_cancelled := True\<rparr>))"
proof -
  have t: "tl_mem s a = Some t" "\<not> tm_cancelled t" using assms(2) by (simp_all add: live_at_def)
  define s1 where "s1 = s\<lparr>tl_mem := (tl_mem s)(a \<mapsto> t\<lparr>tm_cancelled := True\<rparr>), tl_cancelled_count := tl_cancelled_count s + 1\<rparr>"
  note c = cancel_timer[OF assms(1) t s1_def]
  obtain b s2 where n: "new_timer (tm_expire t) (tm_user_data t) s1 = (b, s2)" by force
  define s3 where "s3 = heap_push b s2"
  have s3: "s3 = add_timer (Some b) s2" by (simp add: s3_def add_timer_def)
  note d = add_new_timer[OF _ n s3]
  have mem3: "tl_mem s1 b = None" "tl_mem s3 = (tl_mem s1)(b \<mapsto> t)"
    using c d t(2) by auto
  have ok: "timers_ok s3" "in_order s \<longrightarrow> in_order s3" "waiting s3 = waiting s" "b \<noteq> a" "tl_mem s b = None"
    using c d mem3 by (auto simp: s1_def split: if_splits)
  have live3: "live_at s3 x u \<longleftrightarrow> x = b \<and> u = t \<or> x \<noteq> a \<and> live_at s x u" for x u
    using t ok(4,5) mem3(2) by (auto simp: live_at_def s1_def)
  obtain s4 where p: "purge s3 = Some s4" "timers_ok s4" "in_order s4" "waiting s4 = waiting s3"
    "\<forall>x. tl_mem s4 x = (if cancelled_at s3 x then None else tl_mem s3 x)"
    using purge_spec[OF ok(1)] by blast
  have count3: "tl_cancelled_count s3 = tl_cancelled_count s + 1" using c d by (simp add: s1_def)
  have old: "tl_mem s3 a = Some (t\<lparr>tm_cancelled := True\<rparr>)" using mem3(2) ok(4) by (simp add: s1_def)
  have live4: "live_at s4 x u \<longleftrightarrow> live_at s3 x u" for x u
    using p(5) by (auto simp: live_at_def cancelled_at_def)
  have "adjust_timer (Some a) s = map_option (\<lambda>s4. (Some b, s4)) (if tl_cancelled_count s3 \<ge> 512 then purge s3 else Some s3)"
    using t n by (simp add: adjust_timer_def Let_def s1_def[symmetric] s3_def)
  with ok p live3 live4 old show ?thesis
    by (cases "tl_cancelled_count s3 \<ge> 512") (simp_all add: count3 cancelled_at_def)
qed

lemma del_spec:
  assumes "timers_ok s" "live_at s a t"
  shows "\<exists>s'. del_timer (Some a) s = Some s' \<and> timers_ok s' \<and> (in_order s \<longrightarrow> in_order s') \<and>
    waiting s = add_mset (tm_expire t, tm_user_data t) (waiting s') \<and>
    (\<forall>c u. live_at s' c u \<longleftrightarrow> c \<noteq> a \<and> live_at s c u)"
  using cancel_timer[OF assms(1) _ _ refl, of a t] assms(2) by (auto simp: del_timer_def live_at_def)

text \<open>Without the heap order \<open>tick\<close> is still safe: it may be late, but never early, and it calls no client twice.\<close>

lemma free_top_live:
  assumes "s' = (delete_timer (hd (tl_heap s)) (heap_pop s))\<lparr>tl_cancelled_count := n\<rparr>"
  shows "live_at s' c u \<longrightarrow> live_at s c u"
  by (simp add: assms live_at_def delete_timer_def heap_pop_def)

lemma tick_loop_safe:
  "timers_ok s \<Longrightarrow>
     \<exists>due s'. tick_loop cur s = Some (map snd due, s') \<and> timers_ok s' \<and> waiting s = mset due + waiting s' \<and>
       (\<forall>p \<in> set due. fst p \<le> cur) \<and> (\<forall>c u. live_at s' c u \<longrightarrow> live_at s c u)"
proof (induction cur s rule: tick_loop.induct)
  case (1 cur s)
  show ?case
  proof (cases "tl_heap s = []")
    case True
    then show ?thesis using 1(3) by (subst tick_loop.simps) (auto intro!: exI[of _ "[]"])
  next
    case False
    let ?a = "hd (tl_heap s)"
    obtain t where t: "tl_mem s ?a = Some t" using take_top(5)[OF 1(3) False] by blast
    show ?thesis
    proof (cases "tm_expire t > cur")
      case True
      then show ?thesis using 1(3) False t by (subst tick_loop.simps) (auto simp: Let_def intro!: exI[of _ "[]"])
    next
      case due: False
      define s1 where "s1 = delete_timer ?a (heap_pop s)"
      show ?thesis
      proof (cases "tm_cancelled t")
        case True
        let ?s2 = "s1\<lparr>tl_cancelled_count := tl_cancelled_count s1 - 1\<rparr>"
        from free_top[OF 1(3) False t, of ?s2] True
        have ok: "timers_ok ?s2" "waiting s = waiting ?s2" by (simp_all add: s1_def)
        have "tick_loop cur s = tick_loop cur ?s2"
          using False t due True by (subst tick_loop.simps) (simp add: Let_def s1_def)
        with 1(1)[OF False refl t due s1_def True ok(1)] ok(2) free_top_live[of ?s2 "tl_cancelled_count s1 - 1" s]
        show ?thesis by (auto simp: s1_def)
      next
        case live: False
        from free_top[OF 1(3) False t, of s1] live
        have ok: "timers_ok s1" "waiting s = add_mset (tm_expire t, tm_user_data t) (waiting s1)" by (simp_all add: s1_def)
        have lv: "live_at s1 c u \<longrightarrow> live_at s c u" for c u
          using free_top_live[of s1 "tl_cancelled_count s1" s] by (simp add: s1_def)
        from 1(2)[OF False refl t due s1_def live ok(1)] obtain due' s' where
          r: "tick_loop cur s1 = Some (map snd due', s')" "timers_ok s'" "waiting s1 = mset due' + waiting s'"
            "\<forall>p \<in> set due'. fst p \<le> cur" "\<forall>c u. live_at s' c u \<longrightarrow> live_at s1 c u"
          by blast
        have "tick_loop cur s = Some (map snd ((tm_expire t, tm_user_data t) # due'), s')"
          using False t due live r(1) by (subst tick_loop.simps) (simp add: Let_def s1_def)
        then show ?thesis
          using r due ok(2) lv by (intro exI[of _ "(tm_expire t, tm_user_data t) # due'"]) auto
      qed
    qed
  qed
qed

lemma tick_safe:
  assumes "timers_ok s"
  shows "\<exists>due s'. tick cur s = Some (map snd due, s') \<and> timers_ok s' \<and> waiting s = mset due + waiting s' \<and>
    (\<forall>p \<in> set due. fst p \<le> cur) \<and> (\<forall>c u. live_at s' c u \<longrightarrow> live_at s c u)"
proof (cases "tl_heap s = []")
  case True
  with assms show ?thesis by (auto simp: tick_def intro!: exI[of _ "[]"])
next
  case False
  obtain due s1 where l: "tick_loop cur s = Some (map snd due, s1)" "timers_ok s1" "waiting s = mset due + waiting s1"
    "\<forall>p \<in> set due. fst p \<le> cur" "\<forall>c u. live_at s1 c u \<longrightarrow> live_at s c u"
    using tick_loop_safe[OF assms] by blast
  obtain s2 where p: "purge s1 = Some s2" "timers_ok s2" "waiting s2 = waiting s1"
    "\<forall>x. tl_mem s2 x = (if cancelled_at s1 x then None else tl_mem s1 x)"
    using purge_spec[OF l(2)] by blast
  have "live_at s2 c u \<longrightarrow> live_at s1 c u" for c u
    using p(4) by (simp add: live_at_def)
  then show ?thesis
    using l p False by (cases "tl_cancelled_count s1 \<ge> 512") (auto simp: tick_def)
qed

lemma tick_in_order:
  assumes "timers_ok s" "in_order s"
  shows "\<exists>due s'. tick cur s = Some (map snd due, s') \<and> sorted (map fst due) \<and>
    mset due = filter_mset (\<lambda>p. fst p \<le> cur) (waiting s) \<and>
    waiting s' = filter_mset (\<lambda>p. cur < fst p) (waiting s) \<and> timers_ok s' \<and> in_order s'"
proof (cases "tl_heap s = []")
  case True
  then show ?thesis
    using assms by (auto simp: tick_def waiting_def intro!: exI[of _ "[]"])
next
  case False
  obtain due s1 where l: "tick_loop cur s = Some (map snd due, s1)" "timers_ok s1" "in_order s1" "sorted (map fst due)"
    "mset due = filter_mset (\<lambda>p. fst p \<le> cur) (waiting s)" "waiting s1 = filter_mset (\<lambda>p. cur < fst p) (waiting s)"
    using tick_loop_spec[OF assms] by blast
  show ?thesis
  proof (cases "tl_cancelled_count s1 \<ge> 512")
    case True
    with purge_spec[OF l(2)] l False show ?thesis by (auto simp: tick_def)
  next
    case small: False
    with l False show ?thesis by (auto simp: tick_def)
  qed
qed

section \<open>Properties\<close>

text \<open>C20: \<open>tick\<close> on a well-formed list, in heap order or not, touches no freed timer and calls the callback only for
  timers that are not cancelled and have expired, each once; the others go on waiting, and the list stays well-formed,
  its count of cancelled timers and a possible clean-up included. If the heap is in order, it calls the callback for
  all expired timers, in the order of their expiry, and leaves the heap in order. The order is a hypothesis of that
  part only: the server itself writes a new deadline into a timer inside the heap before it adjusts it, and may so
  break the order.\<close>

theorem tick_fires_expired:
  assumes "timers_ok s"
  shows "\<exists>due s'. tick cur s = Some (map snd due, s') \<and> timers_ok s' \<and>
    waiting s = mset due + waiting s' \<and> (\<forall>p \<in> set due. fst p \<le> cur) \<and>
    (in_order s \<longrightarrow> sorted (map fst due) \<and> mset due = filter_mset (\<lambda>p. fst p \<le> cur) (waiting s) \<and>
      waiting s' = filter_mset (\<lambda>p. cur < fst p) (waiting s) \<and> in_order s')"
proof (cases "in_order s")
  case True
  then obtain due s' where t: "tick cur s = Some (map snd due, s')" "sorted (map fst due)"
    "mset due = filter_mset (\<lambda>p. fst p \<le> cur) (waiting s)" "waiting s' = filter_mset (\<lambda>p. cur < fst p) (waiting s)"
    "timers_ok s'" "in_order s'"
    using tick_in_order[OF assms] by blast
  have "waiting s = mset due + waiting s'"
    using multiset_partition[of "waiting s" "\<lambda>p. fst p \<le> cur"] by (simp add: t(3,4) not_le)
  moreover have "\<forall>p \<in> set due. fst p \<le> cur"
    using t(3) by (metis mem_Collect_eq set_mset_filter set_mset_mset)
  ultimately show ?thesis using t by blast
next
  case False
  with tick_safe[OF assms] show ?thesis by blast
qed

text \<open>C21: The timer list is a multiset of deadlines: a new timer adds its deadline, \<open>del_timer\<close> takes the deadline of
  its timer away, \<open>adjust_timer\<close> keeps all of them and returns another node that carries the same deadline,
  the old node being cancelled or freed. Each keeps the list well-formed, clean-ups included.\<close>

theorem timer_list_operations:
  assumes "timers_ok s" "in_order s" "live_at s a t"
  shows "(\<exists>b s1. new_timer e u s = (b, s1) \<and> timers_ok (add_timer (Some b) s1) \<and> in_order (add_timer (Some b) s1) \<and>
      waiting (add_timer (Some b) s1) = add_mset (e, u) (waiting s)) \<and>
    (\<exists>s1. del_timer (Some a) s = Some s1 \<and> timers_ok s1 \<and> in_order s1 \<and>
      waiting s = add_mset (tm_expire t, tm_user_data t) (waiting s1)) \<and>
    (\<exists>b s1. adjust_timer (Some a) s = Some (Some b, s1) \<and> timers_ok s1 \<and> in_order s1 \<and> waiting s1 = waiting s \<and>
      live_at s1 b t \<and> (\<forall>u. \<not> live_at s1 a u))"
proof -
  obtain b s1 where n: "new_timer e u s = (b, s1)" by force
  have "\<exists>b s1. adjust_timer (Some a) s = Some (Some b, s1) \<and> timers_ok s1 \<and> in_order s1 \<and> waiting s1 = waiting s \<and>
      live_at s1 b t \<and> (\<forall>u. \<not> live_at s1 a u)"
    using adjust_spec[OF assms(1,3)] assms(2) by auto
  moreover have "\<exists>s1. del_timer (Some a) s = Some s1 \<and> timers_ok s1 \<and> in_order s1 \<and>
      waiting s = add_mset (tm_expire t, tm_user_data t) (waiting s1)"
    using del_spec[OF assms(1,3)] assms(2) by blast
  ultimately show ?thesis
    using n add_new_timer[OF assms(1) n refl] assms(2) by blast
qed

text \<open>Two timers, one of them cancelled: an instance for both properties.\<close>

definition two_timers :: sort_timer_lst where
  "two_timers = \<lparr>tl_heap = [0, 1], tl_cancelled_count = 1,
     tl_mem = [0 \<mapsto> \<lparr>tm_expire = 15, tm_user_data = 8, tm_cancelled = True\<rparr>,
               1 \<mapsto> \<lparr>tm_expire = 20, tm_user_data = 9, tm_cancelled = False\<rparr>], tl_next = 2\<rparr>"

lemma two_timers_ok: "timers_ok two_timers" "in_order two_timers" "waiting two_timers = {#(20, 9)#}"
  by (auto simp: timers_ok_def in_order_def two_timers_def cancelled_at_def is_heap_def expire_of_def parent_def
      waiting_def due_of_def less_Suc_eq)

theorem tick_fires_expired_witness:
  "\<exists>s'. tick 25 two_timers = Some ([9], s') \<and> waiting s' = {#}"
proof -
  obtain due s' where d: "tick 25 two_timers = Some (map snd due, s')" "mset due = filter_mset (\<lambda>p. fst p \<le> 25) {#(20 :: int, 9 :: nat)#}"
    "waiting s' = filter_mset (\<lambda>p. 25 < fst p) {#(20 :: int, 9 :: nat)#}"
    using tick_fires_expired[OF two_timers_ok(1), of 25] two_timers_ok(2) unfolding two_timers_ok(3) by blast
  then have "due = [(20, 9)]" by simp
  with d show ?thesis by simp
qed

theorem timer_list_operations_witness:
  "\<exists>s1. del_timer (Some 1) two_timers = Some s1 \<and> waiting s1 = {#}"
proof -
  let ?t = "\<lparr>tm_expire = 20, tm_user_data = 9, tm_cancelled = False\<rparr>"
  have t: "live_at two_timers 1 ?t" by (simp add: two_timers_def live_at_def)
  obtain s1 where "del_timer (Some 1) two_timers = Some s1"
    "waiting two_timers = add_mset (tm_expire ?t, tm_user_data ?t) (waiting s1)"
    using timer_list_operations[OF two_timers_ok(1,2) t, of 30 3] by auto
  then show ?thesis by (simp add: two_timers_ok(3))
qed

end
