(* ===== verification/Web_Server.thy ===== *)
theory Web_Server
  imports Thread_Pool Timers
begin

text \<open>
  \<^verbatim>\<open>src/core/webserver.h\<close> and \<^verbatim>\<open>src/core/webserver.cpp\<close>: the main loop and its table of connections and
  timers, with \<^verbatim>\<open>cb_func\<close> and the parts of \<^verbatim>\<open>Utils\<close> it calls (\<^verbatim>\<open>src/timer/lst_timer.cpp\<close>). The results of
  system calls are arguments. An operation is \<open>None\<close> where the C++ code would follow a null or freed
  pointer, index outside an array, or never return; the descriptors that are closed are recorded in order.
\<close>

section \<open>State\<close>

definition MAX_FD :: nat where
  "MAX_FD = 65536"

definition TIMESLOT :: int where
  "TIMESLOT = 5"

record 's WebServer =
  ws_port :: int
  ws_root :: string
  ws_log_write :: int
  ws_close_log :: int
  ws_actormodel :: int
  ws_user :: string
  ws_passWord :: string
  ws_databaseName :: string
  ws_sql_num :: int
  ws_thread_num :: int
  ws_OPT_LINGER :: int
  ws_TRIGMode :: int
  ws_LISTENTrigmode :: int
  ws_CONNTrigmode :: int
  ws_listenfd :: nat
  ws_pipefd0 :: nat
  ws_users :: "nat \<Rightarrow> HttpConn"
  ws_client_sockfd :: "nat \<Rightarrow> nat"
  ws_client_timer :: "nat \<Rightarrow> nat option"
  ws_timers :: sort_timer_lst
  ws_pool :: threadpool
  ws_net :: "'s Net"
  ws_closed :: "nat list"

definition WebServer_init ::
  "int \<Rightarrow> string \<Rightarrow> string \<Rightarrow> string \<Rightarrow> int \<Rightarrow> int \<Rightarrow> int \<Rightarrow> int \<Rightarrow> int \<Rightarrow> int \<Rightarrow> int \<Rightarrow> 's WebServer \<Rightarrow> 's WebServer" where
  "WebServer_init port usr passWord databaseName log_write opt_linger trigmode sql_num thread_num close_log actor_model w =
     w\<lparr>ws_port := port, ws_user := usr, ws_passWord := passWord, ws_databaseName := databaseName,
       ws_sql_num := sql_num, ws_thread_num := thread_num, ws_log_write := log_write,
       ws_OPT_LINGER := opt_linger, ws_TRIGMode := trigmode, ws_close_log := close_log,
       ws_actormodel := actor_model\<rparr>"

definition trig_mode :: "'s WebServer \<Rightarrow> 's WebServer" where
  "trig_mode w =
     (if ws_TRIGMode w = 0 then w\<lparr>ws_LISTENTrigmode := 0, ws_CONNTrigmode := 0\<rparr>
      else if ws_TRIGMode w = 1 then w\<lparr>ws_LISTENTrigmode := 0, ws_CONNTrigmode := 1\<rparr>
      else if ws_TRIGMode w = 2 then w\<lparr>ws_LISTENTrigmode := 1, ws_CONNTrigmode := 0\<rparr>
      else if ws_TRIGMode w = 3 then w\<lparr>ws_LISTENTrigmode := 1, ws_CONNTrigmode := 1\<rparr>
      else w)"

definition thread_pool :: "'s WebServer \<Rightarrow> threadpool_error + 's WebServer" where
  "thread_pool w =
     (case threadpool_new (ws_actormodel w) (ws_thread_num w) 10000 of
        Inl e \<Rightarrow> Inl e
      | Inr tp \<Rightarrow> Inr (w\<lparr>ws_pool := tp\<rparr>))"

section \<open>Timers of connections\<close>

definition WebServer_timer :: "int \<Rightarrow> nat \<Rightarrow> 's WebServer \<Rightarrow> 's WebServer option" where
  "WebServer_timer cur connfd w =
     (if MAX_FD \<le> connfd then None
      else
        (let (conn, net) = HttpConn_init (int connfd) (ws_root w) (ws_CONNTrigmode w) (ws_users w connfd) (ws_net w);
             (timer, timers) = new_timer (cur + 3 * TIMESLOT) connfd (ws_timers w)
         in Some (w\<lparr>ws_users := (ws_users w)(connfd := conn), ws_net := net,
                    ws_client_sockfd := (ws_client_sockfd w)(connfd := connfd),
                    ws_client_timer := (ws_client_timer w)(connfd := Some timer),
                    ws_timers := Timers.add_timer (Some timer) timers\<rparr>)))"

text \<open>\<^verbatim>\<open>WebServer::adjust_timer\<close> writes the new deadline into the node while it is in the heap.\<close>

definition WebServer_adjust_timer :: "int \<Rightarrow> nat option \<Rightarrow> nat \<Rightarrow> 's WebServer \<Rightarrow> 's WebServer option" where
  "WebServer_adjust_timer cur timer sockfd w =
     (case timer of
        None \<Rightarrow> None
      | Some a \<Rightarrow>
          (case tl_mem (ws_timers w) a of
             None \<Rightarrow> None
           | Some t \<Rightarrow>
               (let timers = (ws_timers w)\<lparr>tl_mem := (tl_mem (ws_timers w))(a \<mapsto> t\<lparr>tm_expire := cur + 3 * TIMESLOT\<rparr>)\<rparr>
                in case adjust_timer (Some a) timers of
                     None \<Rightarrow> None
                   | Some (fresh, timers') \<Rightarrow>
                       Some (w\<lparr>ws_timers := timers', ws_client_timer := (ws_client_timer w)(sockfd := fresh)\<rparr>))))"

definition cb_func :: "nat \<Rightarrow> 's WebServer \<Rightarrow> 's WebServer" where
  "cb_func user_data w =
     w\<lparr>ws_net := (epoll_call (EpollDel (int (ws_client_sockfd w user_data))) (ws_net w))
         \<lparr>nt_user_count := nt_user_count (ws_net w) - 1\<rparr>,
       ws_closed := ws_closed w @ [ws_client_sockfd w user_data]\<rparr>"

text \<open>\<^verbatim>\<open>deal_timer\<close> reads the callback through the pointer before it tests it.\<close>

definition deal_timer :: "nat option \<Rightarrow> nat \<Rightarrow> 's WebServer \<Rightarrow> 's WebServer option" where
  "deal_timer timer sockfd w =
     (case timer of
        None \<Rightarrow> None
      | Some a \<Rightarrow>
          (case del_timer (Some a) (ws_timers w) of
             None \<Rightarrow> None
           | Some timers \<Rightarrow> Some ((cb_func sockfd w)\<lparr>ws_timers := timers\<rparr>)))"

definition timer_handler :: "int \<Rightarrow> 's WebServer \<Rightarrow> 's WebServer option" where
  "timer_handler cur w =
     (case tick cur (ws_timers w) of
        None \<Rightarrow> None
      | Some (fired, timers) \<Rightarrow> Some (foldl (\<lambda>w u. cb_func u w) (w\<lparr>ws_timers := timers\<rparr>) fired))"

section \<open>Events\<close>

datatype accept_result = Accepted nat | AcceptError

text \<open>\<^verbatim>\<open>Utils::show_error\<close>: a message, then the descriptor is closed.\<close>

definition show_error :: "nat \<Rightarrow> 's WebServer \<Rightarrow> 's WebServer" where
  "show_error connfd w = w\<lparr>ws_closed := ws_closed w @ [connfd]\<rparr>"

text \<open>\<^verbatim>\<open>dealclientdata\<close>; in the edge-triggered loop the list holds the results of the successive \<^verbatim>\<open>accept\<close>s.\<close>

fun accept_loop :: "int \<Rightarrow> accept_result list \<Rightarrow> 's WebServer \<Rightarrow> 's WebServer option" where
  "accept_loop cur [] w = None"
| "accept_loop cur (AcceptError # rs) w = Some w"
| "accept_loop cur (Accepted connfd # rs) w =
     (if nt_user_count (ws_net w) \<ge> int MAX_FD then Some (show_error connfd w)
      else (case WebServer_timer cur connfd w of
              None \<Rightarrow> None
            | Some w' \<Rightarrow> accept_loop cur rs w'))"

definition dealclientdata :: "int \<Rightarrow> accept_result list \<Rightarrow> 's WebServer \<Rightarrow> (bool \<times> 's WebServer) option" where
  "dealclientdata cur rs w =
     (if ws_LISTENTrigmode w = 0
      then (case rs of
              [] \<Rightarrow> None
            | AcceptError # _ \<Rightarrow> Some (False, w)
            | Accepted connfd # _ \<Rightarrow>
                if nt_user_count (ws_net w) \<ge> int MAX_FD then Some (False, show_error connfd w)
                else map_option (\<lambda>w'. (True, w')) (WebServer_timer cur connfd w))
      else map_option (\<lambda>w'. (False, w')) (accept_loop cur rs w))"

definition SIGALRM :: int where "SIGALRM = 14"

definition SIGTERM :: int where "SIGTERM = 15"

text \<open>\<^verbatim>\<open>dealwithsignal\<close>: what is in the pipe, \<open>None\<close> for an error, empty for the end. One \<^verbatim>\<open>recv\<close> takes at most the
  1024 bytes of the array \<^verbatim>\<open>signals\<close>.\<close>

definition dealwithsignal :: "int list option \<Rightarrow> bool \<Rightarrow> bool \<Rightarrow> bool \<times> bool \<times> bool" where
  "dealwithsignal piped timeout stop_server =
     (case map_option (take 1024) piped of
        None \<Rightarrow> (False, timeout, stop_server)
      | Some [] \<Rightarrow> (False, timeout, stop_server)
      | Some bs \<Rightarrow> (True, timeout \<or> SIGALRM \<in> set bs, stop_server \<or> SIGTERM \<in> set bs))"

text \<open>
  \<^verbatim>\<open>wait_improv\<close>. The argument \<open>workers\<close> is what the worker threads do to the server until the flag
  \<^verbatim>\<open>improv\<close> of this connection is set, \<open>None\<close> if that never happens.
\<close>

definition wait_improv ::
  "('s WebServer \<Rightarrow> 's WebServer option) \<Rightarrow> nat \<Rightarrow> nat option \<Rightarrow> 's WebServer \<Rightarrow> 's WebServer option" where
  "wait_improv workers sockfd timer w =
     (case workers w of
        None \<Rightarrow> None
      | Some w1 \<Rightarrow>
          (case (if hc_timer_flag (ws_users w1 sockfd)
                 then map_option (\<lambda>w2. w2\<lparr>ws_users := (ws_users w2)(sockfd := (ws_users w2 sockfd)\<lparr>hc_timer_flag := False\<rparr>)\<rparr>)
                        (deal_timer timer sockfd w1)
                 else Some w1) of
             None \<Rightarrow> None
           | Some w3 \<Rightarrow> Some (w3\<lparr>ws_users := (ws_users w3)(sockfd := (ws_users w3 sockfd)\<lparr>hc_improv := False\<rparr>)\<rparr>)))"

definition adjust_if_set :: "int \<Rightarrow> nat option \<Rightarrow> nat \<Rightarrow> 's WebServer \<Rightarrow> 's WebServer option" where
  "adjust_if_set cur timer sockfd w = (if timer = None then Some w else WebServer_adjust_timer cur timer sockfd w)"

text \<open>\<^verbatim>\<open>m_pool->append(&users[sockfd], state)\<close>, the result being ignored\<close>

definition enqueue_state :: "nat \<Rightarrow> int \<Rightarrow> 's WebServer \<Rightarrow> 's WebServer" where
  "enqueue_state sockfd state w =
     (case append_state sockfd state (ws_pool w) (ws_users w) of
        (ok, tp, us) \<Rightarrow> w\<lparr>ws_pool := tp, ws_users := us\<rparr>)"

definition dealwithread ::
  "int \<Rightarrow> recv_result list \<Rightarrow> ('s WebServer \<Rightarrow> 's WebServer option) \<Rightarrow> nat \<Rightarrow> 's WebServer \<Rightarrow> 's WebServer option" where
  "dealwithread cur reads workers sockfd w =
     (let timer = ws_client_timer w sockfd in
      if ws_actormodel w = 1
      then (case adjust_if_set cur timer sockfd w of
              None \<Rightarrow> None
            | Some w1 \<Rightarrow> wait_improv workers sockfd timer (enqueue_state sockfd 0 w1))
      else (case read_once reads (ws_users w sockfd) of
              None \<Rightarrow> None
            | Some (ok, conn) \<Rightarrow>
                (let w1 = w\<lparr>ws_users := (ws_users w)(sockfd := conn)\<rparr> in
                 if ok then adjust_if_set cur timer sockfd (w1\<lparr>ws_pool := snd (append_p sockfd (ws_pool w1))\<rparr>)
                 else deal_timer timer sockfd w1)))"

definition dealwithwrite ::
  "int \<Rightarrow> writev_result list \<Rightarrow> ('s WebServer \<Rightarrow> 's WebServer option) \<Rightarrow> nat \<Rightarrow> 's WebServer \<Rightarrow> 's WebServer option" where
  "dealwithwrite cur writes workers sockfd w =
     (let timer = ws_client_timer w sockfd in
      if ws_actormodel w = 1
      then (case adjust_if_set cur timer sockfd w of
              None \<Rightarrow> None
            | Some w1 \<Rightarrow> wait_improv workers sockfd timer (enqueue_state sockfd 1 w1))
      else (case HttpConn_write writes (ws_users w sockfd) (ws_net w) of
              None \<Rightarrow> None
            | Some (ok, conn, net, sent) \<Rightarrow>
                (let w1 = w\<lparr>ws_users := (ws_users w)(sockfd := conn), ws_net := net\<rparr> in
                 if ok then adjust_if_set cur timer sockfd w1 else deal_timer timer sockfd w1)))"

text \<open>One entry of the result of \<^verbatim>\<open>epoll_wait\<close>, with the results of the system calls its handling makes.\<close>

record 's epoll_event =
  ev_fd :: nat
  ev_hangup :: bool
  ev_in :: bool
  ev_out :: bool
  ev_now :: int
  ev_accepts :: "accept_result list"
  ev_signals :: "int list option"
  ev_reads :: "recv_result list"
  ev_writes :: "writev_result list"
  ev_workers :: "'s WebServer \<Rightarrow> 's WebServer option"

definition handle_event :: "'s epoll_event \<Rightarrow> bool \<times> bool \<times> 's WebServer \<Rightarrow> (bool \<times> bool \<times> 's WebServer) option" where
  "handle_event e = (\<lambda>(timeout, stop_server, w).
     (let sockfd = ev_fd e; keep = map_option (\<lambda>w'. (timeout, stop_server, w')) in
      if sockfd = ws_listenfd w then keep (map_option snd (dealclientdata (ev_now e) (ev_accepts e) w))
      else if ev_hangup e then keep (deal_timer (ws_client_timer w sockfd) sockfd w)
      else if sockfd = ws_pipefd0 w \<and> ev_in e
      then (case dealwithsignal (ev_signals e) timeout stop_server of
              (flag, timeout', stop_server') \<Rightarrow> Some (timeout', stop_server', w))
      else if ev_in e then keep (dealwithread (ev_now e) (ev_reads e) (ev_workers e) sockfd w)
      else if ev_out e then keep (dealwithwrite (ev_now e) (ev_writes e) (ev_workers e) sockfd w)
      else Some (timeout, stop_server, w)))"

fun handle_events :: "'s epoll_event list \<Rightarrow> bool \<times> bool \<times> 's WebServer \<Rightarrow> (bool \<times> bool \<times> 's WebServer) option" where
  "handle_events [] s = Some s"
| "handle_events (e # es) s = (case handle_event e s of None \<Rightarrow> None | Some s' \<Rightarrow> handle_events es s')"

text \<open>
  \<^verbatim>\<open>eventLoop\<close> over the results of \<^verbatim>\<open>epoll_wait\<close>: \<open>None\<close> for a failure that is not an interruption,
  otherwise the events and the time after them. The loop ends at a failure, at \<^verbatim>\<open>SIGTERM\<close>, or with the list.
\<close>

fun eventLoop :: "('s epoll_event list \<times> int) option list \<Rightarrow> 's WebServer \<Rightarrow> 's WebServer option" where
  "eventLoop [] w = Some w"
| "eventLoop (None # batches) w = Some w"
| "eventLoop (Some (events, now) # batches) w =
     (case handle_events events (False, False, w) of
        None \<Rightarrow> None
      | Some (timeout, stop_server, w1) \<Rightarrow>
          (case (if timeout then timer_handler now w1 else Some w1) of
             None \<Rightarrow> None
           | Some w2 \<Rightarrow> if stop_server then Some w2 else eventLoop batches w2))"

section \<open>The table of connections\<close>

text \<open>Every timer that can still fire is the current timer of its client.\<close>

definition server_ok :: "'s WebServer \<Rightarrow> bool" where
  "server_ok w \<longleftrightarrow> timers_ok (ws_timers w) \<and>
     (\<forall>a t. live_at (ws_timers w) a t \<longrightarrow>
        ws_client_timer w (tm_user_data t) = Some a \<and> ws_client_sockfd w (tm_user_data t) = tm_user_data t)"

text \<open>The descriptors a timer is still running for.\<close>

definition clients :: "'s WebServer \<Rightarrow> nat multiset" where
  "clients w = image_mset snd (waiting (ws_timers w))"

definition ledger :: "'s WebServer \<Rightarrow> nat multiset" where
  "ledger w = mset (ws_closed w) + clients w"

lemma server_frame [simp]:
  "server_ok (w\<lparr>ws_users := us\<rparr>) = server_ok w" "clients (w\<lparr>ws_users := us\<rparr>) = clients w"
  "server_ok (w\<lparr>ws_net := n\<rparr>) = server_ok w" "clients (w\<lparr>ws_net := n\<rparr>) = clients w"
  "server_ok (w\<lparr>ws_pool := p\<rparr>) = server_ok w" "clients (w\<lparr>ws_pool := p\<rparr>) = clients w"
  "server_ok (w\<lparr>ws_closed := fds\<rparr>) = server_ok w" "clients (w\<lparr>ws_closed := fds\<rparr>) = clients w"
  by (simp_all add: server_ok_def clients_def)

lemma waiting_live:
  assumes "timers_ok s"
  shows "p \<in># waiting s \<longleftrightarrow> (\<exists>a t. live_at s a t \<and> p = (tm_expire t, tm_user_data t))"
proof
  assume "p \<in># waiting s"
  then obtain a where a: "a \<in> set (tl_heap s)" "\<not> cancelled_at s a" "p = due_of s a"
    by (auto simp: waiting_def)
  then obtain t where "tl_mem s a = Some t"
    using assms by (auto simp: timers_ok_def)
  with a show "\<exists>a t. live_at s a t \<and> p = (tm_expire t, tm_user_data t)"
    by (auto simp: live_at_def cancelled_at_def due_of_def)
next
  assume "\<exists>a t. live_at s a t \<and> p = (tm_expire t, tm_user_data t)"
  then obtain a t where a: "tl_mem s a = Some t" "\<not> tm_cancelled t" "p = (tm_expire t, tm_user_data t)"
    by (auto simp: live_at_def)
  then have "a \<in> set (tl_heap s)" using assms by (auto simp: timers_ok_def)
  with a show "p \<in># waiting s"
    by (force simp: waiting_def cancelled_at_def due_of_def)
qed

lemma clients_live:
  assumes "server_ok w"
  shows "fd \<in># clients w \<longleftrightarrow> (\<exists>a t. live_at (ws_timers w) a t \<and> tm_user_data t = fd \<and>
    ws_client_timer w fd = Some a \<and> ws_client_sockfd w fd = fd)"
  using assms waiting_live[of "ws_timers w"] by (force simp: clients_def server_ok_def)

lemma clients_once:
  assumes "server_ok w"
  shows "count (clients w) fd \<le> 1"
proof -
  let ?s = "ws_timers w" and ?l = "filter (\<lambda>a. \<not> cancelled_at (ws_timers w) a) (tl_heap (ws_timers w))"
  have live: "\<exists>t. live_at ?s a t \<and> snd (due_of ?s a) = tm_user_data t" if "a \<in> set ?l" for a
    using that assms by (fastforce simp: server_ok_def timers_ok_def live_at_def cancelled_at_def due_of_def split: option.splits)
  have "inj_on (snd \<circ> due_of ?s) (set ?l)"
  proof (rule inj_onI)
    fix a b assume ab: "a \<in> set ?l" "b \<in> set ?l" "(snd \<circ> due_of ?s) a = (snd \<circ> due_of ?s) b"
    then obtain t u where "live_at ?s a t" "live_at ?s b u" "tm_user_data t = tm_user_data u"
      using live[of a] live[of b] by auto
    then have "Some a = Some b" using assms unfolding server_ok_def by metis
    then show "a = b" by simp
  qed
  then have "distinct (map (snd \<circ> due_of ?s) ?l)"
    using assms by (simp add: distinct_map server_ok_def timers_ok_def)
  moreover have "clients w = mset (map (snd \<circ> due_of ?s) ?l)"
    by (simp add: clients_def waiting_def image_mset.compositionality o_def)
  ultimately show ?thesis
    by (metis distinct_count_atmost_1 le_refl zero_le)
qed

section \<open>What the operations do to the table\<close>

lemma timer_opens:
  assumes "server_ok w" "fd < MAX_FD" "fd \<notin># clients w"
  shows "\<exists>w'. WebServer_timer cur fd w = Some w' \<and> server_ok w' \<and> clients w' = add_mset fd (clients w) \<and>
    ws_closed w' = ws_closed w \<and> ws_actormodel w' = ws_actormodel w \<and>
    nt_user_count (ws_net w') = nt_user_count (ws_net w) + 1"
proof -
  obtain a T1 where n: "new_timer (cur + 3 * TIMESLOT) fd (ws_timers w) = (a, T1)" by force
  obtain conn net where i: "HttpConn_init (int fd) (ws_root w) (ws_CONNTrigmode w) (ws_users w fd) (ws_net w) = (conn, net)"
    by force
  have T: "timers_ok (ws_timers w)" using assms(1) by (simp add: server_ok_def)
  note t = add_new_timer[OF T n refl]
  define w' where "w' = w\<lparr>ws_users := (ws_users w)(fd := conn), ws_net := net,
    ws_client_sockfd := (ws_client_sockfd w)(fd := fd), ws_client_timer := (ws_client_timer w)(fd := Some a),
    ws_timers := Timers.add_timer (Some a) T1\<rparr>"
  have w': "WebServer_timer cur fd w = Some w'"
    using assms(2) n i by (simp add: WebServer_timer_def w'_def)
  have other: "tm_user_data u \<noteq> fd" if "live_at (ws_timers w) c u" for c u
  proof
    assume "tm_user_data u = fd"
    with that assms(1) have "ws_client_timer w fd = Some c \<and> ws_client_sockfd w fd = fd"
      unfolding server_ok_def by metis
    with that assms(3) \<open>tm_user_data u = fd\<close> show False unfolding clients_live[OF assms(1)] by blast
  qed
  have live: "live_at (Timers.add_timer (Some a) T1) c u \<longleftrightarrow>
      c = a \<and> u = \<lparr>tm_expire = cur + 3 * TIMESLOT, tm_user_data = fd, tm_cancelled = False\<rparr> \<or> live_at (ws_timers w) c u" for c u
    using t by (auto simp: live_at_def)
  have "server_ok w'"
    using assms(1) t other unfolding server_ok_def w'_def by (auto simp: live)
  moreover have "clients w' = add_mset fd (clients w)"
    using t by (simp add: clients_def w'_def)
  moreover have "nt_user_count (ws_net w') = nt_user_count (ws_net w) + 1"
    using i by (auto simp: w'_def HttpConn_init_def epoll_call_def)
  ultimately show ?thesis using w' by (simp add: w'_def)
qed

text \<open>Writing a new deadline into a node.\<close>

lemma set_expire:
  assumes "timers_ok s" "live_at s a t" "s' = s\<lparr>tl_mem := (tl_mem s)(a \<mapsto> t\<lparr>tm_expire := e\<rparr>)\<rparr>"
  shows "timers_ok s'" and "image_mset snd (waiting s') = image_mset snd (waiting s)"
    and "live_at s' c u \<longleftrightarrow> c = a \<and> u = t\<lparr>tm_expire := e\<rparr> \<or> c \<noteq> a \<and> live_at s c u"
proof -
  have t: "tl_mem s a = Some t" "\<not> tm_cancelled t" using assms(2) by (simp_all add: live_at_def)
  have a: "distinct (tl_heap s)" "a \<in> set (tl_heap s)" using assms(1) t by (auto simp: timers_ok_def)
  have fr: "tl_heap s' = tl_heap s" "\<And>b. b \<in> set (tl_heap s) \<Longrightarrow> b \<noteq> a \<Longrightarrow> tl_mem s' b = tl_mem s b"
    by (simp_all add: assms(3))
  have c: "\<not> cancelled_at s a" "\<not> cancelled_at s' a" "due_of s a = (tm_expire t, tm_user_data t)"
    "due_of s' a = (e, tm_user_data t)"
    using t by (simp_all add: cancelled_at_def due_of_def assms(3))
  show "timers_ok s'"
    using assms(1) t waiting_frame(3)[OF fr a] c fr(1) by (auto simp: timers_ok_def assms(3))
  show "image_mset snd (waiting s') = image_mset snd (waiting s)"
    using waiting_frame(1,2)[OF fr a] c by simp
  show "live_at s' c u \<longleftrightarrow> c = a \<and> u = t\<lparr>tm_expire := e\<rparr> \<or> c \<noteq> a \<and> live_at s c u"
    using t by (auto simp: live_at_def assms(3))
qed

lemma adjust_node:
  assumes "timers_ok (ws_timers w)" "live_at (ws_timers w) a t"
  shows "\<exists>b T. adjust_if_set cur (Some a) fd w =
      Some (w\<lparr>ws_timers := T, ws_client_timer := (ws_client_timer w)(fd := Some b)\<rparr>) \<and>
    timers_ok T \<and> image_mset snd (waiting T) = clients w \<and>
    (\<forall>c u. live_at T c u \<longleftrightarrow> c = b \<and> u = t\<lparr>tm_expire := cur + 3 * TIMESLOT\<rparr> \<or> c \<noteq> a \<and> live_at (ws_timers w) c u) \<and>
    tl_mem T a = (if tl_cancelled_count (ws_timers w) \<ge> 511 then None
                  else Some (t\<lparr>tm_expire := cur + 3 * TIMESLOT, tm_cancelled := True\<rparr>))"
proof -
  define T1 where "T1 = (ws_timers w)\<lparr>tl_mem := (tl_mem (ws_timers w))(a \<mapsto> t\<lparr>tm_expire := cur + 3 * TIMESLOT\<rparr>)\<rparr>"
  let ?t = "t\<lparr>tm_expire := cur + 3 * TIMESLOT\<rparr>"
  note e = set_expire[OF assms T1_def]
  have l: "live_at T1 a ?t" by (simp add: e(3))
  have count: "tl_cancelled_count T1 = tl_cancelled_count (ws_timers w)" by (simp add: T1_def)
  obtain b T2 where b: "adjust_timer (Some a) T1 = Some (Some b, T2)" "timers_ok T2" "waiting T2 = waiting T1" "b \<noteq> a"
    "\<forall>c u. live_at T2 c u \<longleftrightarrow> c = b \<and> u = ?t \<or> c \<noteq> a \<and> live_at T1 c u"
    "tl_mem T2 a = (if tl_cancelled_count T1 \<ge> 511 then None else Some (?t\<lparr>tm_cancelled := True\<rparr>))"
    using adjust_spec[OF e(1) l] by blast
  have live: "\<forall>c u. live_at T2 c u \<longleftrightarrow> c = b \<and> u = ?t \<or> c \<noteq> a \<and> live_at (ws_timers w) c u"
    using b(4,5) e(3) by auto
  have "adjust_if_set cur (Some a) fd w = Some (w\<lparr>ws_timers := T2, ws_client_timer := (ws_client_timer w)(fd := Some b)\<rparr>)"
    using assms(2) b(1) by (simp add: adjust_if_set_def WebServer_adjust_timer_def T1_def[symmetric] live_at_def)
  then show ?thesis
    using b(2,3,6) e(2) live count by (intro exI[of _ b] exI[of _ T2]) (simp add: clients_def)
qed

lemma adjust_keeps:
  assumes "server_ok w" "fd \<in># clients w"
  shows "\<exists>w'. adjust_if_set cur (ws_client_timer w fd) fd w = Some w' \<and> server_ok w' \<and> clients w' = clients w \<and>
    ws_closed w' = ws_closed w \<and> ws_actormodel w' = ws_actormodel w"
proof -
  obtain a t where a: "live_at (ws_timers w) a t" "tm_user_data t = fd" "ws_client_timer w fd = Some a"
    "ws_client_sockfd w fd = fd"
    using assms clients_live[OF assms(1)] by blast
  have T: "timers_ok (ws_timers w)" using assms(1) by (simp add: server_ok_def)
  let ?t = "t\<lparr>tm_expire := cur + 3 * TIMESLOT\<rparr>"
  obtain b T2 where b: "adjust_if_set cur (Some a) fd w =
      Some (w\<lparr>ws_timers := T2, ws_client_timer := (ws_client_timer w)(fd := Some b)\<rparr>)" "timers_ok T2"
    "image_mset snd (waiting T2) = clients w"
    "\<forall>c u. live_at T2 c u \<longleftrightarrow> c = b \<and> u = ?t \<or> c \<noteq> a \<and> live_at (ws_timers w) c u"
    using adjust_node[OF T a(1)] by blast
  have other: "tm_user_data u \<noteq> fd" if "c \<noteq> a" "live_at (ws_timers w) c u" for c u
  proof
    assume "tm_user_data u = fd"
    with that(2) assms(1) have "ws_client_timer w fd = Some c" unfolding server_ok_def by metis
    with a(3) that(1) show False by simp
  qed
  define w' where "w' = w\<lparr>ws_timers := T2, ws_client_timer := (ws_client_timer w)(fd := Some b)\<rparr>"
  have "adjust_if_set cur (ws_client_timer w fd) fd w = Some w'"
    using a(3) b(1) by (simp add: w'_def)
  moreover have "server_ok w'"
    using assms(1) b(2,4) a(2,4) other unfolding server_ok_def w'_def by auto
  moreover have "clients w' = clients w"
    using b(3) by (simp add: clients_def w'_def)
  ultimately show ?thesis by (simp add: w'_def)
qed

lemma deal_closes:
  assumes "server_ok w" "fd \<in># clients w"
  shows "\<exists>w'. deal_timer (ws_client_timer w fd) fd w = Some w' \<and> server_ok w' \<and> clients w = add_mset fd (clients w') \<and>
    ws_closed w' = ws_closed w @ [fd] \<and> ws_actormodel w' = ws_actormodel w"
proof -
  obtain a t where a: "live_at (ws_timers w) a t" "tm_user_data t = fd" "ws_client_timer w fd = Some a"
    "ws_client_sockfd w fd = fd"
    using assms clients_live[OF assms(1)] by blast
  have T: "timers_ok (ws_timers w)" using assms(1) by (simp add: server_ok_def)
  obtain T1 where d: "del_timer (Some a) (ws_timers w) = Some T1" "timers_ok T1"
    "waiting (ws_timers w) = add_mset (tm_expire t, tm_user_data t) (waiting T1)"
    "\<forall>c u. live_at T1 c u \<longleftrightarrow> c \<noteq> a \<and> live_at (ws_timers w) c u"
    using del_spec[OF T a(1)] by blast
  have "server_ok ((cb_func fd w)\<lparr>ws_timers := T1\<rparr>)"
    using assms(1) d(2,4) by (auto simp: server_ok_def cb_func_def)
  with a d show ?thesis
    by (auto simp: deal_timer_def clients_def cb_func_def)
qed

lemma fire_all:
  fixes w :: "'s WebServer"
  defines "f \<equiv> foldl (\<lambda>w u. cb_func u w)"
  shows "ws_timers (f w us) = ws_timers w" "ws_client_timer (f w us) = ws_client_timer w"
    "ws_client_sockfd (f w us) = ws_client_sockfd w" "ws_actormodel (f w us) = ws_actormodel w"
    "ws_closed (f w us) = ws_closed w @ map (ws_client_sockfd w) us"
  unfolding f_def by (induction us arbitrary: w) (simp_all add: cb_func_def)

lemma tick_closes:
  assumes "server_ok w"
  shows "\<exists>w'. timer_handler cur w = Some w' \<and> server_ok w' \<and> ledger w' = ledger w \<and> ws_actormodel w' = ws_actormodel w"
proof -
  have T: "timers_ok (ws_timers w)" using assms by (simp add: server_ok_def)
  obtain due T1 where k: "tick cur (ws_timers w) = Some (map snd due, T1)" "timers_ok T1"
    "waiting (ws_timers w) = mset due + waiting T1" "\<forall>c u. live_at T1 c u \<longrightarrow> live_at (ws_timers w) c u"
    using tick_safe[OF T] by blast
  let ?w = "w\<lparr>ws_timers := T1\<rparr>"
  define w' where "w' = foldl (\<lambda>w u. cb_func u w) ?w (map snd due)"
  have f: "ws_timers w' = T1" "ws_client_timer w' = ws_client_timer w" "ws_client_sockfd w' = ws_client_sockfd w"
    "ws_actormodel w' = ws_actormodel w" "ws_closed w' = ws_closed w @ map (ws_client_sockfd w) (map snd due)"
    unfolding w'_def by (simp_all add: fire_all)
  have "map (ws_client_sockfd w) (map snd due) = map snd due"
  proof (rule map_idI)
    fix u assume "u \<in> set (map snd due)"
    then obtain p where "p \<in># waiting (ws_timers w)" "u = snd p" using k(3) by auto
    then show "ws_client_sockfd w u = u"
      using assms by (auto simp: waiting_live[OF T] server_ok_def)
  qed
  with f(5) have "ws_closed w' = ws_closed w @ map snd due" by simp
  then have "ledger w' = ledger w"
    using k(3) f(1) by (simp add: ledger_def clients_def ac_simps)
  moreover have "server_ok w'"
    using assms k(2,4) f by (auto simp: server_ok_def)
  ultimately show ?thesis
    using k(1) f by (simp add: timer_handler_def w'_def)
qed

section \<open>Proactor mode\<close>

text \<open>
  What the kernel promises: an event on a connection is about an open one, an accepted descriptor is not in
  use, and the scripted results are as many as the handling asks for. \<open>n\<close> is the user counter.
\<close>

fun accepts_fit :: "int \<Rightarrow> nat multiset \<Rightarrow> accept_result list \<Rightarrow> bool" where
  "accepts_fit n used [] = False"
| "accepts_fit n used (AcceptError # rs) = True"
| "accepts_fit n used (Accepted fd # rs) =
     (fd \<notin># used \<and> fd < MAX_FD \<and> (n \<ge> int MAX_FD \<or> accepts_fit (n + 1) (add_mset fd used) rs))"

fun accepted_fds :: "int \<Rightarrow> accept_result list \<Rightarrow> nat multiset" where
  "accepted_fds n [] = {#}"
| "accepted_fds n (AcceptError # rs) = {#}"
| "accepted_fds n (Accepted fd # rs) = add_mset fd (if n \<ge> int MAX_FD then {#} else accepted_fds (n + 1) rs)"

definition offered :: "'s epoll_event \<Rightarrow> 's WebServer \<Rightarrow> accept_result list" where
  "offered e w = (if ws_LISTENTrigmode w = 0 then take 1 (ev_accepts e) @ [AcceptError] else ev_accepts e)"

definition event_fits :: "'s epoll_event \<Rightarrow> 's WebServer \<Rightarrow> bool" where
  "event_fits e w \<longleftrightarrow>
     (if ev_fd e = ws_listenfd w
      then ev_accepts e \<noteq> [] \<and> accepts_fit (nt_user_count (ws_net w)) (clients w) (offered e w)
      else if ev_hangup e then ev_fd e \<in># clients w
      else if ev_fd e = ws_pipefd0 w \<and> ev_in e then True
      else if ev_in e then ev_fd e \<in># clients w \<and> read_once (ev_reads e) (ws_users w (ev_fd e)) \<noteq> None
      else if ev_out e then ev_fd e \<in># clients w \<and> HttpConn_write (ev_writes e) (ws_users w (ev_fd e)) (ws_net w) \<noteq> None
      else True)"

definition opened_by :: "'s epoll_event \<Rightarrow> 's WebServer \<Rightarrow> nat multiset" where
  "opened_by e w =
     (if ev_fd e = ws_listenfd w then accepted_fds (nt_user_count (ws_net w)) (offered e w) else {#})"

lemma accept_loop_ledger:
  "server_ok w \<Longrightarrow> accepts_fit (nt_user_count (ws_net w)) (clients w) rs \<Longrightarrow>
     \<exists>w'. accept_loop cur rs w = Some w' \<and> server_ok w' \<and> ws_actormodel w' = ws_actormodel w \<and>
       ledger w' = ledger w + accepted_fds (nt_user_count (ws_net w)) rs"
proof (induction cur rs w rule: accept_loop.induct)
  case (3 cur fd rs w)
  show ?case
  proof (cases "nt_user_count (ws_net w) \<ge> int MAX_FD")
    case True
    with 3(2) show ?thesis by (simp add: show_error_def ledger_def)
  next
    case False
    obtain w1 where t: "WebServer_timer cur fd w = Some w1" "server_ok w1" "clients w1 = add_mset fd (clients w)"
      "ws_closed w1 = ws_closed w" "ws_actormodel w1 = ws_actormodel w"
      "nt_user_count (ws_net w1) = nt_user_count (ws_net w) + 1"
      using timer_opens[OF 3(2), of fd cur] 3(3) by auto
    have "accepts_fit (nt_user_count (ws_net w1)) (clients w1) rs"
      using 3(3) False t by simp
    from 3(1)[OF False t(1,2) this] obtain w2 where "accept_loop cur rs w1 = Some w2" "server_ok w2"
      "ws_actormodel w2 = ws_actormodel w1"
      "ledger w2 = ledger w1 + accepted_fds (nt_user_count (ws_net w1)) rs" by blast
    with t False show ?thesis by (simp add: ledger_def)
  qed
qed simp_all

lemma dealclientdata_loop:
  assumes "ev_accepts e \<noteq> []"
  shows "map_option snd (dealclientdata cur (ev_accepts e) w) = accept_loop cur (offered e w) w"
proof (cases "ev_accepts e")
  case (Cons r rs)
  then show ?thesis
    by (cases r; cases "WebServer_timer cur (case r of Accepted fd \<Rightarrow> fd | _ \<Rightarrow> 0) w")
      (auto simp: dealclientdata_def offered_def option.map_comp o_def option.map_ident)
qed (use assms in simp)

lemma event_ledger:
  assumes "server_ok w" "ws_actormodel w \<noteq> 1" "event_fits e w"
  shows "\<exists>timeout' stop' w'. handle_event e (timeout, stop, w) = Some (timeout', stop', w') \<and> server_ok w' \<and>
    ws_actormodel w' = ws_actormodel w \<and> ledger w' = ledger w + opened_by e w"
proof -
  let ?fd = "ev_fd e"
  consider (listen) "?fd = ws_listenfd w" | (hangup) "?fd \<noteq> ws_listenfd w" "ev_hangup e"
    | (signal) "?fd \<noteq> ws_listenfd w" "\<not> ev_hangup e" "?fd = ws_pipefd0 w \<and> ev_in e"
    | (readable) "?fd \<noteq> ws_listenfd w" "\<not> ev_hangup e" "\<not> (?fd = ws_pipefd0 w \<and> ev_in e)" "ev_in e"
    | (writable) "?fd \<noteq> ws_listenfd w" "\<not> ev_hangup e" "\<not> ev_in e" "ev_out e"
    | (none) "?fd \<noteq> ws_listenfd w" "\<not> ev_hangup e" "\<not> ev_in e" "\<not> ev_out e"
    by blast
  then show ?thesis
  proof cases
    case listen
    with assms(3) have f: "ev_accepts e \<noteq> []" "accepts_fit (nt_user_count (ws_net w)) (clients w) (offered e w)"
      by (simp_all add: event_fits_def)
    from accept_loop_ledger[OF assms(1) f(2), of "ev_now e"] dealclientdata_loop[OF f(1), of "ev_now e" w] listen
    show ?thesis by (auto simp: handle_event_def opened_by_def)
  next
    case hangup
    with assms(3) deal_closes[OF assms(1), of ?fd] show ?thesis
      by (auto simp: event_fits_def handle_event_def opened_by_def ledger_def)
  next
    case signal
    with assms(1) show ?thesis by (auto simp: handle_event_def opened_by_def split: prod.splits)
  next
    case readable
    with assms(3) obtain ok conn where r: "?fd \<in># clients w" "read_once (ev_reads e) (ws_users w ?fd) = Some (ok, conn)"
      by (auto simp: event_fits_def)
    let ?w1 = "w\<lparr>ws_users := (ws_users w)(?fd := conn)\<rparr>"
    from adjust_keeps[of "?w1\<lparr>ws_pool := snd (append_p ?fd (ws_pool w))\<rparr>" ?fd "ev_now e"] deal_closes[of ?w1 ?fd] assms(1,2) r readable
    show ?thesis by (cases ok) (auto simp: handle_event_def opened_by_def dealwithread_def Let_def ledger_def)
  next
    case writable
    with assms(3) obtain ok conn net sent where r: "?fd \<in># clients w"
      "HttpConn_write (ev_writes e) (ws_users w ?fd) (ws_net w) = Some (ok, conn, net, sent)"
      by (auto simp: event_fits_def)
    let ?w1 = "w\<lparr>ws_users := (ws_users w)(?fd := conn), ws_net := net\<rparr>"
    from adjust_keeps[of ?w1 ?fd "ev_now e"] deal_closes[of ?w1 ?fd] assms(1,2) r writable
    show ?thesis by (cases ok) (auto simp: handle_event_def opened_by_def dealwithwrite_def Let_def ledger_def)
  next
    case none
    with assms(1) show ?thesis by (auto simp: handle_event_def opened_by_def)
  qed
qed

text \<open>A batch of events, each of which fits the state it meets, with everything they open.\<close>

fun events_fit :: "'s epoll_event list \<Rightarrow> bool \<times> bool \<times> 's WebServer \<Rightarrow> bool" where
  "events_fit [] s = True"
| "events_fit (e # es) s =
     (event_fits e (snd (snd s)) \<and> (case handle_event e s of None \<Rightarrow> True | Some s' \<Rightarrow> events_fit es s'))"

fun events_open :: "'s epoll_event list \<Rightarrow> bool \<times> bool \<times> 's WebServer \<Rightarrow> nat multiset" where
  "events_open [] s = {#}"
| "events_open (e # es) s =
     opened_by e (snd (snd s)) + (case handle_event e s of None \<Rightarrow> {#} | Some s' \<Rightarrow> events_open es s')"

lemma events_ledger:
  "server_ok w \<Longrightarrow> ws_actormodel w \<noteq> 1 \<Longrightarrow> events_fit es (timeout, stop, w) \<Longrightarrow>
     \<exists>timeout' stop' w'. handle_events es (timeout, stop, w) = Some (timeout', stop', w') \<and> server_ok w' \<and>
       ws_actormodel w' = ws_actormodel w \<and> ledger w' = ledger w + events_open es (timeout, stop, w)"
proof (induction es arbitrary: timeout stop w)
  case (Cons e es)
  from event_ledger[OF Cons.prems(1,2), of e timeout stop] Cons.prems(3)
  obtain t1 s1 w1 where h: "handle_event e (timeout, stop, w) = Some (t1, s1, w1)" "server_ok w1"
    "ws_actormodel w1 = ws_actormodel w" "ledger w1 = ledger w + opened_by e w" by auto
  from Cons.IH[OF h(2), of t1 s1] Cons.prems(2,3) h show ?case by auto
qed simp

text \<open>The whole loop.\<close>

fun loop_fits :: "('s epoll_event list \<times> int) option list \<Rightarrow> 's WebServer \<Rightarrow> bool" where
  "loop_fits [] w = True"
| "loop_fits (None # batches) w = True"
| "loop_fits (Some (events, now) # batches) w =
     (events_fit events (False, False, w) \<and>
      (case handle_events events (False, False, w) of
         None \<Rightarrow> True
       | Some (timeout, stop_server, w1) \<Rightarrow>
           (case (if timeout then timer_handler now w1 else Some w1) of
              None \<Rightarrow> True
            | Some w2 \<Rightarrow> stop_server \<or> loop_fits batches w2)))"

fun loop_opens :: "('s epoll_event list \<times> int) option list \<Rightarrow> 's WebServer \<Rightarrow> nat multiset" where
  "loop_opens [] w = {#}"
| "loop_opens (None # batches) w = {#}"
| "loop_opens (Some (events, now) # batches) w =
     events_open events (False, False, w) +
      (case handle_events events (False, False, w) of
         None \<Rightarrow> {#}
       | Some (timeout, stop_server, w1) \<Rightarrow>
           (case (if timeout then timer_handler now w1 else Some w1) of
              None \<Rightarrow> {#}
            | Some w2 \<Rightarrow> if stop_server then {#} else loop_opens batches w2))"

section \<open>Properties\<close>

text \<open>C15: In proactor mode the main loop never follows a dead timer and closes every connection exactly once.
  For any sequence of event batches that the kernel can deliver, timeouts and signals included, the loop runs
  through, and the descriptors closed so far together with those that still have a running timer are
  exactly the accepted ones; every open connection has exactly one running timer. What a worker thread closes on
  its own is not part of this account.\<close>

theorem connections_closed_once:
  assumes "server_ok w" "ws_actormodel w \<noteq> 1" "loop_fits batches w"
  shows "\<exists>w'. eventLoop batches w = Some w' \<and> server_ok w' \<and>
    mset (ws_closed w') + clients w' = mset (ws_closed w) + clients w + loop_opens batches w \<and>
    (\<forall>fd. count (clients w') fd \<le> 1)"
proof -
  have "\<exists>w'. eventLoop batches w = Some w' \<and> server_ok w' \<and> ledger w' = ledger w + loop_opens batches w"
    using assms
  proof (induction batches w rule: eventLoop.induct)
    case (3 events now batches w)
    from events_ledger[OF 3(2,3), of events False False] 3(4)
    obtain t s w1 where h: "handle_events events (False, False, w) = Some (t, s, w1)" "server_ok w1"
      "ws_actormodel w1 = ws_actormodel w" "ledger w1 = ledger w + events_open events (False, False, w)" by auto
    obtain w2 where k: "(if t then timer_handler now w1 else Some w1) = Some w2" "server_ok w2" "ledger w2 = ledger w1"
      "ws_actormodel w2 = ws_actormodel w1"
      using tick_closes[OF h(2), of now] h(2) by (cases t) auto
    show ?case
    proof (cases s)
      case True
      with h k show ?thesis by auto
    next
      case False
      with 3(1)[OF h(1) refl refl k(1) False k(2)] 3(3,4) h k show ?thesis by auto
    qed
  qed auto
  then show ?thesis using clients_once by (auto simp: ledger_def)
qed

text \<open>Two idle connections whose timers are in order.\<close>

definition early_timers :: sort_timer_lst where
  "early_timers = \<lparr>tl_heap = [0, 1], tl_cancelled_count = 0,
     tl_mem = [0 \<mapsto> \<lparr>tm_expire = 15, tm_user_data = 8, tm_cancelled = False\<rparr>,
               1 \<mapsto> \<lparr>tm_expire = 16, tm_user_data = 9, tm_cancelled = False\<rparr>], tl_next = 2\<rparr>"

text \<open>\<open>WebServer::adjust_timer\<close> moves the deadline of a node that is still in the heap, which breaks the order
  of the heap: an idle connection whose deadline has passed is not closed by the next \<open>tick\<close>, because the
  cancelled node of an active connection on top of it now carries a later deadline.\<close>

theorem adjusting_delays_others:
  "timers_ok early_timers \<and> in_order early_timers \<and>
   (case WebServer_adjust_timer 14 (Some 0) 8 (w\<lparr>ws_timers := early_timers, ws_closed := []\<rparr>) of
      None \<Rightarrow> False
    | Some w1 \<Rightarrow> (16, 9) \<in># waiting (ws_timers w1) \<and> \<not> in_order (ws_timers w1) \<and>
        (case timer_handler 20 w1 of None \<Rightarrow> False | Some w2 \<Rightarrow> ws_closed w2 = [] \<and> (16, 9) \<in># waiting (ws_timers w2)))"
proof -
  let ?T = "\<lparr>tl_heap = [0, 1, 2], tl_cancelled_count = 1,
     tl_mem = [0 \<mapsto> \<lparr>tm_expire = 29, tm_user_data = 8, tm_cancelled = True\<rparr>,
               1 \<mapsto> \<lparr>tm_expire = 16, tm_user_data = 9, tm_cancelled = False\<rparr>,
               2 \<mapsto> \<lparr>tm_expire = 29, tm_user_data = 8, tm_cancelled = False\<rparr>], tl_next = 3\<rparr>"
  let ?w = "w\<lparr>ws_timers := early_timers, ws_closed := []\<rparr>"
  let ?w1 = "?w\<lparr>ws_timers := ?T, ws_client_timer := (ws_client_timer w)(8 := Some 2)\<rparr>"
  have "timers_ok early_timers \<and> in_order early_timers"
    by (auto simp: timers_ok_def in_order_def early_timers_def cancelled_at_def is_heap_def expire_of_def parent_def less_Suc_eq)
  moreover have "WebServer_adjust_timer 14 (Some 0) 8 ?w = Some ?w1"
    by (simp add: WebServer_adjust_timer_def early_timers_def adjust_timer_def new_timer_def heap_push_def pq_push_def
        sift_up.simps[of _ _ "Suc (Suc 0)"] cmp_expire_def parent_def expire_of_def TIMESLOT_def Let_def
        fun_upd_def fun_eq_iff numeral_2_eq_2)
  moreover have "(16, 9) \<in># waiting ?T" "\<not> in_order ?T"
    by (auto simp: waiting_def due_of_def cancelled_at_def in_order_def is_heap_def expire_of_def parent_def
        intro!: exI[of _ 1])
  moreover have "tick 20 ?T = Some ([], ?T)"
    by (simp add: tick_def tick_loop.simps[of 20])
  ultimately show ?thesis by (simp add: timer_handler_def)
qed

text \<open>In reactor mode a connection whose input fails is closed although its timer goes on running. The main loop
  first moves the connection to a fresh timer and then deletes the old one, so the descriptor is closed while
  a timer that will close it again is alive; when 511 cancelled timers have gathered, the old timer has already
  been freed and \<open>deal_timer\<close> follows a dead pointer.\<close>

theorem reactor_failure_leaves_timer:
  assumes "server_ok w" "ws_actormodel w = 1" "fd \<in># clients w"
    and "workers = (\<lambda>w. Some (w\<lparr>ws_users := (ws_users w)(fd := (ws_users w fd)\<lparr>hc_improv := True, hc_timer_flag := True\<rparr>)\<rparr>))"
  shows "(tl_cancelled_count (ws_timers w) < 511 \<longrightarrow>
      (\<exists>w'. dealwithread cur reads workers fd w = Some w' \<and> ws_closed w' = ws_closed w @ [fd] \<and> fd \<in># clients w')) \<and>
    (tl_cancelled_count (ws_timers w) \<ge> 511 \<longrightarrow> dealwithread cur reads workers fd w = None)"
proof -
  obtain a t where a: "live_at (ws_timers w) a t" "ws_client_timer w fd = Some a" "ws_client_sockfd w fd = fd"
    using assms(3) clients_live[OF assms(1)] by blast
  have T: "timers_ok (ws_timers w)" using assms(1) by (simp add: server_ok_def)
  let ?t = "t\<lparr>tm_expire := cur + 3 * TIMESLOT\<rparr>"
  obtain b T2 where b: "adjust_if_set cur (Some a) fd w =
      Some (w\<lparr>ws_timers := T2, ws_client_timer := (ws_client_timer w)(fd := Some b)\<rparr>)" "timers_ok T2"
    "image_mset snd (waiting T2) = clients w"
    "tl_mem T2 a = (if tl_cancelled_count (ws_timers w) \<ge> 511 then None else Some (?t\<lparr>tm_cancelled := True\<rparr>))"
    using adjust_node[OF T a(1)] by blast
  define w1 where "w1 = w\<lparr>ws_timers := T2, ws_client_timer := (ws_client_timer w)(fd := Some b)\<rparr>"
  obtain w2 where w2: "workers (enqueue_state fd 0 w1) = Some w2" "ws_timers w2 = T2" "ws_closed w2 = ws_closed w"
    "ws_client_sockfd w2 = ws_client_sockfd w" "hc_timer_flag (ws_users w2 fd)"
    by (simp add: assms(4) enqueue_state_def w1_def split: prod.splits)
  have run: "dealwithread cur reads workers fd w = wait_improv workers fd (Some a) (enqueue_state fd 0 w1)"
    using assms(2) a(2) b(1) by (simp add: dealwithread_def w1_def)
  have late: "dealwithread cur reads workers fd w = None" if "tl_cancelled_count (ws_timers w) \<ge> 511"
    using that b(4) w2 by (simp add: run wait_improv_def deal_timer_def del_timer_def)
  have early: "\<exists>w'. dealwithread cur reads workers fd w = Some w' \<and> ws_closed w' = ws_closed w @ [fd] \<and> fd \<in># clients w'"
    if small: "tl_cancelled_count (ws_timers w) < 511"
  proof -
    let ?u = "?t\<lparr>tm_cancelled := True\<rparr>"
    define T3 where "T3 = T2\<lparr>tl_mem := (tl_mem T2)(a \<mapsto> ?u), tl_cancelled_count := tl_cancelled_count T2 + 1\<rparr>"
    have m: "tl_mem T2 a = Some ?u" using b(4) small by simp
    then have "tl_mem T3 = tl_mem T2" by (simp add: T3_def fun_upd_idem)
    then have "cancelled_at T3 = cancelled_at T2" "due_of T3 = due_of T2"
      by (simp_all add: fun_eq_iff cancelled_at_def due_of_def)
    then have "waiting T3 = waiting T2"
      by (simp add: waiting_def T3_def)
    moreover have "deal_timer (Some a) fd w2 = Some ((cb_func fd w2)\<lparr>ws_timers := T3\<rparr>)"
      using m w2(2) by (simp add: deal_timer_def del_timer_def T3_def)
    moreover have "fd \<in># image_mset snd (waiting T2)" using b(3) assms(3) by simp
    ultimately show ?thesis
      using w2 a(3) by (simp add: run wait_improv_def cb_func_def clients_def del: set_image_mset)
  qed
  show ?thesis using late early by blast
qed

section \<open>Instances\<close>

text \<open>A server with one idle connection on descriptor 8.\<close>

definition one_client :: "int \<Rightarrow> unit WebServer" where
  "one_client actor_model =
     \<lparr>ws_port = 9006, ws_root = ''/srv'', ws_log_write = 0, ws_close_log = 0, ws_actormodel = actor_model,
      ws_user = [], ws_passWord = [], ws_databaseName = [], ws_sql_num = 8, ws_thread_num = 8, ws_OPT_LINGER = 0,
      ws_TRIGMode = 0, ws_LISTENTrigmode = 0, ws_CONNTrigmode = 0, ws_listenfd = 4, ws_pipefd0 = 5,
      ws_users = (\<lambda>_. HttpConn_new), ws_client_sockfd = id, ws_client_timer = [8 \<mapsto> 0],
      ws_timers = \<lparr>tl_heap = [0], tl_cancelled_count = 0,
        tl_mem = [0 \<mapsto> \<lparr>tm_expire = 15, tm_user_data = 8, tm_cancelled = False\<rparr>], tl_next = 1\<rparr>,
      ws_pool = \<lparr>tp_thread_number = 1, tp_max_requests = 10, tp_workqueue = [], tp_stop = False,
        tp_actor_model = actor_model, tp_workers = [Idle]\<rparr>,
      ws_net = \<lparr>nt_user_count = 1, nt_epoll = [], nt_gateway = None\<rparr>, ws_closed = []\<rparr>"

lemma one_client_ok: "server_ok (one_client m)" "clients (one_client m) = {#8#}" "ws_actormodel (one_client m) = m"
  "ws_closed (one_client m) = []" "tl_cancelled_count (ws_timers (one_client m)) = 0"
  by (auto simp: one_client_def server_ok_def timers_ok_def live_at_def clients_def waiting_def due_of_def
      cancelled_at_def split: if_splits)

definition calm_event :: "nat \<Rightarrow> 's epoll_event" where
  "calm_event fd = \<lparr>ev_fd = fd, ev_hangup = False, ev_in = False, ev_out = False, ev_now = 0, ev_accepts = [],
     ev_signals = None, ev_reads = [], ev_writes = [], ev_workers = Some\<rparr>"

text \<open>A connection is accepted, the first one hangs up, and an alarm arrives.\<close>

theorem connections_closed_once_witness:
  "\<exists>w'. eventLoop [Some ([(calm_event 4)\<lparr>ev_accepts := [Accepted 9]\<rparr>, (calm_event 8)\<lparr>ev_hangup := True\<rparr>,
          (calm_event 5)\<lparr>ev_in := True, ev_signals := Some [14]\<rparr>], 5)] (one_client 0) = Some w' \<and>
     server_ok w' \<and> mset (ws_closed w') + clients w' = {#8, 9#}"
proof -
  let ?es = "[Some ([(calm_event 4)\<lparr>ev_accepts := [Accepted 9]\<rparr>, (calm_event 8)\<lparr>ev_hangup := True\<rparr>,
          (calm_event 5)\<lparr>ev_in := True, ev_signals := Some [14]\<rparr>], 5 :: int)] :: (unit epoll_event list \<times> int) option list"
  have fits: "loop_fits ?es (one_client 0)" and opens: "loop_opens ?es (one_client 0) = {#9#}"
    by (auto simp: event_fits_def offered_def opened_by_def handle_event_def dealclientdata_def WebServer_timer_def
        HttpConn_init_def Let_def one_client_def calm_event_def MAX_FD_def epoll_call_def new_timer_def
        Timers.add_timer_def heap_push_def pq_push_def sift_up.simps[of _ _ "Suc 0"] parent_def cmp_expire_def
        expire_of_def TIMESLOT_def clients_def waiting_def due_of_def cancelled_at_def deal_timer_def del_timer_def
        cb_func_def dealwithsignal_def SIGALRM_def SIGTERM_def timer_handler_def tick_def tick_loop.simps[of 5])
  have "ws_actormodel (one_client 0) \<noteq> 1" by (simp add: one_client_ok)
  from connections_closed_once[OF one_client_ok(1) this fits] show ?thesis
    unfolding opens one_client_ok by auto
qed

theorem reactor_failure_leaves_timer_witness:
  "\<exists>w'. dealwithread 0 [] (\<lambda>w. Some (w\<lparr>ws_users := (ws_users w)(8 := (ws_users w 8)\<lparr>hc_improv := True, hc_timer_flag := True\<rparr>)\<rparr>)) 8
        (one_client 1) = Some w' \<and> ws_closed w' = [8] \<and> 8 \<in># clients w'"
  using reactor_failure_leaves_timer[OF one_client_ok(1,3) _ refl, of 8 0 "[]"]
  by (auto simp: one_client_ok)

end
