(* ===== verification/Config.thy ===== *)
theory Config
  imports Web_Server
begin

text \<open>
  \<^verbatim>\<open>src/core/config.h\<close>, \<^verbatim>\<open>src/core/config.cpp\<close>, \<^verbatim>\<open>src/core/main.cpp\<close>, and the helpers at the top of
  \<^verbatim>\<open>src/core/webserver.cpp\<close>: command line and environment, the database ping and the readiness check of the
  gateway. The option letters and arguments that \<^verbatim>\<open>getopt\<close> finds, the value of an environment variable
  (\<open>None\<close> if unset) and the answers of MySQL and Redis are arguments.
\<close>

section \<open>Command line\<close>

record Config =
  cf_PORT :: int
  cf_LOGWrite :: int
  cf_TRIGMode :: int
  cf_LISTENTrigmode :: int
  cf_CONNTrigmode :: int
  cf_OPT_LINGER :: int
  cf_sql_num :: int
  cf_thread_num :: int
  cf_close_log :: int
  cf_actor_model :: int

definition Config_new :: Config where
  "Config_new =
     \<lparr>cf_PORT = 9006, cf_LOGWrite = 0, cf_TRIGMode = 0, cf_LISTENTrigmode = 0, cf_CONNTrigmode = 0,
      cf_OPT_LINGER = 0, cf_sql_num = 8, cf_thread_num = 8, cf_close_log = 0, cf_actor_model = 0\<rparr>"

fun parse_arg :: "(char \<times> string) list \<Rightarrow> Config \<Rightarrow> Config" where
  "parse_arg [] c = c"
| "parse_arg ((opt, optarg) # rs) c =
     parse_arg rs
       (if opt = CHR ''p'' then c\<lparr>cf_PORT := atoi optarg\<rparr>
        else if opt = CHR ''l'' then c\<lparr>cf_LOGWrite := atoi optarg\<rparr>
        else if opt = CHR ''m'' then c\<lparr>cf_TRIGMode := atoi optarg\<rparr>
        else if opt = CHR ''o'' then c\<lparr>cf_OPT_LINGER := atoi optarg\<rparr>
        else if opt = CHR ''s'' then c\<lparr>cf_sql_num := atoi optarg\<rparr>
        else if opt = CHR ''t'' then c\<lparr>cf_thread_num := atoi optarg\<rparr>
        else if opt = CHR ''c'' then c\<lparr>cf_close_log := atoi optarg\<rparr>
        else if opt = CHR ''a'' then c\<lparr>cf_actor_model := atoi optarg\<rparr>
        else c)"

text \<open>The part of \<^verbatim>\<open>main\<close> that configures the server.\<close>

definition configure_server :: "Config \<Rightarrow> 's WebServer \<Rightarrow> 's WebServer" where
  "configure_server c =
     WebServer_init (cf_PORT c) ''root'' ''root'' ''qgydb'' (cf_LOGWrite c) (cf_OPT_LINGER c) (cf_TRIGMode c)
       (cf_sql_num c) (cf_thread_num c) (cf_close_log c) (cf_actor_model c)"

section \<open>Environment\<close>

definition env_or_default :: "string option \<Rightarrow> string \<Rightarrow> string" where
  "env_or_default value fallback =
     (case value of None \<Rightarrow> fallback | Some v \<Rightarrow> if c_str v = [] then fallback else c_str v)"

text \<open>\<^verbatim>\<open>strtol\<close> in base ten: the value, and what follows the number (the whole string if there is none).\<close>

definition strtol_end :: "string \<Rightarrow> int \<times> string" where
  "strtol_end s =
     (let t = dropWhile isspace s;
          negative = (t \<noteq> [] \<and> hd t = CHR ''-'');
          u = (if t \<noteq> [] \<and> (hd t = CHR ''-'' \<or> hd t = CHR ''+'') then tl t else t);
          ds = takeWhile isdigit u
      in if ds = [] then (0, s)
         else (clamp64 (if negative then - dec_value 0 ds else dec_value 0 ds), dropWhile isdigit u))"

definition env_int_or_default :: "string option \<Rightarrow> int \<Rightarrow> int" where
  "env_int_or_default value fallback =
     (case value of
        None \<Rightarrow> fallback
      | Some v \<Rightarrow>
          (let s = c_str v in
           if s = [] then fallback
           else (case strtol_end s of
                   (parsed, rest) \<Rightarrow> if rest = s \<or> rest \<noteq> [] then fallback else wrap32 parsed)))"

section \<open>Readiness\<close>

text \<open>
  \<^verbatim>\<open>mysql_ping\<close>: the answer, the error text and the pool, \<open>None\<close> while it waits for a connection. \<open>select1\<close> is
  the error of the query on a connection, if any.
\<close>

definition mysql_ping ::
  "('c \<Rightarrow> string option) \<Rightarrow> 'c connection_pool option \<Rightarrow> ((bool \<times> string) \<times> 'c connection_pool option) option" where
  "mysql_ping select1 pool =
     (case pool of
        None \<Rightarrow> Some ((False, ''mysql pool is not initialized''), None)
      | Some p \<Rightarrow>
          map_option (\<lambda>(r, p'). (r, Some p'))
            (with_connection
               (\<lambda>mysql p.
                  (case mysql of
                     None \<Rightarrow> (False, ''mysql connection is unavailable'')
                   | Some con \<Rightarrow>
                       (case select1 con of
                          Some e \<Rightarrow> (False, ''mysql ping failed: '' @ e)
                        | None \<Rightarrow> (True, [])), p)) p))"

fun join_failures :: "string list \<Rightarrow> string" where
  "join_failures [] = []"
| "join_failures [x] = x"
| "join_failures (x # xs) = x @ ''; '' @ join_failures xs"

text \<open>The lambda that \<^verbatim>\<open>sql_pool\<close> installs; \<open>redis\<close> is the error of the Redis ping where Redis is configured.\<close>

definition server_readiness :: "bool \<times> string \<Rightarrow> string option \<Rightarrow> ReadinessStatus" where
  "server_readiness mysql redis =
     (let failures = (if fst mysql then [] else [snd mysql]) @
                     (case redis of None \<Rightarrow> [] | Some e \<Rightarrow> [''redis ping failed: '' @ e])
      in if failures = [] then \<lparr>rd_ready = True, rd_detail = ''dependencies ready''\<rparr>
         else \<lparr>rd_ready = False, rd_detail = join_failures failures\<rparr>)"

section \<open>Properties\<close>

text \<open>\<^verbatim>\<open>GET /api/ready\<close> answers 200 exactly when the database answers and Redis, where it is configured,
  does too; otherwise 503. The check borrows one connection of the pool and gives it back, and it never waits
  while a connection is free.\<close>

theorem readiness_reported:
  assumes "pool_ok p" "connList p \<noteq> []"
  shows "\<exists>answer p'. mysql_ping select1 (Some p) = Some (answer, Some p') \<and> pool_ok p' \<and>
    mset (connList p') = mset (connList p) \<and> (fst answer \<longleftrightarrow> select1 (hd (connList p)) = None) \<and>
    map_option (\<lambda>r. rs_status_code (fst r))
      (dispatch (request\<lparr>rq_method := Get, rq_path := ''/api/ready''\<rparr>)
         (set_readiness_checker (\<lambda>_. server_readiness answer redis) g)) =
      Some (if select1 (hd (connList p)) = None \<and> redis = None then 200 else 503)"
proof -
  let ?c = "hd (connList p)"
  obtain p1 where g: "GetConnection p = Some (Some ?c, p1)"
    using assms by (simp add: GetConnection_def pool_ok_def)
  define p' where "p' = snd (ReleaseConnection (Some ?c) p1)"
  have given: "pool_ok p'" "mset (connList p') = mset (connList p)"
    using mysql_pool.borrow_return[OF assms(1) g] by (simp_all add: p'_def)
  define answer where "answer = (case select1 ?c of Some e \<Rightarrow> (False, ''mysql ping failed: '' @ e) | None \<Rightarrow> (True, []))"
  have "mysql_ping select1 (Some p) = Some (answer, Some p')"
    using g by (simp add: mysql_ping_def with_connection_def answer_def p'_def)
  moreover have "fst answer \<longleftrightarrow> select1 ?c = None"
    by (simp add: answer_def split: option.splits)
  moreover have "rd_ready (server_readiness answer redis) \<longleftrightarrow> fst answer \<and> redis = None"
    by (auto simp: server_readiness_def Let_def split: option.splits)
  ultimately show ?thesis
    using given
    by (auto simp: dispatch_table table_lookup_def api_routes_def exact_entry_def has_param_def reading_def
        handle_ready_def set_readiness_checker_def ready_response_def json_response_def)
qed

theorem readiness_reported_witness:
  "\<exists>answer p'. mysql_ping (\<lambda>c. Some ''gone away'') (Some \<lparr>m_url = [], m_Port = [], m_User = [], m_PassWord = [], m_DatabaseName = [],
        m_close_log = 0, m_MaxConn = 1, m_CurConn = 0, m_FreeConn = 1, m_shutdown = False, connList = [7 :: nat]\<rparr>) = Some (answer, Some p') \<and>
     \<not> fst answer \<and> mset (connList p') = {#7#}"
proof -
  let ?p = "\<lparr>m_url = [], m_Port = [], m_User = [], m_PassWord = [], m_DatabaseName = [],
        m_close_log = 0, m_MaxConn = 1, m_CurConn = 0, m_FreeConn = 1, m_shutdown = False, connList = [7 :: nat]\<rparr>"
  have "pool_ok ?p" "connList ?p \<noteq> []" by (simp_all add: pool_ok_def)
  from readiness_reported[OF this, of "\<lambda>c. Some ''gone away''"] show ?thesis by force
qed

end
