(* ===== verification/Grpc_Messages.thy ===== *)
theory Grpc_Messages
  imports Interfaces
begin

text \<open>
  The protobuf messages of \<^verbatim>\<open>proto/\<close> as far as the C++ code reads or writes them, and the conversions between
  them and the models in \<^verbatim>\<open>src/app/grpc/*_grpc_service.cpp\<close> and \<^verbatim>\<open>src/app/client/grpc_*_client.cpp\<close>. An
  \<^verbatim>\<open>int64\<close> field is an integer; \<^verbatim>\<open>static_cast<int>\<close> of it is \<open>wrap32\<close>. A message with one field is that field. An
  enumeration of proto3 is open, so it has a constructor for the numbers without a name. A call ends with a
  status that is not \<^verbatim>\<open>OK\<close> or with a response.
\<close>

section \<open>Messages\<close>

datatype StatusCode =
  INVALID_ARGUMENT | NOT_FOUND | ALREADY_EXISTS | FAILED_PRECONDITION | UNAUTHENTICATED | UNAVAILABLE

datatype RpcStatus = RpcStatus StatusCode string

type_synonym 'a rpc = "RpcStatus + 'a"

datatype BookStatus = BOOK_STATUS_UNSPECIFIED | BOOK_STATUS_ACTIVE | BOOK_STATUS_INACTIVE | BOOK_STATUS_OTHER int

datatype OrderStatus =
  ORDER_STATUS_UNSPECIFIED | ORDER_STATUS_CREATED | ORDER_STATUS_CANCELLED | ORDER_STATUS_OTHER int

record PbBook =
  pb_book_id :: int
  pb_title :: string
  pb_author :: string
  pb_price_cents :: int
  pb_stock :: int
  pb_status :: BookStatus

record ListBooksResponse =
  lb_books :: "PbBook list"
  lb_total_size :: int

record PbInventoryItem =
  pi_book_id :: int
  pi_available :: int

record PbInventoryMutation =
  pm_book_id :: int
  pm_quantity :: int

record PbOrderItem =
  po_book_id :: int
  po_quantity :: int
  po_unit_price_cents :: int

record PbOrder =
  po_order_id :: int
  po_user_id :: int
  po_items :: "PbOrderItem list"
  po_total_cents :: int
  po_status :: OrderStatus

record PbUser =
  pu_user_id :: int
  pu_username :: string

section \<open>Conversions\<close>

definition book_status_to_proto :: "string \<Rightarrow> BookStatus" where
  "book_status_to_proto status =
     (if status = ''inactive'' then BOOK_STATUS_INACTIVE
      else if status = ''active'' then BOOK_STATUS_ACTIVE
      else BOOK_STATUS_UNSPECIFIED)"

definition fill_book :: "Book \<Rightarrow> PbBook" where
  "fill_book source =
     \<lparr>pb_book_id = bk_id source, pb_title = bk_title source, pb_author = bk_author source,
      pb_price_cents = bk_price_cents source, pb_stock = bk_stock source,
      pb_status = book_status_to_proto (bk_status source)\<rparr>"

definition book_from_proto :: "PbBook \<Rightarrow> Book" where
  "book_from_proto source =
     \<lparr>bk_id = wrap32 (pb_book_id source), bk_title = pb_title source, bk_author = pb_author source,
      bk_price_cents = wrap32 (pb_price_cents source), bk_stock = pb_stock source,
      bk_status = (if pb_status source = BOOK_STATUS_INACTIVE then ''inactive'' else ''active'')\<rparr>"

definition order_status_to_proto :: "string \<Rightarrow> OrderStatus" where
  "order_status_to_proto status =
     (if status = ''cancelled'' then ORDER_STATUS_CANCELLED
      else if status = ''created'' then ORDER_STATUS_CREATED
      else ORDER_STATUS_UNSPECIFIED)"

definition fill_order :: "Order \<Rightarrow> PbOrder" where
  "fill_order source =
     \<lparr>po_order_id = ord_id source, po_user_id = ord_user_id source,
      po_items = map (\<lambda>i. \<lparr>po_book_id = oi_book_id i, po_quantity = oi_quantity i,
                            po_unit_price_cents = oi_unit_price_cents i\<rparr>) (ord_items source),
      po_total_cents = ord_total_cents source, po_status = order_status_to_proto (ord_status source)\<rparr>"

definition order_from_proto :: "PbOrder \<Rightarrow> Order" where
  "order_from_proto source =
     \<lparr>ord_id = wrap32 (po_order_id source), ord_user_id = wrap32 (po_user_id source),
      ord_items = map (\<lambda>i. \<lparr>oi_book_id = wrap32 (po_book_id i), oi_quantity = po_quantity i,
                             oi_unit_price_cents = wrap32 (po_unit_price_cents i)\<rparr>) (po_items source),
      ord_total_cents = wrap32 (po_total_cents source),
      ord_status = (if po_status source = ORDER_STATUS_CANCELLED then ''cancelled'' else ''created'')\<rparr>"

definition fill_user :: "User \<Rightarrow> PbUser" where
  "fill_user source = \<lparr>pu_user_id = usr_id source, pu_username = usr_username source\<rparr>"

definition user_from_proto :: "PbUser \<Rightarrow> User" where
  "user_from_proto source = \<lparr>usr_id = wrap32 (pu_user_id source), usr_username = pu_username source\<rparr>"

section \<open>What survives the wire\<close>

definition book_wire :: "Book \<Rightarrow> bool" where
  "book_wire b \<longleftrightarrow> int32 (bk_id b) \<and> int32 (bk_price_cents b) \<and> bk_status b \<in> {''active'', ''inactive''}"

definition order_wire :: "Order \<Rightarrow> bool" where
  "order_wire r \<longleftrightarrow> int32 (ord_id r) \<and> int32 (ord_user_id r) \<and> int32 (ord_total_cents r) \<and>
     (\<forall>i \<in> set (ord_items r). int32 (oi_book_id i) \<and> int32 (oi_unit_price_cents i)) \<and>
     ord_status r \<in> {''created'', ''cancelled''}"

lemma book_roundtrip: "book_wire b \<Longrightarrow> book_from_proto (fill_book b) = b"
  by (auto simp: book_wire_def book_from_proto_def fill_book_def book_status_to_proto_def wrap_simps)

lemma order_roundtrip: "order_wire r \<Longrightarrow> order_from_proto (fill_order r) = r"
  by (auto simp: order_wire_def order_from_proto_def fill_order_def order_status_to_proto_def wrap_simps
      intro!: Order.equality map_idI)

lemma user_roundtrip: "int32 (usr_id u) \<Longrightarrow> user_from_proto (fill_user u) = u"
  by (simp add: user_from_proto_def fill_user_def wrap_simps)

end
