(* ===== verification/Grpc_Services.thy ===== *)
theory Grpc_Services
  imports Grpc_Messages Order_Service
begin

text \<open>
  The server side of the gRPC interface: \<^verbatim>\<open>src/app/grpc/inventory_grpc_service.cpp\<close>,
  \<^verbatim>\<open>book_grpc_service.cpp\<close>, \<^verbatim>\<open>order_grpc_service.cpp\<close> and \<^verbatim>\<open>user_grpc_service.cpp\<close>. Each handler checks the request,
  calls the service and fills the response.
\<close>

section \<open>Inventory\<close>

definition append_current_item :: "'s InventoryRepository \<Rightarrow> int \<Rightarrow> 's \<Rightarrow> PbInventoryItem rpc" where
  "append_current_item R book_id s =
     (case InventoryService_available_stock R book_id s of
        None \<Rightarrow> Inl (RpcStatus NOT_FOUND ''inventory not found'')
      | Some stock \<Rightarrow> Inr \<lparr>pi_book_id = book_id, pi_available = stock\<rparr>)"

definition GetInventory :: "'s InventoryRepository \<Rightarrow> int \<Rightarrow> 's \<Rightarrow> PbInventoryItem rpc" where
  "GetInventory R book_id s =
     (if book_id \<le> 0 then Inl (RpcStatus INVALID_ARGUMENT ''book_id must be positive'')
      else append_current_item R (wrap32 book_id) s)"

definition InboundInventory :: "'s InventoryRepository \<Rightarrow> int \<Rightarrow> int \<Rightarrow> 's \<Rightarrow> PbInventoryItem rpc \<times> 's" where
  "InboundInventory R book_id quantity s =
     (if book_id \<le> 0 \<or> quantity \<le> 0
      then (Inl (RpcStatus INVALID_ARGUMENT ''book_id and quantity must be positive''), s)
      else (case InventoryService_add_stock R (wrap32 book_id) quantity s of
              (None, s') \<Rightarrow> (Inl (RpcStatus NOT_FOUND ''inventory not found''), s')
            | (Some stock, s') \<Rightarrow> (Inr \<lparr>pi_book_id = book_id, pi_available = stock\<rparr>, s')))"

text \<open>The loops of \<^verbatim>\<open>ReserveInventory\<close> and \<^verbatim>\<open>ReleaseInventory\<close> over the items of the request.\<close>

fun mutations_of_proto :: "PbInventoryMutation list \<Rightarrow> InventoryMutation list \<Rightarrow> InventoryMutation list rpc" where
  "mutations_of_proto [] items = Inr items"
| "mutations_of_proto (item # rest) items =
     (if pm_book_id item \<le> 0 \<or> pm_quantity item \<le> 0
      then Inl (RpcStatus INVALID_ARGUMENT ''book_id and quantity must be positive'')
      else mutations_of_proto rest
             (items @ [\<lparr>im_book_id = wrap32 (pm_book_id item), im_quantity = pm_quantity item\<rparr>]))"

fun current_items ::
  "'s InventoryRepository \<Rightarrow> PbInventoryMutation list \<Rightarrow> PbInventoryItem list \<Rightarrow> 's \<Rightarrow> PbInventoryItem list rpc" where
  "current_items R [] response s = Inr response"
| "current_items R (item # rest) response s =
     (case append_current_item R (wrap32 (pm_book_id item)) s of
        Inl status \<Rightarrow> Inl status
      | Inr current \<Rightarrow> current_items R rest (response @ [current]) s)"

definition ReserveInventory ::
  "'s InventoryRepository \<Rightarrow> string \<Rightarrow> PbInventoryMutation list \<Rightarrow> 's \<Rightarrow> PbInventoryItem list rpc \<times> 's" where
  "ReserveInventory R reservation_id request s =
     (if request = [] then (Inl (RpcStatus INVALID_ARGUMENT ''items must not be empty''), s)
      else if reservation_id = [] then (Inl (RpcStatus INVALID_ARGUMENT ''reservation_id is required''), s)
      else case mutations_of_proto request [] of
        Inl status \<Rightarrow> (Inl status, s)
      | Inr items \<Rightarrow>
          (case InventoryService_reserve_stock_items R reservation_id items s of
             (False, s') \<Rightarrow> (Inl (RpcStatus FAILED_PRECONDITION ''insufficient stock''), s')
           | (True, s') \<Rightarrow> (current_items R request [] s', s')))"

definition ReleaseInventory ::
  "'s InventoryRepository \<Rightarrow> string \<Rightarrow> PbInventoryMutation list \<Rightarrow> 's \<Rightarrow> PbInventoryItem list rpc \<times> 's" where
  "ReleaseInventory R reservation_id request s =
     (if request = [] then (Inl (RpcStatus INVALID_ARGUMENT ''items must not be empty''), s)
      else if reservation_id = [] then (Inl (RpcStatus INVALID_ARGUMENT ''reservation_id is required''), s)
      else case mutations_of_proto request [] of
        Inl status \<Rightarrow> (Inl status, s)
      | Inr items \<Rightarrow>
          (let s' = InventoryService_release_stock_items R reservation_id items s in
           (current_items R request [] s', s')))"

section \<open>Books\<close>

fun list_books_loop :: "bool \<Rightarrow> Book list \<Rightarrow> PbBook list \<Rightarrow> int \<Rightarrow> ListBooksResponse" where
  "list_books_loop active_only [] books count = \<lparr>lb_books = books, lb_total_size = count\<rparr>"
| "list_books_loop active_only (book # rest) books count =
     (if active_only \<and> bk_status book \<noteq> ''active'' then list_books_loop active_only rest books count
      else list_books_loop active_only rest (books @ [fill_book book]) (count + 1))"

definition ListBooks :: "'s BookRepository \<Rightarrow> bool \<Rightarrow> 's \<Rightarrow> ListBooksResponse rpc" where
  "ListBooks R active_only s = Inr (list_books_loop active_only (BookService_list_books R s) [] 0)"

definition GetBook :: "'s BookRepository \<Rightarrow> int \<Rightarrow> 's \<Rightarrow> PbBook rpc" where
  "GetBook R book_id s =
     (if book_id \<le> 0 then Inl (RpcStatus INVALID_ARGUMENT ''invalid book id'')
      else (case BookService_find_book R (wrap32 book_id) s of
              None \<Rightarrow> Inl (RpcStatus NOT_FOUND ''book not found'')
            | Some book \<Rightarrow> Inr (fill_book book)))"

definition CreateBook :: "'s BookRepository \<Rightarrow> PbBook \<Rightarrow> 's \<Rightarrow> PbBook rpc \<times> 's" where
  "CreateBook R request s =
     (case BookService_create_book R (book_from_proto request) s of
        (None, s') \<Rightarrow> (Inl (RpcStatus INVALID_ARGUMENT ''invalid book request''), s')
      | (Some book, s') \<Rightarrow> (Inr (fill_book book), s'))"

definition update_of_proto :: "PbBook \<Rightarrow> BookUpdate" where
  "update_of_proto source =
     \<lparr>bu_title = Some (pb_title source), bu_author = Some (pb_author source),
      bu_price_cents = Some (wrap32 (pb_price_cents source)), bu_stock = Some (pb_stock source),
      bu_status = Some (if pb_status source = BOOK_STATUS_INACTIVE then ''inactive'' else ''active'')\<rparr>"

definition UpdateBook :: "'s BookRepository \<Rightarrow> int \<Rightarrow> PbBook \<Rightarrow> 's \<Rightarrow> PbBook rpc \<times> 's" where
  "UpdateBook R book_id source s =
     (if book_id \<le> 0 then (Inl (RpcStatus INVALID_ARGUMENT ''invalid book id''), s)
      else (case BookService_update_book R (wrap32 book_id) (update_of_proto source) s of
              (None, s') \<Rightarrow> (Inl (RpcStatus NOT_FOUND ''book not found or invalid''), s')
            | (Some book, s') \<Rightarrow> (Inr (fill_book book), s')))"

section \<open>Orders\<close>

fun order_requests_of_proto :: "PbInventoryMutation list \<Rightarrow> OrderItemRequest list \<Rightarrow> OrderItemRequest list rpc" where
  "order_requests_of_proto [] items = Inr items"
| "order_requests_of_proto (item # rest) items =
     (if pm_book_id item \<le> 0 \<or> pm_quantity item \<le> 0
      then Inl (RpcStatus INVALID_ARGUMENT ''invalid order item'')
      else order_requests_of_proto rest
             (items @ [\<lparr>oir_book_id = wrap32 (pm_book_id item), oir_quantity = pm_quantity item\<rparr>]))"

text \<open>The message \<^verbatim>\<open>OrderItemRequest\<close> has the two fields of the message \<^verbatim>\<open>InventoryMutation\<close> and shares its record.\<close>

definition CreateOrder :: "'s OrderService \<Rightarrow> int \<Rightarrow> PbInventoryMutation list \<Rightarrow> 's \<Rightarrow> PbOrder rpc \<times> 's" where
  "CreateOrder S user_id request s =
     (if user_id \<le> 0 \<or> request = [] then (Inl (RpcStatus INVALID_ARGUMENT ''invalid order request''), s)
      else case order_requests_of_proto request [] of
        Inl status \<Rightarrow> (Inl status, s)
      | Inr items \<Rightarrow>
          (case OrderService_create_order S (wrap32 user_id) items s of
             (None, s') \<Rightarrow> (Inl (RpcStatus FAILED_PRECONDITION ''order rejected''), s')
           | (Some order, s') \<Rightarrow> (Inr (fill_order order), s')))"

definition ListOrders :: "'s OrderService \<Rightarrow> 's \<Rightarrow> PbOrder list rpc" where
  "ListOrders S s = Inr (map fill_order (OrderService_list_orders S s))"

definition GetOrder :: "'s OrderService \<Rightarrow> int \<Rightarrow> 's \<Rightarrow> PbOrder rpc" where
  "GetOrder S order_id s =
     (if order_id \<le> 0 then Inl (RpcStatus INVALID_ARGUMENT ''invalid order id'')
      else (case OrderService_find_order S (wrap32 order_id) s of
              None \<Rightarrow> Inl (RpcStatus NOT_FOUND ''order not found'')
            | Some order \<Rightarrow> Inr (fill_order order)))"

definition CancelOrder :: "'s OrderService \<Rightarrow> int \<Rightarrow> 's \<Rightarrow> PbOrder rpc \<times> 's" where
  "CancelOrder S order_id s =
     (if order_id \<le> 0 then (Inl (RpcStatus INVALID_ARGUMENT ''invalid order id''), s)
      else (case OrderService_cancel_order S (wrap32 order_id) s of
              (None, s') \<Rightarrow> (Inl (RpcStatus NOT_FOUND ''order not found''), s')
            | (Some order, s') \<Rightarrow> (Inr (fill_order order), s')))"

section \<open>Users\<close>

definition Register :: "'s UserRepository \<Rightarrow> string \<Rightarrow> string \<Rightarrow> 's \<Rightarrow> PbUser rpc \<times> 's" where
  "Register R username password s =
     (if username = [] \<or> password = [] then (Inl (RpcStatus INVALID_ARGUMENT ''invalid register request''), s)
      else (case UserService_register_user R username password s of
              (None, s') \<Rightarrow> (Inl (RpcStatus ALREADY_EXISTS ''user exists or invalid''), s')
            | (Some user, s') \<Rightarrow> (Inr (fill_user user), s')))"

definition Login :: "'s UserRepository \<Rightarrow> string \<Rightarrow> string \<Rightarrow> 's \<Rightarrow> PbUser rpc" where
  "Login R username password s =
     (if username = [] \<or> password = [] then Inl (RpcStatus INVALID_ARGUMENT ''invalid login request'')
      else (case UserService_authenticate R username password s of
              None \<Rightarrow> Inl (RpcStatus UNAUTHENTICATED ''invalid credentials'')
            | Some user \<Rightarrow> Inr (fill_user user)))"

end
