(* ===== verification/Grpc_Clients.thy ===== *)
theory Grpc_Clients
  imports Grpc_Services
begin

text \<open>
  The client side: \<^verbatim>\<open>src/app/client/grpc_inventory_client.cpp\<close>, \<^verbatim>\<open>grpc_book_client.cpp\<close>,
  \<^verbatim>\<open>grpc_order_client.cpp\<close> and \<^verbatim>\<open>grpc_user_client.cpp\<close>. A generated stub is a parameter: a record of the calls it
  offers, over the state of the server. What a transport may do with a call is \<open>deliver\<close>; the stubs that reach the
  handlers of \<open>Grpc_Services\<close> through a transport are at the end.
\<close>

section \<open>Stubs\<close>

record 's InventoryStub =
  sb_GetInventory :: "int \<Rightarrow> 's \<Rightarrow> PbInventoryItem rpc"
  sb_InboundInventory :: "int \<Rightarrow> int \<Rightarrow> 's \<Rightarrow> PbInventoryItem rpc \<times> 's"
  sb_ReserveInventory :: "string \<Rightarrow> PbInventoryMutation list \<Rightarrow> 's \<Rightarrow> PbInventoryItem list rpc \<times> 's"
  sb_ReleaseInventory :: "string \<Rightarrow> PbInventoryMutation list \<Rightarrow> 's \<Rightarrow> PbInventoryItem list rpc \<times> 's"

record 's BookStub =
  sb_ListBooks :: "bool \<Rightarrow> 's \<Rightarrow> ListBooksResponse rpc"
  sb_GetBook :: "int \<Rightarrow> 's \<Rightarrow> PbBook rpc"
  sb_CreateBook :: "PbBook \<Rightarrow> 's \<Rightarrow> PbBook rpc \<times> 's"
  sb_UpdateBook :: "int \<Rightarrow> PbBook \<Rightarrow> 's \<Rightarrow> PbBook rpc \<times> 's"

record 's OrderStub =
  sb_CreateOrder :: "int \<Rightarrow> PbInventoryMutation list \<Rightarrow> 's \<Rightarrow> PbOrder rpc \<times> 's"
  sb_ListOrders :: "'s \<Rightarrow> PbOrder list rpc"
  sb_GetOrder :: "int \<Rightarrow> 's \<Rightarrow> PbOrder rpc"
  sb_CancelOrder :: "int \<Rightarrow> 's \<Rightarrow> PbOrder rpc \<times> 's"

record 's UserStub =
  sb_Register :: "string \<Rightarrow> string \<Rightarrow> 's \<Rightarrow> PbUser rpc \<times> 's"
  sb_Login :: "string \<Rightarrow> string \<Rightarrow> 's \<Rightarrow> PbUser rpc"

text \<open>\<^verbatim>\<open>if (!status.ok()) return std::nullopt\<close>\<close>

definition on_ok :: "('a \<Rightarrow> 'b) \<Rightarrow> 'a rpc \<Rightarrow> 'b option" where
  "on_ok f r = (case r of Inl status \<Rightarrow> None | Inr response \<Rightarrow> Some (f response))"

section \<open>Inventory\<close>

definition Grpc_available_stock :: "'s InventoryStub \<Rightarrow> int \<Rightarrow> 's \<Rightarrow> int option" where
  "Grpc_available_stock stub book_id s = on_ok pi_available (sb_GetInventory stub book_id s)"

definition Grpc_add_stock :: "'s InventoryStub \<Rightarrow> int \<Rightarrow> int \<Rightarrow> 's \<Rightarrow> int option \<times> 's" where
  "Grpc_add_stock stub book_id quantity s =
     (case sb_InboundInventory stub book_id quantity s of (r, s') \<Rightarrow> (on_ok pi_available r, s'))"

definition mutations_to_proto :: "InventoryMutation list \<Rightarrow> PbInventoryMutation list" where
  "mutations_to_proto items = map (\<lambda>i. \<lparr>pm_book_id = im_book_id i, pm_quantity = im_quantity i\<rparr>) items"

definition Grpc_reserve_stock_items ::
  "'s InventoryStub \<Rightarrow> string \<Rightarrow> InventoryMutation list \<Rightarrow> 's \<Rightarrow> bool \<times> 's" where
  "Grpc_reserve_stock_items stub reservation_id items s =
     (case sb_ReserveInventory stub reservation_id (mutations_to_proto items) s of (r, s') \<Rightarrow> (\<not> isl r, s'))"

definition Grpc_release_stock_items ::
  "'s InventoryStub \<Rightarrow> string \<Rightarrow> InventoryMutation list \<Rightarrow> 's \<Rightarrow> 's" where
  "Grpc_release_stock_items stub reservation_id items s =
     snd (sb_ReleaseInventory stub reservation_id (mutations_to_proto items) s)"

definition gateway_reservation_id :: "('s \<Rightarrow> u64 \<times> 's) \<Rightarrow> 's \<Rightarrow> string \<times> 's" where
  "gateway_reservation_id next_id s = (case next_id s of (n, s') \<Rightarrow> (''gateway-'' @ to_string (uint n), s'))"

definition Grpc_reserve_stock ::
  "'s InventoryStub \<Rightarrow> ('s \<Rightarrow> u64 \<times> 's) \<Rightarrow> int \<Rightarrow> int \<Rightarrow> 's \<Rightarrow> bool \<times> 's" where
  "Grpc_reserve_stock stub next_id book_id quantity s =
     (case gateway_reservation_id next_id s of
        (reservation_id, s') \<Rightarrow>
          Grpc_reserve_stock_items stub reservation_id [\<lparr>im_book_id = book_id, im_quantity = quantity\<rparr>] s')"

definition Grpc_release_stock ::
  "'s InventoryStub \<Rightarrow> ('s \<Rightarrow> u64 \<times> 's) \<Rightarrow> int \<Rightarrow> int \<Rightarrow> 's \<Rightarrow> 's" where
  "Grpc_release_stock stub next_id book_id quantity s =
     (case gateway_reservation_id next_id s of
        (reservation_id, s') \<Rightarrow>
          Grpc_release_stock_items stub reservation_id [\<lparr>im_book_id = book_id, im_quantity = quantity\<rparr>] s')"

text \<open>\<open>next_id\<close> is the counter \<^verbatim>\<open>next_id_\<close> of the object.\<close>

definition GrpcInventoryClient :: "'s InventoryStub \<Rightarrow> ('s \<Rightarrow> u64 \<times> 's) \<Rightarrow> 's InventoryClient" where
  "GrpcInventoryClient stub next_id =
     \<lparr>ic_available_stock = Grpc_available_stock stub, ic_add_stock = Grpc_add_stock stub,
      ic_reserve_stock = Grpc_reserve_stock stub next_id, ic_release_stock = Grpc_release_stock stub next_id,
      ic_reserve_stock_items = Grpc_reserve_stock_items stub,
      ic_release_stock_items = Grpc_release_stock_items stub\<rparr>"

section \<open>Books\<close>

definition Grpc_list_books :: "'s BookStub \<Rightarrow> 's \<Rightarrow> Book list" where
  "Grpc_list_books stub s =
     (case sb_ListBooks stub True s of
        Inl status \<Rightarrow> []
      | Inr response \<Rightarrow> map book_from_proto (lb_books response))"

definition Grpc_find_book :: "'s BookStub \<Rightarrow> int \<Rightarrow> 's \<Rightarrow> Book option" where
  "Grpc_find_book stub book_id s = on_ok book_from_proto (sb_GetBook stub book_id s)"

definition Grpc_create_book :: "'s BookStub \<Rightarrow> Book \<Rightarrow> 's \<Rightarrow> Book option \<times> 's" where
  "Grpc_create_book stub book s =
     (case sb_CreateBook stub (fill_book book) s of (r, s') \<Rightarrow> (on_ok book_from_proto r, s'))"

definition merge_update :: "BookUpdate \<Rightarrow> Book \<Rightarrow> Book" where
  "merge_update update current =
     current\<lparr>bk_title := (case bu_title update of None \<Rightarrow> bk_title current | Some x \<Rightarrow> x),
             bk_author := (case bu_author update of None \<Rightarrow> bk_author current | Some x \<Rightarrow> x),
             bk_price_cents := (case bu_price_cents update of None \<Rightarrow> bk_price_cents current | Some x \<Rightarrow> x),
             bk_stock := (case bu_stock update of None \<Rightarrow> bk_stock current | Some x \<Rightarrow> x),
             bk_status := (case bu_status update of None \<Rightarrow> bk_status current | Some x \<Rightarrow> x)\<rparr>"

definition Grpc_update_book :: "'s BookStub \<Rightarrow> int \<Rightarrow> BookUpdate \<Rightarrow> 's \<Rightarrow> Book option \<times> 's" where
  "Grpc_update_book stub book_id update s =
     (case Grpc_find_book stub book_id s of
        None \<Rightarrow> (None, s)
      | Some current \<Rightarrow>
          (case sb_UpdateBook stub book_id (fill_book (merge_update update current)) s of
             (r, s') \<Rightarrow> (on_ok book_from_proto r, s')))"

definition GrpcBookClient :: "'s BookStub \<Rightarrow> 's BookClient" where
  "GrpcBookClient stub =
     \<lparr>bc_list_books = Grpc_list_books stub, bc_find_book = Grpc_find_book stub,
      bc_create_book = Grpc_create_book stub, bc_update_book = Grpc_update_book stub\<rparr>"

section \<open>Orders\<close>

definition Grpc_create_order ::
  "'s OrderStub \<Rightarrow> int \<Rightarrow> OrderItemRequest list \<Rightarrow> 's \<Rightarrow> Order option \<times> 's" where
  "Grpc_create_order stub user_id items s =
     (case sb_CreateOrder stub user_id
             (map (\<lambda>i. \<lparr>pm_book_id = oir_book_id i, pm_quantity = oir_quantity i\<rparr>) items) s of
        (r, s') \<Rightarrow> (on_ok order_from_proto r, s'))"

definition Grpc_list_orders :: "'s OrderStub \<Rightarrow> 's \<Rightarrow> Order list" where
  "Grpc_list_orders stub s =
     (case sb_ListOrders stub s of Inl status \<Rightarrow> [] | Inr orders \<Rightarrow> map order_from_proto orders)"

definition Grpc_find_order :: "'s OrderStub \<Rightarrow> int \<Rightarrow> 's \<Rightarrow> Order option" where
  "Grpc_find_order stub order_id s = on_ok order_from_proto (sb_GetOrder stub order_id s)"

definition Grpc_cancel_order :: "'s OrderStub \<Rightarrow> int \<Rightarrow> 's \<Rightarrow> Order option \<times> 's" where
  "Grpc_cancel_order stub order_id s =
     (case sb_CancelOrder stub order_id s of (r, s') \<Rightarrow> (on_ok order_from_proto r, s'))"

definition GrpcOrderClient :: "'s OrderStub \<Rightarrow> 's OrderClient" where
  "GrpcOrderClient stub =
     \<lparr>oc_create_order = Grpc_create_order stub, oc_list_orders = Grpc_list_orders stub,
      oc_find_order = Grpc_find_order stub, oc_cancel_order = Grpc_cancel_order stub\<rparr>"

section \<open>Users\<close>

definition Grpc_register_user :: "'s UserStub \<Rightarrow> string \<Rightarrow> string \<Rightarrow> 's \<Rightarrow> User option \<times> 's" where
  "Grpc_register_user stub username password s =
     (case sb_Register stub username password s of (r, s') \<Rightarrow> (on_ok user_from_proto r, s'))"

definition Grpc_authenticate :: "'s UserStub \<Rightarrow> string \<Rightarrow> string \<Rightarrow> 's \<Rightarrow> User option" where
  "Grpc_authenticate stub username password s = on_ok user_from_proto (sb_Login stub username password s)"

definition GrpcUserClient :: "'s UserStub \<Rightarrow> 's UserClient" where
  "GrpcUserClient stub =
     \<lparr>uc_register_user = Grpc_register_user stub, uc_authenticate = Grpc_authenticate stub\<rparr>"

section \<open>Servers behind a transport\<close>

text \<open>A call arrives and is answered, or does not arrive, or is executed and its answer is lost.\<close>

datatype fate = Delivered | RequestLost | ResponseLost

definition unavailable :: "'a rpc" where
  "unavailable = Inl (RpcStatus UNAVAILABLE ''transport failure'')"

definition deliver :: "fate \<Rightarrow> ('s \<Rightarrow> 'a rpc \<times> 's) \<Rightarrow> 's \<Rightarrow> 'a rpc \<times> 's" where
  "deliver f call s =
     (case f of
        Delivered \<Rightarrow> call s
      | RequestLost \<Rightarrow> (unavailable, s)
      | ResponseLost \<Rightarrow> (unavailable, snd (call s)))"

definition deliver_read :: "fate \<Rightarrow> ('s \<Rightarrow> 'a rpc) \<Rightarrow> 's \<Rightarrow> 'a rpc" where
  "deliver_read f call s = (if f = Delivered then call s else unavailable)"

text \<open>The fate of a call may depend on the state.\<close>

definition inventory_server :: "('s \<Rightarrow> fate) \<Rightarrow> 's InventoryRepository \<Rightarrow> 's InventoryStub" where
  "inventory_server net R =
     \<lparr>sb_GetInventory = (\<lambda>b s. deliver_read (net s) (GetInventory R b) s),
      sb_InboundInventory = (\<lambda>b q s. deliver (net s) (InboundInventory R b q) s),
      sb_ReserveInventory = (\<lambda>rid is s. deliver (net s) (ReserveInventory R rid is) s),
      sb_ReleaseInventory = (\<lambda>rid is s. deliver (net s) (ReleaseInventory R rid is) s)\<rparr>"

definition book_server :: "('s \<Rightarrow> fate) \<Rightarrow> 's BookRepository \<Rightarrow> 's BookStub" where
  "book_server net R =
     \<lparr>sb_ListBooks = (\<lambda>a s. deliver_read (net s) (ListBooks R a) s),
      sb_GetBook = (\<lambda>b s. deliver_read (net s) (GetBook R b) s),
      sb_CreateBook = (\<lambda>b s. deliver (net s) (CreateBook R b) s),
      sb_UpdateBook = (\<lambda>i b s. deliver (net s) (UpdateBook R i b) s)\<rparr>"

definition order_server :: "('s \<Rightarrow> fate) \<Rightarrow> 's OrderService \<Rightarrow> 's OrderStub" where
  "order_server net S =
     \<lparr>sb_CreateOrder = (\<lambda>u is s. deliver (net s) (CreateOrder S u is) s),
      sb_ListOrders = (\<lambda>s. deliver_read (net s) (ListOrders S) s),
      sb_GetOrder = (\<lambda>i s. deliver_read (net s) (GetOrder S i) s),
      sb_CancelOrder = (\<lambda>i s. deliver (net s) (CancelOrder S i) s)\<rparr>"

definition user_server :: "('s \<Rightarrow> fate) \<Rightarrow> 's UserRepository \<Rightarrow> 's UserStub" where
  "user_server net R =
     \<lparr>sb_Register = (\<lambda>u p s. deliver (net s) (Register R u p) s),
      sb_Login = (\<lambda>u p s. deliver_read (net s) (Login R u p) s)\<rparr>"

lemmas deliver_simps = deliver_def deliver_read_def unavailable_def on_ok_def

end
