(* ===== verification/Grpc_Orders.thy ===== *)
theory Grpc_Orders
  imports Grpc_Clients
begin

text \<open>
  The order service behind gRPC: whatever a client asks, the answers and the effects are those of the local
  client, as long as calls arrive. The locale \<open>wire_orders\<close> is what a service promises so that its orders fit the
  messages.
\<close>

section \<open>Conversations\<close>

datatype OrderCall = CallCreate int "OrderItemRequest list" | CallList | CallFind int | CallCancel int

datatype OrderAnswer = OneOrder "Order option" | AllOrders "Order list"

fun ask :: "'s OrderClient \<Rightarrow> OrderCall \<Rightarrow> 's \<Rightarrow> OrderAnswer \<times> 's" where
  "ask C (CallCreate u items) s = map_prod OneOrder id (oc_create_order C u items s)"
| "ask C CallList s = (AllOrders (oc_list_orders C s), s)"
| "ask C (CallFind i) s = (OneOrder (oc_find_order C i s), s)"
| "ask C (CallCancel i) s = map_prod OneOrder id (oc_cancel_order C i s)"

fun conversation :: "'s OrderClient \<Rightarrow> OrderCall list \<Rightarrow> 's \<Rightarrow> OrderAnswer list \<times> 's" where
  "conversation C [] s = ([], s)"
| "conversation C (c # cs) s =
     (case ask C c s of (a, s1) \<Rightarrow> (case conversation C cs s1 of (as, s2) \<Rightarrow> (a # as, s2)))"

text \<open>The arguments of a C++ call are 32-bit integers.\<close>

definition requests32 :: "OrderItemRequest list \<Rightarrow> bool" where
  "requests32 items \<longleftrightarrow> (\<forall>i \<in> set items. int32 (oir_book_id i) \<and> int32 (oir_quantity i))"

fun call32 :: "OrderCall \<Rightarrow> bool" where
  "call32 (CallCreate u items) \<longleftrightarrow> int32 u \<and> requests32 items"
| "call32 CallList \<longleftrightarrow> True"
| "call32 (CallFind i) \<longleftrightarrow> int32 i"
| "call32 (CallCancel i) \<longleftrightarrow> int32 i"

section \<open>A service whose orders fit the messages\<close>

locale wire_orders =
  fixes S :: "'s OrderService"
    and good :: "'s \<Rightarrow> bool"
  assumes create: "good s \<Longrightarrow> int32 u \<Longrightarrow> requests32 items \<Longrightarrow> OrderService_create_order S u items s = (x, s') \<Longrightarrow>
      good s' \<and> (\<forall>r. x = Some r \<longrightarrow> order_wire r)"
    and refuses: "good s \<Longrightarrow> \<exists>i \<in> set items. oir_book_id i \<le> 0 \<or> oir_quantity i \<le> 0 \<Longrightarrow>
      OrderService_create_order S u items s = (None, s)"
    and listed: "good s \<Longrightarrow> r \<in> set (OrderService_list_orders S s) \<Longrightarrow> order_wire r"
    and found: "good s \<Longrightarrow> OrderService_find_order S i s = Some r \<Longrightarrow> order_wire r"
    and cancel: "good s \<Longrightarrow> OrderService_cancel_order S i s = (x, s') \<Longrightarrow>
      good s' \<and> (\<forall>r. x = Some r \<longrightarrow> order_wire r)"
begin

abbreviation remote :: "'s OrderClient" where
  "remote \<equiv> GrpcOrderClient (order_server (\<lambda>_. Delivered) S)"

lemma requests_of_proto:
  "requests32 items \<Longrightarrow>
     order_requests_of_proto (map (\<lambda>i. \<lparr>pm_book_id = oir_book_id i, pm_quantity = oir_quantity i\<rparr>) items) acc =
     (if \<exists>i \<in> set items. oir_book_id i \<le> 0 \<or> oir_quantity i \<le> 0
      then Inl (RpcStatus INVALID_ARGUMENT ''invalid order item'') else Inr (acc @ items))"
  by (induction items arbitrary: acc) (auto simp: requests32_def wrap_simps)

lemma remote_create:
  assumes "good s" "int32 u" "requests32 items"
  shows "Grpc_create_order (order_server (\<lambda>_. Delivered) S) u items s = OrderService_create_order S u items s"
proof (cases "u \<le> 0 \<or> items = [] \<or> (\<exists>i \<in> set items. oir_book_id i \<le> 0 \<or> oir_quantity i \<le> 0)")
  case True
  then have "OrderService_create_order S u items s = (None, s)"
  proof (cases "u \<le> 0 \<or> items = []")
    case True
    then show ?thesis by (simp add: OrderService_create_order_def)
  next
    case False
    with True refuses[OF assms(1)] show ?thesis by blast
  qed
  with True show ?thesis
    by (auto simp: Grpc_create_order_def order_server_def CreateOrder_def requests_of_proto[OF assms(3)] deliver_simps)
next
  case False
  obtain x s' where r: "OrderService_create_order S u items s = (x, s')" by fastforce
  with create[OF assms r] False assms(2) show ?thesis
    by (cases x) (auto simp: Grpc_create_order_def order_server_def CreateOrder_def requests_of_proto[OF assms(3)]
        deliver_simps wrap_simps order_roundtrip)
qed

lemma remote_list: "good s \<Longrightarrow> Grpc_list_orders (order_server (\<lambda>_. Delivered) S) s = OrderService_list_orders S s"
  by (auto simp: Grpc_list_orders_def order_server_def ListOrders_def deliver_simps order_roundtrip listed
      intro!: map_idI)

lemma remote_find:
  assumes "good s" "int32 i"
  shows "Grpc_find_order (order_server (\<lambda>_. Delivered) S) i s = OrderService_find_order S i s"
proof (cases "OrderService_find_order S i s")
  case (Some r)
  with found[OF assms(1) Some] assms(2) show ?thesis
    by (simp add: Grpc_find_order_def order_server_def GetOrder_def deliver_simps wrap_simps order_roundtrip
        OrderService_find_order_def split: if_splits)
qed (use assms in \<open>simp add: Grpc_find_order_def order_server_def GetOrder_def deliver_simps wrap_simps\<close>)

lemma remote_cancel:
  assumes "good s" "int32 i"
  shows "Grpc_cancel_order (order_server (\<lambda>_. Delivered) S) i s = OrderService_cancel_order S i s"
proof -
  obtain x s' where r: "OrderService_cancel_order S i s = (x, s')" by fastforce
  with cancel[OF assms(1) r] assms(2) show ?thesis
    by (cases x) (auto simp: Grpc_cancel_order_def order_server_def CancelOrder_def deliver_simps wrap_simps
        order_roundtrip OrderService_cancel_order_def)
qed

lemma ask_remote:
  assumes "good s" "call32 c"
  shows "ask remote c s = ask (LocalOrderClient S) c s \<and> good (snd (ask (LocalOrderClient S) c s))"
proof (cases c)
  case (CallCreate u items)
  with assms create[of s u items "fst (OrderService_create_order S u items s)"
      "snd (OrderService_create_order S u items s)"]
  show ?thesis by (simp add: GrpcOrderClient_def LocalOrderClient_def remote_create)
next
  case (CallCancel i)
  with assms cancel[of s i "fst (OrderService_cancel_order S i s)" "snd (OrderService_cancel_order S i s)"]
  show ?thesis by (simp add: GrpcOrderClient_def LocalOrderClient_def remote_cancel)
qed (use assms in \<open>simp_all add: GrpcOrderClient_def LocalOrderClient_def remote_list remote_find\<close>)

lemma conversation_remote:
  "good s \<Longrightarrow> list_all call32 cs \<Longrightarrow> conversation remote cs s = conversation (LocalOrderClient S) cs s"
proof (induction cs arbitrary: s)
  case (Cons c cs)
  then show ?case
    using ask_remote[of s c] by (auto split: prod.splits)
qed simp

end

section \<open>The in-memory service\<close>

text \<open>Orders and catalogue fit the messages, and books have positive identifiers.\<close>

definition orders_fit :: "App \<Rightarrow> bool" where
  "orders_fit s \<longleftrightarrow> int32 (mo_next_order_id (app_orders s)) \<and> (\<forall>r \<in> set (mo_orders (app_orders s)). order_wire r) \<and>
     (\<forall>b \<in> set (mb_books (app_books s)). 0 < bk_id b \<and> int32 (bk_price_cents b))"

lemma orders_fit_frame: "app_orders t = app_orders s \<Longrightarrow> app_books t = app_books s \<Longrightarrow> orders_fit t = orders_fit s"
  by (simp add: orders_fit_def)

lemma memory_inventory_frame:
  "app_orders (snd (ir_reserve_stock memory_inventory_repository b q s)) = app_orders s"
  "app_books (snd (ir_reserve_stock memory_inventory_repository b q s)) = app_books s"
  "app_orders (ir_release_stock memory_inventory_repository b q s) = app_orders s"
  "app_books (ir_release_stock memory_inventory_repository b q s) = app_books s"
  by (simp_all add: memory_inventory_repository_def split: prod.splits)

lemma release_each_frame:
  "app_orders (release_each memory_inventory_repository items s) = app_orders s \<and>
   app_books (release_each memory_inventory_repository items s) = app_books s"
  by (induction items arbitrary: s)
    (simp_all add: release_each_def InventoryService_release_stock_def memory_inventory_frame)

lemma release_order_items_frame:
  "app_orders (release_order_items (LocalInventoryClient memory_inventory_repository) items s) = app_orders s \<and>
   app_books (release_order_items (LocalInventoryClient memory_inventory_repository) items s) = app_books s"
  by (induction items arbitrary: s)
    (simp_all add: release_order_items_def LocalInventoryClient_def InventoryService_release_stock_def
      memory_inventory_frame)

lemma local_reserve_frame:
  "local_reserve_loop memory_inventory_repository items taken s = (ok, t) \<Longrightarrow>
     app_orders t = app_orders s \<and> app_books t = app_books s"
proof (induction items arbitrary: taken s)
  case (Cons i items)
  let ?r = "ir_reserve_stock memory_inventory_repository (im_book_id i) (im_quantity i) s"
  show ?case
    using Cons.prems Cons.IH[of "taken @ [i]" "snd ?r"] release_each_frame[of taken "snd ?r"]
    by (auto simp: InventoryService_reserve_stock_def memory_inventory_frame split: prod.splits if_splits)
qed simp

text \<open>What \<^verbatim>\<open>create_order\<close> does to the orders.\<close>

lemma memory_find_book: "bc_find_book (LocalBookClient memory_book_repository) i s = book_cat s i"
  by (simp add: LocalBookClient_def BookService_find_book_def memory_book_repository_def
      MemoryBookRepository_find_book_def book_cat_def)

lemma memory_create_fit:
  assumes "orders_fit s" "int32 u" "requests32 items"
    and "OrderService_create_order memory_order_service u items s = (x, s')"
  shows "orders_fit s' \<and> (\<forall>r. x = Some r \<longrightarrow> order_wire r)"
proof (cases "u \<le> 0 \<or> items = [] \<or> \<not> orderable (book_cat s) items")
  case True
  then have "x = None" "s' = s"
    using assms(4) by (auto simp: OrderService_create_order_def price_items_loop_spec[of _ s "book_cat s", OF memory_find_book]
        split: if_splits)
  with assms(1) show ?thesis by simp
next
  case False
  let ?p = "priced (book_cat s) items" and ?res = "reservation_items_of items"
  obtain rid s1 where id: "next_reservation_id memory_order_service u s = (rid, s1)" by fastforce
  then have s1: "app_orders s1 = app_orders s" "app_books s1 = app_books s"
    by (auto simp: next_reservation_id_def next_id_fetch_add_def)
  obtain ok s2 where rv: "local_reserve_loop memory_inventory_repository ?res [] s1 = (ok, s2)" by fastforce
  note s2 = local_reserve_frame[OF rv]
  obtain total where price: "price_items_loop (LocalBookClient memory_book_repository) items [] 0 s = Some (?p, total)"
    "int32 total"
    using False by (simp add: price_items_loop_spec[of _ s "book_cat s", OF memory_find_book])
  show ?thesis
  proof (cases ok)
    case False
    with assms(4) \<open>\<not> (u \<le> 0 \<or> _)\<close> price id rv have "x = None" "s' = s2"
      by (auto simp: OrderService_create_order_def LocalInventoryClient_def)
    with assms(1) s1 s2 show ?thesis using orders_fit_frame[of s2 s] by simp
  next
    case True
    obtain y s3 where cr: "or_create_order memory_order_repository u ?p total s2 = (y, s3)" by fastforce
    have "?p \<noteq> []" using \<open>\<not> (u \<le> 0 \<or> _)\<close> by (simp add: priced_def)
    with memory_order_create[OF cr] \<open>\<not> (u \<le> 0 \<or> _)\<close> obtain r where r: "y = Some r"
        "ord_id r = mo_next_order_id (app_orders s2)" "ord_user_id r = u" "ord_items r = ?p" "ord_total_cents r = total"
        "ord_status r = ''created''"
        "s3 = s2\<lparr>app_orders := \<lparr>mo_next_order_id = wrap32 (mo_next_order_id (app_orders s2) + 1),
                                  mo_orders = mo_orders (app_orders s2) @ [r]\<rparr>\<rparr>"
      by auto
    have "int32 (oi_book_id i) \<and> int32 (oi_unit_price_cents i)" if i: "i \<in> set ?p" for i
    proof -
      obtain q where q: "q \<in> set items" "oi_book_id i = oir_book_id q"
        "oi_unit_price_cents i = bk_price_cents (the (book_cat s (oir_book_id q)))"
        using i by (auto simp: priced_def)
      obtain b where "book_cat s (oir_book_id q) = Some b"
        using q(1) \<open>\<not> (u \<le> 0 \<or> _)\<close> by (auto simp: orderable_def)
      with q assms(1,3) show ?thesis
        using find_book_loop_SomeD[of "mb_books (app_books s)" "oir_book_id q" b]
        by (auto simp: orders_fit_def requests32_def book_cat_def)
    qed
    then have "order_wire r"
      using r assms(1,2) price(2) s1 s2 by (auto simp: order_wire_def orders_fit_def)
    moreover have "x = Some r" "s' = s3"
      using assms(4) \<open>\<not> (u \<le> 0 \<or> _)\<close> price id rv True cr r(1)
      by (auto simp: OrderService_create_order_def LocalInventoryClient_def)
    ultimately show ?thesis
      using assms(1) r(7) s1 s2 by (auto simp: orders_fit_def)
  qed
qed

lemma cancel_order_loop_wire:
  "cancel_order_loop rs i = (x, rs') \<Longrightarrow> \<forall>r \<in> set rs. order_wire r \<Longrightarrow>
     (\<forall>r \<in> set rs'. order_wire r) \<and> (\<forall>r. x = Some r \<longrightarrow> order_wire r)"
proof (induction rs arbitrary: rs')
  case (Cons r rs)
  then show ?case
    by (auto simp: Let_def order_wire_def split: if_splits prod.splits)
qed simp

lemma memory_cancel_fit:
  assumes "orders_fit s" "OrderService_cancel_order memory_order_service i s = (x, s')"
  shows "orders_fit s' \<and> (\<forall>r. x = Some r \<longrightarrow> order_wire r)"
proof -
  obtain y rs where c: "cancel_order_loop (mo_orders (app_orders s)) i = (y, rs)" by fastforce
  let ?s1 = "s\<lparr>app_orders := (app_orders s)\<lparr>mo_orders := rs\<rparr>\<rparr>"
  have "orders_fit ?s1 \<and> (\<forall>r. y = Some r \<longrightarrow> order_wire r)"
    using cancel_order_loop_wire[OF c] assms(1) by (auto simp: orders_fit_def)
  moreover have "orders_fit (release_order_items (LocalInventoryClient memory_inventory_repository) items ?s1) = orders_fit ?s1"
    for items
    using orders_fit_frame release_order_items_frame by blast
  ultimately show ?thesis
    using assms find_order_loop_SomeD[of "mo_orders (app_orders s)" i] c
    by (auto simp: OrderService_cancel_order_def memory_order_repository_def MemoryOrderRepository_find_order_def
        MemoryOrderRepository_cancel_order_def orders_fit_def split: if_splits option.splits)
qed

interpretation mem_wire: wire_orders memory_order_service orders_fit
proof (unfold_locales, goal_cases)
  case (1 s u items x s')
  then show ?case by (rule memory_create_fit)
next
  case (2 s items u)
  have "\<not> orderable (book_cat s) items"
    using 2 find_book_loop_SomeD[of "mb_books (app_books s)"]
    by (fastforce simp: orderable_def orders_fit_def book_cat_def)
  then show ?case
    by (simp add: OrderService_create_order_def price_items_loop_spec[of _ s "book_cat s", OF memory_find_book])
next
  case (3 s r)
  then show ?case
    by (auto simp: OrderService_list_orders_def memory_order_repository_def MemoryOrderRepository_list_orders_def
        orders_fit_def)
next
  case (4 s i r)
  then show ?case
    using find_order_loop_SomeD[of "mo_orders (app_orders s)" i]
    by (auto simp: OrderService_find_order_def memory_order_repository_def MemoryOrderRepository_find_order_def
        orders_fit_def split: if_splits)
next
  case (5 s i x s')
  then show ?case by (rule memory_cancel_fit)
qed

section \<open>Properties\<close>

text \<open>C11: The order service is the same near and far. Over a transport that delivers, a client of the gRPC order
  service that makes any sequence of calls with 32-bit arguments gets the answers, and leaves the server in the state, of
  the local client, refusals included.\<close>

theorem remote_orders_are_local:
  assumes "orders_fit s" "list_all call32 calls"
  shows "conversation (GrpcOrderClient (order_server (\<lambda>_. Delivered) memory_order_service)) calls s =
    conversation (LocalOrderClient memory_order_service) calls s"
  using assms by (rule mem_wire.conversation_remote)

theorem remote_orders_are_local_witness:
  "conversation (GrpcOrderClient (order_server (\<lambda>_. Delivered) memory_order_service))
     [CallCreate 7 [\<lparr>oir_book_id = 1, oir_quantity = 2\<rparr>], CallCreate 7 [\<lparr>oir_book_id = -1, oir_quantity = 2\<rparr>],
      CallCancel 1, CallList] default_app =
   conversation (LocalOrderClient memory_order_service)
     [CallCreate 7 [\<lparr>oir_book_id = 1, oir_quantity = 2\<rparr>], CallCreate 7 [\<lparr>oir_book_id = -1, oir_quantity = 2\<rparr>],
      CallCancel 1, CallList] default_app"
  by (rule remote_orders_are_local)
    (simp_all add: orders_fit_def default_app_def MemoryOrderRepository_init_def default_books_def requests32_def int32_def)

end
