(* ===== verification/Grpc_Books.thy ===== *)
theory Grpc_Books
  imports Grpc_Clients
begin

text \<open>
  The catalogue and the accounts behind gRPC, on the in-memory repositories: which calls of the remote clients
  agree with the local ones and how the others differ.
\<close>

section \<open>Statuses on the wire\<close>

text \<open>The enumeration has no value for a status that is neither \<open>active\<close> nor \<open>inactive\<close>; the server reads it as
  \<open>active\<close>.\<close>

definition as_read :: "string \<Rightarrow> string" where
  "as_read status = (if status = ''inactive'' then ''inactive'' else ''active'')"

definition update_as_read :: "BookUpdate \<Rightarrow> BookUpdate" where
  "update_as_read u = u\<lparr>bu_status := map_option as_read (bu_status u)\<rparr>"

definition update32 :: "BookUpdate \<Rightarrow> bool" where
  "update32 u \<longleftrightarrow> (case bu_price_cents u of None \<Rightarrow> True | Some p \<Rightarrow> int32 p)"

text \<open>Every book has a positive identifier, is valid and fits its message.\<close>

definition catalogue_fit :: "App \<Rightarrow> bool" where
  "catalogue_fit s \<longleftrightarrow> (\<forall>b \<in> set (mb_books (app_books s)). 0 < bk_id b \<and> book_wire b \<and> valid_book b)"

lemma status_read: "(if book_status_to_proto t = BOOK_STATUS_INACTIVE then ''inactive'' else ''active'') = as_read t"
  by (simp add: book_status_to_proto_def as_read_def)

lemma merge_update_apply: "merge_update u b = apply_update u b"
  by (simp add: merge_update_def apply_update_def)

lemma update_book_loop_absent: "find_book_loop bs i = None \<Longrightarrow> update_book_loop bs i u = (None, bs)"
  by (induction bs) (auto split: if_splits)

lemma update_book_loop_same:
  "find_book_loop bs i = Some b \<Longrightarrow> apply_update v b = apply_update u b \<Longrightarrow>
     update_book_loop bs i v = update_book_loop bs i u"
  by (induction bs) (auto split: if_splits)

lemma update_book_loop_result:
  "update_book_loop bs i u = (Some c, bs') \<Longrightarrow> \<exists>b. find_book_loop bs i = Some b \<and> c = apply_update u b"
  by (induction bs arbitrary: bs') (auto split: if_splits prod.splits)

lemma catalogue_find:
  "catalogue_fit s \<Longrightarrow> find_book_loop (mb_books (app_books s)) i = Some b \<Longrightarrow>
     0 < i \<and> bk_id b = i \<and> book_wire b \<and> valid_book b"
  using find_book_loop_SomeD by (fastforce simp: catalogue_fit_def)

lemma memory_br_find: "br_find_book memory_book_repository i s = find_book_loop (mb_books (app_books s)) i"
  by (simp add: memory_book_repository_def MemoryBookRepository_find_book_def)

section \<open>Calls over a transport that delivers\<close>

abbreviation near_books :: "App BookStub" where
  "near_books \<equiv> book_server (\<lambda>_. Delivered) memory_book_repository"

lemma remote_find_book:
  assumes "catalogue_fit s" "int32 i"
  shows "Grpc_find_book near_books i s = BookService_find_book memory_book_repository i s"
proof (cases "find_book_loop (mb_books (app_books s)) i")
  case (Some b)
  with catalogue_find[OF assms(1) Some] assms(2) show ?thesis
    by (simp add: Grpc_find_book_def book_server_def GetBook_def deliver_simps wrap_simps book_roundtrip
        BookService_find_book_def memory_br_find)
qed (use assms in \<open>simp add: Grpc_find_book_def book_server_def GetBook_def deliver_simps wrap_simps
      BookService_find_book_def memory_br_find\<close>)

lemma remote_list_books:
  assumes "catalogue_fit s"
  shows "Grpc_list_books near_books s =
    filter (\<lambda>b. bk_status b = ''active'') (BookService_list_books memory_book_repository s)"
proof -
  have "lb_books (list_books_loop True bs acc n) = acc @ map fill_book (filter (\<lambda>b. bk_status b = ''active'') bs)" for bs acc n
    by (induction bs arbitrary: acc n) auto
  then show ?thesis
    using assms by (auto simp: Grpc_list_books_def book_server_def ListBooks_def deliver_simps o_def book_roundtrip
        BookService_list_books_def memory_book_repository_def MemoryBookRepository_list_books_def catalogue_fit_def
        intro!: map_idI)
qed

lemma update_valid_iff:
  assumes "valid_book b" "i > 0"
  shows "BookService_update_book R i u s =
    (if valid_book (apply_update u b) then br_update_book R i u s else (None, s))"
  using assms
  by (auto simp: BookService_update_book_def valid_book_def apply_update_def split: option.splits)

lemma remote_update_book:
  assumes "catalogue_fit s" "int32 i" "update32 u"
  shows "Grpc_update_book near_books i u s = BookService_update_book memory_book_repository i (update_as_read u) s"
proof (cases "find_book_loop (mb_books (app_books s)) i")
  case None
  then have "Grpc_find_book near_books i s = None"
    using remote_find_book[OF assms(1,2)] by (simp add: BookService_find_book_def memory_br_find)
  moreover have "br_update_book memory_book_repository i v s = (None, s)" for v
    using None by (simp add: memory_book_repository_def MemoryBookRepository_update_book_def update_book_loop_absent)
  ultimately show ?thesis
    by (simp add: Grpc_update_book_def BookService_update_book_def)
next
  case (Some b)
  note b = catalogue_find[OF assms(1) Some]
  let ?m = "apply_update u b" and ?v = "update_of_proto (fill_book (apply_update u b))"
  have p32: "int32 (bk_price_cents ?m)"
    using b assms(3) by (auto simp: apply_update_def update32_def book_wire_def split: option.splits)
  have read: "bk_status b = as_read (bk_status b)"
    using b by (auto simp: book_wire_def as_read_def)
  have same: "apply_update ?v b = apply_update (update_as_read u) b"
    using p32 read
    by (auto simp: update_of_proto_def fill_book_def status_read update_as_read_def apply_update_def wrap_simps
        split: option.splits)
  have "BookService_update_book memory_book_repository i ?v s =
      BookService_update_book memory_book_repository i (update_as_read u) s"
    using b same
    by (simp add: update_valid_iff[of b] memory_book_repository_def MemoryBookRepository_update_book_def
        update_book_loop_same[OF Some same])
  moreover have "book_from_proto (fill_book c) = c"
    if up: "BookService_update_book memory_book_repository i (update_as_read u) s = (Some c, s')" for c s'
  proof -
    obtain bs where l: "update_book_loop (mb_books (app_books s)) i (update_as_read u) = (Some c, bs)"
      using up b by (auto simp: update_valid_iff[of b] memory_book_repository_def MemoryBookRepository_update_book_def
          split: if_splits prod.splits)
    have "c = apply_update (update_as_read u) b"
      using update_book_loop_result[OF l] Some by auto
    then have "book_wire c"
      using b p32 read same by (auto simp: book_wire_def update_as_read_def apply_update_def as_read_def split: option.splits)
    then show ?thesis by (rule book_roundtrip)
  qed
  ultimately show ?thesis
    using b Some assms(2) remote_find_book[OF assms(1,2)]
    by (auto simp: Grpc_update_book_def BookService_find_book_def memory_br_find merge_update_apply
        book_server_def UpdateBook_def deliver_simps wrap_simps split: prod.splits option.splits)
qed

text \<open>The next identifier fits the message.\<close>

definition room_for_book :: "App \<Rightarrow> bool" where
  "room_for_book s \<longleftrightarrow> int32 (next_book_id_loop (mb_books (app_books s)) 1)"

definition book_as_read :: "Book \<Rightarrow> Book" where
  "book_as_read b = b\<lparr>bk_status := as_read (bk_status b)\<rparr>"

lemma memory_br_create:
  "br_create_book memory_book_repository b s =
     (case MemoryBookRepository_create_book b (app_books s) of (r, bs) \<Rightarrow> (r, s\<lparr>app_books := bs\<rparr>))"
  by (simp add: memory_book_repository_def)

lemma remote_create_book:
  assumes "room_for_book s" "int32 (bk_price_cents b)"
  shows "Grpc_create_book near_books b s = BookService_create_book memory_book_repository (book_as_read b) s"
proof -
  let ?c = "book_from_proto (fill_book b)"
  have c: "?c = (book_as_read b)\<lparr>bk_id := bk_id ?c\<rparr>"
    using assms(2) by (simp add: book_from_proto_def fill_book_def status_read book_as_read_def wrap_simps)
  have "BookService_create_book memory_book_repository ?c s = BookService_create_book memory_book_repository (book_as_read b) s"
    by (subst c) (simp add: BookService_create_book_def memory_br_create MemoryBookRepository_create_book_def book_as_read_def as_read_def Let_def)
  moreover have "book_from_proto (fill_book d) = d"
    if "BookService_create_book memory_book_repository (book_as_read b) s = (Some d, s')" for d s'
    using that assms
    by (intro book_roundtrip)
      (auto simp: BookService_create_book_def memory_br_create MemoryBookRepository_create_book_def book_as_read_def as_read_def Let_def
        book_wire_def room_for_book_def split: if_splits)
  ultimately show ?thesis
    by (auto simp: Grpc_create_book_def book_server_def CreateBook_def deliver_simps split: prod.splits option.splits)
qed

section \<open>Accounts\<close>

text \<open>The gRPC service refuses an empty password, which the local client accepts.\<close>

lemma remote_authenticate:
  assumes "\<forall>x. mu_users_by_name (app_users s) u = Some x \<longrightarrow> int32 (usr_id x)" "p \<noteq> []"
    and "u = [] \<Longrightarrow> mu_passwords (app_users s) u = None"
  shows "Grpc_authenticate (user_server (\<lambda>_. Delivered) memory_user_repository) u p s =
    UserService_authenticate memory_user_repository u p s"
  using assms
  by (auto simp: Grpc_authenticate_def user_server_def Login_def deliver_simps UserService_authenticate_def
      memory_user_repository_def MemoryUserRepository_authenticate_def user_roundtrip split: option.splits)

section \<open>Properties\<close>

text \<open>C12: The catalogue behind gRPC. Over a transport that delivers, looking up a book is looking it up locally, but the list is
  the local list without the books that are not active. Creating and updating a book, where the client sends a whole book, have
  the result and the effect of the local operation in which every status but \<open>inactive\<close> is read as \<open>active\<close>; so they are
  the local operations for a legal status (an empty one included when a book is created), while a book with an illegal one,
  which the local client refuses, is created or becomes active.\<close>

theorem remote_catalogue:
  assumes "catalogue_fit s" "int32 i" "update32 u" "room_for_book s" "int32 (bk_price_cents b)"
  shows "Grpc_find_book near_books i s = BookService_find_book memory_book_repository i s \<and>
    Grpc_list_books near_books s = filter (\<lambda>b. bk_status b = ''active'') (BookService_list_books memory_book_repository s) \<and>
    Grpc_create_book near_books b s = BookService_create_book memory_book_repository (book_as_read b) s \<and>
    (bk_status b \<in> {[], ''active'', ''inactive''} \<longrightarrow>
      Grpc_create_book near_books b s = BookService_create_book memory_book_repository b s) \<and>
    (bk_status b \<notin> {[], ''active'', ''inactive''} \<longrightarrow>
      BookService_create_book memory_book_repository b s = (None, s)) \<and>
    Grpc_update_book near_books i u s = BookService_update_book memory_book_repository i (update_as_read u) s \<and>
    (bu_status u \<in> {None, Some ''active'', Some ''inactive''} \<longrightarrow>
      Grpc_update_book near_books i u s = BookService_update_book memory_book_repository i u s) \<and>
    (bu_status u \<notin> {None, Some ''active'', Some ''inactive''} \<longrightarrow>
      BookService_update_book memory_book_repository i u s = (None, s))"
proof -
  have "update_as_read u = u" if "bu_status u \<in> {None, Some ''active'', Some ''inactive''}"
    using that by (auto simp: update_as_read_def as_read_def)
  moreover have "BookService_update_book memory_book_repository i u s = (None, s)"
    if "bu_status u \<notin> {None, Some ''active'', Some ''inactive''}"
    using that by (auto simp: BookService_update_book_def split: option.splits)
  moreover have "BookService_create_book memory_book_repository (book_as_read b) s = BookService_create_book memory_book_repository b s"
    if "bk_status b \<in> {[], ''active'', ''inactive''}"
  proof (cases "bk_status b = []")
    case True
    then show ?thesis by (simp add: BookService_create_book_def book_as_read_def as_read_def Let_def)
  next
    case False
    then have "book_as_read b = b" using that by (cases b) (auto simp: book_as_read_def as_read_def)
    then show ?thesis by simp
  qed
  moreover have "BookService_create_book memory_book_repository b s = (None, s)" if "bk_status b \<notin> {[], ''active'', ''inactive''}"
    using that by (auto simp: BookService_create_book_def Let_def)
  ultimately show ?thesis
    using remote_find_book[OF assms(1,2)] remote_list_books[OF assms(1)] remote_update_book[OF assms(1-3)]
      remote_create_book[OF assms(4,5)] by simp
qed

text \<open>A sold book cannot be created or updated locally; remotely it is put on sale.\<close>

theorem remote_catalogue_witness:
  "let u = \<lparr>bu_title = None, bu_author = None, bu_price_cents = Some 100, bu_stock = None, bu_status = Some ''sold''\<rparr>;
       b = \<lparr>bk_id = 0, bk_title = ''SICP'', bk_author = ''Abelson'', bk_price_cents = 4500, bk_stock = 2, bk_status = ''sold''\<rparr>
   in (\<exists>c s'. BookService_update_book memory_book_repository 2 u default_app = (None, default_app) \<and>
         Grpc_update_book near_books 2 u default_app = (Some c, s') \<and> bk_status c = ''active'' \<and> bk_price_cents c = 100) \<and>
      (\<exists>c s'. BookService_create_book memory_book_repository b default_app = (None, default_app) \<and>
         Grpc_create_book near_books b default_app = (Some c, s') \<and> bk_status c = ''active'' \<and> bk_title c = ''SICP'')"
proof -
  let ?u = "\<lparr>bu_title = None, bu_author = None, bu_price_cents = Some 100, bu_stock = None, bu_status = Some ''sold''\<rparr>"
  let ?b = "\<lparr>bk_id = 0, bk_title = ''SICP'', bk_author = ''Abelson'', bk_price_cents = 4500, bk_stock = 2, bk_status = ''sold''\<rparr>"
  have "catalogue_fit default_app" "int32 2" "update32 ?u" "room_for_book default_app" "int32 (bk_price_cents ?b)"
    by (simp_all add: catalogue_fit_def default_app_def default_books_def book_wire_def valid_book_def int32_def update32_def
        room_for_book_def wrap_simps)
  note eqs = remote_catalogue[OF this]
  have "\<exists>c s'. BookService_update_book memory_book_repository 2 (update_as_read ?u) default_app = (Some c, s') \<and> bk_status c = ''active'' \<and>
      bk_price_cents c = 100"
    by (auto simp: update_as_read_def as_read_def BookService_update_book_def memory_book_repository_def
        MemoryBookRepository_update_book_def default_app_def default_books_def apply_update_def)
  moreover have "\<exists>c s'. BookService_create_book memory_book_repository (book_as_read ?b) default_app = (Some c, s') \<and>
      bk_status c = ''active'' \<and> bk_title c = ''SICP''"
    by (auto simp: book_as_read_def as_read_def BookService_create_book_def memory_br_create MemoryBookRepository_create_book_def Let_def)
  ultimately show ?thesis using eqs by (simp add: Let_def)
qed

end
