(* ===== verification/Grpc_Failures.thy ===== *)
theory Grpc_Failures
  imports Grpc_Clients
begin

text \<open>
  The order service of \<^verbatim>\<open>src/app/grpc/order_server_main.cpp\<close>, which reaches books and inventory through gRPC, when calls to
  the inventory get lost.
\<close>

text \<open>The two servers have networks of their own.\<close>

definition order_server_service ::
  "('s \<Rightarrow> fate) \<Rightarrow> ('s \<Rightarrow> fate) \<Rightarrow> ('s \<Rightarrow> u64 \<times> 's) \<Rightarrow> 's BookRepository \<Rightarrow> 's InventoryRepository \<Rightarrow> 's OrderRepository \<Rightarrow> ('s \<Rightarrow> u64 \<times> 's) \<Rightarrow>
     's OrderService" where
  "order_server_service book_net net gateway_id B I R next_id =
     \<lparr>os_book_client = GrpcBookClient (book_server book_net B),
      os_inventory_client = GrpcInventoryClient (inventory_server net I) gateway_id,
      os_order_repository = R, os_next_id = next_id\<rparr>"

abbreviation memory_order_server :: "fate \<Rightarrow> App OrderService" where
  "memory_order_server f \<equiv> order_server_service (\<lambda>_. Delivered) (\<lambda>_. f) (\<lambda>s. (0, s)) memory_book_repository memory_inventory_repository
     memory_order_repository next_id_fetch_add"

lemma order_server_simps:
  "os_book_client (order_server_service bn net g B I R n) = GrpcBookClient (book_server bn B)"
  "os_order_repository (order_server_service bn net g B I R n) = R"
  "os_next_id (order_server_service bn net g B I R n) = n"
  "ic_reserve_stock_items (os_inventory_client (order_server_service bn (\<lambda>_. f) g B I R n)) rid items s =
     (case deliver f (ReserveInventory I rid (mutations_to_proto items)) s of (r, s') \<Rightarrow> (\<not> isl r, s'))"
  by (simp_all add: order_server_service_def next_reservation_id_def GrpcInventoryClient_def Grpc_reserve_stock_items_def inventory_server_def)

lemma memory_orders_stock:
  "or_create_order memory_order_repository u items t s = (x, s') \<Longrightarrow> app_stock s' = app_stock s"
  by (auto simp: memory_order_repository_def app_stock_def split: prod.splits)

lemma reserve_keeps_orders:
  "ReserveInventory memory_inventory_repository rid request s = (r, s') \<Longrightarrow> app_orders s' = app_orders s"
  by (auto simp: ReserveInventory_def InventoryService_reserve_stock_items_def memory_inventory_repository_def
      split: if_splits sum.splits prod.splits bool.splits)

lemma next_id_keeps:
  "next_reservation_id (memory_order_server f) u s = (rid, s') \<Longrightarrow>
     next_reservation_id (memory_order_server g) u s = (rid, s') \<and> app_stock s' = app_stock s \<and> app_orders s' = app_orders s"
  by (auto simp: next_reservation_id_def order_server_simps next_id_fetch_add_def app_stock_def)

text \<open>C40: A lost answer loses stock. If an order would be accepted, then with the reservation call lost on its way the order is refused and
  nothing has changed, but with only its answer lost the order is refused as well and the stock stays taken: the service
  does not release a reservation that it has no answer for.\<close>

theorem lost_reservation_leaks:
  assumes "OrderService_create_order (memory_order_server Delivered) u items s = (Some order, s1)"
  shows "\<exists>s2 s3. OrderService_create_order (memory_order_server RequestLost) u items s = (None, s2) \<and>
    app_stock s2 = app_stock s \<and> app_orders s2 = app_orders s \<and>
    OrderService_create_order (memory_order_server ResponseLost) u items s = (None, s3) \<and>
    app_stock s3 = app_stock s1 \<and> app_orders s3 = app_orders s"
proof -
  let ?BC = "GrpcBookClient (book_server (\<lambda>_. Delivered) memory_book_repository)"
  let ?req = "mutations_to_proto (reservation_items_of items)"
  obtain rid t where k: "next_reservation_id (memory_order_server Delivered) u s = (rid, t)" by (rule prod.exhaust)
  obtain r t1 where r: "ReserveInventory memory_inventory_repository rid ?req t = (r, t1)" by (rule prod.exhaust)
  have ok: "\<not> (u \<le> 0 \<or> items = [])" using assms by (auto simp: OrderService_create_order_def)
  obtain p where p: "price_items_loop ?BC items [] 0 s = Some p"
    using assms ok by (cases "price_items_loop ?BC items [] 0 s") (auto simp: OrderService_create_order_def order_server_simps)
  obtain its total where its: "p = (its, total)" by (rule prod.exhaust)
  have run: "OrderService_create_order (memory_order_server f) u items s =
      (case deliver f (ReserveInventory memory_inventory_repository rid ?req) t of (r, t1) \<Rightarrow>
         if isl r then (None, t1)
         else case or_create_order memory_order_repository u its total t1 of
           (Some order, t2) \<Rightarrow> (Some order, t2)
         | (None, t2) \<Rightarrow> (None, ic_release_stock_items (os_inventory_client (memory_order_server f)) rid (reservation_items_of items) t2))" for f
    using ok next_id_keeps[OF k, of f]
    by (simp add: OrderService_create_order_def order_server_simps p its Let_def split: prod.splits)
  have "\<not> isl r" using assms unfolding run by (auto simp: deliver_def r)
  with assms obtain x where x: "or_create_order memory_order_repository u its total t1 = (x, s1)"
    unfolding run by (auto simp: deliver_def r split: prod.splits option.splits)
  show ?thesis
    unfolding run using memory_orders_stock[OF x] reserve_keeps_orders[OF r] next_id_keeps[OF k]
    by (auto simp: deliver_def unavailable_def r)
qed

theorem lost_reservation_leaks_witness:
  "\<exists>s3. OrderService_create_order (memory_order_server ResponseLost) 1 [\<lparr>oir_book_id = 1, oir_quantity = 2\<rparr>] default_app = (None, s3) \<and>
     app_stock s3 1 = Some 10"
proof -
  let ?items = "[\<lparr>oir_book_id = 1, oir_quantity = 2\<rparr>]"
  let ?p = "OrderService_create_order (memory_order_server Delivered) 1 ?items default_app"
  have "fst ?p \<noteq> None" "app_stock (snd ?p) 1 = Some 10" by code_simp+
  then obtain order s1 where "?p = (Some order, s1)" "app_stock s1 1 = Some 10" by (cases ?p) auto
  with lost_reservation_leaks[of 1 ?items default_app order s1] show ?thesis by auto
qed

end
