(* ===== verification/Mysql.thy ===== *)
theory Mysql
  imports Conn_Pool Interfaces
begin

text \<open>
  \<^verbatim>\<open>src/app/repository/mysql/mysql_repositories.cpp\<close>: users, books and orders in a MySQL database. The client
  library is a parameter, the record \<open>Mysql\<close>: a query takes a C string and says whether \<^verbatim>\<open>mysql_query\<close> returned 0,
  a stored result is a list of rows of nullable cells. Its functions depend on the connection and on the state \<open>'d\<close> of
  the server. The SQL text is built as in the source. A method is \<open>None\<close> where \<^verbatim>\<open>GetConnection\<close> waits
  and nothing the method itself does can end the wait.
\<close>

section \<open>The client library\<close>

type_synonym row = "string option list"

record ('c, 'd) Mysql =
  my_query :: "'c \<Rightarrow> string \<Rightarrow> 'd \<Rightarrow> bool \<times> 'd"
  my_store_result :: "'c \<Rightarrow> 'd \<Rightarrow> row list option \<times> 'd"
  my_insert_id :: "'c \<Rightarrow> 'd \<Rightarrow> int"
  my_affected_rows :: "'c \<Rightarrow> 'd \<Rightarrow> int"
  my_escape :: "'c \<Rightarrow> string \<Rightarrow> string"

text \<open>\<^verbatim>\<open>mysql_query(mysql, sql.c_str())\<close>\<close>

definition mysql_query :: "('c, 'd) Mysql \<Rightarrow> 'c \<Rightarrow> string \<Rightarrow> 'd \<Rightarrow> bool \<times> 'd" where
  "mysql_query M con sql d = my_query M con (c_str sql) d"

definition escape_sql :: "('c, 'd) Mysql \<Rightarrow> 'c \<Rightarrow> string \<Rightarrow> string" where
  "escape_sql M con val = my_escape M con val"

text \<open>Cells of a row, \<^verbatim>\<open>row[i] ? row[i] : ""\<close> and \<^verbatim>\<open>row[i] ? std::atoi(row[i]) : 0\<close>. A query for \<open>n\<close> columns gives
  rows of \<open>n\<close> cells.\<close>

definition cell_text :: "row \<Rightarrow> nat \<Rightarrow> string" where
  "cell_text r i = (if i < length r then (case r ! i of None \<Rightarrow> [] | Some t \<Rightarrow> c_str t) else [])"

definition cell_int :: "row \<Rightarrow> nat \<Rightarrow> int" where
  "cell_int r i = (if i < length r then (case r ! i of None \<Rightarrow> 0 | Some t \<Rightarrow> atoi t) else 0)"

text \<open>A quoted literal, \<^verbatim>\<open>"'" + text + "'"\<close>\<close>

definition sql_quote :: "string \<Rightarrow> string" where
  "sql_quote t = [CHR 0x27] @ t @ [CHR 0x27]"

section \<open>Statements in a transaction\<close>

definition rollback :: "('c, 'd) Mysql \<Rightarrow> 'c \<Rightarrow> 'r \<Rightarrow> 'd \<Rightarrow> 'r \<times> 'd" where
  "rollback M con r d = (r, snd (mysql_query M con ''ROLLBACK'' d))"

text \<open>\<^verbatim>\<open>if (mysql_query(..) != 0) { mysql_query("ROLLBACK"); return fail; }\<close> and then \<open>k\<close>\<close>

definition query_or_rollback :: "('c, 'd) Mysql \<Rightarrow> 'c \<Rightarrow> string \<Rightarrow> 'r \<Rightarrow> ('d \<Rightarrow> 'r \<times> 'd) \<Rightarrow> 'd \<Rightarrow> 'r \<times> 'd" where
  "query_or_rollback M con sql fail k d =
     (case mysql_query M con sql d of (ok, d1) \<Rightarrow> if ok then k d1 else rollback M con fail d1)"

definition result_or_rollback ::
  "('c, 'd) Mysql \<Rightarrow> 'c \<Rightarrow> 'r \<Rightarrow> (row list \<Rightarrow> 'd \<Rightarrow> 'r \<times> 'd) \<Rightarrow> 'd \<Rightarrow> 'r \<times> 'd" where
  "result_or_rollback M con fail k d =
     (case my_store_result M con d of
        (None, d1) \<Rightarrow> rollback M con fail d1
      | (Some rows, d1) \<Rightarrow> k rows d1)"

definition commit :: "('c, 'd) Mysql \<Rightarrow> 'c \<Rightarrow> 'r \<Rightarrow> 'r \<Rightarrow> 'd \<Rightarrow> 'r \<times> 'd" where
  "commit M con r fail d = query_or_rollback M con ''COMMIT'' fail (\<lambda>d1. (r, d1)) d"

text \<open>A query whose result is read, outside a transaction: \<open>fail\<close> when either of the two fails.\<close>

definition select_rows :: "('c, 'd) Mysql \<Rightarrow> 'c \<Rightarrow> string \<Rightarrow> 'r \<Rightarrow> (row list \<Rightarrow> 'd \<Rightarrow> 'r \<times> 'd) \<Rightarrow> 'd \<Rightarrow> 'r \<times> 'd" where
  "select_rows M con sql fail k d =
     (case mysql_query M con sql d of
        (False, d1) \<Rightarrow> (fail, d1)
      | (True, d1) \<Rightarrow>
          (case my_store_result M con d1 of
             (None, d2) \<Rightarrow> (fail, d2)
           | (Some rows, d2) \<Rightarrow> k rows d2))"

section \<open>Repositories and the pool\<close>

record ('c, 'd) Backend =
  be_pool :: "'c connection_pool option"
  be_db :: 'd

text \<open>The scope of the \<^verbatim>\<open>connectionRAII\<close> that every method opens: \<open>none\<close> without a pool or a connection.\<close>

definition with_mysql ::
  "'r \<Rightarrow> ('c \<Rightarrow> ('c, 'd) Backend \<Rightarrow> ('r \<times> ('c, 'd) Backend) option) \<Rightarrow> ('c, 'd) Backend \<Rightarrow> ('r \<times> ('c, 'd) Backend) option" where
  "with_mysql none body s =
     (case be_pool s of
        None \<Rightarrow> Some (none, s)
      | Some p \<Rightarrow>
          (case GetConnection p of
             None \<Rightarrow> None
           | Some (None, p1) \<Rightarrow> Some (none, s\<lparr>be_pool := Some p1\<rparr>)
           | Some (Some con, p1) \<Rightarrow>
               (case body con (s\<lparr>be_pool := Some p1\<rparr>) of
                  None \<Rightarrow> None
                | Some (r, s1) \<Rightarrow>
                    Some (r, s1\<lparr>be_pool := map_option (\<lambda>p2. snd (ReleaseConnection (Some con) p2)) (be_pool s1)\<rparr>))))"

text \<open>A body that only talks to the database.\<close>

definition on_db :: "('d \<Rightarrow> 'r \<times> 'd) \<Rightarrow> ('c, 'd) Backend \<Rightarrow> ('r \<times> ('c, 'd) Backend) option" where
  "on_db f s = (case f (be_db s) of (r, d) \<Rightarrow> Some (r, s\<lparr>be_db := d\<rparr>))"

section \<open>Users\<close>

definition insert_user_sql :: "string \<Rightarrow> string \<Rightarrow> string" where
  "insert_user_sql escaped_user escaped_pass =
     ''INSERT INTO user(username, passwd) VALUES('' @ sql_quote escaped_user @ '', '' @ sql_quote escaped_pass @ '')''"

definition MysqlUserRepository_create_user ::
  "('c, 'd) Mysql \<Rightarrow> string \<Rightarrow> string \<Rightarrow> ('c, 'd) Backend \<Rightarrow> (User option \<times> ('c, 'd) Backend) option" where
  "MysqlUserRepository_create_user M username password s =
     (if be_pool s = None \<or> username = [] \<or> password = [] then Some (None, s)
      else with_mysql None (\<lambda>con. on_db (\<lambda>d.
        (case mysql_query M con (insert_user_sql (escape_sql M con username) (escape_sql M con password)) d of
           (False, d1) \<Rightarrow> (None, d1)
         | (True, d1) \<Rightarrow> (Some \<lparr>usr_id = wrap32 (my_insert_id M con d1), usr_username = username\<rparr>, d1)))) s)"

definition find_user_sql :: "string \<Rightarrow> string \<Rightarrow> string" where
  "find_user_sql escaped_user escaped_pass =
     ''SELECT id,username FROM user WHERE username='' @ sql_quote escaped_user @ '' AND passwd='' @
     sql_quote escaped_pass @ '' LIMIT 1''"

definition MysqlUserRepository_authenticate ::
  "('c, 'd) Mysql \<Rightarrow> string \<Rightarrow> string \<Rightarrow> ('c, 'd) Backend \<Rightarrow> (User option \<times> ('c, 'd) Backend) option" where
  "MysqlUserRepository_authenticate M username password s =
     (if be_pool s = None \<or> username = [] \<or> password = [] then Some (None, s)
      else with_mysql None (\<lambda>con. on_db (
        select_rows M con (find_user_sql (escape_sql M con username) (escape_sql M con password)) None
          (\<lambda>rows d. (case rows of
                        [] \<Rightarrow> None
                      | r # _ \<Rightarrow> Some \<lparr>usr_id = cell_int r 0, usr_username = cell_text r 1\<rparr>, d)))) s)"

section \<open>Books\<close>

definition book_from_row :: "row \<Rightarrow> Book" where
  "book_from_row r =
     \<lparr>bk_id = cell_int r 0, bk_title = cell_text r 1, bk_author = cell_text r 2, bk_price_cents = cell_int r 3,
      bk_stock = cell_int r 4, bk_status = cell_text r 5\<rparr>"

definition list_books_sql :: string where
  "list_books_sql =
     ''SELECT b.id,b.title,b.author,b.price_cents,COALESCE(i.available,b.stock),b.status '' @
     ''FROM books b LEFT JOIN inventory i ON i.book_id=b.id '' @
     ''WHERE b.status='' @ sql_quote ''active'' @ '' ORDER BY b.id''"

definition MysqlBookRepository_list_books ::
  "('c, 'd) Mysql \<Rightarrow> ('c, 'd) Backend \<Rightarrow> (Book list \<times> ('c, 'd) Backend) option" where
  "MysqlBookRepository_list_books M s =
     (if be_pool s = None then Some ([], s)
      else with_mysql [] (\<lambda>con. on_db (
        select_rows M con list_books_sql [] (\<lambda>rows d. (map book_from_row rows, d)))) s)"

definition find_book_sql :: "int \<Rightarrow> string" where
  "find_book_sql book_id =
     ''SELECT b.id,b.title,b.author,b.price_cents,COALESCE(i.available,b.stock),b.status '' @
     ''FROM books b LEFT JOIN inventory i ON i.book_id=b.id WHERE b.id='' @ to_string book_id @ '' LIMIT 1''"

definition MysqlBookRepository_find_book ::
  "('c, 'd) Mysql \<Rightarrow> int \<Rightarrow> ('c, 'd) Backend \<Rightarrow> (Book option \<times> ('c, 'd) Backend) option" where
  "MysqlBookRepository_find_book M book_id s =
     (if be_pool s = None \<or> book_id \<le> 0 then Some (None, s)
      else with_mysql None (\<lambda>con. on_db (
        select_rows M con (find_book_sql book_id) None
          (\<lambda>rows d. (case rows of [] \<Rightarrow> None | r # _ \<Rightarrow> Some (book_from_row r), d)))) s)"

definition insert_book_sql :: "('c, 'd) Mysql \<Rightarrow> 'c \<Rightarrow> Book \<Rightarrow> string" where
  "insert_book_sql M con book =
     ''INSERT INTO books(title,author,price_cents,stock,status) VALUES('' @
     sql_quote (escape_sql M con (bk_title book)) @ '', '' @ sql_quote (escape_sql M con (bk_author book)) @ '', '' @
     to_string (bk_price_cents book) @ '', '' @ to_string (bk_stock book) @ '', '' @
     sql_quote (escape_sql M con (if bk_status book = [] then ''active'' else bk_status book)) @ '')''"

definition insert_inventory_sql :: "int \<Rightarrow> int \<Rightarrow> string" where
  "insert_inventory_sql book_id stock =
     ''INSERT INTO inventory(book_id,available) VALUES('' @ to_string book_id @ '', '' @ to_string stock @ '')''"

text \<open>The transaction of \<^verbatim>\<open>create_book\<close>: the identifier of the new book, \<open>None\<close> where the method returns.\<close>

definition create_book_tx :: "('c, 'd) Mysql \<Rightarrow> 'c \<Rightarrow> Book \<Rightarrow> 'd \<Rightarrow> int option \<times> 'd" where
  "create_book_tx M con book d =
     (case mysql_query M con ''START TRANSACTION'' d of
        (False, d1) \<Rightarrow> (None, d1)
      | (True, d1) \<Rightarrow>
          query_or_rollback M con (insert_book_sql M con book) None
            (\<lambda>d2. let book_id = wrap32 (my_insert_id M con d2) in
              query_or_rollback M con (insert_inventory_sql book_id (bk_stock book)) None
                (commit M con (Some book_id) None) d2) d1)"

text \<open>\<^verbatim>\<open>find_book\<close> is called while the connection is still held, so it needs another one.\<close>

definition MysqlBookRepository_create_book ::
  "('c, 'd) Mysql \<Rightarrow> Book \<Rightarrow> ('c, 'd) Backend \<Rightarrow> (Book option \<times> ('c, 'd) Backend) option" where
  "MysqlBookRepository_create_book M book s =
     (if be_pool s = None \<or> bk_title book = [] \<or> bk_author book = [] \<or> bk_price_cents book \<le> 0 \<or> bk_stock book < 0
      then Some (None, s)
      else with_mysql None (\<lambda>con s1.
        (case create_book_tx M con book (be_db s1) of
           (None, d) \<Rightarrow> Some (None, s1\<lparr>be_db := d\<rparr>)
         | (Some book_id, d) \<Rightarrow> MysqlBookRepository_find_book M book_id (s1\<lparr>be_db := d\<rparr>))) s)"

definition assignments :: "('c, 'd) Mysql \<Rightarrow> 'c \<Rightarrow> BookUpdate \<Rightarrow> string list" where
  "assignments M con update =
     (case bu_title update of None \<Rightarrow> [] | Some t \<Rightarrow> [''title='' @ sql_quote (escape_sql M con t)]) @
     (case bu_author update of None \<Rightarrow> [] | Some t \<Rightarrow> [''author='' @ sql_quote (escape_sql M con t)]) @
     (case bu_price_cents update of None \<Rightarrow> [] | Some n \<Rightarrow> [''price_cents='' @ to_string n]) @
     (case bu_stock update of None \<Rightarrow> [] | Some n \<Rightarrow> [''stock='' @ to_string n]) @
     (case bu_status update of None \<Rightarrow> [] | Some t \<Rightarrow> [''status='' @ sql_quote (escape_sql M con t)])"

definition update_book_sql :: "string list \<Rightarrow> int \<Rightarrow> string" where
  "update_book_sql parts book_id =
     ''UPDATE books SET '' @ comma_join parts @ '' WHERE id='' @ to_string book_id"

definition set_inventory_sql :: "int \<Rightarrow> int \<Rightarrow> string" where
  "set_inventory_sql book_id stock =
     ''INSERT INTO inventory(book_id,available) VALUES('' @ to_string book_id @ '', '' @ to_string stock @
     '') ON DUPLICATE KEY UPDATE available=VALUES(available)''"

text \<open>The two statements of \<^verbatim>\<open>update_book\<close>, each on its own; the flag says whether the method goes on.\<close>

definition update_book_db :: "('c, 'd) Mysql \<Rightarrow> 'c \<Rightarrow> int \<Rightarrow> BookUpdate \<Rightarrow> 'd \<Rightarrow> bool \<times> 'd" where
  "update_book_db M con book_id update d =
     (if assignments M con update = [] then (True, d)
      else
        (case mysql_query M con (update_book_sql (assignments M con update) book_id) d of
           (ok, d1) \<Rightarrow>
             if \<not> ok \<or> my_affected_rows M con d1 = 0 then (False, d1)
             else (case bu_stock update of
                     None \<Rightarrow> (True, d1)
                   | Some stock \<Rightarrow> mysql_query M con (set_inventory_sql book_id stock) d1)))"

definition MysqlBookRepository_update_book ::
  "('c, 'd) Mysql \<Rightarrow> int \<Rightarrow> BookUpdate \<Rightarrow> ('c, 'd) Backend \<Rightarrow> (Book option \<times> ('c, 'd) Backend) option" where
  "MysqlBookRepository_update_book M book_id update s =
     (if be_pool s = None \<or> book_id \<le> 0 then Some (None, s)
      else with_mysql None (\<lambda>con s1.
        (case update_book_db M con book_id update (be_db s1) of
           (False, d) \<Rightarrow> Some (None, s1\<lparr>be_db := d\<rparr>)
         | (True, d) \<Rightarrow> MysqlBookRepository_find_book M book_id (s1\<lparr>be_db := d\<rparr>))) s)"

end
