(* ===== verification/Mysql_Orders.thy ===== *)
theory Mysql_Orders
  imports Mysql
begin

text \<open>
  The orders of \<^verbatim>\<open>src/app/repository/mysql/mysql_repositories.cpp\<close>: an order and its lines are written in one
  transaction and read back by separate queries.
\<close>

section \<open>Definitions\<close>

definition order_items_sql :: "int \<Rightarrow> string" where
  "order_items_sql order_id =
     ''SELECT book_id,quantity,unit_price_cents FROM order_items WHERE order_id='' @ to_string order_id @
     '' ORDER BY id''"

definition item_from_row :: "row \<Rightarrow> OrderItem" where
  "item_from_row r = \<lparr>oi_book_id = cell_int r 0, oi_quantity = cell_int r 1, oi_unit_price_cents = cell_int r 2\<rparr>"

definition fetch_order_items :: "('c, 'd) Mysql \<Rightarrow> 'c \<Rightarrow> int \<Rightarrow> 'd \<Rightarrow> OrderItem list \<times> 'd" where
  "fetch_order_items M con order_id =
     select_rows M con (order_items_sql order_id) [] (\<lambda>rows d. (map item_from_row rows, d))"

definition insert_order_sql :: "int \<Rightarrow> int \<Rightarrow> string" where
  "insert_order_sql user_id total_cents =
     ''INSERT INTO orders(user_id,status,total_cents) VALUES('' @ to_string user_id @ '', '' @
     sql_quote ''created'' @ '', '' @ to_string total_cents @ '')''"

definition insert_item_sql :: "int \<Rightarrow> OrderItem \<Rightarrow> string" where
  "insert_item_sql order_id item =
     (let line_total = wrap32 (oi_quantity item * oi_unit_price_cents item) in
      ''INSERT INTO order_items(order_id,book_id,quantity,unit_price_cents,line_total_cents) VALUES('' @
      to_string order_id @ '', '' @ to_string (oi_book_id item) @ '', '' @ to_string (oi_quantity item) @ '', '' @
      to_string (oi_unit_price_cents item) @ '', '' @ to_string line_total @ '')'')"

text \<open>The loop over the items; \<open>k\<close> is what follows it.\<close>

fun insert_items_loop ::
  "('c, 'd) Mysql \<Rightarrow> 'c \<Rightarrow> int \<Rightarrow> OrderItem list \<Rightarrow> ('d \<Rightarrow> Order option \<times> 'd) \<Rightarrow> 'd \<Rightarrow> Order option \<times> 'd" where
  "insert_items_loop M con order_id [] k d = k d"
| "insert_items_loop M con order_id (item # items) k d =
     query_or_rollback M con (insert_item_sql order_id item) None (insert_items_loop M con order_id items k) d"

definition create_order_tx ::
  "('c, 'd) Mysql \<Rightarrow> 'c \<Rightarrow> int \<Rightarrow> OrderItem list \<Rightarrow> int \<Rightarrow> 'd \<Rightarrow> Order option \<times> 'd" where
  "create_order_tx M con user_id items total_cents d =
     (case mysql_query M con ''START TRANSACTION'' d of
        (False, d1) \<Rightarrow> (None, d1)
      | (True, d1) \<Rightarrow>
          query_or_rollback M con (insert_order_sql user_id total_cents) None
            (\<lambda>d2. let order_id = wrap32 (my_insert_id M con d2) in
              insert_items_loop M con order_id items
                (commit M con
                  (Some \<lparr>ord_id = order_id, ord_user_id = user_id, ord_items = items,
                         ord_total_cents = total_cents, ord_status = ''created''\<rparr>) None) d2) d1)"

definition MysqlOrderRepository_create_order ::
  "('c, 'd) Mysql \<Rightarrow> int \<Rightarrow> OrderItem list \<Rightarrow> int \<Rightarrow> ('c, 'd) Backend \<Rightarrow> (Order option \<times> ('c, 'd) Backend) option" where
  "MysqlOrderRepository_create_order M user_id items total_cents s =
     (if be_pool s = None \<or> user_id \<le> 0 \<or> items = [] then Some (None, s)
      else with_mysql None (\<lambda>con. on_db (create_order_tx M con user_id items total_cents)) s)"

text \<open>The columns \<^verbatim>\<open>id,user_id,status,total_cents\<close>\<close>

definition order_from_row :: "row \<Rightarrow> Order" where
  "order_from_row r =
     \<lparr>ord_id = cell_int r 0, ord_user_id = cell_int r 1, ord_items = [], ord_total_cents = cell_int r 3,
      ord_status = cell_text r 2\<rparr>"

fun fetch_items_loop :: "('c, 'd) Mysql \<Rightarrow> 'c \<Rightarrow> Order list \<Rightarrow> 'd \<Rightarrow> Order list \<times> 'd" where
  "fetch_items_loop M con [] d = ([], d)"
| "fetch_items_loop M con (order # orders) d =
     (case fetch_order_items M con (ord_id order) d of
        (items, d1) \<Rightarrow>
          (case fetch_items_loop M con orders d1 of (rs, d2) \<Rightarrow> (order\<lparr>ord_items := items\<rparr> # rs, d2)))"

definition list_orders_sql :: string where
  "list_orders_sql = ''SELECT id,user_id,status,total_cents FROM orders ORDER BY id DESC''"

definition MysqlOrderRepository_list_orders ::
  "('c, 'd) Mysql \<Rightarrow> ('c, 'd) Backend \<Rightarrow> (Order list \<times> ('c, 'd) Backend) option" where
  "MysqlOrderRepository_list_orders M s =
     (if be_pool s = None then Some ([], s)
      else with_mysql [] (\<lambda>con. on_db (
        select_rows M con list_orders_sql [] (\<lambda>rows. fetch_items_loop M con (map order_from_row rows)))) s)"

definition find_order_sql :: "int \<Rightarrow> string" where
  "find_order_sql order_id =
     ''SELECT id,user_id,status,total_cents FROM orders WHERE id='' @ to_string order_id @ '' LIMIT 1''"

definition MysqlOrderRepository_find_order ::
  "('c, 'd) Mysql \<Rightarrow> int \<Rightarrow> ('c, 'd) Backend \<Rightarrow> (Order option \<times> ('c, 'd) Backend) option" where
  "MysqlOrderRepository_find_order M order_id s =
     (if be_pool s = None \<or> order_id \<le> 0 then Some (None, s)
      else with_mysql None (\<lambda>con. on_db (
        select_rows M con (find_order_sql order_id) None
          (\<lambda>rows d. case rows of
             [] \<Rightarrow> (None, d)
           | r # _ \<Rightarrow>
               (case fetch_order_items M con (ord_id (order_from_row r)) d of
                  (items, d1) \<Rightarrow> (Some ((order_from_row r)\<lparr>ord_items := items\<rparr>), d1))))) s)"

definition cancel_order_sql :: "int \<Rightarrow> string" where
  "cancel_order_sql order_id =
     ''UPDATE orders SET status='' @ sql_quote ''cancelled'' @ '' WHERE id='' @ to_string order_id @
     '' AND status<>'' @ sql_quote ''cancelled''"

definition MysqlOrderRepository_cancel_order ::
  "('c, 'd) Mysql \<Rightarrow> int \<Rightarrow> ('c, 'd) Backend \<Rightarrow> (Order option \<times> ('c, 'd) Backend) option" where
  "MysqlOrderRepository_cancel_order M order_id s =
     (if be_pool s = None \<or> order_id \<le> 0 then Some (None, s)
      else with_mysql None (\<lambda>con s1.
        (case mysql_query M con (cancel_order_sql order_id) (be_db s1) of
           (False, d) \<Rightarrow> Some (None, s1\<lparr>be_db := d\<rparr>)
         | (True, d) \<Rightarrow> MysqlOrderRepository_find_order M order_id (s1\<lparr>be_db := d\<rparr>))) s)"

end
