(* ===== verification/Mysql_Inventory.thy ===== *)
theory Mysql_Inventory
  imports Mysql
begin

text \<open>
  The inventory of \<^verbatim>\<open>src/app/repository/mysql/mysql_repositories.cpp\<close>: single reservations are one conditional
  update; a batch is a transaction that also records the reservation under its identifier, so that it can be
  released from the record.
\<close>

section \<open>Statements\<close>

definition stock_sql :: "int \<Rightarrow> string" where
  "stock_sql book_id = ''SELECT available FROM inventory WHERE book_id='' @ to_string book_id"

definition take_stock_sql :: "int \<Rightarrow> int \<Rightarrow> string" where
  "take_stock_sql book_id quantity =
     ''UPDATE inventory SET available=available-'' @ to_string quantity @ '' WHERE book_id='' @ to_string book_id @
     '' AND available>='' @ to_string quantity"

definition put_stock_sql :: "int \<Rightarrow> int \<Rightarrow> string" where
  "put_stock_sql book_id quantity =
     ''UPDATE inventory SET available=available+'' @ to_string quantity @ '' WHERE book_id='' @ to_string book_id"

definition add_book_stock_sql :: "int \<Rightarrow> int \<Rightarrow> string" where
  "add_book_stock_sql book_id quantity =
     ''UPDATE books SET stock=stock+'' @ to_string quantity @ '' WHERE id='' @ to_string book_id"

definition reservation_status_sql :: "string \<Rightarrow> string" where
  "reservation_status_sql escaped_id =
     ''SELECT status FROM inventory_reservations WHERE reservation_id='' @ sql_quote escaped_id @ '' FOR UPDATE''"

definition insert_reservation_sql :: "string \<Rightarrow> string" where
  "insert_reservation_sql escaped_id =
     ''INSERT INTO inventory_reservations(reservation_id,status) VALUES('' @ sql_quote escaped_id @ '', '' @
     sql_quote ''reserved'' @ '')''"

definition insert_reserved_item_sql :: "string \<Rightarrow> InventoryMutation \<Rightarrow> string" where
  "insert_reserved_item_sql escaped_id item =
     ''INSERT INTO inventory_reservation_items(reservation_id,book_id,quantity) VALUES('' @ sql_quote escaped_id @
     '', '' @ to_string (im_book_id item) @ '', '' @ to_string (im_quantity item) @ '')''"

definition reserved_items_sql :: "string \<Rightarrow> string" where
  "reserved_items_sql escaped_id =
     ''SELECT book_id,quantity FROM inventory_reservation_items WHERE reservation_id='' @ sql_quote escaped_id"

definition release_reservation_sql :: "string \<Rightarrow> string" where
  "release_reservation_sql escaped_id =
     ''UPDATE inventory_reservations SET status='' @ sql_quote ''released'' @ '' WHERE reservation_id='' @
     sql_quote escaped_id"

section \<open>Single operations\<close>

definition MysqlInventoryRepository_available_stock ::
  "('c, 'd) Mysql \<Rightarrow> int \<Rightarrow> ('c, 'd) Backend \<Rightarrow> (int option \<times> ('c, 'd) Backend) option" where
  "MysqlInventoryRepository_available_stock M book_id s =
     (if be_pool s = None \<or> book_id \<le> 0 then Some (None, s)
      else with_mysql None (\<lambda>con. on_db (
        select_rows M con (stock_sql book_id @ '' LIMIT 1'') None
          (\<lambda>rows d. (case rows of [] \<Rightarrow> None | r # _ \<Rightarrow> Some (cell_int r 0), d)))) s)"

definition add_stock_tx :: "('c, 'd) Mysql \<Rightarrow> 'c \<Rightarrow> int \<Rightarrow> int \<Rightarrow> 'd \<Rightarrow> int option \<times> 'd" where
  "add_stock_tx M con book_id quantity d =
     (case mysql_query M con ''START TRANSACTION'' d of
        (False, d1) \<Rightarrow> (None, d1)
      | (True, d1) \<Rightarrow>
          query_or_rollback M con (put_stock_sql book_id quantity) None
            (\<lambda>d2. if my_affected_rows M con d2 \<noteq> 1 then rollback M con None d2
                  else
                    query_or_rollback M con (add_book_stock_sql book_id quantity) None
                      (query_or_rollback M con (stock_sql book_id) None
                        (result_or_rollback M con None
                          (\<lambda>rows. case rows of
                             [] \<Rightarrow> rollback M con None
                           | r # _ \<Rightarrow> commit M con (Some (cell_int r 0)) None))) d2) d1)"

definition MysqlInventoryRepository_add_stock ::
  "('c, 'd) Mysql \<Rightarrow> int \<Rightarrow> int \<Rightarrow> ('c, 'd) Backend \<Rightarrow> (int option \<times> ('c, 'd) Backend) option" where
  "MysqlInventoryRepository_add_stock M book_id quantity s =
     (if be_pool s = None \<or> book_id \<le> 0 \<or> quantity \<le> 0 then Some (None, s)
      else with_mysql None (\<lambda>con. on_db (add_stock_tx M con book_id quantity)) s)"

definition MysqlInventoryRepository_reserve_stock ::
  "('c, 'd) Mysql \<Rightarrow> int \<Rightarrow> int \<Rightarrow> ('c, 'd) Backend \<Rightarrow> (bool \<times> ('c, 'd) Backend) option" where
  "MysqlInventoryRepository_reserve_stock M book_id quantity s =
     (if be_pool s = None \<or> book_id \<le> 0 \<or> quantity \<le> 0 then Some (False, s)
      else with_mysql False (\<lambda>con. on_db (\<lambda>d.
        case mysql_query M con (take_stock_sql book_id quantity) d of
          (False, d1) \<Rightarrow> (False, d1)
        | (True, d1) \<Rightarrow> (my_affected_rows M con d1 = 1, d1))) s)"

definition MysqlInventoryRepository_release_stock ::
  "('c, 'd) Mysql \<Rightarrow> int \<Rightarrow> int \<Rightarrow> ('c, 'd) Backend \<Rightarrow> (unit \<times> ('c, 'd) Backend) option" where
  "MysqlInventoryRepository_release_stock M book_id quantity s =
     (if be_pool s = None \<or> book_id \<le> 0 \<or> quantity \<le> 0 then Some ((), s)
      else with_mysql () (\<lambda>con. on_db (\<lambda>d. ((), snd (mysql_query M con (put_stock_sql book_id quantity) d)))) s)"

section \<open>Batches\<close>

text \<open>The loop over the items of a reservation; \<open>k\<close> is what follows it.\<close>

fun reserve_items_loop ::
  "('c, 'd) Mysql \<Rightarrow> 'c \<Rightarrow> string \<Rightarrow> InventoryMutation list \<Rightarrow> ('d \<Rightarrow> bool \<times> 'd) \<Rightarrow> 'd \<Rightarrow> bool \<times> 'd" where
  "reserve_items_loop M con escaped_id [] k d = k d"
| "reserve_items_loop M con escaped_id (item # items) k d =
     query_or_rollback M con (take_stock_sql (im_book_id item) (im_quantity item)) False
       (\<lambda>d1. if my_affected_rows M con d1 \<noteq> 1 then rollback M con False d1
             else query_or_rollback M con (insert_reserved_item_sql escaped_id item) False
                    (reserve_items_loop M con escaped_id items k) d1) d"

definition reserve_items_tx :: "('c, 'd) Mysql \<Rightarrow> 'c \<Rightarrow> string \<Rightarrow> InventoryMutation list \<Rightarrow> 'd \<Rightarrow> bool \<times> 'd" where
  "reserve_items_tx M con reservation_id items d =
     (let escaped_id = escape_sql M con reservation_id in
      case mysql_query M con ''START TRANSACTION'' d of
        (False, d1) \<Rightarrow> (False, d1)
      | (True, d1) \<Rightarrow>
          query_or_rollback M con (reservation_status_sql escaped_id) False
            (result_or_rollback M con False
              (\<lambda>existing d2.
                 case existing of
                   r # _ \<Rightarrow>
                     if cell_text r 0 = ''reserved''
                     then (True, snd (mysql_query M con ''COMMIT'' d2))
                     else rollback M con False d2
                 | [] \<Rightarrow>
                     query_or_rollback M con (insert_reservation_sql escaped_id) False
                       (reserve_items_loop M con escaped_id items (commit M con True False)) d2)) d1)"

definition MysqlInventoryRepository_reserve_stock_items ::
  "('c, 'd) Mysql \<Rightarrow> string \<Rightarrow> InventoryMutation list \<Rightarrow> ('c, 'd) Backend \<Rightarrow> (bool \<times> ('c, 'd) Backend) option" where
  "MysqlInventoryRepository_reserve_stock_items M reservation_id items s =
     (if be_pool s = None \<or> reservation_id = [] \<or> items = [] then Some (False, s)
      else if \<exists>i \<in> set items. im_book_id i \<le> 0 \<or> im_quantity i \<le> 0 then Some (False, s)
      else with_mysql False (\<lambda>con. on_db (reserve_items_tx M con reservation_id items)) s)"

definition mutation_from_row :: "row \<Rightarrow> InventoryMutation" where
  "mutation_from_row r = \<lparr>im_book_id = cell_int r 0, im_quantity = cell_int r 1\<rparr>"

fun release_items_loop ::
  "('c, 'd) Mysql \<Rightarrow> 'c \<Rightarrow> InventoryMutation list \<Rightarrow> ('d \<Rightarrow> unit \<times> 'd) \<Rightarrow> 'd \<Rightarrow> unit \<times> 'd" where
  "release_items_loop M con [] k d = k d"
| "release_items_loop M con (item # items) k d =
     (if im_book_id item \<le> 0 \<or> im_quantity item \<le> 0 then rollback M con () d
      else query_or_rollback M con (put_stock_sql (im_book_id item) (im_quantity item)) ()
             (release_items_loop M con items k) d)"

definition release_items_tx :: "('c, 'd) Mysql \<Rightarrow> 'c \<Rightarrow> string \<Rightarrow> 'd \<Rightarrow> unit \<times> 'd" where
  "release_items_tx M con reservation_id d =
     (let escaped_id = escape_sql M con reservation_id in
      case mysql_query M con ''START TRANSACTION'' d of
        (False, d1) \<Rightarrow> ((), d1)
      | (True, d1) \<Rightarrow>
          query_or_rollback M con (reservation_status_sql escaped_id) ()
            (result_or_rollback M con ()
              (\<lambda>existing d2.
                 case existing of
                   [] \<Rightarrow> rollback M con () d2
                 | r # _ \<Rightarrow>
                     if cell_text r 0 = ''released'' then ((), snd (mysql_query M con ''COMMIT'' d2))
                     else if cell_text r 0 \<noteq> ''reserved'' then rollback M con () d2
                     else
                       query_or_rollback M con (reserved_items_sql escaped_id) ()
                         (result_or_rollback M con ()
                           (\<lambda>rows. release_items_loop M con (map mutation_from_row rows)
                              (query_or_rollback M con (release_reservation_sql escaped_id) ()
                                (commit M con () ())))) d2)) d1)"

text \<open>The second argument of \<^verbatim>\<open>release_stock\<close> is not used.\<close>

definition MysqlInventoryRepository_release_stock_items ::
  "('c, 'd) Mysql \<Rightarrow> string \<Rightarrow> InventoryMutation list \<Rightarrow> ('c, 'd) Backend \<Rightarrow> (unit \<times> ('c, 'd) Backend) option" where
  "MysqlInventoryRepository_release_stock_items M reservation_id items s =
     (if be_pool s = None \<or> reservation_id = [] then Some ((), s)
      else with_mysql () (\<lambda>con. on_db (release_items_tx M con reservation_id)) s)"

end
