(* ===== verification/Mysql_Resources.thy ===== *)
theory Mysql_Resources
  imports Mysql_Orders Mysql_Inventory
begin

text \<open>
  What the MySQL repositories do with connections and transactions, whatever the database answers: a method leaves
  no transaction open, and it gives back the connections it took. The methods that read back what they wrote need
  two connections at once.
\<close>

section \<open>Connections\<close>

text \<open>With \<open>n\<close> free connections the method returns and the pool is as before, up to the order of its list.\<close>

definition returns :: "nat \<Rightarrow> (('c, 'd) Backend \<Rightarrow> ('r \<times> ('c, 'd) Backend) option) \<Rightarrow> bool" where
  "returns n f \<longleftrightarrow> (\<forall>s p. be_pool s = Some p \<longrightarrow> pool_ok p \<longrightarrow> n \<le> length (connList p) \<longrightarrow>
     (\<exists>r s' p'. f s = Some (r, s') \<and> be_pool s' = Some p' \<and> pool_ok p' \<and> mset (connList p') = mset (connList p)))"

lemma returnsD:
  "returns n f \<Longrightarrow> be_pool s = Some p \<Longrightarrow> pool_ok p \<Longrightarrow> n \<le> length (connList p) \<Longrightarrow>
     \<exists>r s' p'. f s = Some (r, s') \<and> be_pool s' = Some p' \<and> pool_ok p' \<and> mset (connList p') = mset (connList p)"
  by (simp add: returns_def)

lemma returns_done: "be_pool s' = be_pool s \<Longrightarrow> f s = Some (r, s') \<Longrightarrow> be_pool s = Some p \<Longrightarrow> pool_ok p \<Longrightarrow>
    \<exists>r s' p'. f s = Some (r, s') \<and> be_pool s' = Some p' \<and> pool_ok p' \<and> mset (connList p') = mset (connList p)"
  by simp

lemma returns_on_db: "returns n (on_db f)"
  by (auto simp: returns_def on_db_def split: prod.splits)

lemma returns_if: "(\<And>s. returns n (\<lambda>s. Some (r, s))) \<Longrightarrow> returns n f \<Longrightarrow> returns n (\<lambda>s. if P s then Some (r, s) else f s)"
  by (auto simp: returns_def)

lemma returns_Some: "returns n (\<lambda>s. Some (r, s))"
  by (auto simp: returns_def)

lemma returns_with_mysql:
  assumes "\<And>con. returns n (body con)"
  shows "returns (Suc n) (with_mysql none body)"
  unfolding returns_def
proof (intro allI impI)
  fix s :: "('a, 'b) Backend" and p
  assume s: "be_pool s = Some p" "pool_ok p" "Suc n \<le> length (connList p)"
  then obtain con p1 where g: "GetConnection p = Some (Some con, p1)" "pool_ok p1" "connList p = con # connList p1"
  proof -
    have "GetConnection p \<noteq> None" using s by (cases "connList p") (simp_all add: GetConnection_def)
    then obtain c p1 where "GetConnection p = Some (c, p1)" by auto
    with get_cases[OF s(2) this] show ?thesis using that by auto
  qed
  obtain r s' p' where b: "body con (s\<lparr>be_pool := Some p1\<rparr>) = Some (r, s')" "be_pool s' = Some p'" "pool_ok p'"
    "mset (connList p') = mset (connList p1)"
    using returnsD[OF assms, of "s\<lparr>be_pool := Some p1\<rparr>" p1 con] s g by auto
  let ?p = "snd (ReleaseConnection (Some con) p')"
  have "pool_ok ?p" "mset (connList ?p) = mset (connList p)"
    using b g by (auto simp: ReleaseConnection_def pool_ok_def)
  with s g b show "\<exists>r s' p'. with_mysql none body s = Some (r, s') \<and> be_pool s' = Some p' \<and> pool_ok p' \<and>
      mset (connList p') = mset (connList p)"
    by (auto simp: with_mysql_def)
qed

lemma returns_mono: "returns n f \<Longrightarrow> n \<le> m \<Longrightarrow> returns m f"
  by (auto simp: returns_def)

lemma returns_then:
  assumes "\<And>x. returns n (g x)"
  shows "returns n (\<lambda>s. case f (be_db s) of (None, d) \<Rightarrow> Some (None, s\<lparr>be_db := d\<rparr>) | (Some x, d) \<Rightarrow> g x (s\<lparr>be_db := d\<rparr>))"
  using assms by (auto simp: returns_def split: prod.splits option.splits)

lemma returns_then_bool:
  assumes "returns n g"
  shows "returns n (\<lambda>s. case f (be_db s) of (False, d) \<Rightarrow> Some (None, s\<lparr>be_db := d\<rparr>) | (True, d) \<Rightarrow> g (s\<lparr>be_db := d\<rparr>))"
  using assms by (auto simp: returns_def split: prod.splits bool.splits)

lemmas returns_rules = returns_if returns_Some returns_with_mysql returns_on_db

lemmas method_defs =
  MysqlUserRepository_create_user_def MysqlUserRepository_authenticate_def MysqlBookRepository_list_books_def
  MysqlOrderRepository_create_order_def MysqlOrderRepository_list_orders_def
  MysqlInventoryRepository_available_stock_def MysqlInventoryRepository_add_stock_def
  MysqlInventoryRepository_reserve_stock_def MysqlInventoryRepository_release_stock_def
  MysqlInventoryRepository_reserve_stock_items_def MysqlInventoryRepository_release_stock_items_def

lemma returns_find_book: "returns (Suc 0) (MysqlBookRepository_find_book M book_id)"
  unfolding MysqlBookRepository_find_book_def by (intro returns_rules)

lemma returns_find_order: "returns (Suc 0) (MysqlOrderRepository_find_order M order_id)"
  unfolding MysqlOrderRepository_find_order_def by (intro returns_rules)

lemma returns_create_book: "returns (Suc (Suc 0)) (MysqlBookRepository_create_book M book)"
  unfolding MysqlBookRepository_create_book_def
  by (intro returns_rules returns_then returns_find_book)

lemma returns_update_book: "returns (Suc (Suc 0)) (MysqlBookRepository_update_book M book_id update)"
  unfolding MysqlBookRepository_update_book_def
  by (intro returns_rules returns_then_bool returns_find_book)

lemma returns_cancel_order: "returns (Suc (Suc 0)) (MysqlOrderRepository_cancel_order M order_id)"
  unfolding MysqlOrderRepository_cancel_order_def
  by (intro returns_rules returns_then_bool returns_find_order)

section \<open>Transactions\<close>

text \<open>Any client library, with a record of the connections that have a transaction open.\<close>

definition note_query :: "'c \<Rightarrow> string \<Rightarrow> bool \<Rightarrow> ('c \<Rightarrow> bool) \<Rightarrow> 'c \<Rightarrow> bool" where
  "note_query c sql ok opn =
     (if sql = ''ROLLBACK'' then opn(c := False)
      else if sql = ''COMMIT'' \<and> ok then opn(c := False)
      else if sql = ''START TRANSACTION'' \<and> ok then opn(c := True)
      else opn)"

definition watched :: "('c, 'd) Mysql \<Rightarrow> ('c, 'd \<times> ('c \<Rightarrow> bool)) Mysql" where
  "watched M =
     \<lparr>my_query = (\<lambda>c sql (d, opn). case my_query M c sql d of (ok, d') \<Rightarrow> (ok, d', note_query c sql ok opn)),
      my_store_result = (\<lambda>c (d, opn). case my_store_result M c d of (r, d') \<Rightarrow> (r, d', opn)),
      my_insert_id = (\<lambda>c (d, opn). my_insert_id M c d), my_affected_rows = (\<lambda>c (d, opn). my_affected_rows M c d),
      my_escape = my_escape M\<rparr>"

definition no_open :: "'d \<times> ('c \<Rightarrow> bool) \<Rightarrow> bool" where
  "no_open d \<longleftrightarrow> (\<forall>c. \<not> snd d c)"

text \<open>At most the transaction of \<open>c\<close> is open.\<close>

definition at_most :: "'c \<Rightarrow> 'd \<times> ('c \<Rightarrow> bool) \<Rightarrow> bool" where
  "at_most c d \<longleftrightarrow> (\<forall>c'. snd d c' \<longrightarrow> c' = c)"

definition plain :: "string \<Rightarrow> bool" where
  "plain sql \<longleftrightarrow> c_str sql \<notin> {''ROLLBACK'', ''COMMIT'', ''START TRANSACTION''}"

lemma c_str_Cons: "c_str (c # s) = (if c = NUL then [] else c # c_str s)"
  by (simp add: c_str_def)

lemma watched_query:
  "mysql_query (watched M) c sql d = (ok, d') \<Longrightarrow> snd d' = note_query c (c_str sql) ok (snd d)"
  by (auto simp: mysql_query_def watched_def split: prod.splits)

lemma watched_result: "my_store_result (watched M) c d = (r, d') \<Longrightarrow> snd d' = snd d"
  by (auto simp: watched_def split: prod.splits)

lemma plain_query: "plain sql \<Longrightarrow> snd (snd (mysql_query (watched M) c sql d)) = snd d"
  using watched_query[of M c sql d] by (cases "mysql_query (watched M) c sql d") (auto simp: plain_def note_query_def)

lemma rollback_ends: "at_most c d \<Longrightarrow> no_open (snd (rollback (watched M) c r d))"
  using watched_query[of M c "''ROLLBACK''" d]
  by (cases "mysql_query (watched M) c ''ROLLBACK'' d")
    (auto simp: rollback_def no_open_def at_most_def note_query_def c_str_def)

lemma query_or_rollback_ends:
  assumes "at_most c d" "plain sql" "\<And>d. at_most c d \<Longrightarrow> no_open (snd (k d))"
  shows "no_open (snd (query_or_rollback (watched M) c sql fail k d))"
proof -
  obtain ok d1 where q: "mysql_query (watched M) c sql d = (ok, d1)" by (rule prod.exhaust)
  then have "at_most c d1"
    using plain_query[OF assms(2), of M c d] assms(1) by (simp add: at_most_def)
  with q show ?thesis
    using assms(3) rollback_ends[of c d1 M fail] by (simp add: query_or_rollback_def)
qed

lemma result_or_rollback_ends:
  assumes "at_most c d" "\<And>rows d. at_most c d \<Longrightarrow> no_open (snd (k rows d))"
  shows "no_open (snd (result_or_rollback (watched M) c fail k d))"
proof -
  obtain r d1 where q: "my_store_result (watched M) c d = (r, d1)" by (rule prod.exhaust)
  then have "at_most c d1"
    using watched_result[OF q] assms(1) by (simp add: at_most_def)
  with q show ?thesis
    using assms(2) rollback_ends[of c d1 M fail] by (cases r) (simp_all add: result_or_rollback_def)
qed

lemma commit_ends:
  assumes "at_most c d"
  shows "no_open (snd (commit (watched M) c r fail d))"
proof -
  obtain ok d1 where q: "mysql_query (watched M) c ''COMMIT'' d = (ok, d1)" by (rule prod.exhaust)
  have "snd d1 = (if ok then (snd d)(c := False) else snd d)"
    using watched_query[OF q] by (simp add: note_query_def c_str_def)
  with q assms rollback_ends[of c d1 M fail] show ?thesis
    by (auto simp: commit_def query_or_rollback_def no_open_def at_most_def)
qed

text \<open>A transaction from its first statement on.\<close>

lemma start_then:
  assumes "no_open d" "\<And>d. at_most c d \<Longrightarrow> no_open (snd (k d))"
  shows "no_open (snd (case mysql_query (watched M) c ''START TRANSACTION'' d of (False, d1) \<Rightarrow> (r, d1) | (True, d1) \<Rightarrow> k d1))"
proof -
  obtain ok d1 where q: "mysql_query (watched M) c ''START TRANSACTION'' d = (ok, d1)" by (rule prod.exhaust)
  have "snd d1 = (if ok then (snd d)(c := True) else snd d)"
    using watched_query[OF q] by (simp add: note_query_def c_str_def)
  with q assms show ?thesis
    by (cases ok) (auto simp: no_open_def at_most_def)
qed

lemma plain_sql:
  "plain (insert_book_sql M c book)" "plain (insert_inventory_sql b n)" "plain (insert_order_sql u n)"
  "plain (insert_item_sql i item)" "plain (put_stock_sql b q)" "plain (take_stock_sql b q)" "plain (add_book_stock_sql b q)"
  "plain (stock_sql b)" "plain (reservation_status_sql e)" "plain (insert_reservation_sql e)"
  "plain (insert_reserved_item_sql e it)" "plain (reserved_items_sql e)" "plain (release_reservation_sql e)"
  by (simp_all add: plain_def c_str_Cons insert_book_sql_def insert_inventory_sql_def insert_order_sql_def
      insert_item_sql_def put_stock_sql_def take_stock_sql_def add_book_stock_sql_def stock_sql_def Let_def
      reservation_status_sql_def insert_reservation_sql_def insert_reserved_item_sql_def reserved_items_sql_def
      release_reservation_sql_def)

lemma ends_if:
  "(P \<Longrightarrow> no_open (snd x)) \<Longrightarrow> (\<not> P \<Longrightarrow> no_open (snd y)) \<Longrightarrow> no_open (snd (if P then x else y))"
  by simp

lemma ends_list:
  "no_open (snd x) \<Longrightarrow> (\<And>r rs. no_open (snd (f r rs))) \<Longrightarrow> no_open (snd (case rows of [] \<Rightarrow> x | r # rs \<Rightarrow> f r rs))"
  by (cases rows) simp_all

lemma ends_list_fun:
  "no_open (snd (g d)) \<Longrightarrow> (\<And>r rs. no_open (snd (f r rs d))) \<Longrightarrow>
     no_open (snd ((case rows of [] \<Rightarrow> g | r # rs \<Rightarrow> f r rs) d))"
  by (cases rows) simp_all

lemmas tx_rules = ends_if ends_list ends_list_fun start_then query_or_rollback_ends result_or_rollback_ends commit_ends rollback_ends plain_sql

lemma create_book_tx_ends: "no_open d \<Longrightarrow> no_open (snd (create_book_tx (watched M) c book d))"
  unfolding create_book_tx_def Let_def by (intro tx_rules)

lemma insert_items_loop_ends:
  "at_most c d \<Longrightarrow> (\<And>d. at_most c d \<Longrightarrow> no_open (snd (k d))) \<Longrightarrow>
     no_open (snd (insert_items_loop (watched M) c i items k d))"
  by (induction items arbitrary: d) (auto intro: tx_rules)

lemma create_order_tx_ends: "no_open d \<Longrightarrow> no_open (snd (create_order_tx (watched M) c u items n d))"
  unfolding create_order_tx_def Let_def by (intro tx_rules insert_items_loop_ends)

lemma add_stock_tx_ends: "no_open d \<Longrightarrow> no_open (snd (add_stock_tx (watched M) c b q d))"
  unfolding add_stock_tx_def by (intro tx_rules)

lemma reserve_items_loop_ends:
  "at_most c d \<Longrightarrow> (\<And>d. at_most c d \<Longrightarrow> no_open (snd (k d))) \<Longrightarrow>
     no_open (snd (reserve_items_loop (watched M) c e items k d))"
proof (induction items arbitrary: d)
  case (Cons i items)
  show ?case
    unfolding reserve_items_loop.simps by (intro tx_rules Cons.IH[OF _ Cons.prems(2)] Cons.prems(1))
qed simp

lemma release_items_loop_ends:
  "at_most c d \<Longrightarrow> (\<And>d. at_most c d \<Longrightarrow> no_open (snd (k d))) \<Longrightarrow>
     no_open (snd (release_items_loop (watched M) c items k d))"
proof (induction items arbitrary: d)
  case (Cons i items)
  show ?case
    unfolding release_items_loop.simps by (intro tx_rules Cons.IH[OF _ Cons.prems(2)] Cons.prems(1))
qed simp

text \<open>Both batch operations ignore the result of \<^verbatim>\<open>COMMIT\<close> when the reservation is already in the right state.\<close>

definition commits :: "('c, 'd) Mysql \<Rightarrow> bool" where
  "commits M \<longleftrightarrow> (\<forall>c d. fst (my_query M c ''COMMIT'' d))"

lemma commit_ignored:
  assumes "commits M" "at_most c d"
  shows "no_open (snd (r, snd (mysql_query (watched M) c ''COMMIT'' d)))"
proof -
  obtain ok d1 where q: "mysql_query (watched M) c ''COMMIT'' d = (ok, d1)" by (rule prod.exhaust)
  then have "ok"
    using assms(1) by (cases d) (auto simp: commits_def mysql_query_def watched_def c_str_def split: prod.splits, metis fst_conv)
  with watched_query[OF q] q assms(2) show ?thesis
    by (auto simp: no_open_def at_most_def note_query_def c_str_def)
qed

lemma reserve_items_tx_ends:
  "commits M \<Longrightarrow> no_open d \<Longrightarrow> no_open (snd (reserve_items_tx (watched M) c rid items d))"
  unfolding reserve_items_tx_def Let_def by (intro tx_rules commit_ignored reserve_items_loop_ends)

lemma release_items_tx_ends:
  "commits M \<Longrightarrow> no_open d \<Longrightarrow> no_open (snd (release_items_tx (watched M) c rid d))"
  unfolding release_items_tx_def Let_def by (intro tx_rules commit_ignored release_items_loop_ends)

text \<open>A method that leaves no transaction open.\<close>

definition keeps_closed :: "(('c, 'd \<times> ('c \<Rightarrow> bool)) Backend \<Rightarrow> ('r \<times> ('c, 'd \<times> ('c \<Rightarrow> bool)) Backend) option) \<Rightarrow> bool" where
  "keeps_closed f \<longleftrightarrow> (\<forall>s r s'. no_open (be_db s) \<longrightarrow> f s = Some (r, s') \<longrightarrow> no_open (be_db s'))"

lemma keeps_closed_if: "keeps_closed f \<Longrightarrow> keeps_closed (\<lambda>s. if P s then Some (r, s) else f s)"
  by (auto simp: keeps_closed_def)

lemma keeps_closed_with_mysql: "(\<And>con. keeps_closed (body con)) \<Longrightarrow> keeps_closed (with_mysql none body)"
  unfolding keeps_closed_def
proof (intro allI impI)
  fix s r s'
  assume body: "\<And>con. \<forall>s r s'. no_open (be_db s) \<longrightarrow> body con s = Some (r, s') \<longrightarrow> no_open (be_db s')"
    and s: "no_open (be_db s)" and r: "with_mysql none body s = Some (r, s')"
  show "no_open (be_db s')"
  proof (cases "be_pool s")
    case (Some p)
    with r obtain c p1 where g: "GetConnection p = Some (c, p1)"
      by (cases "GetConnection p") (auto simp: with_mysql_def)
    show ?thesis
    proof (cases c)
      case (Some con)
      with r g \<open>be_pool s = Some p\<close> obtain r1 s1 where b: "body con (s\<lparr>be_pool := Some p1\<rparr>) = Some (r1, s1)"
        by (cases "body con (s\<lparr>be_pool := Some p1\<rparr>)") (auto simp: with_mysql_def)
      have "no_open (be_db (s\<lparr>be_pool := Some p1\<rparr>))" using s by simp
      then have "no_open (be_db s1)" using body b by blast
      with r g b Some \<open>be_pool s = Some p\<close> show ?thesis by (auto simp: with_mysql_def)
    qed (use r s g Some in \<open>auto simp: with_mysql_def\<close>)
  qed (use r s in \<open>auto simp: with_mysql_def\<close>)
qed

lemma keeps_closed_on_db: "(\<And>d. no_open d \<Longrightarrow> no_open (snd (f d))) \<Longrightarrow> keeps_closed (on_db f)"
  unfolding keeps_closed_def
proof (intro allI impI)
  fix s r s'
  assume f: "\<And>d. no_open d \<Longrightarrow> no_open (snd (f d))" and s: "no_open (be_db s)" and r: "on_db f s = Some (r, s')"
  obtain x d where x: "f (be_db s) = (x, d)" by (rule prod.exhaust)
  with f[OF s] r show "no_open (be_db s')" by (auto simp: on_db_def)
qed

lemma keeps_closed_then:
  "(\<And>d. no_open d \<Longrightarrow> no_open (snd (f d))) \<Longrightarrow> (\<And>x. keeps_closed (g x)) \<Longrightarrow>
     keeps_closed (\<lambda>s. case f (be_db s) of (None, d) \<Rightarrow> Some (None, s\<lparr>be_db := d\<rparr>) | (Some x, d) \<Rightarrow> g x (s\<lparr>be_db := d\<rparr>))"
  unfolding keeps_closed_def
proof (intro allI impI)
  fix s r s'
  assume f: "\<And>d. no_open d \<Longrightarrow> no_open (snd (f d))"
    and g: "\<And>x. \<forall>s r s'. no_open (be_db s) \<longrightarrow> g x s = Some (r, s') \<longrightarrow> no_open (be_db s')"
    and s: "no_open (be_db s)"
    and r: "(case f (be_db s) of (None, d) \<Rightarrow> Some (None, s\<lparr>be_db := d\<rparr>) | (Some x, d) \<Rightarrow> g x (s\<lparr>be_db := d\<rparr>)) = Some (r, s')"
  obtain x d where x: "f (be_db s) = (x, d)" by (rule prod.exhaust)
  with f[OF s] have d: "no_open d" by simp
  show "no_open (be_db s')"
  proof (cases x)
    case (Some y)
    with x r have "g y (s\<lparr>be_db := d\<rparr>) = Some (r, s')" by simp
    with g[of y] d show ?thesis by (metis select_convs(2) surjective update_convs(2))
  qed (use x r d in auto)
qed

lemma select_rows_closed:
  assumes "plain sql" "\<And>rows d. no_open d \<Longrightarrow> no_open (snd (k rows d))" "no_open d"
  shows "no_open (snd (select_rows (watched M) c sql fail k d))"
proof -
  obtain ok d1 where q: "mysql_query (watched M) c sql d = (ok, d1)" by (rule prod.exhaust)
  obtain r d2 where t: "my_store_result (watched M) c d1 = (r, d2)" by (rule prod.exhaust)
  have "no_open d1" "no_open d2"
    using plain_query[OF assms(1), of M c d] q watched_result[OF t] assms(3) by (simp_all add: no_open_def)
  with q t assms(2) show ?thesis
    by (cases ok; cases r) (simp_all add: select_rows_def)
qed

lemma find_book_closed: "keeps_closed (MysqlBookRepository_find_book (watched M) i)"
proof -
  have "plain (find_book_sql i)" by (simp add: plain_def find_book_sql_def c_str_Cons)
  then show ?thesis
    unfolding MysqlBookRepository_find_book_def
    by (intro keeps_closed_if keeps_closed_with_mysql keeps_closed_on_db select_rows_closed) simp_all
qed

lemmas closed_rules = keeps_closed_if keeps_closed_with_mysql keeps_closed_on_db keeps_closed_then find_book_closed
  create_book_tx_ends create_order_tx_ends add_stock_tx_ends reserve_items_tx_ends release_items_tx_ends

text \<open>A server that answers every query for a reservation with \<open>reserved\<close> and cannot commit.\<close>

definition no_commit :: "(nat, unit) Mysql" where
  "no_commit =
     \<lparr>my_query = (\<lambda>c sql d. (sql \<noteq> ''COMMIT'', d)), my_store_result = (\<lambda>c d. (Some [[Some ''reserved'']], d)),
      my_insert_id = (\<lambda>c d. 0), my_affected_rows = (\<lambda>c d. 0), my_escape = (\<lambda>c t. t)\<rparr>"

text \<open>A server that accepts every statement.\<close>

definition accepting :: "(nat, unit) Mysql" where
  "accepting =
     \<lparr>my_query = (\<lambda>c sql d. (True, d)), my_store_result = (\<lambda>c d. (Some [], d)), my_insert_id = (\<lambda>c d. 5),
      my_affected_rows = (\<lambda>c d. 1), my_escape = (\<lambda>c t. t)\<rparr>"

definition one_connection :: "nat connection_pool" where
  "one_connection = connection_pool_new\<lparr>m_MaxConn := 1, m_FreeConn := 1, connList := [7]\<rparr>"

section \<open>One operation on one connection\<close>

text \<open>With a free connection, a method that only talks to the database runs on one of the pool and gives it back.\<close>

lemma on_connection:
  assumes s: "be_pool s = Some p" "pool_ok p" "connList p \<noteq> []"
  obtains con p' r d where "con \<in> set (connList p)" "f con (be_db s) = (r, d)"
    "with_mysql none (\<lambda>con. on_db (f con)) s = Some (r, s\<lparr>be_pool := Some p', be_db := d\<rparr>)"
    "pool_ok p'" "mset (connList p') = mset (connList p)"
proof -
  have "GetConnection p \<noteq> None" using s by (cases "connList p") (simp_all add: GetConnection_def)
  then obtain c p1 where "GetConnection p = Some (c, p1)" by auto
  with get_cases[OF s(2) this] s(3) obtain con where g: "GetConnection p = Some (Some con, p1)" "pool_ok p1"
    "connList p = con # connList p1" by auto
  obtain r d where f: "f con (be_db s) = (r, d)" by (rule prod.exhaust)
  let ?p = "snd (ReleaseConnection (Some con) p1)"
  have "pool_ok ?p" "mset (connList ?p) = mset (connList p)"
    using g by (auto simp: ReleaseConnection_def pool_ok_def)
  moreover have "with_mysql none (\<lambda>con. on_db (f con)) s = Some (r, s\<lparr>be_pool := Some ?p, be_db := d\<rparr>)"
    using s g f by (simp add: with_mysql_def on_db_def)
  ultimately show thesis using that[of con r d ?p] g f by simp
qed

section \<open>Properties\<close>

text \<open>C13: No method leaves a transaction open on a connection it gives back, whatever the database answers: each path of
  a transaction ends with a \<^verbatim>\<open>COMMIT\<close> that succeeds or with a \<^verbatim>\<open>ROLLBACK\<close>. The exception are the two batch operations, which
  ignore the result of one \<^verbatim>\<open>COMMIT\<close>: if it fails, the connection returns to the pool inside a transaction.\<close>

theorem transactions_closed:
  "keeps_closed (MysqlBookRepository_create_book (watched M) book) \<and>
   keeps_closed (MysqlOrderRepository_create_order (watched M) user_id items total_cents) \<and>
   keeps_closed (MysqlInventoryRepository_add_stock (watched M) book_id quantity) \<and>
   (commits M \<longrightarrow>
     keeps_closed (MysqlInventoryRepository_reserve_stock_items (watched M) reservation_id batch) \<and>
     keeps_closed (MysqlInventoryRepository_release_stock_items (watched M) reservation_id batch)) \<and>
   \<not> keeps_closed (MysqlInventoryRepository_reserve_stock_items (watched no_commit) ''r'' [\<lparr>im_book_id = 1, im_quantity = 1\<rparr>])"
proof (intro conjI impI)
  show "keeps_closed (MysqlBookRepository_create_book (watched M) book)"
    unfolding MysqlBookRepository_create_book_def by (intro closed_rules)
  show "keeps_closed (MysqlOrderRepository_create_order (watched M) user_id items total_cents)"
    unfolding MysqlOrderRepository_create_order_def by (intro closed_rules)
  show "keeps_closed (MysqlInventoryRepository_add_stock (watched M) book_id quantity)"
    unfolding MysqlInventoryRepository_add_stock_def by (intro closed_rules)
  show "keeps_closed (MysqlInventoryRepository_reserve_stock_items (watched M) reservation_id batch)" if "commits M"
    unfolding MysqlInventoryRepository_reserve_stock_items_def by (intro closed_rules that)
  show "keeps_closed (MysqlInventoryRepository_release_stock_items (watched M) reservation_id batch)" if "commits M"
    unfolding MysqlInventoryRepository_release_stock_items_def by (intro closed_rules that)
  let ?s = "\<lparr>be_pool = Some one_connection, be_db = ((), \<lambda>_. False)\<rparr>"
  let ?f = "MysqlInventoryRepository_reserve_stock_items (watched no_commit) ''r'' [\<lparr>im_book_id = 1, im_quantity = 1\<rparr>]"
  have e: "\<exists>r s'. ?f ?s = Some (r, s') \<and> snd (be_db s') 7"
    by (simp add: MysqlInventoryRepository_reserve_stock_items_def with_mysql_def one_connection_def GetConnection_def
        connection_pool_new_def on_db_def reserve_items_tx_def mysql_query_def watched_def no_commit_def c_str_def
        ReleaseConnection_def query_or_rollback_def result_or_rollback_def cell_text_def note_query_def reservation_status_sql_def) blast
  show "\<not> keeps_closed ?f"
  proof
    assume k: "keeps_closed ?f"
    obtain r s' where s': "?f ?s = Some (r, s')" "snd (be_db s') 7" using e by blast
    have "no_open (be_db ?s)" by (simp add: no_open_def)
    with k s'(1) have "no_open (be_db s')" unfolding keeps_closed_def by blast
    with s'(2) show False by (simp add: no_open_def)
  qed
qed

theorem transactions_closed_witness:
  "keeps_closed (MysqlInventoryRepository_reserve_stock_items (watched accepting) ''r'' [])"
proof -
  have "commits accepting" by (simp add: commits_def accepting_def)
  then show ?thesis using transactions_closed[where M = accepting] by blast
qed

text \<open>C14: Every method of the MySQL repositories gives its connections back and does not wait, if one connection is free,
  or two for the three methods that read back what they wrote. With a single free connection, as with a pool of size one,
  \<^verbatim>\<open>create_book\<close> stores the book and then waits for a second connection while it holds the only one.\<close>

theorem connections_needed:
  "returns 1 (MysqlUserRepository_create_user M username password) \<and>
   returns 1 (MysqlUserRepository_authenticate M username password) \<and>
   returns 1 (MysqlBookRepository_list_books M) \<and> returns 1 (MysqlBookRepository_find_book M book_id) \<and>
   returns 2 (MysqlBookRepository_create_book M book) \<and> returns 2 (MysqlBookRepository_update_book M book_id update) \<and>
   returns 1 (MysqlInventoryRepository_available_stock M book_id) \<and>
   returns 1 (MysqlInventoryRepository_add_stock M book_id quantity) \<and>
   returns 1 (MysqlInventoryRepository_reserve_stock M book_id quantity) \<and>
   returns 1 (MysqlInventoryRepository_release_stock M book_id quantity) \<and>
   returns 1 (MysqlInventoryRepository_reserve_stock_items M reservation_id batch) \<and>
   returns 1 (MysqlInventoryRepository_release_stock_items M reservation_id batch) \<and>
   returns 1 (MysqlOrderRepository_create_order M user_id items total_cents) \<and>
   returns 1 (MysqlOrderRepository_list_orders M) \<and> returns 1 (MysqlOrderRepository_find_order M order_id) \<and>
   returns 2 (MysqlOrderRepository_cancel_order M order_id) \<and>
   (\<forall>con d i db. bk_title book \<noteq> [] \<and> bk_author book \<noteq> [] \<and> bk_price_cents book > 0 \<and> bk_stock book \<ge> 0 \<and> i > 0 \<and>
      create_book_tx M con book db = (Some i, d) \<longrightarrow>
      MysqlBookRepository_create_book M book
        \<lparr>be_pool = Some (connection_pool_new\<lparr>m_MaxConn := 1, m_FreeConn := 1, connList := [con]\<rparr>), be_db = db\<rparr> = None)"
  unfolding One_nat_def numeral_2_eq_2
proof (intro conjI allI impI returns_create_book returns_update_book returns_cancel_order returns_find_book returns_find_order)
  fix con d i db
  assume "bk_title book \<noteq> [] \<and> bk_author book \<noteq> [] \<and> bk_price_cents book > 0 \<and> bk_stock book \<ge> 0 \<and> i > 0 \<and>
      create_book_tx M con book db = (Some i, d)"
  then show "MysqlBookRepository_create_book M book
      \<lparr>be_pool = Some (connection_pool_new\<lparr>m_MaxConn := 1, m_FreeConn := 1, connList := [con]\<rparr>), be_db = db\<rparr> = None"
    by (simp add: MysqlBookRepository_create_book_def with_mysql_def GetConnection_def connection_pool_new_def
        MysqlBookRepository_find_book_def)
qed (unfold method_defs, (intro returns_rules)+)

theorem connections_needed_witness:
  "MysqlBookRepository_create_book accepting \<lparr>bk_id = 0, bk_title = ''T'', bk_author = ''A'', bk_price_cents = 100, bk_stock = 1, bk_status = []\<rparr>
     \<lparr>be_pool = Some (connection_pool_new\<lparr>m_MaxConn := 1, m_FreeConn := 1, connList := [7]\<rparr>), be_db = ()\<rparr> = None"
proof -
  let ?b = "\<lparr>bk_id = 0, bk_title = ''T'', bk_author = ''A'', bk_price_cents = 100, bk_stock = 1, bk_status = []\<rparr>"
  have "create_book_tx accepting 7 ?b () = (Some 5, ())"
    by (simp add: create_book_tx_def query_or_rollback_def commit_def mysql_query_def accepting_def wrap32_def Let_def)
  with connections_needed[where M = accepting and book = ?b] show ?thesis by force
qed

end
