(* ===== verification/Inventory_Tables.thy ===== *)
theory Inventory_Tables
  imports Mysql_Inventory
begin

text \<open>
  What the batch operations of \<^verbatim>\<open>MysqlInventoryRepository\<close> rely on: the tables \<^verbatim>\<open>inventory\<close>,
  \<^verbatim>\<open>inventory_reservations\<close> and \<^verbatim>\<open>inventory_reservation_items\<close> of \<^verbatim>\<open>scripts/init.sql\<close>, the effect of the statements
  the repository sends, and InnoDB transactions. The database itself is not part of the repository: its laws are the
  assumptions of the locale \<open>inventory_db\<close>. They say nothing about a server that does not answer, except that a
  statement that fails leaves the transaction to be rolled back; the statements of other connections, which InnoDB's
  row locks keep apart from a transaction, are not interleaved. Under these laws a batch is reserved and released as
  the functions \<open>reserve_tables\<close> and \<open>release_tables\<close> say.
\<close>

section \<open>Tables and statements\<close>

record InventoryTables =
  it_available :: "int \<rightharpoonup> int"
  it_status :: "string \<rightharpoonup> string"
  it_items :: "string \<Rightarrow> InventoryMutation list"

datatype InvStmt =
    TakeStock int int
  | PutStock int int
  | StatusOf string
  | Reserve string
  | ReserveItem string InventoryMutation
  | ItemsOf string
  | MarkReleased string

fun stmt_sql :: "(string \<Rightarrow> string) \<Rightarrow> InvStmt \<Rightarrow> string" where
  "stmt_sql esc (TakeStock b q) = take_stock_sql b q"
| "stmt_sql esc (PutStock b q) = put_stock_sql b q"
| "stmt_sql esc (StatusOf rid) = reservation_status_sql (esc rid)"
| "stmt_sql esc (Reserve rid) = insert_reservation_sql (esc rid)"
| "stmt_sql esc (ReserveItem rid i) = insert_reserved_item_sql (esc rid) i"
| "stmt_sql esc (ItemsOf rid) = reserved_items_sql (esc rid)"
| "stmt_sql esc (MarkReleased rid) = release_reservation_sql (esc rid)"

fun selects :: "InvStmt \<Rightarrow> bool" where
  "selects (StatusOf rid) = True"
| "selects (ItemsOf rid) = True"
| "selects _ = False"

definition item_row :: "InventoryMutation \<Rightarrow> row" where
  "item_row i = [Some (to_string (im_book_id i)), Some (to_string (im_quantity i))]"

text \<open>The number of changed rows, the rows of the answer and the new tables; \<open>None\<close> is an error of the server. The column
  \<^verbatim>\<open>available\<close> is \<^verbatim>\<open>INT UNSIGNED\<close>, the reservation id is a primary key, and a reservation has one line per book.\<close>

fun run_stmt :: "InvStmt \<Rightarrow> InventoryTables \<Rightarrow> (int \<times> row list \<times> InventoryTables) option" where
  "run_stmt (TakeStock b q) t =
     (case it_available t b of
        None \<Rightarrow> Some (0, [], t)
      | Some v \<Rightarrow>
          if q \<le> v then Some (1, [], t\<lparr>it_available := (it_available t)(b \<mapsto> v - q)\<rparr>) else Some (0, [], t))"
| "run_stmt (PutStock b q) t =
     (case it_available t b of
        None \<Rightarrow> Some (0, [], t)
      | Some v \<Rightarrow>
          if v + q < 2 ^ 32 then Some (1, [], t\<lparr>it_available := (it_available t)(b \<mapsto> v + q)\<rparr>) else None)"
| "run_stmt (StatusOf rid) t =
     Some (0, case it_status t rid of None \<Rightarrow> [] | Some st \<Rightarrow> [[Some st]], t)"
| "run_stmt (Reserve rid) t =
     (case it_status t rid of
        None \<Rightarrow> Some (1, [], t\<lparr>it_status := (it_status t)(rid \<mapsto> ''reserved'')\<rparr>)
      | Some _ \<Rightarrow> None)"
| "run_stmt (ReserveItem rid i) t =
     (if im_book_id i \<in> im_book_id ` set (it_items t rid) then None
      else Some (1, [], t\<lparr>it_items := (it_items t)(rid := it_items t rid @ [i])\<rparr>))"
| "run_stmt (ItemsOf rid) t = Some (0, map item_row (it_items t rid), t)"
| "run_stmt (MarkReleased rid) t =
     (case it_status t rid of
        None \<Rightarrow> Some (0, [], t)
      | Some _ \<Rightarrow> Some (1, [], t\<lparr>it_status := (it_status t)(rid \<mapsto> ''released'')\<rparr>))"

text \<open>What the laws speak of: identifiers in \<open>good\<close>, which the column stores as they are and tells apart; positive
  numbers; lines of a reservation and a book that exist, as the foreign keys want it.\<close>

fun admissible :: "(string \<Rightarrow> bool) \<Rightarrow> InvStmt \<Rightarrow> InventoryTables \<Rightarrow> bool" where
  "admissible good (TakeStock b q) t \<longleftrightarrow> b > 0 \<and> q > 0"
| "admissible good (PutStock b q) t \<longleftrightarrow> b > 0 \<and> q > 0"
| "admissible good (ReserveItem rid i) t \<longleftrightarrow>
     good rid \<and> it_status t rid \<noteq> None \<and> it_available t (im_book_id i) \<noteq> None \<and> im_book_id i > 0 \<and> im_quantity i > 0"
| "admissible good (StatusOf rid) t \<longleftrightarrow> good rid"
| "admissible good (Reserve rid) t \<longleftrightarrow> good rid"
| "admissible good (ItemsOf rid) t \<longleftrightarrow> good rid"
| "admissible good (MarkReleased rid) t \<longleftrightarrow> good rid"

section \<open>The laws of the database\<close>

text \<open>What a rollback restores: the tables at the start of the open transaction.\<close>

definition undo :: "('d \<Rightarrow> InventoryTables) \<Rightarrow> ('d \<Rightarrow> InventoryTables option) \<Rightarrow> 'd \<Rightarrow> InventoryTables" where
  "undo tables saved d = (case saved d of None \<Rightarrow> tables d | Some t \<Rightarrow> t)"

text \<open>The answer of a query, in an order the server chooses.\<close>

definition answers ::
  "('c, 'd) Mysql \<Rightarrow> 'c \<Rightarrow> ('d \<Rightarrow> InventoryTables) \<Rightarrow> ('d \<Rightarrow> InventoryTables option) \<Rightarrow> ('d \<Rightarrow> bool) \<Rightarrow> row list \<Rightarrow> 'd \<Rightarrow> bool" where
  "answers M c tables saved up rows d \<longleftrightarrow>
     (case my_store_result M c d of
        (None, d1) \<Rightarrow> undo tables saved d1 = undo tables saved d \<and> \<not> up d
      | (Some rs, d1) \<Rightarrow>
          mset rs = mset rows \<and> tables d1 = tables d \<and> saved d1 = saved d \<and> (up d \<longrightarrow> up d1))"

locale inventory_db =
  fixes M :: "('c, 'd) Mysql"
    and c :: 'c
    and tables :: "'d \<Rightarrow> InventoryTables"
    and saved :: "'d \<Rightarrow> InventoryTables option"
    and up :: "'d \<Rightarrow> bool"
    and good :: "string \<Rightarrow> bool"
  assumes start: "saved d = None \<Longrightarrow> mysql_query M c ''START TRANSACTION'' d = (ok, d') \<Longrightarrow>
      tables d' = tables d \<and> saved d' = (if ok then Some (tables d) else None) \<and> (up d \<longrightarrow> ok \<and> up d')"
    and roll: "mysql_query M c ''ROLLBACK'' d = (ok, d') \<Longrightarrow>
      tables d' = undo tables saved d \<and> saved d' = None \<and> (up d \<longrightarrow> up d')"
    and finish: "mysql_query M c ''COMMIT'' d = (ok, d') \<Longrightarrow>
      (if ok then tables d' = tables d \<and> saved d' = None
       else tables d' \<in> {undo tables saved d, tables d} \<and> undo tables saved d' \<in> {undo tables saved d, tables d}) \<and>
      (up d \<longrightarrow> ok \<and> up d')"
    and statement: "saved d \<noteq> None \<Longrightarrow> admissible good s (tables d) \<Longrightarrow>
      mysql_query M c (stmt_sql (escape_sql M c) s) d = (ok, d') \<Longrightarrow>
      (if ok then saved d' = saved d \<and>
         (\<exists>n rows. run_stmt s (tables d) = Some (n, rows, tables d') \<and>
           (if selects s then answers M c tables saved up rows d' else my_affected_rows M c d' = n))
       else undo tables saved d' = undo tables saved d) \<and>
      (up d \<longrightarrow> up d' \<and> (ok \<longleftrightarrow> run_stmt s (tables d) \<noteq> None))"

text \<open>A server that answers also reads the stock of a book outside a transaction.\<close>

definition stock_rows :: "int \<Rightarrow> InventoryTables \<Rightarrow> row list" where
  "stock_rows b t = (case it_available t b of None \<Rightarrow> [] | Some v \<Rightarrow> [[Some (to_string v)]])"

locale stock_reader = inventory_db +
  assumes read: "saved d = None \<Longrightarrow> b > 0 \<Longrightarrow> up d \<Longrightarrow> mysql_query M c (stock_sql b @ '' LIMIT 1'') d = (ok, d') \<Longrightarrow>
      ok \<and> up d' \<and> tables d' = tables d \<and> saved d' = None \<and> answers M c tables saved up (stock_rows b (tables d)) d'"

section \<open>Abstract reservations\<close>

definition reserve_tables :: "string \<Rightarrow> InventoryMutation list \<Rightarrow> InventoryTables \<Rightarrow> InventoryTables option" where
  "reserve_tables rid items t =
     (if it_status t rid = Some ''reserved'' then Some t
      else if it_status t rid = None \<and> servable (it_available t) items \<and> distinct (map im_book_id items)
      then Some (t\<lparr>it_available := deduct (it_available t) items, it_status := (it_status t)(rid \<mapsto> ''reserved''),
                   it_items := (it_items t)(rid := items)\<rparr>)
      else None)"

text \<open>No counter overflows when the lines are given back.\<close>

definition room :: "InventoryMutation list \<Rightarrow> InventoryTables \<Rightarrow> bool" where
  "room items t \<longleftrightarrow>
     (\<forall>i \<in> set items. \<forall>v. it_available t (im_book_id i) = Some v \<longrightarrow> v + im_quantity i < 2 ^ 32)"

definition release_tables :: "string \<Rightarrow> InventoryTables \<Rightarrow> InventoryTables" where
  "release_tables rid t =
     (if it_status t rid = Some ''reserved'' \<and> room (it_items t rid) t
      then t\<lparr>it_available := restock (it_available t) (it_items t rid), it_status := (it_status t)(rid \<mapsto> ''released'')\<rparr>
      else t)"

text \<open>The tables as the repository fills them: the lines of a reservation are positive and fit an \<^verbatim>\<open>int\<close>, each book occurs
  once, and an identifier without a reservation has no lines.\<close>

definition lines_ok :: "InventoryMutation list \<Rightarrow> bool" where
  "lines_ok items \<longleftrightarrow>
     (\<forall>i \<in> set items. im_book_id i > 0 \<and> int32 (im_book_id i) \<and> im_quantity i > 0 \<and> int32 (im_quantity i))"

definition tables_ok :: "InventoryTables \<Rightarrow> bool" where
  "tables_ok t \<longleftrightarrow>
     (\<forall>rid. lines_ok (it_items t rid) \<and> distinct (map im_book_id (it_items t rid)) \<and>
            (it_status t rid = None \<longrightarrow> it_items t rid = []) \<and>
            it_status t rid \<in> {None, Some ''reserved'', Some ''released''})"

lemma reserve_tables_cases:
  assumes "reserve_tables rid items t = Some t'"
  obtains "it_status t rid = Some ''reserved''" "t' = t"
  | "it_status t rid = None" "servable (it_available t) items" "distinct (map im_book_id items)"
    "t' = t\<lparr>it_available := deduct (it_available t) items, it_status := (it_status t)(rid \<mapsto> ''reserved''),
            it_items := (it_items t)(rid := items)\<rparr>"
  using assms unfolding reserve_tables_def by (simp split: if_split_asm)

lemma tables_okD:
  "tables_ok t \<Longrightarrow> lines_ok (it_items t rid)"
  "tables_ok t \<Longrightarrow> distinct (map im_book_id (it_items t rid))"
  "tables_ok t \<Longrightarrow> it_status t rid = None \<Longrightarrow> it_items t rid = []"
  "tables_ok t \<Longrightarrow> it_status t rid \<in> {None, Some ''reserved'', Some ''released''}"
  unfolding tables_ok_def by blast+

lemma tables_okI:
  "(\<And>rid. lines_ok (it_items t rid)) \<Longrightarrow> (\<And>rid. distinct (map im_book_id (it_items t rid))) \<Longrightarrow>
   (\<And>rid. it_status t rid = None \<Longrightarrow> it_items t rid = []) \<Longrightarrow>
   (\<And>rid. it_status t rid \<in> {None, Some ''reserved'', Some ''released''}) \<Longrightarrow> tables_ok t"
  unfolding tables_ok_def by blast

lemma reserve_tables_ok:
  assumes t: "tables_ok t" and items: "lines_ok items" and r: "reserve_tables rid items t = Some t'"
  shows "tables_ok t'"
  using r
proof (cases rule: reserve_tables_cases)
  case 2
  show ?thesis
  proof (rule tables_okI)
    fix r
    have "it_items t' r = (if r = rid then items else it_items t r)"
      "it_status t' r = (if r = rid then Some ''reserved'' else it_status t r)"
      by (simp_all add: 2(4))
    then show "lines_ok (it_items t' r)" "distinct (map im_book_id (it_items t' r))"
      "it_status t' r = None \<Longrightarrow> it_items t' r = []" "it_status t' r \<in> {None, Some ''reserved'', Some ''released''}"
      using tables_okD[OF t, of r] items 2(3) by (simp_all split: if_splits)
  qed
qed (use t in simp)

lemma release_tables_ok:
  assumes "tables_ok t"
  shows "tables_ok (release_tables rid t)"
proof (rule tables_okI)
  fix r
  have "it_items (release_tables rid t) r = it_items t r"
    "it_status (release_tables rid t) r = None \<Longrightarrow> it_status t r = None"
    "it_status (release_tables rid t) r \<in> {it_status t r, Some ''released''}"
    by (simp_all add: release_tables_def split: if_splits)
  then show "lines_ok (it_items (release_tables rid t) r)" "distinct (map im_book_id (it_items (release_tables rid t) r))"
    "it_status (release_tables rid t) r = None \<Longrightarrow> it_items (release_tables rid t) r = []"
    "it_status (release_tables rid t) r \<in> {None, Some ''reserved'', Some ''released''}"
    using tables_okD[OF assms, of r] by auto
qed

lemma mutation_from_item_row:
  "im_book_id i > 0 \<Longrightarrow> int32 (im_book_id i) \<Longrightarrow> im_quantity i > 0 \<Longrightarrow> int32 (im_quantity i) \<Longrightarrow> mutation_from_row (item_row i) = i"
  by (simp add: mutation_from_row_def item_row_def cell_int_def atoi_to_string del: One_nat_def)

lemma mutations_from_rows: "lines_ok items \<Longrightarrow> mset rows = mset (map item_row items) \<Longrightarrow> mset (map mutation_from_row rows) = mset items"
proof -
  assume ok: "lines_ok items" and rows: "mset rows = mset (map item_row items)"
  have "mset (map mutation_from_row rows) = image_mset mutation_from_row (mset (map item_row items))"
    by (simp add: rows)
  also have "\<dots> = mset (map (\<lambda>i. mutation_from_row (item_row i)) items)"
    by (simp add: multiset.map_comp o_def)
  also have "map (\<lambda>i. mutation_from_row (item_row i)) items = items"
    using ok by (intro map_idI) (auto simp: lines_ok_def intro!: mutation_from_item_row)
  finally show ?thesis .
qed

lemma demand_mset: "mset xs = mset ys \<Longrightarrow> demand xs = demand ys"
proof
  fix b
  assume "mset xs = mset ys"
  then have "mset (map (\<lambda>i. if im_book_id i = b then im_quantity i else 0) xs) =
    mset (map (\<lambda>i. if im_book_id i = b then im_quantity i else 0) ys)"
    by simp
  then show "demand xs b = demand ys b"
    unfolding demand_def by (simp only: sum_mset_sum_list[symmetric])
qed

lemma restock_mset: "mset xs = mset ys \<Longrightarrow> restock m xs = restock m ys"
  using demand_mset[of xs ys] by (simp add: restock_def)

text \<open>One turn of the loop over the lines of a reservation, and all of them.\<close>

definition can_reserve :: "string \<Rightarrow> InventoryMutation list \<Rightarrow> InventoryTables \<Rightarrow> bool" where
  "can_reserve rid items t \<longleftrightarrow>
     servable (it_available t) items \<and> distinct (map im_book_id (it_items t rid @ items))"

definition reserved_lines :: "string \<Rightarrow> InventoryMutation list \<Rightarrow> InventoryTables \<Rightarrow> InventoryTables" where
  "reserved_lines rid items t =
     t\<lparr>it_available := deduct (it_available t) items, it_items := (it_items t)(rid := it_items t rid @ items)\<rparr>"

lemma can_reserve_Cons:
  "can_reserve rid (i # items) t \<longleftrightarrow> can_reserve rid [i] t \<and> can_reserve rid items (reserved_lines rid [i] t)"
  by (auto simp: can_reserve_def reserved_lines_def servable_Cons[of _ i items])

lemma reserved_lines_Cons: "reserved_lines rid (i # items) t = reserved_lines rid items (reserved_lines rid [i] t)"
  by (simp add: reserved_lines_def deduct_Cons[of _ i items] deduct_append)

lemma take_stock_servable:
  "im_quantity i > 0 \<Longrightarrow> run_stmt (TakeStock (im_book_id i) (im_quantity i)) t =
     (if servable (it_available t) [i] then Some (1, [], t\<lparr>it_available := deduct (it_available t) [i]\<rparr>) else Some (0, [], t))"
  by (auto simp: servable_single deduct_def demand_Cons fun_eq_iff option.map_ident split: option.splits
      intro!: arg_cong[where f = "\<lambda>m. t\<lparr>it_available := m\<rparr>"])

definition restocked :: "InventoryMutation list \<Rightarrow> InventoryTables \<Rightarrow> InventoryTables" where
  "restocked items t = t\<lparr>it_available := restock (it_available t) items\<rparr>"

lemma restocked_Cons: "restocked (i # items) t = restocked items (restocked [i] t)"
  using restock_append[of "it_available t" "[i]" items] by (simp add: restocked_def)

lemma room_Cons:
  assumes "im_book_id i \<notin> im_book_id ` set items"
  shows "room (i # items) t \<longleftrightarrow> room [i] t \<and> room items (restocked [i] t)"
proof -
  have "it_available (restocked [i] t) (im_book_id j) = it_available t (im_book_id j)" if "j \<in> set items" for j
    using that assms by (force simp: restocked_def restock_def demand_Cons option.map_ident)
  then show ?thesis by (auto simp: room_def)
qed

lemma put_stock_room:
  "run_stmt (PutStock (im_book_id i) (im_quantity i)) t = None \<Longrightarrow> \<not> room [i] t"
  "run_stmt (PutStock (im_book_id i) (im_quantity i)) t = Some (n, rows, t') \<Longrightarrow> room [i] t \<and> t' = restocked [i] t"
  by (auto simp: room_def restocked_def restock_def demand_Cons fun_eq_iff option.map_ident split: option.splits if_splits
      intro!: InventoryTables.equality)

lemma room_mset: "mset xs = mset ys \<Longrightarrow> room xs t = room ys t"
  by (metis room_def set_mset_mset)

text \<open>The outcome of a reservation: success means that the tables are the ones of the abstract operation; in every case the tables are
  those or the old ones; and a server that answers refuses only what the abstract operation refuses.\<close>

definition reserve_result ::
  "('d \<Rightarrow> InventoryTables) \<Rightarrow> ('d \<Rightarrow> InventoryTables option) \<Rightarrow> ('d \<Rightarrow> bool) \<Rightarrow> 'd \<Rightarrow> string \<Rightarrow> InventoryMutation list \<Rightarrow>
     bool \<times> 'd \<Rightarrow> bool" where
  "reserve_result tables saved up d rid items p \<longleftrightarrow>
     (case p of (r, d') \<Rightarrow>
       (r \<longrightarrow> reserve_tables rid items (tables d) = Some (tables d')) \<and>
       (tables d' = tables d \<or> reserve_tables rid items (tables d) = Some (tables d')) \<and>
       (up d \<longrightarrow> (r \<longleftrightarrow> reserve_tables rid items (tables d) \<noteq> None) \<and> (\<not> r \<longrightarrow> tables d' = tables d) \<and>
          up d' \<and> saved d' = None))"

definition release_result ::
  "('d \<Rightarrow> InventoryTables) \<Rightarrow> ('d \<Rightarrow> InventoryTables option) \<Rightarrow> ('d \<Rightarrow> bool) \<Rightarrow> 'd \<Rightarrow> string \<Rightarrow> unit \<times> 'd \<Rightarrow> bool" where
  "release_result tables saved up d rid p \<longleftrightarrow>
     (case p of (u, d') \<Rightarrow>
       tables d' \<in> {tables d, release_tables rid (tables d)} \<and>
       (up d \<longrightarrow> tables d' = release_tables rid (tables d) \<and> up d' \<and> saved d' = None))"

section \<open>The operations under the laws\<close>

context inventory_db
begin

text \<open>One rule per building block of the transactions: whatever holds of the rolled back state and of the state in which
  the block goes on holds of the result.\<close>

lemma rolled_back:
  assumes "undo tables saved d = t0"
    and "\<And>d'. tables d' = t0 \<Longrightarrow> saved d' = None \<Longrightarrow> (up d \<Longrightarrow> up d') \<Longrightarrow> Q (fail, d')"
  shows "Q (rollback M c fail d)"
proof -
  obtain ok d' where r: "mysql_query M c ''ROLLBACK'' d = (ok, d')" by (rule prod.exhaust)
  with roll[OF r] assms show ?thesis by (simp add: rollback_def)
qed

lemma query_step:
  assumes "saved d = Some t0" "admissible good s (tables d)"
    and fails: "\<And>d'. tables d' = t0 \<Longrightarrow> saved d' = None \<Longrightarrow> (up d \<Longrightarrow> up d' \<and> run_stmt s (tables d) = None) \<Longrightarrow> Q (fail, d')"
    and goes_on: "\<And>n rows d1. run_stmt s (tables d) = Some (n, rows, tables d1) \<Longrightarrow> saved d1 = Some t0 \<Longrightarrow>
      (if selects s then answers M c tables saved up rows d1 else my_affected_rows M c d1 = n) \<Longrightarrow> (up d \<Longrightarrow> up d1) \<Longrightarrow>
      Q (k d1)"
  shows "Q (query_or_rollback M c (stmt_sql (escape_sql M c) s) fail k d)"
proof -
  obtain ok d1 where q: "mysql_query M c (stmt_sql (escape_sql M c) s) d = (ok, d1)" by (rule prod.exhaust)
  note law = statement[OF _ assms(2) q]
  show ?thesis
  proof (cases ok)
    case True
    with law assms(1) obtain n rows where "run_stmt s (tables d) = Some (n, rows, tables d1)"
      "if selects s then answers M c tables saved up rows d1 else my_affected_rows M c d1 = n"
      "saved d1 = Some t0" "up d \<Longrightarrow> up d1" by auto
    with q True show ?thesis by (simp add: query_or_rollback_def goes_on)
  next
    case False
    with law assms(1) have "undo tables saved d1 = undo tables saved d" "up d \<Longrightarrow> up d1 \<and> run_stmt s (tables d) = None"
      by (cases "run_stmt s (tables d)"; simp)+
    then have "undo tables saved d1 = t0" "up d \<Longrightarrow> up d1 \<and> run_stmt s (tables d) = None"
      using assms(1) by (simp_all add: undo_def)
    then have "Q (rollback M c fail d1)" by (intro rolled_back[where Q = Q and d = d1, OF \<open>undo tables saved d1 = t0\<close>] fails) blast+
    with q False show ?thesis by (simp add: query_or_rollback_def)
  qed
qed

lemma result_step:
  assumes "saved d = Some t0" "answers M c tables saved up rows d"
    and "\<And>d'. tables d' = t0 \<Longrightarrow> saved d' = None \<Longrightarrow> \<not> up d \<Longrightarrow> Q (fail, d')"
    and "\<And>rs d1. mset rs = mset rows \<Longrightarrow> tables d1 = tables d \<Longrightarrow> saved d1 = Some t0 \<Longrightarrow> (up d \<Longrightarrow> up d1) \<Longrightarrow> Q (k rs d1)"
  shows "Q (result_or_rollback M c fail k d)"
proof -
  obtain r d1 where r: "my_store_result M c d = (r, d1)" by (rule prod.exhaust)
  show ?thesis
  proof (cases r)
    case None
    with r assms(1,2) have "undo tables saved d1 = undo tables saved d" "\<not> up d" by (simp_all add: answers_def)
    then have "undo tables saved d1 = t0" "\<not> up d" using assms(1) by (simp_all add: undo_def)
    then have "Q (rollback M c fail d1)" by (auto intro: rolled_back[where Q = Q] assms(3))
    with r None show ?thesis by (simp add: result_or_rollback_def)
  next
    case (Some rs)
    with r assms(1,2) have "mset rs = mset rows" "tables d1 = tables d" "saved d1 = Some t0" "up d \<Longrightarrow> up d1"
      by (simp_all add: answers_def)
    then have "Q (k rs d1)" by (rule assms(4))
    with r Some show ?thesis by (simp add: result_or_rollback_def)
  qed
qed

lemma commit_step:
  assumes "saved d = Some t0"
    and "\<And>d'. tables d' = tables d \<Longrightarrow> saved d' = None \<Longrightarrow> (up d \<Longrightarrow> up d') \<Longrightarrow> Q (r, d')"
    and "\<And>d'. tables d' \<in> {t0, tables d} \<Longrightarrow> saved d' = None \<Longrightarrow> \<not> up d \<Longrightarrow> Q (fail, d')"
  shows "Q (commit M c r fail d)"
proof -
  obtain ok d1 where q: "mysql_query M c ''COMMIT'' d = (ok, d1)" by (rule prod.exhaust)
  show ?thesis
  proof (cases ok)
    case False
    have "undo tables saved d = t0" using assms(1) by (simp add: undo_def)
    with finish[OF q] False have "undo tables saved d1 \<in> {t0, tables d}" "\<not> up d" by auto
    then have "Q (rollback M c fail d1)"
      by (intro rolled_back[where Q = Q and d = d1, OF refl] assms(3)) auto
    with q False show ?thesis by (simp add: commit_def query_or_rollback_def)
  next
    case True
    with finish[OF q] have "tables d1 = tables d" "saved d1 = None" "up d \<Longrightarrow> up d1" by simp_all
    then have "Q (r, d1)" by (rule assms(2))
    with q True show ?thesis by (simp add: commit_def query_or_rollback_def)
  qed
qed

lemma unchecked_commit:
  assumes "saved d = Some (tables d)"
    and "\<And>d'. tables d' = tables d \<Longrightarrow> (up d \<Longrightarrow> up d' \<and> saved d' = None) \<Longrightarrow> Q (r, d')"
  shows "Q (r, snd (mysql_query M c ''COMMIT'' d))"
proof -
  obtain ok d1 where q: "mysql_query M c ''COMMIT'' d = (ok, d1)" by (rule prod.exhaust)
  have "undo tables saved d = tables d" using assms(1) by (simp add: undo_def)
  with finish[OF q] have "tables d1 = tables d" "up d \<Longrightarrow> up d1 \<and> saved d1 = None" by (auto split: if_splits)
  then have "Q (r, d1)" by (rule assms(2))
  with q show ?thesis by simp
qed

lemma reserve_line:
  assumes saved: "saved d = Some t0" and rid: "good rid" "it_status (tables d) rid \<noteq> None"
    and pos: "im_book_id i > 0" "im_quantity i > 0" and dist: "distinct (map im_book_id (it_items (tables d) rid))"
    and fails: "\<And>d'. tables d' = t0 \<Longrightarrow> saved d' = None \<Longrightarrow> (up d \<Longrightarrow> up d' \<and> \<not> can_reserve rid [i] (tables d)) \<Longrightarrow> Q (False, d')"
    and goes_on: "\<And>d1. can_reserve rid [i] (tables d) \<Longrightarrow> tables d1 = reserved_lines rid [i] (tables d) \<Longrightarrow> saved d1 = Some t0 \<Longrightarrow>
      (up d \<Longrightarrow> up d1) \<Longrightarrow> Q (k d1)"
  shows "Q (query_or_rollback M c (stmt_sql (escape_sql M c) (TakeStock (im_book_id i) (im_quantity i))) False
       (\<lambda>d1. if my_affected_rows M c d1 \<noteq> 1 then rollback M c False d1
             else query_or_rollback M c (stmt_sql (escape_sql M c) (ReserveItem rid i)) False k d1) d)"
    (is "Q (query_or_rollback M c (stmt_sql ?e ?take) False ?k d)")
proof (rule query_step[where Q = Q, OF saved])
  let ?t = "tables d"
  note take = take_stock_servable[OF pos(2)]
  show "admissible good ?take ?t" using pos by simp
  show "Q (False, d')" if "tables d' = t0" "saved d' = None" "up d \<Longrightarrow> up d' \<and> run_stmt ?take ?t = None" for d'
    using that by (intro fails) (auto simp: take simp del: run_stmt.simps split: if_splits)
  fix n rows d1
  assume r: "run_stmt ?take ?t = Some (n, rows, tables d1)" and d1: "saved d1 = Some t0"
    and n: "if selects ?take then answers M c tables saved up rows d1 else my_affected_rows M c d1 = n" and up: "up d \<Longrightarrow> up d1"
  show "Q (?k d1)"
  proof (cases "servable (it_available ?t) [i]")
    case False
    with r n have "my_affected_rows M c d1 \<noteq> 1" by (auto simp: take simp del: run_stmt.simps)
    moreover have "Q (rollback M c False d1)"
      using d1 up False by (intro rolled_back[where Q = Q and d = d1, of t0] fails) (auto simp: undo_def can_reserve_def)
    ultimately show ?thesis by simp
  next
    case True
    with r n have one: "my_affected_rows M c d1 = 1" and t1: "tables d1 = ?t\<lparr>it_available := deduct (it_available ?t) [i]\<rparr>"
      by (auto simp: take simp del: run_stmt.simps)
    have "Q (query_or_rollback M c (stmt_sql ?e (ReserveItem rid i)) False k d1)"
    proof (rule query_step[where Q = Q, OF d1])
      show "admissible good (ReserveItem rid i) (tables d1)"
        using True pos rid by (auto simp: t1 servable_single deduct_def)
      show "Q (False, d')" if "tables d' = t0" "saved d' = None" "up d1 \<Longrightarrow> up d' \<and> run_stmt (ReserveItem rid i) (tables d1) = None" for d'
        using that up by (intro fails) (auto simp: can_reserve_def t1 split: if_splits)
      show "Q (k d2)" if "run_stmt (ReserveItem rid i) (tables d1) = Some (m, rows', tables d2)" "saved d2 = Some t0" "up d1 \<Longrightarrow> up d2"
        for m rows' d2
        using that up True dist by (intro goes_on) (auto simp: t1 can_reserve_def reserved_lines_def split: if_splits)
    qed
    with one show ?thesis by simp
  qed
qed

lemma reserve_loop:
  assumes "saved d = Some t0" "good rid" "it_status (tables d) rid \<noteq> None"
    and "\<forall>i \<in> set items. im_book_id i > 0 \<and> im_quantity i > 0" "distinct (map im_book_id (it_items (tables d) rid))"
    and "\<And>d'. tables d' = t0 \<Longrightarrow> saved d' = None \<Longrightarrow> (up d \<Longrightarrow> up d' \<and> \<not> can_reserve rid items (tables d)) \<Longrightarrow> Q (False, d')"
    and "\<And>d1. can_reserve rid items (tables d) \<Longrightarrow> tables d1 = reserved_lines rid items (tables d) \<Longrightarrow> saved d1 = Some t0 \<Longrightarrow>
      (up d \<Longrightarrow> up d1) \<Longrightarrow> Q (k d1)"
  shows "Q (reserve_items_loop M c (escape_sql M c rid) items k d)"
  using assms
proof (induction items arbitrary: d)
  case Nil
  have "reserved_lines rid [] (tables d) = tables d" by (simp add: reserved_lines_def)
  with Nil show ?case by (simp add: can_reserve_def servable_def)
next
  case (Cons i items)
  note fails = Cons.prems(6) and goes_on = Cons.prems(7)
  have "Q (query_or_rollback M c (stmt_sql (escape_sql M c) (TakeStock (im_book_id i) (im_quantity i))) False
       (\<lambda>d1. if my_affected_rows M c d1 \<noteq> 1 then rollback M c False d1
             else query_or_rollback M c (stmt_sql (escape_sql M c) (ReserveItem rid i)) False
                    (reserve_items_loop M c (escape_sql M c rid) items k) d1) d)"
  proof (rule reserve_line[where Q = Q, OF Cons.prems(1-3)])
    show "Q (False, d')" if "tables d' = t0" "saved d' = None" "up d \<Longrightarrow> up d' \<and> \<not> can_reserve rid [i] (tables d)" for d'
      using that by (intro fails) (auto simp: can_reserve_Cons[of rid i items])
    fix d1
    assume can: "can_reserve rid [i] (tables d)" and t1: "tables d1 = reserved_lines rid [i] (tables d)"
      and d1: "saved d1 = Some t0" and up: "up d \<Longrightarrow> up d1"
    have st: "it_status (tables d1) = it_status (tables d)" "it_items (tables d1) rid = it_items (tables d) rid @ [i]"
      by (simp_all add: t1 reserved_lines_def)
    show "Q (reserve_items_loop M c (escape_sql M c rid) items k d1)"
    proof (rule Cons.IH[OF d1 Cons.prems(2)])
      show "distinct (map im_book_id (it_items (tables d1) rid))" using can by (simp add: st can_reserve_def)
      show "Q (False, d')" if "tables d' = t0" "saved d' = None" "up d1 \<Longrightarrow> up d' \<and> \<not> can_reserve rid items (tables d1)" for d'
        using that up by (intro fails) (auto simp: can_reserve_Cons[of rid i items] t1)
      show "Q (k d2)" if "can_reserve rid items (tables d1)" "tables d2 = reserved_lines rid items (tables d1)"
        "saved d2 = Some t0" "up d1 \<Longrightarrow> up d2" for d2
        using that up can by (intro goes_on) (auto simp: can_reserve_Cons[of rid i items] reserved_lines_Cons[of rid i items] t1)
    qed (use Cons.prems(3,4) st in auto)
  qed (use Cons.prems(4,5) in auto)
  then show ?case by (simp cong: if_cong)
qed

lemma reserve_fails:
  "tables d' = tables d \<Longrightarrow> saved d' = None \<Longrightarrow> (up d \<Longrightarrow> up d' \<and> reserve_tables rid items (tables d) = None) \<Longrightarrow>
     reserve_result tables saved up d rid items (False, d')"
  by (auto simp: reserve_result_def)

text \<open>The beginning of both transactions: the status of the reservation is read.\<close>

lemma status_step:
  assumes d: "saved d = None" and rid: "good rid"
    and fails: "\<And>d'. tables d' = tables d \<Longrightarrow> saved d' = None \<Longrightarrow> \<not> up d \<Longrightarrow> Q (fail, d')"
    and goes_on: "\<And>rs d1. rs = (case it_status (tables d) rid of None \<Rightarrow> [] | Some st \<Rightarrow> [[Some st]]) \<Longrightarrow>
      tables d1 = tables d \<Longrightarrow> saved d1 = Some (tables d) \<Longrightarrow> (up d \<Longrightarrow> up d1) \<Longrightarrow> Q (k rs d1)"
  shows "Q (case mysql_query M c ''START TRANSACTION'' d of
      (False, d1) \<Rightarrow> (fail, d1)
    | (True, d1) \<Rightarrow> query_or_rollback M c (reservation_status_sql (escape_sql M c rid)) fail (result_or_rollback M c fail k) d1)"
proof -
  obtain started d1 where q: "mysql_query M c ''START TRANSACTION'' d = (started, d1)" by (rule prod.exhaust)
  note s = start[OF d q]
  have "Q (query_or_rollback M c (stmt_sql (escape_sql M c) (StatusOf rid)) fail (result_or_rollback M c fail k) d1)" if started
  proof (rule query_step[where Q = Q])
    show "saved d1 = Some (tables d)" using s that by simp
    show "admissible good (StatusOf rid) (tables d1)" using rid by simp
    show "Q (fail, d')" if "tables d' = tables d" "saved d' = None" "up d1 \<Longrightarrow> up d' \<and> run_stmt (StatusOf rid) (tables d1) = None" for d'
      using that s by (intro fails) auto
    fix n rows d2
    assume r: "run_stmt (StatusOf rid) (tables d1) = Some (n, rows, tables d2)" and d2: "saved d2 = Some (tables d)"
      and up2: "up d1 \<Longrightarrow> up d2"
      and ans: "if selects (StatusOf rid) then answers M c tables saved up rows d2 else my_affected_rows M c d2 = n"
    have rows: "rows = (case it_status (tables d) rid of None \<Rightarrow> [] | Some st \<Rightarrow> [[Some st]])" and t2: "tables d2 = tables d"
      using r s by auto
    show "Q (result_or_rollback M c fail k d2)"
    proof (rule result_step[where Q = Q, OF d2])
      show "answers M c tables saved up rows d2" using ans by simp
      show "Q (fail, d')" if "tables d' = tables d" "saved d' = None" "\<not> up d2" for d'
        using that s up2 by (intro fails) auto
      show "Q (k rs d3)" if "mset rs = mset rows" "tables d3 = tables d2" "saved d3 = Some (tables d)" "up d2 \<Longrightarrow> up d3" for rs d3
        using that rows t2 s up2 by (intro goes_on) (auto split: option.splits)
    qed
  qed
  moreover have "Q (fail, d1)" if "\<not> started" using s that d by (intro fails) auto
  ultimately show ?thesis
    by (cases started) (simp_all add: q)
qed

lemma reserve_new:
  assumes d: "saved d = Some t" "tables d = t" and rid: "good rid" "it_status t rid = None" "it_items t rid = []"
    and lines: "\<forall>i \<in> set items. im_book_id i > 0 \<and> im_quantity i > 0"
    and fails: "\<And>d'. tables d' = t \<Longrightarrow> saved d' = None \<Longrightarrow> (up d \<Longrightarrow> up d' \<and> reserve_tables rid items t = None) \<Longrightarrow> Q (False, d')"
    and goes_on: "\<And>d1. reserve_tables rid items t = Some (tables d1) \<Longrightarrow> saved d1 = Some t \<Longrightarrow> (up d \<Longrightarrow> up d1) \<Longrightarrow> Q (k d1)"
  shows "Q (query_or_rollback M c (insert_reservation_sql (escape_sql M c rid)) False
    (reserve_items_loop M c (escape_sql M c rid) items k) d)"
proof -
  have "Q (query_or_rollback M c (stmt_sql (escape_sql M c) (Reserve rid)) False
    (reserve_items_loop M c (escape_sql M c rid) items k) d)"
  proof (rule query_step[where Q = Q, OF d(1)])
    show "admissible good (Reserve rid) (tables d)" using rid by simp
    show "Q (False, d')" if "tables d' = t" "saved d' = None" "up d \<Longrightarrow> up d' \<and> run_stmt (Reserve rid) (tables d) = None" for d'
      using that d rid by (intro fails) auto
    fix n rows d1
    assume r: "run_stmt (Reserve rid) (tables d) = Some (n, rows, tables d1)" and d1: "saved d1 = Some t" and up1: "up d \<Longrightarrow> up d1"
    have t1: "tables d1 = t\<lparr>it_status := (it_status t)(rid \<mapsto> ''reserved'')\<rparr>" using r d rid by simp
    have can: "can_reserve rid items (tables d1) \<longleftrightarrow> reserve_tables rid items t \<noteq> None"
      "can_reserve rid items (tables d1) \<Longrightarrow> reserve_tables rid items t = Some (reserved_lines rid items (tables d1))"
      using rid by (simp_all add: can_reserve_def reserve_tables_def reserved_lines_def t1)
    show "Q (reserve_items_loop M c (escape_sql M c rid) items k d1)"
    proof (rule reserve_loop[where Q = Q, OF d1 rid(1)])
      show "Q (False, d')" if "tables d' = t" "saved d' = None" "up d1 \<Longrightarrow> up d' \<and> \<not> can_reserve rid items (tables d1)" for d'
        using that can up1 by (intro fails) auto
      show "Q (k d2)" if "can_reserve rid items (tables d1)" "tables d2 = reserved_lines rid items (tables d1)"
        "saved d2 = Some t" "up d1 \<Longrightarrow> up d2" for d2
        using that can up1 by (intro goes_on) auto
    qed (use rid lines t1 in auto)
  qed
  then show ?thesis by simp
qed

lemma reserve_tx:
  assumes d: "saved d = None" and rid: "good rid" and ok: "tables_ok (tables d)"
    and lines: "\<forall>i \<in> set items. im_book_id i > 0 \<and> im_quantity i > 0"
  shows "reserve_result tables saved up d rid items (reserve_items_tx M c rid items d)" (is "?Q (reserve_items_tx M c rid items d)")
  unfolding reserve_items_tx_def Let_def
proof (rule status_step[where Q = ?Q, OF d rid])
  let ?t = "tables d"
  show "?Q (False, d')" if "tables d' = ?t" "saved d' = None" "\<not> up d" for d'
    using that by (intro reserve_fails) auto
  fix rs d1
  assume rs: "rs = (case it_status ?t rid of None \<Rightarrow> [] | Some st \<Rightarrow> [[Some st]])" and d1: "tables d1 = ?t" "saved d1 = Some ?t"
    and up1: "up d \<Longrightarrow> up d1"
  note st = tables_okD[OF ok, of rid]
  consider "it_status ?t rid = None" | "it_status ?t rid = Some ''reserved''" | "it_status ?t rid = Some ''released''"
    using st(4) by auto
  then show "?Q (case rs of
      [] \<Rightarrow> query_or_rollback M c (insert_reservation_sql (escape_sql M c rid)) False
             (reserve_items_loop M c (escape_sql M c rid) items (commit M c True False)) d1
    | r # _ \<Rightarrow> if cell_text r 0 = ''reserved'' then (True, snd (mysql_query M c ''COMMIT'' d1)) else rollback M c False d1)"
  proof cases
    case 1
    have "?Q (query_or_rollback M c (insert_reservation_sql (escape_sql M c rid)) False
             (reserve_items_loop M c (escape_sql M c rid) items (commit M c True False)) d1)"
    proof (rule reserve_new[where Q = ?Q, OF d1(2,1) rid])
      show "?Q (commit M c True False d2)" if "reserve_tables rid items ?t = Some (tables d2)" "saved d2 = Some ?t" "up d1 \<Longrightarrow> up d2" for d2
        using that up1 by (intro commit_step[where Q = ?Q and d = d2]) (auto simp: reserve_result_def)
    qed (use 1 st lines up1 in \<open>auto intro: reserve_fails\<close>)
    with 1 rs show ?thesis by simp
  next
    case 2
    have "?Q (True, snd (mysql_query M c ''COMMIT'' d1))"
      using 2 d1 up1 by (intro unchecked_commit[where Q = ?Q and d = d1]) (auto simp: reserve_result_def reserve_tables_def)
    with 2 rs show ?thesis by (simp add: cell_text_def c_str_def)
  next
    case 3
    have "?Q (rollback M c False d1)"
      using 3 d1 up1
      by (intro rolled_back[where Q = ?Q and d = d1, of ?t] reserve_fails) (auto simp: undo_def reserve_tables_def)
    with 3 rs show ?thesis by (simp add: cell_text_def c_str_def)
  qed
qed

lemma release_loop:
  assumes "saved d = Some t0" "\<forall>i \<in> set items. im_book_id i > 0 \<and> im_quantity i > 0" "distinct (map im_book_id items)"
    and "\<And>d'. tables d' = t0 \<Longrightarrow> saved d' = None \<Longrightarrow> (up d \<Longrightarrow> up d' \<and> \<not> room items (tables d)) \<Longrightarrow> Q ((), d')"
    and "\<And>d1. room items (tables d) \<Longrightarrow> tables d1 = restocked items (tables d) \<Longrightarrow> saved d1 = Some t0 \<Longrightarrow>
      (up d \<Longrightarrow> up d1) \<Longrightarrow> Q (k d1)"
  shows "Q (release_items_loop M c items k d)"
  using assms
proof (induction items arbitrary: d)
  case Nil
  have "restocked [] (tables d) = tables d" by (simp add: restocked_def)
  with Nil show ?case by (simp add: room_def)
next
  case (Cons i items)
  note fails = Cons.prems(4) and goes_on = Cons.prems(5)
  let ?put = "PutStock (im_book_id i) (im_quantity i)"
  have "room (i # items) (tables d) \<longleftrightarrow> room [i] (tables d) \<and> room items (restocked [i] (tables d))"
    using Cons.prems(3) by (intro room_Cons) simp
  note room = this
  have "Q (query_or_rollback M c (stmt_sql (escape_sql M c) ?put) () (release_items_loop M c items k) d)"
  proof (rule query_step[where Q = Q, OF Cons.prems(1)])
    show "admissible good ?put (tables d)" using Cons.prems(2) by simp
    show "Q ((), d')" if "tables d' = t0" "saved d' = None" "up d \<Longrightarrow> up d' \<and> run_stmt ?put (tables d) = None" for d'
      using that put_stock_room(1)[of i "tables d"] room by (intro fails) auto
    fix n rows d1
    assume r: "run_stmt ?put (tables d) = Some (n, rows, tables d1)" and d1: "saved d1 = Some t0" and up1: "up d \<Longrightarrow> up d1"
    note t1 = put_stock_room(2)[OF r]
    show "Q (release_items_loop M c items k d1)"
    proof (rule Cons.IH[OF d1])
      show "Q ((), d')" if "tables d' = t0" "saved d' = None" "up d1 \<Longrightarrow> up d' \<and> \<not> room items (tables d1)" for d'
        using that t1 room up1 by (intro fails) auto
      show "Q (k d2)" if "room items (tables d1)" "tables d2 = restocked items (tables d1)" "saved d2 = Some t0" "up d1 \<Longrightarrow> up d2" for d2
        using that t1 room up1 by (intro goes_on) (auto simp: restocked_Cons[of i items])
    qed (use Cons.prems(2,3) in auto)
  qed
  with Cons.prems(2) show ?case by simp
qed

lemma release_fails:
  "tables d' = tables d \<Longrightarrow> saved d' = None \<Longrightarrow> (up d \<Longrightarrow> up d' \<and> release_tables rid (tables d) = tables d) \<Longrightarrow>
     release_result tables saved up d rid (u, d')"
  by (auto simp: release_result_def)

text \<open>The part of a release that gives the lines back, and its end.\<close>

lemma release_eq:
  "it_status t rid = Some ''reserved'' \<Longrightarrow> release_tables rid t =
     (if room (it_items t rid) t then (restocked (it_items t rid) t)\<lparr>it_status := (it_status t)(rid \<mapsto> ''released'')\<rparr> else t)"
  by (simp add: release_tables_def restocked_def)

lemma release_rest:
  assumes rid: "good rid" and st: "it_status (tables d) rid = Some ''reserved''"
    and d2: "room (it_items (tables d) rid) (tables d)" "tables d2 = restocked (it_items (tables d) rid) (tables d)"
      "saved d2 = Some (tables d)" "up d \<Longrightarrow> up d2"
  shows "release_result tables saved up d rid
    (query_or_rollback M c (stmt_sql (escape_sql M c) (MarkReleased rid)) () (commit M c () ()) d2)"
proof -
  let ?t = "tables d" and ?Q = "release_result tables saved up d rid"
  have run: "run_stmt (MarkReleased rid) (tables d2) = Some (1, [], release_tables rid ?t)"
    using d2(1,2) st release_eq by (simp add: restocked_def)
  show ?thesis
  proof (rule query_step[where Q = ?Q, OF d2(3)])
    show "admissible good (MarkReleased rid) (tables d2)" using rid by simp
    show "?Q ((), d')" if "tables d' = ?t" "saved d' = None" "up d2 \<Longrightarrow> up d' \<and> run_stmt (MarkReleased rid) (tables d2) = None" for d'
      using that run d2(4) by (intro release_fails) auto
    show "?Q (commit M c () () d3)" if "run_stmt (MarkReleased rid) (tables d2) = Some (n, rows, tables d3)" "saved d3 = Some ?t"
      "up d2 \<Longrightarrow> up d3" for n rows d3
      using that run d2(4) by (intro commit_step[where Q = ?Q and d = d3]) (auto simp: release_result_def)
  qed
qed

lemma release_lines:
  assumes rid: "good rid" and ok: "tables_ok (tables d)" and st: "it_status (tables d) rid = Some ''reserved''"
    and rs: "mset rs = mset (map item_row (it_items (tables d) rid))"
    and d1: "tables d1 = tables d" "saved d1 = Some (tables d)" "up d \<Longrightarrow> up d1"
  shows "release_result tables saved up d rid (release_items_loop M c (map mutation_from_row rs)
    (query_or_rollback M c (stmt_sql (escape_sql M c) (MarkReleased rid)) () (commit M c () ())) d1)"
proof -
  let ?t = "tables d" and ?Q = "release_result tables saved up d rid" and ?ms = "map mutation_from_row rs"
  let ?items = "it_items ?t rid"
  note it = tables_okD[OF ok, of rid]
  have "mset ?ms = mset ?items" using mutations_from_rows[OF it(1) rs] .
  note ms = mset_eq_setD[OF this] room_mset[OF this, of ?t] restock_mset[OF this]
    mset_eq_imp_distinct_iff[of "map im_book_id ?ms" "map im_book_id ?items"] this
  show ?thesis
  proof (rule release_loop[where Q = ?Q, OF d1(2)])
    show "\<forall>i \<in> set ?ms. im_book_id i > 0 \<and> im_quantity i > 0"
      using it(1) unfolding ms(1) by (simp add: lines_ok_def)
    show "distinct (map im_book_id ?ms)"
      using ms(4,5) it(2) by (simp only: mset_map)
    show "?Q ((), d')" if "tables d' = ?t" "saved d' = None" "up d1 \<Longrightarrow> up d' \<and> \<not> room ?ms (tables d1)" for d'
      using that ms(2) d1 release_eq[OF st] by (intro release_fails) auto
    show "?Q (query_or_rollback M c (stmt_sql (escape_sql M c) (MarkReleased rid)) () (commit M c () ()) d2)"
      if "room ?ms (tables d1)" "tables d2 = restocked ?ms (tables d1)" "saved d2 = Some ?t" "up d1 \<Longrightarrow> up d2" for d2
      using that ms(2,3) d1 by (intro release_rest[OF rid st]) (auto simp: restocked_def)
  qed
qed

lemma release_reserved:
  assumes rid: "good rid" and ok: "tables_ok (tables d)" and st: "it_status (tables d) rid = Some ''reserved''"
    and d1: "tables d1 = tables d" "saved d1 = Some (tables d)" "up d \<Longrightarrow> up d1"
  shows "release_result tables saved up d rid
    (query_or_rollback M c (reserved_items_sql (escape_sql M c rid)) ()
      (result_or_rollback M c ()
        (\<lambda>rows. release_items_loop M c (map mutation_from_row rows)
           (query_or_rollback M c (release_reservation_sql (escape_sql M c rid)) () (commit M c () ())))) d1)"
proof -
  let ?t = "tables d" and ?e = "escape_sql M c" and ?Q = "release_result tables saved up d rid"
  let ?rest = "query_or_rollback M c (stmt_sql ?e (MarkReleased rid)) () (commit M c () ())"
  let ?k = "\<lambda>rows. release_items_loop M c (map mutation_from_row rows) ?rest"
  have "?Q (query_or_rollback M c (stmt_sql ?e (ItemsOf rid)) () (result_or_rollback M c () ?k) d1)"
  proof (rule query_step[where Q = ?Q, OF d1(2)])
    show "admissible good (ItemsOf rid) (tables d1)" using rid by simp
    show "?Q ((), d')" if "tables d' = ?t" "saved d' = None" "up d1 \<Longrightarrow> up d' \<and> run_stmt (ItemsOf rid) (tables d1) = None" for d'
      using that d1(3) by (intro release_fails) auto
    fix n rows d2
    assume r: "run_stmt (ItemsOf rid) (tables d1) = Some (n, rows, tables d2)" and d2: "saved d2 = Some ?t" and up2: "up d1 \<Longrightarrow> up d2"
      and ans: "if selects (ItemsOf rid) then answers M c tables saved up rows d2 else my_affected_rows M c d2 = n"
    show "?Q (result_or_rollback M c () ?k d2)"
    proof (rule result_step[where Q = ?Q, OF d2])
      show "answers M c tables saved up rows d2" using ans by simp
      show "?Q ((), d')" if "tables d' = ?t" "saved d' = None" "\<not> up d2" for d'
        using that d1(3) up2 by (intro release_fails) auto
      show "?Q (?k rs d3)" if "mset rs = mset rows" "tables d3 = tables d2" "saved d3 = Some ?t" "up d2 \<Longrightarrow> up d3" for rs d3
        using that r d1 up2 by (intro release_lines[OF rid ok st]) auto
    qed
  qed
  then show ?thesis by simp
qed

lemma release_tx:
  assumes d: "saved d = None" and rid: "good rid" and ok: "tables_ok (tables d)"
  shows "release_result tables saved up d rid (release_items_tx M c rid d)"
  unfolding release_items_tx_def Let_def
proof (rule status_step[where Q = "release_result tables saved up d rid", OF d rid])
  let ?t = "tables d" and ?Q = "release_result tables saved up d rid"
  show "?Q ((), d')" if "tables d' = ?t" "saved d' = None" "\<not> up d" for d'
    using that by (intro release_fails) auto
  fix rs d1
  assume rs: "rs = (case it_status ?t rid of None \<Rightarrow> [] | Some st \<Rightarrow> [[Some st]])" and d1: "tables d1 = ?t" "saved d1 = Some ?t"
    and up1: "up d \<Longrightarrow> up d1"
  let ?give = "query_or_rollback M c (reserved_items_sql (escape_sql M c rid)) ()
      (result_or_rollback M c ()
        (\<lambda>rows. release_items_loop M c (map mutation_from_row rows)
           (query_or_rollback M c (release_reservation_sql (escape_sql M c rid)) () (commit M c () ())))) d1"
  consider "it_status ?t rid = None" | "it_status ?t rid = Some ''reserved''" | "it_status ?t rid = Some ''released''"
    using tables_okD(4)[OF ok, of rid] by auto
  then show "?Q (case rs of [] \<Rightarrow> rollback M c () d1
    | r # _ \<Rightarrow> if cell_text r 0 = ''released'' then ((), snd (mysql_query M c ''COMMIT'' d1))
               else if cell_text r 0 \<noteq> ''reserved'' then rollback M c () d1 else ?give)"
  proof cases
    case 1
    have "?Q (rollback M c () d1)"
      using 1 d1 up1 by (intro rolled_back[where Q = ?Q and d = d1, of ?t] release_fails) (auto simp: undo_def release_tables_def)
    with 1 rs show ?thesis by simp
  next
    case 2
    have "?Q ?give" by (rule release_reserved[OF rid ok 2 d1 up1])
    with 2 rs show ?thesis by (simp add: cell_text_def c_str_def)
  next
    case 3
    have "?Q ((), snd (mysql_query M c ''COMMIT'' d1))"
      using 3 d1 up1 by (intro unchecked_commit[where Q = ?Q and d = d1]) (auto simp: release_result_def release_tables_def)
    with 3 rs show ?thesis by (simp add: cell_text_def c_str_def)
  qed
qed

end

end
