(* ===== verification/Inventory_Engine.thy ===== *)
theory Inventory_Engine
  imports Inventory_Tables
begin

text \<open>
  A small database that keeps the laws of \<open>inventory_db\<close>: it parses the SQL text it is sent, with numbers and escaped
  string literals, and runs the statement on the tables. It shows that the laws can hold, and it is what the examples run on.
\<close>

section \<open>Reading SQL text\<close>

fun strip :: "string \<Rightarrow> string \<Rightarrow> string option" where
  "strip [] s = Some s"
| "strip (c # p) (d # s) = (if c = d then strip p s else None)"
| "strip (c # p) [] = None"

definition read_number :: "string \<Rightarrow> (int \<times> string) option" where
  "read_number s =
     (if takeWhile isdigit s = [] then None else Some (dec_value 0 (takeWhile isdigit s), dropWhile isdigit s))"

definition escape_char :: "char \<Rightarrow> string" where
  "escape_char c =
     (if c = NUL then [CHR 0x5C, CHR ''0''] else if c = CHR 0x27 \<or> c = CHR 0x5C then [CHR 0x5C, c] else [c])"

definition escape_text :: "string \<Rightarrow> string" where
  "escape_text t = concat (map escape_char t)"

text \<open>The rest of a literal after its opening quote.\<close>

fun read_quoted :: "string \<Rightarrow> (string \<times> string) option" where
  "read_quoted [] = None"
| "read_quoted (c # s) =
     (if c = CHR 0x27 then Some ([], s)
      else if c = CHR 0x5C then
        (case s of
           [] \<Rightarrow> None
         | e # s1 \<Rightarrow> map_option (\<lambda>(t, r). ((if e = CHR ''0'' then NUL else e) # t, r)) (read_quoted s1))
      else map_option (\<lambda>(t, r). (c # t, r)) (read_quoted s))"

lemma strip_append [simp]: "strip p (p @ s) = Some s"
  by (induction p) auto

lemma strip_self [simp]: "strip p p = Some []"
  using strip_append[of p "[]"] by simp

lemma read_number_to_string:
  assumes "n > 0" "r = [] \<or> \<not> isdigit (hd r)"
  shows "read_number (to_string n @ r) = Some (n, r)"
proof -
  let ?s = "string_of_nat (nat n)"
  have "takeWhile isdigit (?s @ r) = ?s" "dropWhile isdigit (?s @ r) = r"
    using assms(2) string_of_nat_digits[of "nat n"] by (cases r; auto)+
  with assms(1) dec_value_string_of_nat[of "nat n"] show ?thesis
    by (simp add: read_number_def to_string_def)
qed

lemma read_number_to_string_end [simp]: "n > 0 \<Longrightarrow> read_number (to_string n) = Some (n, [])"
  using read_number_to_string[of n "[]"] by simp

lemma read_quoted_escape [simp]: "read_quoted (escape_text t @ CHR 0x27 # r) = Some (t, r)"
  by (induction t) (auto simp: escape_text_def escape_char_def)

lemma escape_text_no_NUL: "NUL \<notin> set (escape_text t)"
  by (auto simp: escape_text_def escape_char_def)

section \<open>Statements\<close>

definition parse_take :: "string \<Rightarrow> InvStmt option" where
  "parse_take s =
     Option.bind (read_number s) (\<lambda>(q, s1). Option.bind (strip '' WHERE book_id='' s1) (\<lambda>s2.
     Option.bind (read_number s2) (\<lambda>(b, s3). Option.bind (strip '' AND available>='' s3) (\<lambda>s4.
       if read_number s4 = Some (q, []) then Some (TakeStock b q) else None))))"

definition parse_put :: "string \<Rightarrow> InvStmt option" where
  "parse_put s =
     Option.bind (read_number s) (\<lambda>(q, s1). Option.bind (strip '' WHERE book_id='' s1) (\<lambda>s2.
     Option.bind (read_number s2) (\<lambda>(b, s3). if s3 = [] then Some (PutStock b q) else None)))"

text \<open>A statement whose only argument is a string literal followed by a fixed text.\<close>

definition parse_id :: "(string \<Rightarrow> InvStmt) \<Rightarrow> string \<Rightarrow> string \<Rightarrow> InvStmt option" where
  "parse_id stmt rest s =
     Option.bind (read_quoted s) (\<lambda>(rid, s1). if s1 = rest then Some (stmt rid) else None)"

definition parse_item :: "string \<Rightarrow> InvStmt option" where
  "parse_item s =
     Option.bind (read_quoted s) (\<lambda>(rid, s1). Option.bind (strip '', '' s1) (\<lambda>s2.
     Option.bind (read_number s2) (\<lambda>(b, s3). Option.bind (strip '', '' s3) (\<lambda>s4.
     Option.bind (read_number s4) (\<lambda>(q, s5).
       if s5 = '')'' then Some (ReserveItem rid \<lparr>im_book_id = b, im_quantity = q\<rparr>) else None)))))"

definition statement_parsers :: "(string \<times> (string \<Rightarrow> InvStmt option)) list" where
  "statement_parsers =
     [(''UPDATE inventory SET available=available-'', parse_take),
      (''UPDATE inventory SET available=available+'', parse_put),
      (''SELECT status FROM inventory_reservations WHERE reservation_id='' @ [CHR 0x27],
         parse_id StatusOf '' FOR UPDATE''),
      (''INSERT INTO inventory_reservations(reservation_id,status) VALUES('' @ [CHR 0x27],
         parse_id Reserve ('', '' @ sql_quote ''reserved'' @ '')'')),
      (''INSERT INTO inventory_reservation_items(reservation_id,book_id,quantity) VALUES('' @ [CHR 0x27], parse_item),
      (''SELECT book_id,quantity FROM inventory_reservation_items WHERE reservation_id='' @ [CHR 0x27],
         parse_id ItemsOf []),
      (''UPDATE inventory_reservations SET status='' @ sql_quote ''released'' @ '' WHERE reservation_id='' @ [CHR 0x27],
         parse_id MarkReleased [])]"

fun parse_with :: "(string \<times> (string \<Rightarrow> InvStmt option)) list \<Rightarrow> string \<Rightarrow> InvStmt option" where
  "parse_with [] sql = None"
| "parse_with ((p, f) # ps) sql = (case strip p sql of Some s \<Rightarrow> f s | None \<Rightarrow> parse_with ps sql)"

definition parse_stmt :: "string \<Rightarrow> InvStmt option" where
  "parse_stmt sql = parse_with statement_parsers sql"

text \<open>The query of \<^verbatim>\<open>available_stock\<close>, and its answer.\<close>

definition parse_stock :: "string \<Rightarrow> int option" where
  "parse_stock sql =
     Option.bind (strip ''SELECT available FROM inventory WHERE book_id='' sql) (\<lambda>s. Option.bind (read_number s) (\<lambda>(b, s1).
       if s1 = '' LIMIT 1'' then Some b else None))"

lemma parse_take_stmt: "b > 0 \<Longrightarrow> q > 0 \<Longrightarrow> parse_stmt (take_stock_sql b q) = Some (TakeStock b q)"
  by (simp add: parse_stmt_def statement_parsers_def take_stock_sql_def parse_take_def read_number_to_string isdigit_def)

lemma parse_put_stmt: "b > 0 \<Longrightarrow> q > 0 \<Longrightarrow> parse_stmt (put_stock_sql b q) = Some (PutStock b q)"
  by (simp add: parse_stmt_def statement_parsers_def put_stock_sql_def parse_put_def read_number_to_string isdigit_def)

lemma parse_status: "parse_stmt (reservation_status_sql (escape_text rid)) = Some (StatusOf rid)"
  by (simp add: parse_stmt_def statement_parsers_def reservation_status_sql_def sql_quote_def parse_id_def)

lemma parse_reserve: "parse_stmt (insert_reservation_sql (escape_text rid)) = Some (Reserve rid)"
  by (simp add: parse_stmt_def statement_parsers_def insert_reservation_sql_def sql_quote_def parse_id_def)

lemma parse_reserve_item: "im_book_id i > 0 \<Longrightarrow> im_quantity i > 0 \<Longrightarrow>
   parse_stmt (insert_reserved_item_sql (escape_text rid) i) = Some (ReserveItem rid i)"
  by (simp add: parse_stmt_def statement_parsers_def insert_reserved_item_sql_def sql_quote_def parse_item_def
     read_number_to_string isdigit_def)

lemma parse_items: "parse_stmt (reserved_items_sql (escape_text rid)) = Some (ItemsOf rid)"
  by (simp add: parse_stmt_def statement_parsers_def reserved_items_sql_def sql_quote_def parse_id_def)

lemma parse_released: "parse_stmt (release_reservation_sql (escape_text rid)) = Some (MarkReleased rid)"
  by (simp add: parse_stmt_def statement_parsers_def release_reservation_sql_def sql_quote_def parse_id_def)

lemma parse_stmt_sql: "admissible good s t \<Longrightarrow> parse_stmt (stmt_sql escape_text s) = Some s"
  by (cases s) (simp_all add: parse_take_stmt parse_put_stmt parse_status parse_reserve parse_reserve_item parse_items parse_released)

lemma parse_stock_sql: "b > 0 \<Longrightarrow> parse_stock (stock_sql b @ '' LIMIT 1'') = Some b"
  by (simp add: parse_stock_def stock_sql_def read_number_to_string isdigit_def)

lemma stock_sql_not_transaction:
  "stock_sql b @ s \<noteq> ''START TRANSACTION''" "stock_sql b @ s \<noteq> ''COMMIT''" "stock_sql b @ s \<noteq> ''ROLLBACK''"
  by (simp_all add: stock_sql_def)

lemma parse_stock_other: "parse_stock (stmt_sql escape_text s) = None"
  by (cases s) (simp_all add: parse_stock_def take_stock_sql_def put_stock_sql_def reservation_status_sql_def
      insert_reservation_sql_def insert_reserved_item_sql_def reserved_items_sql_def release_reservation_sql_def)

lemma to_string_no_NUL: "NUL \<notin> set (to_string n)"
  by (auto simp: to_string_def isdigit_def dest!: bspec[OF string_of_nat_digits])

lemma stmt_sql_no_NUL: "NUL \<notin> set (stmt_sql escape_text s)"
  using escape_text_no_NUL to_string_no_NUL
  by (cases s) (simp_all add: take_stock_sql_def put_stock_sql_def reservation_status_sql_def insert_reservation_sql_def
      insert_reserved_item_sql_def reserved_items_sql_def release_reservation_sql_def sql_quote_def)

lemma c_str_no_NUL: "NUL \<notin> set s \<Longrightarrow> c_str s = s"
  by (auto simp: c_str_def takeWhile_eq_all_conv)

section \<open>The engine\<close>

record Engine =
  en_tables :: InventoryTables
  en_saved :: "InventoryTables option"
  en_rows :: "row list"
  en_affected :: int

definition engine_query :: "string \<Rightarrow> Engine \<Rightarrow> bool \<times> Engine" where
  "engine_query sql d =
     (if sql = ''START TRANSACTION'' then (True, d\<lparr>en_saved := Some (en_tables d)\<rparr>)
      else if sql = ''COMMIT'' then (True, d\<lparr>en_saved := None\<rparr>)
      else if sql = ''ROLLBACK'' then (True, d\<lparr>en_tables := undo en_tables en_saved d, en_saved := None\<rparr>)
      else (case parse_stock sql of
              Some b \<Rightarrow> (True, d\<lparr>en_rows := stock_rows b (en_tables d)\<rparr>)
            | None \<Rightarrow>
                (case Option.bind (parse_stmt sql) (\<lambda>s. run_stmt s (en_tables d)) of
                   None \<Rightarrow> (False, d)
                 | Some (n, rows, t) \<Rightarrow> (True, d\<lparr>en_tables := t, en_rows := rows, en_affected := n\<rparr>))))"

definition engine :: "(nat, Engine) Mysql" where
  "engine =
     \<lparr>my_query = (\<lambda>c. engine_query), my_store_result = (\<lambda>c d. (Some (en_rows d), d)), my_insert_id = (\<lambda>c d. 0),
      my_affected_rows = (\<lambda>c d. en_affected d), my_escape = (\<lambda>c. escape_text)\<rparr>"

lemma stmt_sql_not_transaction:
  "admissible good s t \<Longrightarrow> stmt_sql escape_text s \<notin> {''START TRANSACTION'', ''COMMIT'', ''ROLLBACK''}"
proof
  assume a: "admissible good s t"
  have "parse_stmt x = None" if "x \<in> {''START TRANSACTION'', ''COMMIT'', ''ROLLBACK''}" for x
    using that by (auto simp: parse_stmt_def statement_parsers_def)
  moreover assume "stmt_sql escape_text s \<in> {''START TRANSACTION'', ''COMMIT'', ''ROLLBACK''}"
  ultimately show False using parse_stmt_sql[OF a] by force
qed

lemma engine_statement:
  assumes "admissible good s (en_tables d)"
  shows "mysql_query engine c (stmt_sql (escape_sql engine c) s) d =
    (case run_stmt s (en_tables d) of
       None \<Rightarrow> (False, d)
     | Some (n, rows, t) \<Rightarrow> (True, d\<lparr>en_tables := t, en_rows := rows, en_affected := n\<rparr>))"
proof -
  have "escape_sql engine c = escape_text" by (rule ext) (simp add: escape_sql_def engine_def)
  moreover have "mysql_query engine c (stmt_sql escape_text s) d = engine_query (stmt_sql escape_text s) d"
    by (simp add: mysql_query_def engine_def c_str_no_NUL stmt_sql_no_NUL)
  moreover have "engine_query (stmt_sql escape_text s) d =
      (case Option.bind (parse_stmt (stmt_sql escape_text s)) (\<lambda>s. run_stmt s (en_tables d)) of
         None \<Rightarrow> (False, d)
       | Some (n, rows, t) \<Rightarrow> (True, d\<lparr>en_tables := t, en_rows := rows, en_affected := n\<rparr>))"
    using stmt_sql_not_transaction[OF assms]
    by (simp only: engine_query_def parse_stock_other insert_iff empty_iff simp_thms if_False de_Morgan_disj option.case)
  ultimately show ?thesis by (simp add: parse_stmt_sql[OF assms])
qed

interpretation eng: inventory_db engine c en_tables en_saved "\<lambda>_. True" "\<lambda>_. True"
proof (unfold_locales, goal_cases)
  case (4 d s ok d')
  show ?case
  proof (cases "run_stmt s (en_tables d)")
    case None
    with 4 engine_statement[OF 4(2), of c] show ?thesis by simp
  next
    case (Some p)
    obtain n rows t where p: "p = (n, rows, t)" by (rule prod_cases3)
    have "ok" "d' = d\<lparr>en_tables := t, en_rows := rows, en_affected := n\<rparr>"
      using 4(3) engine_statement[OF 4(2), of c] Some p by simp_all
    with Some p show ?thesis by (simp add: answers_def engine_def)
  qed
qed (auto simp: mysql_query_def engine_def engine_query_def c_str_def undo_def)

interpretation engine_stock: stock_reader engine c en_tables en_saved "\<lambda>_. True" "\<lambda>_. True"
proof
  fix d d' :: Engine and b ok
  assume b: "b > 0" and q: "mysql_query engine c (stock_sql b @ '' LIMIT 1'') d = (ok, d')"
  have "c_str (stock_sql b @ '' LIMIT 1'') = stock_sql b @ '' LIMIT 1''"
    by (rule c_str_no_NUL) (simp add: stock_sql_def to_string_no_NUL)
  moreover have "engine_query (stock_sql b @ '' LIMIT 1'') d = (True, d\<lparr>en_rows := stock_rows b (en_tables d)\<rparr>)"
    using b by (simp add: engine_query_def parse_stock_sql stock_sql_not_transaction)
  ultimately have "ok" "d' = d\<lparr>en_rows := stock_rows b (en_tables d)\<rparr>"
    using q by (simp_all add: mysql_query_def engine_def)
  moreover assume "en_saved d = None"
  ultimately show "ok \<and> True \<and> en_tables d' = en_tables d \<and> en_saved d' = None \<and>
      answers engine c en_tables en_saved (\<lambda>_. True) (stock_rows b (en_tables d)) d'"
    by (simp add: answers_def engine_def)
qed

end
