(* ===== verification/Mysql_Stock.thy ===== *)
theory Mysql_Stock
  imports Mysql_Resources Inventory_Engine Grpc_Clients
begin

text \<open>
  Reservations in MySQL under the laws of \<open>inventory_db\<close>: a batch is reserved as a whole or not at all, once per
  reservation identifier, and released once. The last theorem is about identifiers: an order that
  gets an identifier for the second time takes no stock.
\<close>

section \<open>One batch operation\<close>

text \<open>The repository at rest: a pool with a free connection, no open transaction, and the laws on every connection.\<close>

definition stock_backend ::
  "('c, 'd) Mysql \<Rightarrow> ('d \<Rightarrow> InventoryTables) \<Rightarrow> ('d \<Rightarrow> InventoryTables option) \<Rightarrow> ('d \<Rightarrow> bool) \<Rightarrow> (string \<Rightarrow> bool) \<Rightarrow>
     ('c, 'd) Backend \<Rightarrow> bool" where
  "stock_backend M tables saved up good s \<longleftrightarrow>
     (\<exists>p. be_pool s = Some p \<and> pool_ok p \<and> connList p \<noteq> [] \<and>
        (\<forall>c \<in> set (connList p). inventory_db M c tables saved up good)) \<and>
     saved (be_db s) = None \<and> tables_ok (tables (be_db s))"

lemma stock_backend_runs:
  assumes "stock_backend M tables saved up good s"
  obtains con p' r d where "inventory_db M con tables saved up good" "f con (be_db s) = (r, d)"
    "with_mysql none (\<lambda>con. on_db (f con)) s = Some (r, s\<lparr>be_pool := Some p', be_db := d\<rparr>)"
    "saved d = None \<longrightarrow> tables_ok (tables d) \<longrightarrow> stock_backend M tables saved up good (s\<lparr>be_pool := Some p', be_db := d\<rparr>)"
proof -
  obtain p where p: "be_pool s = Some p" "pool_ok p" "connList p \<noteq> []"
    "\<forall>c \<in> set (connList p). inventory_db M c tables saved up good"
    using assms by (auto simp: stock_backend_def)
  obtain con p' r d where r: "con \<in> set (connList p)" "f con (be_db s) = (r, d)"
    "with_mysql none (\<lambda>con. on_db (f con)) s = Some (r, s\<lparr>be_pool := Some p', be_db := d\<rparr>)"
    "pool_ok p'" "mset (connList p') = mset (connList p)"
    by (rule on_connection[OF p(1-3)])
  from r(5) have "set (connList p') = set (connList p)" by (rule mset_eq_setD)
  then have "connList p' \<noteq> []" "\<forall>c \<in> set (connList p'). inventory_db M c tables saved up good" using p by auto
  with r p show thesis using that[of con r d p'] by (auto simp: stock_backend_def)
qed

lemma reserve_items_run:
  assumes s: "stock_backend M tables saved up good s" and rid: "good rid" "rid \<noteq> []" and items: "items \<noteq> []" "lines_ok items"
  obtains r s' where "MysqlInventoryRepository_reserve_stock_items M rid items s = Some (r, s')"
    "reserve_result tables saved up (be_db s) rid items (r, be_db s')"
    "up (be_db s) \<Longrightarrow> stock_backend M tables saved up good s' \<and> up (be_db s')"
proof -
  have ok: "saved (be_db s) = None" "tables_ok (tables (be_db s))" using s by (auto simp: stock_backend_def)
  obtain con p' r d where db: "inventory_db M con tables saved up good" and
    r: "reserve_items_tx M con rid items (be_db s) = (r, d)"
    "with_mysql False (\<lambda>con. on_db (reserve_items_tx M con rid items)) s = Some (r, s\<lparr>be_pool := Some p', be_db := d\<rparr>)"
    "saved d = None \<longrightarrow> tables_ok (tables d) \<longrightarrow> stock_backend M tables saved up good (s\<lparr>be_pool := Some p', be_db := d\<rparr>)"
    by (rule stock_backend_runs[OF s, where f = "\<lambda>con. reserve_items_tx M con rid items" and none = False])
  have res: "reserve_result tables saved up (be_db s) rid items (r, d)"
    using inventory_db.reserve_tx[OF db ok(1) rid(1) ok(2), of items] items(2) r(1) by (simp add: lines_ok_def)
  moreover have "tables_ok (tables d)"
    using res ok reserve_tables_ok[OF ok(2) items(2)] by (auto simp: reserve_result_def)
  moreover have "MysqlInventoryRepository_reserve_stock_items M rid items s = Some (r, s\<lparr>be_pool := Some p', be_db := d\<rparr>)"
    using s rid items r(2) unfolding MysqlInventoryRepository_reserve_stock_items_def stock_backend_def lines_ok_def by force
  ultimately show thesis using that[of r "s\<lparr>be_pool := Some p', be_db := d\<rparr>"] r(3) by (simp add: reserve_result_def)
qed

lemma release_items_run:
  assumes s: "stock_backend M tables saved up good s" and rid: "good rid" "rid \<noteq> []"
  obtains s' where "MysqlInventoryRepository_release_stock_items M rid items s = Some ((), s')"
    "release_result tables saved up (be_db s) rid ((), be_db s')"
    "up (be_db s) \<Longrightarrow> stock_backend M tables saved up good s' \<and> up (be_db s')"
proof -
  have ok: "saved (be_db s) = None" "tables_ok (tables (be_db s))" using s by (auto simp: stock_backend_def)
  obtain con p' r d where db: "inventory_db M con tables saved up good" and
    r: "release_items_tx M con rid (be_db s) = (r, d)"
    "with_mysql () (\<lambda>con. on_db (release_items_tx M con rid)) s = Some (r, s\<lparr>be_pool := Some p', be_db := d\<rparr>)"
    "saved d = None \<longrightarrow> tables_ok (tables d) \<longrightarrow> stock_backend M tables saved up good (s\<lparr>be_pool := Some p', be_db := d\<rparr>)"
    by (rule stock_backend_runs[OF s, where f = "\<lambda>con. release_items_tx M con rid" and none = "()"])
  have res: "release_result tables saved up (be_db s) rid (r, d)"
    using inventory_db.release_tx[OF db ok(1) rid(1) ok(2)] r(1) by simp
  moreover have "tables_ok (tables d)"
    using res ok release_tables_ok[OF ok(2), of rid] by (auto simp: release_result_def)
  moreover have "MysqlInventoryRepository_release_stock_items M rid items s = Some ((), s\<lparr>be_pool := Some p', be_db := d\<rparr>)"
    using s rid r(2) unfolding MysqlInventoryRepository_release_stock_items_def stock_backend_def by force
  ultimately show thesis using that[of "s\<lparr>be_pool := Some p', be_db := d\<rparr>"] r(3) by (simp add: release_result_def)
qed

text \<open>A release gives back what the reservation took, if no counter could overflow before.\<close>

lemma release_undoes_reserve:
  assumes "reserve_tables rid items t = Some t1" "it_status t rid = None" "\<forall>b v. it_available t b = Some v \<longrightarrow> v < 2 ^ 32"
  shows "release_tables rid t1 = t1\<lparr>it_available := it_available t, it_status := (it_status t1)(rid \<mapsto> ''released'')\<rparr>"
proof -
  from assms(1,2) have t1: "servable (it_available t) items" "distinct (map im_book_id items)"
    "it_available t1 = deduct (it_available t) items" "it_status t1 rid = Some ''reserved''" "it_items t1 rid = items"
    by (auto elim!: reserve_tables_cases)
  have "room items t1"
    unfolding room_def
  proof (intro ballI allI impI)
    fix i v
    assume i: "i \<in> set items" and v: "it_available t1 (im_book_id i) = Some v"
    then obtain w where w: "it_available t (im_book_id i) = Some w" "v = w - demand items (im_book_id i)"
      by (auto simp: t1(3) deduct_def)
    have "im_quantity i \<le> demand items (im_book_id i)"
      using t1(1) i by (intro demand_pos) (auto simp: servable_def)
    with w assms(3) show "v + im_quantity i < 2 ^ 32" by force
  qed
  with t1 show ?thesis by (simp add: release_tables_def)
qed

section \<open>The repository behind gRPC\<close>

text \<open>The methods of \<^verbatim>\<open>MysqlInventoryRepository\<close> as the handlers use them, where a connection is free.\<close>

definition mysql_inventory_repository :: "('c, 'd) Mysql \<Rightarrow> ('c, 'd) Backend InventoryRepository" where
  "mysql_inventory_repository M =
     \<lparr>ir_available_stock = (\<lambda>b s. fst (the (MysqlInventoryRepository_available_stock M b s))),
      ir_add_stock = (\<lambda>b q s. the (MysqlInventoryRepository_add_stock M b q s)),
      ir_reserve_stock = (\<lambda>b q s. the (MysqlInventoryRepository_reserve_stock M b q s)),
      ir_release_stock = (\<lambda>b q s. snd (the (MysqlInventoryRepository_release_stock M b q s))),
      ir_reserve_stock_items = (\<lambda>rid items s. the (MysqlInventoryRepository_reserve_stock_items M rid items s)),
      ir_release_stock_items = (\<lambda>rid items s. snd (the (MysqlInventoryRepository_release_stock_items M rid items s)))\<rparr>"

text \<open>An example: two books, one connection.\<close>

definition two_books :: InventoryTables where
  "two_books = \<lparr>it_available = [1 \<mapsto> 5, 2 \<mapsto> 3], it_status = (\<lambda>_. None), it_items = (\<lambda>_. [])\<rparr>"

definition engine_backend :: "(nat, Engine) Backend" where
  "engine_backend =
     \<lparr>be_pool = Some one_connection,
      be_db = \<lparr>en_tables = two_books, en_saved = None, en_rows = [], en_affected = 0\<rparr>\<rparr>"

definition two_copies :: "InventoryMutation list" where
  "two_copies = [\<lparr>im_book_id = 1, im_quantity = 2\<rparr>]"

lemma two_copies_ok: "two_copies \<noteq> []" "lines_ok two_copies"
  by (simp_all add: two_copies_def lines_ok_def int32_def)

lemma reserve_two_copies:
  "reserve_tables rid two_copies (en_tables (be_db engine_backend)) =
     Some (two_books\<lparr>it_available := deduct (it_available two_books) two_copies,
       it_status := (it_status two_books)(rid \<mapsto> ''reserved''), it_items := (it_items two_books)(rid := two_copies)\<rparr>)"
  by (simp add: reserve_tables_def engine_backend_def two_books_def two_copies_def servable_single)

lemma engine_backend_ok: "stock_backend engine en_tables en_saved (\<lambda>_. True) (\<lambda>_. True) engine_backend"
  unfolding stock_backend_def
proof (intro conjI exI ballI)
  show "be_pool engine_backend = Some one_connection" by (simp add: engine_backend_def)
  show "pool_ok one_connection" "connList one_connection \<noteq> []"
    by (simp_all add: pool_ok_def one_connection_def connection_pool_new_def)
  show "en_saved (be_db engine_backend) = None" "tables_ok (en_tables (be_db engine_backend))"
    by (simp_all add: engine_backend_def two_books_def tables_ok_def lines_ok_def)
qed (rule eng.inventory_db_axioms)

section \<open>Properties\<close>

text \<open>C8: A batch reservation in MySQL returns and is atomic. Whatever the server answers, the tables are the old ones or those
  of the whole reservation, and success means the latter; while the server answers, the batch is refused exactly when it cannot be
  served: a book without enough copies or in two lines (the table allows one line per book), or an identifier already released.\<close>

theorem mysql_reservation_atomic:
  assumes "stock_backend M tables saved up good s" "good rid" "rid \<noteq> []" "items \<noteq> []" "lines_ok items"
  shows "\<exists>r s'. MysqlInventoryRepository_reserve_stock_items M rid items s = Some (r, s') \<and>
    (r \<longrightarrow> reserve_tables rid items (tables (be_db s)) = Some (tables (be_db s'))) \<and>
    tables (be_db s') \<in> {tables (be_db s)} \<union> set_option (reserve_tables rid items (tables (be_db s))) \<and>
    (up (be_db s) \<longrightarrow> (r \<longleftrightarrow> reserve_tables rid items (tables (be_db s)) \<noteq> None) \<and>
       (\<not> r \<longrightarrow> tables (be_db s') = tables (be_db s)))"
proof -
  obtain r s' where "MysqlInventoryRepository_reserve_stock_items M rid items s = Some (r, s')"
    "reserve_result tables saved up (be_db s) rid items (r, be_db s')"
    using reserve_items_run[OF assms] by metis
  then show ?thesis by (auto simp: reserve_result_def)
qed

theorem mysql_reservation_atomic_witness:
  "\<exists>s'. MysqlInventoryRepository_reserve_stock_items engine ''order-1-1'' two_copies engine_backend = Some (True, s') \<and>
     it_available (en_tables (be_db s')) 1 = Some 3"
proof -
  obtain r s' where r: "MysqlInventoryRepository_reserve_stock_items engine ''order-1-1'' two_copies engine_backend = Some (r, s')"
    "r \<longrightarrow> reserve_tables ''order-1-1'' two_copies (en_tables (be_db engine_backend)) = Some (en_tables (be_db s'))"
    "r \<longleftrightarrow> reserve_tables ''order-1-1'' two_copies (en_tables (be_db engine_backend)) \<noteq> None"
    using mysql_reservation_atomic[OF engine_backend_ok TrueI, of "''order-1-1''" two_copies] two_copies_ok by auto
  have "r" unfolding r(3) by (simp add: reserve_two_copies)
  with r(2) have "it_available (en_tables (be_db s')) = deduct (it_available two_books) two_copies"
    by (auto simp: reserve_two_copies dest!: sym[of _ "en_tables (be_db s')"])
  with r(1) \<open>r\<close> show ?thesis by (simp add: two_books_def two_copies_def deduct_def demand_Cons)
qed

text \<open>C9: While the server answers, releasing a reservation gives back exactly what it took, and releasing it again changes
  nothing. The list of items in the request plays no role: the lines recorded with the reservation are given back.\<close>

theorem mysql_release_once:
  assumes "stock_backend M tables saved up good s" "good rid" "rid \<noteq> []" "items \<noteq> []" "lines_ok items" "up (be_db s)"
    and "it_status (tables (be_db s)) rid = None" "\<forall>b v. it_available (tables (be_db s)) b = Some v \<longrightarrow> v < 2 ^ 32"
    and "MysqlInventoryRepository_reserve_stock_items M rid items s = Some (True, s1)"
  shows "\<exists>s2 s3. MysqlInventoryRepository_release_stock_items M rid items1 s1 = Some ((), s2) \<and>
    MysqlInventoryRepository_release_stock_items M rid items2 s2 = Some ((), s3) \<and>
    it_available (tables (be_db s2)) = it_available (tables (be_db s)) \<and>
    it_status (tables (be_db s2)) rid = Some ''released'' \<and> tables (be_db s3) = tables (be_db s2)"
proof -
  let ?t = "tables (be_db s)" and ?t1 = "tables (be_db s1)"
  obtain r where r: "reserve_result tables saved up (be_db s) rid items (r, be_db s1)" "r"
    and s1: "stock_backend M tables saved up good s1" "up (be_db s1)"
    using reserve_items_run[OF assms(1-5)] assms(6,9) by (metis option.inject prod.inject)
  have res: "reserve_tables rid items ?t = Some ?t1" using r by (simp add: reserve_result_def)
  obtain s2 where s2: "MysqlInventoryRepository_release_stock_items M rid items1 s1 = Some ((), s2)"
    "release_result tables saved up (be_db s1) rid ((), be_db s2)" "stock_backend M tables saved up good s2" "up (be_db s2)"
    using release_items_run[OF s1(1) assms(2,3)] s1(2) by metis
  obtain s3 where s3: "MysqlInventoryRepository_release_stock_items M rid items2 s2 = Some ((), s3)"
    "release_result tables saved up (be_db s2) rid ((), be_db s3)"
    using release_items_run[OF s2(3) assms(2,3)] by metis
  note rel = release_undoes_reserve[OF res assms(7,8)]
  have t2: "tables (be_db s2) = release_tables rid ?t1" using s2(2) s1(2) by (simp add: release_result_def)
  have t3: "tables (be_db s3) = release_tables rid (tables (be_db s2))" using s3(2) s2(4) by (simp add: release_result_def)
  have "it_status (tables (be_db s2)) rid = Some ''released''" "it_available (tables (be_db s2)) = it_available ?t"
    by (simp_all add: t2 rel)
  moreover from this have "tables (be_db s3) = tables (be_db s2)" by (simp add: t3 release_tables_def)
  ultimately show ?thesis using s2(1) s3(1) by blast
qed

theorem mysql_release_once_witness:
  "\<exists>s1 s2. MysqlInventoryRepository_reserve_stock_items engine ''order-1-1'' two_copies engine_backend = Some (True, s1) \<and>
     MysqlInventoryRepository_release_stock_items engine ''order-1-1'' [] s1 = Some ((), s2) \<and>
     it_available (en_tables (be_db s2)) = it_available two_books"
proof -
  obtain r s1 where r: "MysqlInventoryRepository_reserve_stock_items engine ''order-1-1'' two_copies engine_backend = Some (r, s1)"
    "reserve_result en_tables en_saved (\<lambda>_. True) (be_db engine_backend) ''order-1-1'' two_copies (r, be_db s1)"
    using reserve_items_run[OF engine_backend_ok TrueI list.distinct(2) two_copies_ok] by blast
  then have "r" by (simp add: reserve_result_def reserve_two_copies)
  have "\<forall>b v. it_available (en_tables (be_db engine_backend)) b = Some v \<longrightarrow> v < 2 ^ 32"
    "it_status (en_tables (be_db engine_backend)) ''order-1-1'' = None" "en_tables (be_db engine_backend) = two_books"
    by (simp_all add: engine_backend_def two_books_def)
  note this and r(1) \<open>r\<close>
  with mysql_release_once[OF engine_backend_ok TrueI _ two_copies_ok TrueI, of "''order-1-1''" s1 "[]" "[]"]
  show ?thesis by auto
qed

text \<open>A reservation that is sent a second time under its identifier is confirmed and takes nothing. That makes a retry safe,
  but the batch of the second call is not looked at: identifiers of orders are built from the user and a counter of the
  process, which starts again with the process, so after a restart an order can get the identifier of an older one and is
  accepted without taking any stock.\<close>

theorem reused_reservation_id:
  assumes "os_next_id S a = (n, a')" "os_next_id S' b = (n, b')" "rid = fst (next_reservation_id S u a)"
    and "stock_backend M tables saved up good s" "good rid" "up (be_db s)"
    and "items1 \<noteq> []" "lines_ok items1" "items2 \<noteq> []" "lines_ok items2"
    and "MysqlInventoryRepository_reserve_stock_items M rid items1 s = Some (True, s1)"
  shows "fst (next_reservation_id S' u b) = rid \<and>
    (\<exists>s2. MysqlInventoryRepository_reserve_stock_items M rid items2 s1 = Some (True, s2) \<and>
       tables (be_db s2) = tables (be_db s1))"
proof
  show "fst (next_reservation_id S' u b) = rid" using assms(1-3) by (simp add: next_reservation_id_def)
  have rid: "rid \<noteq> []" using assms(1,3) by (simp add: next_reservation_id_def)
  obtain r where r: "reserve_result tables saved up (be_db s) rid items1 (r, be_db s1)" "r"
    and s1: "stock_backend M tables saved up good s1" "up (be_db s1)"
    using reserve_items_run[OF assms(4,5) rid assms(7,8)] assms(6,11) by (metis option.inject prod.inject)
  have st: "it_status (tables (be_db s1)) rid = Some ''reserved''"
  proof -
    from r have "reserve_tables rid items1 (tables (be_db s)) = Some (tables (be_db s1))" by (simp add: reserve_result_def)
    then show ?thesis by (cases rule: reserve_tables_cases) simp_all
  qed
  obtain r' s2 where s2: "MysqlInventoryRepository_reserve_stock_items M rid items2 s1 = Some (r', s2)"
    "reserve_result tables saved up (be_db s1) rid items2 (r', be_db s2)"
    using reserve_items_run[OF s1(1) assms(5) rid assms(9,10)] by metis
  then have "r'" "tables (be_db s2) = tables (be_db s1)"
    using st s1(2) by (simp_all add: reserve_result_def reserve_tables_def)
  with s2(1) show "\<exists>s2. MysqlInventoryRepository_reserve_stock_items M rid items2 s1 = Some (True, s2) \<and>
       tables (be_db s2) = tables (be_db s1)" by auto
qed

theorem reused_reservation_id_witness:
  "\<exists>s1 s2. let rid = fst (next_reservation_id memory_order_service 1 default_app) in
     MysqlInventoryRepository_reserve_stock_items engine rid two_copies engine_backend = Some (True, s1) \<and>
     MysqlInventoryRepository_reserve_stock_items engine rid [\<lparr>im_book_id = 2, im_quantity = 999\<rparr>] s1 = Some (True, s2) \<and>
     en_tables (be_db s2) = en_tables (be_db s1)"
proof -
  let ?rid = "fst (next_reservation_id memory_order_service 1 default_app)"
  obtain n a where n: "os_next_id memory_order_service default_app = (n, a)" by (rule prod.exhaust)
  then have rid: "?rid \<noteq> []" by (simp add: next_reservation_id_def)
  obtain r s1 where r: "MysqlInventoryRepository_reserve_stock_items engine ?rid two_copies engine_backend = Some (r, s1)"
    "reserve_result en_tables en_saved (\<lambda>_. True) (be_db engine_backend) ?rid two_copies (r, be_db s1)"
    using reserve_items_run[OF engine_backend_ok TrueI rid two_copies_ok] by blast
  then have "r" by (simp add: reserve_result_def reserve_two_copies)
  have "[\<lparr>im_book_id = 2, im_quantity = 999\<rparr>] \<noteq> []" "lines_ok [\<lparr>im_book_id = 2, im_quantity = 999\<rparr>]"
    by (simp_all add: lines_ok_def int32_def)
  from reused_reservation_id[OF n n refl engine_backend_ok TrueI TrueI two_copies_ok this] r(1) \<open>r\<close>
  show ?thesis by (auto simp: Let_def)
qed

end
