(* ===== verification/Saga.thy ===== *)
theory Saga
  imports Mysql_Stock Grpc_Failures
begin

text \<open>
  An order as a transaction over two processes: the order server of \<^verbatim>\<open>src/app/grpc/order_server_main.cpp\<close> keeps the
  orders and asks the inventory server of \<^verbatim>\<open>src/app/grpc/inventory_server_main.cpp\<close>, with its MySQL tables, to reserve the
  stock; if the order cannot be stored, it asks it to release the reservation. Calls may get lost on either way. When an order is
  cancelled, its lines are given back one by one, under identifiers that no reservation has.
\<close>

section \<open>Two processes\<close>

text \<open>The state is a pair of what the order server and the inventory server keep; each component works on its half.\<close>

definition on_orders :: "'o OrderRepository \<Rightarrow> ('o \<times> 'i) OrderRepository" where
  "on_orders R =
     \<lparr>or_create_order = (\<lambda>u items total (x, i). case or_create_order R u items total x of (r, x') \<Rightarrow> (r, (x', i))),
      or_list_orders = (\<lambda>(x, i). or_list_orders R x),
      or_find_order = (\<lambda>n (x, i). or_find_order R n x),
      or_cancel_order = (\<lambda>n (x, i). case or_cancel_order R n x of (r, x') \<Rightarrow> (r, (x', i)))\<rparr>"

definition on_inventory :: "'i InventoryRepository \<Rightarrow> ('o \<times> 'i) InventoryRepository" where
  "on_inventory I =
     \<lparr>ir_available_stock = (\<lambda>b (x, i). ir_available_stock I b i),
      ir_add_stock = (\<lambda>b q (x, i). case ir_add_stock I b q i of (r, i') \<Rightarrow> (r, (x, i'))),
      ir_reserve_stock = (\<lambda>b q (x, i). case ir_reserve_stock I b q i of (r, i') \<Rightarrow> (r, (x, i'))),
      ir_release_stock = (\<lambda>b q (x, i). (x, ir_release_stock I b q i)),
      ir_reserve_stock_items = (\<lambda>rid items (x, i). case ir_reserve_stock_items I rid items i of (r, i') \<Rightarrow> (r, (x, i'))),
      ir_release_stock_items = (\<lambda>rid items (x, i). (x, ir_release_stock_items I rid items i))\<rparr>"

definition on_counter :: "('o \<Rightarrow> u64 \<times> 'o) \<Rightarrow> 'o \<times> 'i \<Rightarrow> u64 \<times> ('o \<times> 'i)" where
  "on_counter next_id s = (case s of (x, i) \<Rightarrow> case next_id x of (n, x') \<Rightarrow> (n, (x', i)))"

definition order_deployment ::
  "('o \<times> 'i \<Rightarrow> fate) \<Rightarrow> ('o \<times> 'i \<Rightarrow> fate) \<Rightarrow> ('o \<Rightarrow> u64 \<times> 'o) \<Rightarrow> ('o \<times> 'i) BookRepository \<Rightarrow> 'i InventoryRepository \<Rightarrow> 'o OrderRepository \<Rightarrow>
     ('o \<Rightarrow> u64 \<times> 'o) \<Rightarrow> ('o \<times> 'i) OrderService" where
  "order_deployment book_net net gateway_id B I R next_id =
     order_server_service book_net net (on_counter gateway_id) B (on_inventory I) (on_orders R) (on_counter next_id)"

lemma current_items_on_inventory:
  "current_items (on_inventory I) request response (x, i) = current_items I request response i"
  by (induction request arbitrary: response)
    (simp_all add: append_current_item_def InventoryService_available_stock_def on_inventory_def split: option.splits sum.splits)

lemma reserve_on_inventory:
  "ReserveInventory (on_inventory I) rid request (x, i) = (case ReserveInventory I rid request i of (r, i') \<Rightarrow> (r, (x, i')))"
proof -
  have "ir_reserve_stock_items (on_inventory I) rid items (x, i) =
    (case ir_reserve_stock_items I rid items i of (r, i') \<Rightarrow> (r, (x, i')))" for items
    by (simp add: on_inventory_def)
  then show ?thesis
    by (simp add: ReserveInventory_def InventoryService_reserve_stock_items_def current_items_on_inventory
        split: prod.splits sum.splits bool.splits)
qed

lemma release_on_inventory:
  "ReleaseInventory (on_inventory I) rid request (x, i) = (case ReleaseInventory I rid request i of (r, i') \<Rightarrow> (r, (x, i')))"
proof -
  have "ir_release_stock_items (on_inventory I) rid items (x, i) = (x, ir_release_stock_items I rid items i)" for items
    by (simp add: on_inventory_def)
  then show ?thesis
    by (simp add: ReleaseInventory_def InventoryService_release_stock_items_def current_items_on_inventory Let_def
        split: sum.splits)
qed

section \<open>The handlers of the inventory server on MySQL\<close>

lemma mutations_of_to_proto:
  assumes "\<forall>m \<in> set items. int32 (im_book_id m)"
  shows "mutations_of_proto (mutations_to_proto items) acc =
    (if \<forall>m \<in> set items. im_book_id m > 0 \<and> im_quantity m > 0 then Inr (acc @ items)
     else Inl (RpcStatus INVALID_ARGUMENT ''book_id and quantity must be positive''))"
  using assms by (induction items arbitrary: acc) (auto simp: mutations_to_proto_def wrap32_id)

lemma stock_read:
  assumes reader: "\<And>c. stock_reader M c tables saved up good" and i: "stock_backend M tables saved up good i" "up (be_db i)"
    and b: "b > 0" "it_available (tables (be_db i)) b \<noteq> None"
  shows "ir_available_stock (mysql_inventory_repository M) b i \<noteq> None"
proof -
  let ?read = "\<lambda>con. select_rows M con (stock_sql b @ '' LIMIT 1'') None
    (\<lambda>rows d. (case rows of [] \<Rightarrow> None | r # _ \<Rightarrow> Some (cell_int r 0), d))"
  have saved: "saved (be_db i) = None" using i by (simp add: stock_backend_def)
  obtain con p' r d where run: "inventory_db M con tables saved up good" "?read con (be_db i) = (r, d)"
    "with_mysql None (\<lambda>con. on_db (?read con)) i = Some (r, i\<lparr>be_pool := Some p', be_db := d\<rparr>)"
    by (rule stock_backend_runs[OF i(1), where f = ?read and none = None])
  obtain ok d1 where q: "mysql_query M con (stock_sql b @ '' LIMIT 1'') (be_db i) = (ok, d1)" by (rule prod.exhaust)
  from stock_reader.read[OF reader saved b(1) i(2) q]
  have ok: "ok" "up d1" "answers M con tables saved up (stock_rows b (tables (be_db i))) d1" by simp_all
  obtain v where "it_available (tables (be_db i)) b = Some v" using b(2) by auto
  with ok(2,3) obtain rows d2 where "my_store_result M con d1 = (Some rows, d2)" "mset rows = mset [[Some (to_string v)]]"
    by (cases "my_store_result M con d1") (auto simp: answers_def stock_rows_def split: option.splits)
  with q ok(1) run(2) have "r \<noteq> None" by (auto simp: select_rows_def)
  moreover have "be_pool i \<noteq> None" using i by (auto simp: stock_backend_def)
  ultimately show ?thesis
    using run(3) b(1) by (simp add: mysql_inventory_repository_def MysqlInventoryRepository_available_stock_def)
qed

lemma current_items_read:
  assumes "\<And>m. m \<in> set request \<Longrightarrow> ir_available_stock I (wrap32 (pm_book_id m)) i \<noteq> None"
  shows "\<not> isl (current_items I request response i)"
  using assms
  by (induction request arbitrary: response)
    (auto simp: append_current_item_def InventoryService_available_stock_def split: option.splits)

lemma reserve_handler:
  assumes reader: "\<And>c. stock_reader M c tables saved up good" and i: "stock_backend M tables saved up good i" "up (be_db i)"
    and rid: "good rid" "rid \<noteq> []" "it_status (tables (be_db i)) rid = None"
    and items: "items \<noteq> []" "\<forall>m \<in> set items. int32 (im_book_id m) \<and> int32 (im_quantity m)"
  obtains res i' where "ReserveInventory (mysql_inventory_repository M) rid (mutations_to_proto items) i = (res, i')"
    "stock_backend M tables saved up good i'" "up (be_db i')"
    "if isl res then tables (be_db i') = tables (be_db i)
     else lines_ok items \<and> reserve_tables rid items (tables (be_db i)) = Some (tables (be_db i'))"
proof (cases "\<forall>m \<in> set items. im_book_id m > 0 \<and> im_quantity m > 0")
  case False
  have "ReserveInventory (mysql_inventory_repository M) rid (mutations_to_proto items) i =
      (Inl (RpcStatus INVALID_ARGUMENT ''book_id and quantity must be positive''), i)"
    using items rid False by (simp add: ReserveInventory_def mutations_of_to_proto) (auto simp: mutations_to_proto_def)
  with i show thesis by (intro that) auto
next
  case True
  with items have ok: "lines_ok items" by (simp add: lines_ok_def)
  obtain r i' where run: "MysqlInventoryRepository_reserve_stock_items M rid items i = Some (r, i')"
    "reserve_result tables saved up (be_db i) rid items (r, be_db i')"
    "stock_backend M tables saved up good i'" "up (be_db i')"
    using reserve_items_run[OF i(1) rid(1,2) items(1) ok] i(2) by metis
  let ?request = "mutations_to_proto items" and ?I = "mysql_inventory_repository M"
  have h: "ReserveInventory ?I rid ?request i =
    (if r then (current_items ?I ?request [] i', i') else (Inl (RpcStatus FAILED_PRECONDITION ''insufficient stock''), i'))"
    using items rid True run(1)
    by (simp add: ReserveInventory_def mutations_of_to_proto InventoryService_reserve_stock_items_def)
      (simp add: mutations_to_proto_def mysql_inventory_repository_def split: bool.splits)
  show thesis
  proof (cases r)
    case False
    with h run i(2) show thesis by (intro that[of _ i']) (auto simp: reserve_result_def)
  next
    case True
    then have t: "reserve_tables rid items (tables (be_db i)) = Some (tables (be_db i'))" using run(2) by (simp add: reserve_result_def)
    have "it_available (tables (be_db i')) (im_book_id m) \<noteq> None" if "m \<in> set items" for m
      using t that rid(3) by (cases rule: reserve_tables_cases) (auto simp: servable_def deduct_def dest!: bspec[of _ _ m] split: option.split_asm)
    then have "ir_available_stock ?I (wrap32 (im_book_id m)) i' \<noteq> None" if "m \<in> set items" for m
      using ok that stock_read[OF reader run(3,4), of "im_book_id m"] by (simp add: lines_ok_def wrap32_id del: not_None_eq)
    then have "\<not> isl (current_items ?I ?request [] i')"
      by (intro current_items_read) (auto simp: mutations_to_proto_def)
    with True h t ok run show thesis by (intro that[of _ i']) auto
  qed
qed

lemma release_handler:
  assumes i: "stock_backend M tables saved up good i" "up (be_db i)" and rid: "good rid" "rid \<noteq> []"
    and items: "items \<noteq> []" "lines_ok items"
  obtains res i' where "ReleaseInventory (mysql_inventory_repository M) rid (mutations_to_proto items) i = (res, i')"
    "stock_backend M tables saved up good i'" "up (be_db i')" "tables (be_db i') = release_tables rid (tables (be_db i))"
proof -
  obtain i' where run: "MysqlInventoryRepository_release_stock_items M rid items i = Some ((), i')"
    "release_result tables saved up (be_db i) rid ((), be_db i')"
    "stock_backend M tables saved up good i'" "up (be_db i')"
    using release_items_run[OF i(1) rid] i(2) by metis
  let ?request = "mutations_to_proto items" and ?I = "mysql_inventory_repository M"
  have "ReleaseInventory ?I rid ?request i = (current_items ?I ?request [] i', i')"
    using items rid run(1)
    by (simp add: ReleaseInventory_def mutations_of_to_proto InventoryService_release_stock_items_def lines_ok_def Let_def)
      (simp add: mutations_to_proto_def mysql_inventory_repository_def)
  with run i(2) show thesis by (intro that) (auto simp: release_result_def)
qed

section \<open>The calls of the order server\<close>

lemma deployment_simps:
  "os_order_repository (order_deployment bn net g B I R n) = on_orders R"
  "next_reservation_id (order_deployment bn net g B I R n) u (x, i) =
     (case n x of (k, x') \<Rightarrow> (''order-'' @ to_string u @ ''-'' @ to_string (uint k), (x', i)))"
  "ic_reserve_stock_items (os_inventory_client (order_deployment bn net g B I R n)) rid items (x, i) =
     (case deliver (net (x, i)) (ReserveInventory I rid (mutations_to_proto items)) i of (r, i') \<Rightarrow> (\<not> isl r, (x, i')))"
  "ic_release_stock_items (os_inventory_client (order_deployment bn net g B I R n)) rid items (x, i) =
     (x, snd (deliver (net (x, i)) (ReleaseInventory I rid (mutations_to_proto items)) i))"
  by (auto simp: order_deployment_def order_server_service_def next_reservation_id_def on_counter_def GrpcInventoryClient_def
      Grpc_reserve_stock_items_def Grpc_release_stock_items_def inventory_server_def deliver_def reserve_on_inventory
      release_on_inventory unavailable_def split: prod.splits fate.splits)

lemma reserve_call:
  assumes "\<forall>c. stock_reader M c tables saved up good" "stock_backend M tables saved up good i" "up (be_db i)"
    and "good rid" "rid \<noteq> []" "it_status (tables (be_db i)) rid = None"
    and "items \<noteq> []" "\<forall>m \<in> set items. int32 (im_book_id m) \<and> int32 (im_quantity m)"
  obtains res i' where "deliver f (ReserveInventory (mysql_inventory_repository M) rid (mutations_to_proto items)) i = (res, i')"
    "stock_backend M tables saved up good i'" "up (be_db i')"
    "isl res \<and> tables (be_db i') = tables (be_db i) \<or>
     (isl res \<longrightarrow> f \<noteq> Delivered) \<and> lines_ok items \<and> reserve_tables rid items (tables (be_db i)) = Some (tables (be_db i'))"
proof -
  obtain res i' where h: "ReserveInventory (mysql_inventory_repository M) rid (mutations_to_proto items) i = (res, i')"
    "stock_backend M tables saved up good i'" "up (be_db i')"
    "if isl res then tables (be_db i') = tables (be_db i)
     else lines_ok items \<and> reserve_tables rid items (tables (be_db i)) = Some (tables (be_db i'))"
    by (rule reserve_handler[OF _ assms(2-8)]) (use assms(1) in blast)
  show thesis
    by (cases f) (use h assms(2,3) in \<open>auto simp: deliver_def unavailable_def split: if_splits
      intro: that[of res i'] that[of unavailable i] that[of unavailable i', unfolded unavailable_def] that[of unavailable i, unfolded unavailable_def]\<close>)
qed

lemma release_call:
  assumes "stock_backend M tables saved up good i" "up (be_db i)" "good rid" "rid \<noteq> []" "items \<noteq> []" "lines_ok items"
  obtains res i' where "deliver f (ReleaseInventory (mysql_inventory_repository M) rid (mutations_to_proto items)) i = (res, i')"
    "stock_backend M tables saved up good i'" "up (be_db i')"
    "tables (be_db i') = release_tables rid (tables (be_db i)) \<or> f \<noteq> Delivered \<and> tables (be_db i') = tables (be_db i)"
proof -
  obtain res i' where h: "ReleaseInventory (mysql_inventory_repository M) rid (mutations_to_proto items) i = (res, i')"
    "stock_backend M tables saved up good i'" "up (be_db i')" "tables (be_db i') = release_tables rid (tables (be_db i))"
    by (rule release_handler[OF assms])
  show thesis
    by (cases f) (use h assms(1,2) in \<open>auto simp: deliver_def unavailable_def
      intro: that[of res i'] that[of unavailable i', unfolded unavailable_def] that[of unavailable i, unfolded unavailable_def]\<close>)
qed

section \<open>The compensated order\<close>

lemma reservation_ints:
  "\<forall>r \<in> set items. int32 (oir_book_id r) \<and> int32 (oir_quantity r) \<Longrightarrow>
     \<forall>m \<in> set (reservation_items_of items). int32 (im_book_id m) \<and> int32 (im_quantity m)"
  by (auto simp: reservation_items_of_def)

text \<open>What the tables say about a reservation is what the stock shows.\<close>

definition ledger_true :: "string \<Rightarrow> InventoryMutation list \<Rightarrow> InventoryTables \<Rightarrow> InventoryTables \<Rightarrow> bool" where
  "ledger_true rid batch t t' \<longleftrightarrow>
     it_available t' =
       (if it_status t' rid = Some ''reserved'' then deduct (it_available t) batch else it_available t)"

lemma ledger_reserved:
  assumes "it_status t rid = None" "reserve_tables rid batch t = Some t1"
  shows "ledger_true rid batch t t1 \<and> it_status t1 rid = Some ''reserved''"
  using assms(2,1) by (cases rule: reserve_tables_cases) (auto simp: ledger_true_def)

lemma ledger_released:
  assumes "it_status t rid = None" "reserve_tables rid batch t = Some t1" "\<forall>b v. it_available t b = Some v \<longrightarrow> v < 2 ^ 32"
  shows "ledger_true rid batch t (release_tables rid t1) \<and> it_status (release_tables rid t1) rid = Some ''released''"
  using release_undoes_reserve[OF assms(2,1,3)] by (simp add: ledger_true_def)

text \<open>An example: the book is known and in stock, but the order cannot be stored.\<close>

definition refusing_orders :: "unit OrderRepository" where
  "refusing_orders =
     \<lparr>or_create_order = (\<lambda>u items total s. (None, s)), or_list_orders = (\<lambda>s. []), or_find_order = (\<lambda>n s. None),
      or_cancel_order = (\<lambda>n s. (None, s))\<rparr>"

definition one_title :: "(unit \<times> (nat, Engine) Backend) BookRepository" where
  "one_title =
     \<lparr>br_list_books = (\<lambda>s. []),
      br_find_book = (\<lambda>b s. Some \<lparr>bk_id = b, bk_title = ''SICP'', bk_author = ''Abelson'', bk_price_cents = 4500, bk_stock = 5,
        bk_status = ''active''\<rparr>),
      br_create_book = (\<lambda>b s. (None, s)), br_update_book = (\<lambda>b u s. (None, s))\<rparr>"

definition refusing_deployment :: "(unit \<times> (nat, Engine) Backend) OrderService" where
  "refusing_deployment =
     order_deployment (\<lambda>_. Delivered) (\<lambda>_. Delivered) (\<lambda>_. (0, ())) one_title (mysql_inventory_repository engine) refusing_orders (\<lambda>_. (7, ()))"

lemma refusing_run:
  "fst (OrderService_create_order refusing_deployment 1 [\<lparr>oir_book_id = 1, oir_quantity = 2\<rparr>] ((), engine_backend)) = None \<and>
   it_status (en_tables (be_db (snd (snd (OrderService_create_order refusing_deployment 1
     [\<lparr>oir_book_id = 1, oir_quantity = 2\<rparr>] ((), engine_backend)))))) ''order-1-7'' = Some ''released''"
  by code_simp

section \<open>Cancelling\<close>

text \<open>A release under an identifier without a reservation changes no table, whatever its items are.\<close>

lemma release_unknown:
  assumes i: "stock_backend M tables saved up good i" "up (be_db i)" and rid: "good rid" "it_status (tables (be_db i)) rid = None"
  obtains res i' where "ReleaseInventory (mysql_inventory_repository M) rid request i = (res, i')"
    "stock_backend M tables saved up good i'" "up (be_db i')" "tables (be_db i') = tables (be_db i)"
proof (cases "request = [] \<or> rid = [] \<or> isl (mutations_of_proto request [])")
  case True
  then have "\<exists>res. ReleaseInventory (mysql_inventory_repository M) rid request i = (res, i)"
    by (cases "mutations_of_proto request []") (auto simp: ReleaseInventory_def)
  with i show thesis using that by blast
next
  case False
  then obtain items where items: "mutations_of_proto request [] = Inr items" by (cases "mutations_of_proto request []") auto
  from False have ne: "rid \<noteq> []" by simp
  obtain i' where run: "MysqlInventoryRepository_release_stock_items M rid items i = Some ((), i')"
    "release_result tables saved up (be_db i) rid ((), be_db i')" "stock_backend M tables saved up good i'" "up (be_db i')"
    using release_items_run[OF i(1) rid(1) ne] i(2) by metis
  then have "tables (be_db i') = tables (be_db i)"
    using i(2) rid(2) by (simp add: release_result_def release_tables_def)
  moreover have "\<exists>res. ReleaseInventory (mysql_inventory_repository M) rid request i = (res, i')"
    using False items run(1)
    by (auto simp: ReleaseInventory_def InventoryService_release_stock_items_def mysql_inventory_repository_def Let_def)
  ultimately show thesis using run(3,4) that by blast
qed

lemma release_stock_call:
  assumes i: "stock_backend M tables saved up good i" "up (be_db i)"
    and fresh: "\<forall>n :: u64. good (''gateway-'' @ to_string (uint n)) \<and> it_status (tables (be_db i)) (''gateway-'' @ to_string (uint n)) = None"
  obtains x' i' where "ic_release_stock (os_inventory_client (order_deployment bn net g B (mysql_inventory_repository M) R nx)) b q (x, i) = (x', i')"
    "stock_backend M tables saved up good i'" "up (be_db i')" "tables (be_db i') = tables (be_db i)"
proof -
  obtain n x1 where n: "g x = (n, x1)" by (rule prod.exhaust)
  let ?rid = "''gateway-'' @ to_string (uint n)" and ?request = "mutations_to_proto [\<lparr>im_book_id = b, im_quantity = q\<rparr>]"
  obtain res i1 where r: "ReleaseInventory (mysql_inventory_repository M) ?rid ?request i = (res, i1)"
    "stock_backend M tables saved up good i1" "up (be_db i1)" "tables (be_db i1) = tables (be_db i)"
    by (rule release_unknown[OF i]) (use fresh in auto)
  have "ic_release_stock (os_inventory_client (order_deployment bn net g B (mysql_inventory_repository M) R nx)) b q (x, i) =
      (x1, if net (x1, i) = RequestLost then i else i1)"
    using n r(1)
    by (cases "net (x1, i)") (simp_all add: order_deployment_def order_server_service_def GrpcInventoryClient_def Grpc_release_stock_def
        gateway_reservation_id_def on_counter_def Grpc_release_stock_items_def inventory_server_def deliver_def release_on_inventory)
  then show thesis by (rule that) (use r i in auto)
qed

lemma release_order_items_call:
  assumes "stock_backend M tables saved up good i" "up (be_db i)"
    and "\<forall>n :: u64. good (''gateway-'' @ to_string (uint n)) \<and> it_status (tables (be_db i)) (''gateway-'' @ to_string (uint n)) = None"
  shows "\<exists>x' i'. release_order_items (os_inventory_client (order_deployment bn net g B (mysql_inventory_repository M) R nx)) items (x, i) = (x', i') \<and>
    tables (be_db i') = tables (be_db i)"
  using assms
proof (induction items arbitrary: x i)
  case Nil
  then show ?case by (simp add: release_order_items_def)
next
  case (Cons item items)
  obtain x1 i1 where one: "ic_release_stock (os_inventory_client (order_deployment bn net g B (mysql_inventory_repository M) R nx))
      (oi_book_id item) (oi_quantity item) (x, i) = (x1, i1)"
    "stock_backend M tables saved up good i1" "up (be_db i1)" "tables (be_db i1) = tables (be_db i)"
    by (rule release_stock_call[OF Cons.prems])
  from Cons.IH[OF one(2,3), of x1] Cons.prems(3) one show ?case by (simp add: release_order_items_def)
qed

section \<open>Properties\<close>

text \<open>C10: An order over two processes is all or nothing, as far as the calls arrive. Whichever calls or answers get lost, the stock
  is reduced by the whole order exactly if the inventory server's own table of reservations says so, an accepted order is backed
  by such a reservation, and the server is left as it was found, at rest. If every call arrives, a refused order leaves no
  reservation behind, whether it was refused for its lines, for lack of stock, or because it could not be stored.\<close>

theorem order_compensated:
  assumes "\<forall>c. stock_reader M c tables saved up good" "stock_backend M tables saved up good i" "up (be_db i)"
    and "\<forall>b v. it_available (tables (be_db i)) b = Some v \<longrightarrow> v < 2 ^ 32"
    and "S = order_deployment book_net net gateway_id B (mysql_inventory_repository M) R next_id"
    and "rid = fst (next_reservation_id S u (x, i))" "good rid" "it_status (tables (be_db i)) rid = None"
    and "\<forall>r \<in> set items. int32 (oir_book_id r) \<and> int32 (oir_quantity r)"
    and "OrderService_create_order S u items (x, i) = (r, (x', i'))"
  shows "ledger_true rid (reservation_items_of items) (tables (be_db i)) (tables (be_db i')) \<and>
    (r \<noteq> None \<longrightarrow> it_status (tables (be_db i')) rid = Some ''reserved'') \<and>
    (r = None \<and> (\<forall>s. net s = Delivered) \<longrightarrow> it_status (tables (be_db i')) rid \<noteq> Some ''reserved'') \<and>
    stock_backend M tables saved up good i' \<and> up (be_db i')"
proof (cases "u \<le> 0 \<or> items = [] \<or> price_items_loop (os_book_client S) items [] 0 (x, i) = None")
  case True
  then have "r = None" "i' = i" using assms(10) by (auto simp: OrderService_create_order_def split: if_splits)
  with assms(2,3,8) show ?thesis by (simp add: ledger_true_def)
next
  case False
  then obtain priced_items total where p: "\<not> (u \<le> 0 \<or> items = [])"
    "price_items_loop (os_book_client S) items [] 0 (x, i) = Some (priced_items, total)" by auto
  let ?batch = "reservation_items_of items" and ?I = "mysql_inventory_repository M" and ?t = "tables (be_db i)"
  obtain k x1 where k: "next_id x = (k, x1)" by (rule prod.exhaust)
  with assms(5,6) have rid: "next_reservation_id S u (x, i) = (rid, (x1, i))" "rid \<noteq> []" by (simp_all add: deployment_simps)
  have batch: "?batch \<noteq> []" using p(1) by (simp add: reservation_items_of_def)
  obtain res i1 where res: "deliver (net (x1, i)) (ReserveInventory ?I rid (mutations_to_proto ?batch)) i = (res, i1)"
    and i1: "stock_backend M tables saved up good i1" "up (be_db i1)" and
    out: "isl res \<and> tables (be_db i1) = ?t \<or>
      (isl res \<longrightarrow> net (x1, i) \<noteq> Delivered) \<and> lines_ok ?batch \<and> reserve_tables rid ?batch ?t = Some (tables (be_db i1))"
    by (rule reserve_call[OF assms(1-3,7) rid(2) assms(8) batch reservation_ints[OF assms(9)]])
  obtain o1 x2 where store: "or_create_order R u priced_items total x1 = (o1, x2)" by (rule prod.exhaust)
  obtain res2 i2 where res2: "deliver (net (x2, i1)) (ReleaseInventory ?I rid (mutations_to_proto ?batch)) i1 = (res2, i2)"
    by (rule prod.exhaust)
  have run: "(r, (x', i')) = (if isl res then (None, (x1, i1)) else if o1 = None then (None, (x2, i2)) else (o1, (x2, i1)))"
    using assms(10) p rid res store res2
    by (auto simp: OrderService_create_order_def assms(5) deployment_simps Let_def on_orders_def split: option.splits)
  show ?thesis
  proof (cases "isl res")
    case True
    with run have "r = None" "i' = i1" by simp_all
    with True out i1 assms(8) ledger_reserved[OF assms(8), of ?batch "tables (be_db i1)"] show ?thesis
      by (auto simp: ledger_true_def)
  next
    case False
    with out have taken: "lines_ok ?batch" "reserve_tables rid ?batch ?t = Some (tables (be_db i1))" by simp_all
    note reserved = ledger_reserved[OF assms(8) taken(2)]
    obtain res3 i3 where "deliver (net (x2, i1)) (ReleaseInventory ?I rid (mutations_to_proto ?batch)) i1 = (res3, i3)" and
      i3: "stock_backend M tables saved up good i3" "up (be_db i3)" and
      rel: "tables (be_db i3) = release_tables rid (tables (be_db i1)) \<or>
        net (x2, i1) \<noteq> Delivered \<and> tables (be_db i3) = tables (be_db i1)"
      by (rule release_call[OF i1 assms(7) rid(2) batch taken(1)])
    with res2 have "i3 = i2" by simp
    with False run reserved ledger_released[OF assms(8) taken(2) assms(4)] i1 i3 rel show ?thesis
      by (cases o1) auto
  qed
qed

theorem order_compensated_witness:
  "\<exists>i'. OrderService_create_order refusing_deployment 1 [\<lparr>oir_book_id = 1, oir_quantity = 2\<rparr>] ((), engine_backend) = (None, ((), i')) \<and>
     it_status (en_tables (be_db i')) ''order-1-7'' = Some ''released'' \<and> it_available (en_tables (be_db i')) = it_available two_books"
proof -
  let ?items = "[\<lparr>oir_book_id = 1, oir_quantity = 2\<rparr>]"
  obtain r x' i' where run: "OrderService_create_order refusing_deployment 1 ?items ((), engine_backend) = (r, (x', i'))"
    by (metis prod_cases3)
  with refusing_run have r: "r = None" "it_status (en_tables (be_db i')) ''order-1-7'' = Some ''released''" by simp_all
  have "''order-1-7'' = fst (next_reservation_id refusing_deployment 1 ((), engine_backend))"
    "\<forall>b v. it_available (en_tables (be_db engine_backend)) b = Some v \<longrightarrow> v < 2 ^ 32"
    "it_status (en_tables (be_db engine_backend)) ''order-1-7'' = None"
    "\<forall>r \<in> set ?items. int32 (oir_book_id r) \<and> int32 (oir_quantity r)"
    by code_simp (simp_all add: engine_backend_def two_books_def int32_def)
  note order_compensated[OF allI[OF engine_stock.stock_reader_axioms] engine_backend_ok TrueI this(2) refusing_deployment_def
      this(1) TrueI this(3,4) run]
  with r run show ?thesis by (simp add: ledger_true_def engine_backend_def)
qed

text \<open>C39: Cancelling an order never restocks it, where the order server works on the remote inventory with MySQL. Each line is given
  back under a new identifier \<^verbatim>\<open>gateway-n\<close>; as long as no reservation has such an identifier (the code makes none), the
  answer is the cancelled order of the order repository and the tables of the inventory stay as they are, whatever
  the counter gives and whichever calls arrive.\<close>

theorem cancelled_order_not_restocked:
  assumes "stock_backend M tables saved up good i" "up (be_db i)"
    and "\<forall>n :: u64. good (''gateway-'' @ to_string (uint n)) \<and> it_status (tables (be_db i)) (''gateway-'' @ to_string (uint n)) = None"
    and "S = order_deployment book_net net gateway_id B (mysql_inventory_repository M) R next_id"
    and "OrderService_cancel_order S n (x, i) = (r, (x', i'))"
  shows "tables (be_db i') = tables (be_db i) \<and>
    r = (if n \<le> 0 then None
         else case or_find_order R n x of
           None \<Rightarrow> None
         | Some order \<Rightarrow> if ord_status order = ''cancelled'' then Some order else fst (or_cancel_order R n x))"
proof -
  obtain c x1 where c: "or_cancel_order R n x = (c, x1)" by (rule prod.exhaust)
  have keeps: "tables (be_db i2) = tables (be_db i)"
    if "release_order_items (os_inventory_client S) items (x1, i) = (x2, i2)" for items x2 i2
    using that release_order_items_call[OF assms(1-3), where items = items and x = x1 and bn = book_net and net = net and g = gateway_id
        and B = B and R = R and nx = next_id] unfolding assms(4) by auto
  have "or_find_order (os_order_repository S) n (x, i) = or_find_order R n x" "or_cancel_order (os_order_repository S) n (x, i) = (c, (x1, i))"
    by (simp_all add: assms(4) deployment_simps on_orders_def c)
  with assms(5) c keeps show ?thesis by (auto simp: OrderService_cancel_order_def split: if_splits option.splits)
qed

text \<open>An example: an order of two copies of book 1, of which the tables have five.\<close>

definition sold_order :: Order where
  "sold_order = \<lparr>ord_id = 4, ord_user_id = 1, ord_items = [\<lparr>oi_book_id = 1, oi_quantity = 2, oi_unit_price_cents = 4500\<rparr>],
     ord_total_cents = 9000, ord_status = ''created''\<rparr>"

definition one_order :: "unit OrderRepository" where
  "one_order =
     \<lparr>or_create_order = (\<lambda>u items total s. (None, s)), or_list_orders = (\<lambda>s. [sold_order]), or_find_order = (\<lambda>n s. Some sold_order),
      or_cancel_order = (\<lambda>n s. (Some (sold_order\<lparr>ord_status := ''cancelled''\<rparr>), s))\<rparr>"

theorem cancelled_order_not_restocked_witness:
  "\<exists>s'. OrderService_cancel_order (order_deployment (\<lambda>_. Delivered) (\<lambda>_. Delivered) (\<lambda>_. (7, ())) one_title (mysql_inventory_repository engine)
       one_order (\<lambda>_. (1, ()))) 4 ((), engine_backend) = (Some (sold_order\<lparr>ord_status := ''cancelled''\<rparr>), ((), s')) \<and>
     it_available (en_tables (be_db s')) 1 = Some 5"
proof -
  let ?S = "order_deployment (\<lambda>_. Delivered) (\<lambda>_. Delivered) (\<lambda>_. (7, ())) one_title (mysql_inventory_repository engine) one_order (\<lambda>_. (1, ()))"
  obtain r x' i' where run: "OrderService_cancel_order ?S 4 ((), engine_backend) = (r, (x', i'))" by (metis prod_cases3)
  have "\<forall>n :: u64. True \<and> it_status (en_tables (be_db engine_backend)) (''gateway-'' @ to_string (uint n)) = None"
    "it_available (en_tables (be_db engine_backend)) 1 = Some 5"
    by (simp_all add: engine_backend_def two_books_def)
  with cancelled_order_not_restocked[OF engine_backend_ok TrueI this(1) refl run] run show ?thesis
    by (simp add: one_order_def sold_order_def)
qed

end
