(* ===== verification/User_Cache.thy ===== *)
theory User_Cache
  imports Mysql_Inventory Inventory_Engine Sha256
begin

text \<open>
  \<^verbatim>\<open>src/db/user_cache.cpp\<close>, a copy of the table \<^verbatim>\<open>user\<close> in memory, and \<^verbatim>\<open>src/db/redis_user_cache.cpp\<close>, which keeps
  password hashes in Redis and asks MySQL when Redis has no answer. Redis is a parameter: its calls answer or throw. The laws of the
  table are the locale \<open>user_table\<close>, those of Redis the locale \<open>redis_store\<close>.
\<close>

section \<open>The copy in memory\<close>

type_synonym UserCache = "string \<rightharpoonup> string"

text \<open>\<^verbatim>\<open>users_.emplace(row[0], row[1])\<close> keeps the first entry of a name.\<close>

definition UserCache_emplace :: "UserCache \<Rightarrow> row \<Rightarrow> UserCache" where
  "UserCache_emplace users r =
     (case r of
        [Some user, Some passwd] \<Rightarrow>
          if users (c_str user) = None then users(c_str user \<mapsto> c_str passwd) else users
      | _ \<Rightarrow> users)"

definition UserCache_load_db :: "('c, 'd) Mysql \<Rightarrow> 'c \<Rightarrow> UserCache \<Rightarrow> 'd \<Rightarrow> UserCache \<times> 'd" where
  "UserCache_load_db M con users d =
     select_rows M con ''SELECT username,passwd FROM user'' users
       (\<lambda>rows d1. (foldl UserCache_emplace (\<lambda>_. None) rows, d1)) d"

text \<open>\<open>None\<close>: no pool, no connection (the code calls \<^verbatim>\<open>mysql_query\<close> with a null pointer), or a wait that does not end.\<close>

definition UserCache_load ::
  "('c, 'd) Mysql \<Rightarrow> UserCache \<Rightarrow> ('c, 'd) Backend \<Rightarrow> (UserCache \<times> ('c, 'd) Backend) option" where
  "UserCache_load M users s =
     (case be_pool s of
        None \<Rightarrow> None
      | Some p \<Rightarrow> if m_shutdown p then None else with_mysql users (\<lambda>con. on_db (UserCache_load_db M con users)) s)"

definition UserCache_authenticate :: "UserCache \<Rightarrow> string \<Rightarrow> string \<Rightarrow> bool" where
  "UserCache_authenticate users user pass = (let hashed = sha256_hex pass in users user = Some hashed)"

text \<open>Registration looks for the name twice: under the shared lock, and under the exclusive lock in which it then writes. Another
  thread can register between the two.\<close>

definition UserCache_register_begin :: "UserCache \<Rightarrow> string \<Rightarrow> bool" where
  "UserCache_register_begin users user \<longleftrightarrow> users user = None"

definition UserCache_register_end ::
  "('c, 'd) Mysql \<Rightarrow> 'c \<Rightarrow> string \<Rightarrow> string \<Rightarrow> UserCache \<Rightarrow> 'd \<Rightarrow> bool \<times> UserCache \<times> 'd" where
  "UserCache_register_end M db user pass users d =
     (let hashed = sha256_hex pass in
      if users user \<noteq> None then (False, users, d)
      else case mysql_query M db (insert_user_sql (escape_sql M db user) (escape_sql M db hashed)) d of
        (False, d1) \<Rightarrow> (False, users, d1)
      | (True, d1) \<Rightarrow> (True, users(user \<mapsto> hashed), d1))"

definition UserCache_register_user ::
  "('c, 'd) Mysql \<Rightarrow> 'c \<Rightarrow> string \<Rightarrow> string \<Rightarrow> UserCache \<Rightarrow> 'd \<Rightarrow> bool \<times> UserCache \<times> 'd" where
  "UserCache_register_user M db user pass users d =
     (if UserCache_register_begin users user then UserCache_register_end M db user pass users d else (False, users, d))"

section \<open>Redis\<close>

text \<open>\<^verbatim>\<open>get\<close> and \<^verbatim>\<open>set\<close> of the client; \<open>None\<close> and \<open>False\<close> are exceptions.\<close>

record 'r Redis =
  rd_get :: "string \<Rightarrow> 'r \<Rightarrow> string option option \<times> 'r"
  rd_set :: "string \<Rightarrow> string \<Rightarrow> int \<Rightarrow> 'r \<Rightarrow> bool \<times> 'r"
  rd_ping :: "'r \<Rightarrow> bool \<times> 'r"

definition kCacheTtlSeconds :: int where
  "kCacheTtlSeconds = 7 * 24 * 3600"

definition kKeyPrefix :: string where
  "kKeyPrefix = ''booktrade:user:cred:''"

definition make_key :: "string \<Rightarrow> string" where
  "make_key user = kKeyPrefix @ user"

definition find_passwd_sql :: "string \<Rightarrow> string" where
  "find_passwd_sql escaped = ''SELECT passwd FROM user WHERE username='' @ sql_quote escaped @ '' LIMIT 1''"

definition query_mysql_password ::
  "('c, 'd) Mysql \<Rightarrow> string \<Rightarrow> ('c, 'd) Backend \<Rightarrow> (string \<times> ('c, 'd) Backend) option" where
  "query_mysql_password M user s =
     with_mysql [] (\<lambda>con. on_db (
       select_rows M con (find_passwd_sql (escape_sql M con user)) []
         (\<lambda>rows d. (case rows of [] \<Rightarrow> [] | r # _ \<Rightarrow> cell_text r 0, d)))) s"

definition RedisUserCache_ping :: "'r Redis \<Rightarrow> 'r \<Rightarrow> bool \<times> 'r" where
  "RedisUserCache_ping R r = rd_ping R r"

text \<open>\<^verbatim>\<open>load\<close> only remembers the pool.\<close>

definition RedisUserCache_load :: "'p option \<Rightarrow> 'p option \<Rightarrow> 'p option" where
  "RedisUserCache_load impl_pool pool = (if impl_pool = None then pool else impl_pool)"

definition RedisUserCache_authenticate ::
  "'r Redis \<Rightarrow> ('c, 'd) Mysql \<Rightarrow> string \<Rightarrow> string \<Rightarrow> 'r \<Rightarrow> ('c, 'd) Backend \<Rightarrow> (bool \<times> 'r \<times> ('c, 'd) Backend) option" where
  "RedisUserCache_authenticate R M user pass r s =
     (if user = [] then Some (False, r, s)
      else
        (let hashed = sha256_hex pass; key = make_key user in
         case rd_get R key r of
           (Some (Some cached), r1) \<Rightarrow> Some (cached = hashed, r1, s)
         | (_, r1) \<Rightarrow>
             (case query_mysql_password M user s of
                None \<Rightarrow> None
              | Some (stored, s1) \<Rightarrow>
                  if stored = [] then Some (False, r1, s1)
                  else Some (stored = hashed, snd (rd_set R key stored kCacheTtlSeconds r1), s1))))"

definition RedisUserCache_register_user ::
  "'r Redis \<Rightarrow> ('c, 'd) Mysql \<Rightarrow> 'c option \<Rightarrow> string \<Rightarrow> string \<Rightarrow> 'r \<Rightarrow> 'd \<Rightarrow> bool \<times> 'r \<times> 'd" where
  "RedisUserCache_register_user R M db user pass r d =
     (case db of
        None \<Rightarrow> (False, r, d)
      | Some con \<Rightarrow>
          (let hashed = sha256_hex pass in
           case mysql_query M con (insert_user_sql (escape_sql M con user) (escape_sql M con hashed)) d of
             (False, d1) \<Rightarrow> (False, r, d1)
           | (True, d1) \<Rightarrow> (True, snd (rd_set R (make_key user) hashed kCacheTtlSeconds r), d1)))"

end
