(* ===== verification/User_Table.thy ===== *)
theory User_Table
  imports User_Cache Mysql_Resources
begin

text \<open>
  The user caches under the laws of the table \<^verbatim>\<open>user\<close> and of Redis: the copy in memory always is the table, whatever is
  registered through it, and the cache in Redis answers as the table does, whatever Redis loses or refuses. A small engine keeps
  both sets of laws.
\<close>

section \<open>Laws\<close>

text \<open>Names and hashes as C strings.\<close>

definition plain_users :: "(string \<rightharpoonup> string) \<Rightarrow> bool" where
  "plain_users t \<longleftrightarrow> (\<forall>u p. t u = Some p \<longrightarrow> NUL \<notin> set u \<and> NUL \<notin> set p)"

text \<open>The table as the rows of a query: each statement commits by itself, and the name is unique.\<close>

locale user_table =
  fixes M :: "('c, 'd) Mysql"
    and c :: 'c
    and table :: "'d \<Rightarrow> string \<rightharpoonup> string"
    and up :: "'d \<Rightarrow> bool"
    and good :: "string \<Rightarrow> bool"
  assumes insert: "good u \<Longrightarrow> mysql_query M c (insert_user_sql (escape_sql M c u) (escape_sql M c p)) d = (ok, d') \<Longrightarrow>
      (if ok then table d u = None \<and> table d' = (table d)(u \<mapsto> p) else table d' = table d) \<and>
      (up d \<longrightarrow> up d' \<and> (ok \<longleftrightarrow> table d u = None))"
    and all_rows: "mysql_query M c ''SELECT username,passwd FROM user'' d = (ok, d1) \<Longrightarrow> my_store_result M c d1 = (r, d2) \<Longrightarrow>
      table d1 = table d \<and> table d2 = table d \<and> (up d \<longrightarrow> ok \<and> r \<noteq> None \<and> up d2) \<and>
      (\<forall>rows. ok \<longrightarrow> r = Some rows \<longrightarrow> set rows = {[Some u, Some p] |u p. table d u = Some p})"
    and one_row: "good u \<Longrightarrow> mysql_query M c (find_passwd_sql (escape_sql M c u)) d = (ok, d1) \<Longrightarrow> my_store_result M c d1 = (r, d2) \<Longrightarrow>
      table d1 = table d \<and> table d2 = table d \<and> (up d \<longrightarrow> ok \<and> r \<noteq> None \<and> up d2) \<and>
      (\<forall>rows. ok \<longrightarrow> r = Some rows \<longrightarrow> rows = (case table d u of None \<Rightarrow> [] | Some p \<Rightarrow> [[Some p]]))"

text \<open>A key-value store that may throw, forget and lose writes.\<close>

locale redis_store =
  fixes R :: "'r Redis"
    and cached :: "'r \<Rightarrow> string \<rightharpoonup> string"
  assumes get: "rd_get R k r = (x, r') \<Longrightarrow> cached r' \<subseteq>\<^sub>m cached r \<and> (\<forall>v. x = Some (Some v) \<longrightarrow> cached r k = Some v)"
    and set: "rd_set R k v n r = (ok, r') \<Longrightarrow> cached r' j = Some w \<Longrightarrow> cached r j = Some w \<or> j = k \<and> w = v"

section \<open>The copy in memory\<close>

lemma emplace_one:
  "UserCache_emplace m r u = (case m u of Some p \<Rightarrow> Some p | None \<Rightarrow> UserCache_emplace (\<lambda>_. None) r u)"
  unfolding UserCache_emplace_def by (auto split: option.splits list.splits)

lemma emplace_all:
  "foldl UserCache_emplace m rows u =
     (case m u of Some p \<Rightarrow> Some p | None \<Rightarrow> foldl UserCache_emplace (\<lambda>_. None) rows u)"
proof (induction rows arbitrary: m)
  case Nil
  then show ?case by (simp split: option.splits)
next
  case (Cons r rows)
  have "foldl UserCache_emplace m (r # rows) u = (case UserCache_emplace m r u of Some p \<Rightarrow> Some p | None \<Rightarrow> foldl UserCache_emplace (\<lambda>_. None) rows u)"
    using Cons[of "UserCache_emplace m r"] by simp
  moreover have "foldl UserCache_emplace (\<lambda>_. None) (r # rows) u =
      (case UserCache_emplace (\<lambda>_. None) r u of Some p \<Rightarrow> Some p | None \<Rightarrow> foldl UserCache_emplace (\<lambda>_. None) rows u)"
    using Cons[of "UserCache_emplace (\<lambda>_. None) r"] by simp
  ultimately show ?case
    by (simp add: emplace_one[of m r u] split: option.splits)
qed

lemma emplace_rows:
  assumes "plain_users t" "\<forall>r \<in> set rows. \<exists>u p. r = [Some u, Some p] \<and> t u = Some p"
  shows "foldl UserCache_emplace (\<lambda>_. None) rows u = (if (\<exists>p. [Some u, Some p] \<in> set rows) then t u else None)"
  using assms(2)
proof (induction rows)
  case (Cons r rows)
  then obtain v p where r: "r = [Some v, Some p]" "t v = Some p" by auto
  with assms(1) have "c_str v = v" "c_str p = p" by (auto simp: plain_users_def intro!: c_str_no_NUL)
  then have e: "UserCache_emplace (\<lambda>_. None) r = [v \<mapsto> p]" by (simp add: r UserCache_emplace_def)
  have "foldl UserCache_emplace (\<lambda>_. None) (r # rows) u =
      (if u = v then Some p else foldl UserCache_emplace (\<lambda>_. None) rows u)"
    using emplace_all[of "[v \<mapsto> p]" rows u] by (simp add: e)
  with Cons r show ?case by auto
qed simp

lemma emplace_table:
  assumes "plain_users t" "set rows = {[Some u, Some p] |u p. t u = Some p}"
  shows "foldl UserCache_emplace (\<lambda>_. None) rows = t"
proof
  fix u
  have "\<forall>r \<in> set rows. \<exists>u p. r = [Some u, Some p] \<and> t u = Some p" using assms(2) by auto
  from emplace_rows[OF assms(1) this, of u] show "foldl UserCache_emplace (\<lambda>_. None) rows u = t u"
    using assms(2) by (cases "t u") auto
qed

lemma sha256_hex_plain: "NUL \<notin> set (sha256_hex p)"
proof -
  have "NUL \<notin> set (hex_byte b)" for b
    using hex_byte_chars[of b] by (auto simp: kHex_def)
  then show ?thesis by (auto simp: sha256_hex_def)
qed

context user_table
begin

lemma load_table:
  assumes "plain_users (table d)" "UserCache_load_db M c users d = (users', d')"
  shows "table d' = table d \<and> users' \<in> {users, table d} \<and> (up d \<longrightarrow> users' = table d \<and> up d')"
proof -
  obtain ok d1 where q: "mysql_query M c ''SELECT username,passwd FROM user'' d = (ok, d1)" by (rule prod.exhaust)
  obtain r d2 where t: "my_store_result M c d1 = (r, d2)" by (rule prod.exhaust)
  note law = all_rows[OF q t]
  show ?thesis
  proof (cases "ok \<and> r \<noteq> None")
    case True
    then obtain rows where "r = Some rows" by auto
    with law True emplace_table[OF assms(1)] q t assms(2) show ?thesis
      by (auto simp: UserCache_load_db_def select_rows_def)
  next
    case False
    with law q t assms(2) show ?thesis
      by (cases ok) (auto simp: UserCache_load_db_def select_rows_def split: option.splits)
  qed
qed

lemma register_table:
  assumes "good u" "users = table d" "UserCache_register_end M c u p users d = (r, users', d')"
  shows "users' = table d' \<and> table d' = (if r then (table d)(u \<mapsto> sha256_hex p) else table d) \<and>
    (r \<longrightarrow> table d u = None) \<and> (up d \<longrightarrow> up d' \<and> (r \<longleftrightarrow> table d u = None))"
proof -
  obtain ok d1 where q: "mysql_query M c (insert_user_sql (escape_sql M c u) (escape_sql M c (sha256_hex p))) d = (ok, d1)"
    by (rule prod.exhaust)
  from insert[OF assms(1) q] q assms(2,3) show ?thesis
    by (auto simp: UserCache_register_end_def Let_def split: if_splits)
qed

end

fun register_all ::
  "('c, 'd) Mysql \<Rightarrow> 'c \<Rightarrow> (string \<times> string) list \<Rightarrow> UserCache \<Rightarrow> 'd \<Rightarrow> UserCache \<times> 'd" where
  "register_all M c [] users d = (users, d)"
| "register_all M c ((u, p) # rs) users d =
     (case UserCache_register_end M c u p users d of (_, users1, d1) \<Rightarrow> register_all M c rs users1 d1)"

lemma register_user_end: "UserCache_register_user M c u p users d = UserCache_register_end M c u p users d"
  by (auto simp: UserCache_register_user_def UserCache_register_begin_def UserCache_register_end_def Let_def)

context user_table
begin

lemma register_all_table:
  assumes "plain_users (table d)" "up d" "\<forall>(u, p) \<in> set rs. good u \<and> NUL \<notin> set u" "register_all M c rs (table d) d = (users', d')"
  shows "users' = table d' \<and>
    (\<forall>u. table d' u = (case table d u of Some h \<Rightarrow> Some h | None \<Rightarrow> map_option sha256_hex (map_of rs u)))"
  using assms
proof (induction rs arbitrary: d)
  case Nil
  then show ?case by (auto split: option.splits)
next
  case (Cons a rs)
  obtain u p where a: "a = (u, p)" by (rule prod.exhaust)
  obtain r users1 d1 where e: "UserCache_register_end M c u p (table d) d = (r, users1, d1)" by (rule prod_cases3)
  have "good u" using Cons.prems(3) a by simp
  from register_table[OF this refl e] Cons.prems(2)
  have d1: "users1 = table d1" "table d1 = (if table d u = None then (table d)(u \<mapsto> sha256_hex p) else table d)" "up d1"
    by auto
  have "plain_users (table d1)"
    using Cons.prems(1,3) sha256_hex_plain a by (auto simp: d1(2) plain_users_def)
  from Cons.IH[OF this d1(3)] Cons.prems(3,4) e d1(1) a
  have "users' = table d' \<and> (\<forall>u. table d' u = (case table d1 u of Some h \<Rightarrow> Some h | None \<Rightarrow> map_option sha256_hex (map_of rs u)))"
    by simp
  then show ?case by (auto simp: d1(2) a split: option.splits)
qed

lemma query_password:
  assumes "plain_users (table d)" "good u"
    and "select_rows M c (find_passwd_sql (escape_sql M c u)) []
      (\<lambda>rows d. (case rows of [] \<Rightarrow> [] | r # _ \<Rightarrow> cell_text r 0, d)) d = (stored, d')"
  shows "table d' = table d \<and> (stored \<noteq> [] \<longrightarrow> table d u = Some stored) \<and>
    (up d \<longrightarrow> up d' \<and> stored = (case table d u of None \<Rightarrow> [] | Some p \<Rightarrow> p))"
proof -
  obtain ok d1 where q: "mysql_query M c (find_passwd_sql (escape_sql M c u)) d = (ok, d1)" by (rule prod.exhaust)
  obtain r d2 where t: "my_store_result M c d1 = (r, d2)" by (rule prod.exhaust)
  note law = one_row[OF assms(2) q t]
  show ?thesis
  proof (cases "ok \<and> r \<noteq> None")
    case True
    then obtain rows where r: "r = Some rows" by auto
    have "c_str p = p" if "table d u = Some p" for p
      using assms(1) that by (auto simp: plain_users_def intro: c_str_no_NUL)
    with r law True q t assms(3) show ?thesis
      by (auto simp: select_rows_def cell_text_def split: option.splits)
  next
    case False
    with law q t assms(3) show ?thesis
      by (cases ok) (auto simp: select_rows_def split: option.splits)
  qed
qed

end

section \<open>The cache in Redis\<close>

definition coherent :: "('r \<Rightarrow> string \<rightharpoonup> string) \<Rightarrow> (string \<rightharpoonup> string) \<Rightarrow> 'r \<Rightarrow> bool" where
  "coherent cached t r \<longleftrightarrow> (\<forall>u v. cached r (make_key u) = Some v \<longrightarrow> t u = Some v)"

lemma coherent_less: "coherent cached t r \<Longrightarrow> cached r' \<subseteq>\<^sub>m cached r \<Longrightarrow> coherent cached t r'"
  by (fastforce simp: coherent_def map_le_def dom_def)

lemma make_key_eq [simp]: "make_key u = make_key v \<longleftrightarrow> u = v"
  by (simp add: make_key_def)

context redis_store
begin

lemma coherent_set:
  assumes co: "coherent cached t r" and w: "rd_set R (make_key u) v n r = (ok, r')" and t: "t u = Some v"
  shows "coherent cached t r'"
  unfolding coherent_def
proof (intro allI impI)
  fix u' v'
  assume "cached r' (make_key u') = Some v'"
  from set[OF w this] show "t u' = Some v'"
  proof
    assume "cached r (make_key u') = Some v'"
    with co show ?thesis by (simp add: coherent_def)
  qed (simp add: t)
qed

lemma authenticate_coherent:
  assumes db: "user_table M con table up good" "plain_users (table d)" "good u"
    and co: "coherent cached (table d) r" and u: "u \<noteq> []"
    and run: "query_mysql_password M u s = Some (stored, s1)" "be_db s = d"
    and stored: "table (be_db s1) = table d" "stored \<noteq> [] \<longrightarrow> table d u = Some stored"
      "up d \<longrightarrow> stored = (case table d u of None \<Rightarrow> [] | Some p \<Rightarrow> p)"
  shows "\<exists>b r' s'. RedisUserCache_authenticate R M u p r s = Some (b, r', s') \<and> coherent cached (table d) r' \<and>
    table (be_db s') = table d \<and> s' \<in> {s, s1} \<and>
    (b \<longrightarrow> table d u = Some (sha256_hex p)) \<and> (up d \<longrightarrow> (b \<longleftrightarrow> table d u = Some (sha256_hex p)))"
proof -
  let ?k = "make_key u"
  obtain x r1 where g: "rd_get R ?k r = (x, r1)" by (rule prod.exhaust)
  obtain ok r2 where w: "rd_set R ?k stored kCacheTtlSeconds r1 = (ok, r2)" by (rule prod.exhaust)
  have r1: "coherent cached (table d) r1" using get[OF g] co by (auto intro: coherent_less)
  have ne: "sha256_hex p \<noteq> []" using sha256_hex_length[of p] by auto
  show ?thesis
  proof (cases "\<exists>v. x = Some (Some v)")
    case True
    then obtain v where v: "x = Some (Some v)" by auto
    with get[OF g] co have "table d u = Some v" by (auto simp: coherent_def)
    moreover have "RedisUserCache_authenticate R M u p r s = Some (v = sha256_hex p, r1, s)"
      using v g u by (simp add: RedisUserCache_authenticate_def Let_def)
    ultimately show ?thesis using r1 run(2) by auto
  next
    case False
    then have auth: "RedisUserCache_authenticate R M u p r s =
        (if stored = [] then Some (False, r1, s1) else Some (stored = sha256_hex p, r2, s1))"
      using g u run w by (cases x; cases "the x") (simp_all add: RedisUserCache_authenticate_def Let_def)
    show ?thesis
    proof (cases "stored = []")
      case True
      with stored(3) ne[symmetric] have "up d \<longrightarrow> table d u \<noteq> Some (sha256_hex p)" by (auto split: option.splits)
      with True auth stored(1) r1 show ?thesis by simp blast
    next
      case False
      with stored(2) have t: "table d u = Some stored" by blast
      have "coherent cached (table d) r2" by (rule coherent_set[OF r1 w t])
      with False auth stored(1) t show ?thesis by simp
    qed
  qed
qed

lemma register_coherent:
  assumes db: "user_table M c table up good" "good u" and co: "coherent cached (table d) r"
    and reg: "RedisUserCache_register_user R M (Some c) u p r d = (b, r', d')"
  shows "coherent cached (table d') r' \<and> table d' = (if b then (table d)(u \<mapsto> sha256_hex p) else table d) \<and>
    (b \<longrightarrow> table d u = None)"
proof -
  obtain ok d1 where q: "mysql_query M c (insert_user_sql (escape_sql M c u) (escape_sql M c (sha256_hex p))) d = (ok, d1)"
    by (rule prod.exhaust)
  obtain ok2 r2 where w: "rd_set R (make_key u) (sha256_hex p) kCacheTtlSeconds r = (ok2, r2)" by (rule prod.exhaust)
  note law = user_table.insert[OF db q]
  show ?thesis
  proof (cases ok)
    case True
    with law have t: "table d u = None" "table d1 = (table d)(u \<mapsto> sha256_hex p)" by simp_all
    with co have "coherent cached (table d1) r" by (auto simp: coherent_def)
    from coherent_set[OF this w] t have "coherent cached (table d1) r2" by simp
    with True t q w reg show ?thesis by (auto simp: RedisUserCache_register_user_def Let_def)
  next
    case False
    with law co q reg show ?thesis by (auto simp: RedisUserCache_register_user_def Let_def)
  qed
qed

end

section \<open>Engines that keep the laws\<close>

record UserEngine =
  ue_users :: "(string \<times> string) list"
  ue_rows :: "row list"

definition parse_insert_user :: "string \<Rightarrow> (string \<times> string) option" where
  "parse_insert_user sql =
     Option.bind (strip (''INSERT INTO user(username, passwd) VALUES('' @ [CHR 0x27]) sql) (\<lambda>s.
     Option.bind (read_quoted s) (\<lambda>(u, s1). Option.bind (strip ('', '' @ [CHR 0x27]) s1) (\<lambda>s2.
     Option.bind (read_quoted s2) (\<lambda>(p, s3). if s3 = '')'' then Some (u, p) else None))))"

definition parse_find_passwd :: "string \<Rightarrow> string option" where
  "parse_find_passwd sql =
     Option.bind (strip (''SELECT passwd FROM user WHERE username='' @ [CHR 0x27]) sql) (\<lambda>s.
     Option.bind (read_quoted s) (\<lambda>(u, s1). if s1 = '' LIMIT 1'' then Some u else None))"

definition user_engine_query :: "string \<Rightarrow> UserEngine \<Rightarrow> bool \<times> UserEngine" where
  "user_engine_query sql d =
     (if sql = ''SELECT username,passwd FROM user''
      then (True, d\<lparr>ue_rows := map (\<lambda>(u, p). [Some u, map_of (ue_users d) u]) (ue_users d)\<rparr>)
      else case parse_insert_user sql of
        Some (u, p) \<Rightarrow> if map_of (ue_users d) u = None then (True, d\<lparr>ue_users := (u, p) # ue_users d\<rparr>) else (False, d)
      | None \<Rightarrow>
          (case parse_find_passwd sql of
             Some u \<Rightarrow> (True, d\<lparr>ue_rows := (case map_of (ue_users d) u of None \<Rightarrow> [] | Some p \<Rightarrow> [[Some p]])\<rparr>)
           | None \<Rightarrow> (False, d)))"

definition user_engine :: "(nat, UserEngine) Mysql" where
  "user_engine =
     \<lparr>my_query = (\<lambda>c. user_engine_query), my_store_result = (\<lambda>c d. (Some (ue_rows d), d)), my_insert_id = (\<lambda>c d. 0),
      my_affected_rows = (\<lambda>c d. 0), my_escape = (\<lambda>c. escape_text)\<rparr>"

lemma parse_insert_user: "parse_insert_user (insert_user_sql (escape_text u) (escape_text p)) = Some (u, p)"
  by (simp add: parse_insert_user_def insert_user_sql_def sql_quote_def)

lemma parse_find_passwd:
  "parse_find_passwd (find_passwd_sql (escape_text u)) = Some u" "parse_insert_user (find_passwd_sql (escape_text u)) = None"
  by (simp_all add: parse_find_passwd_def parse_insert_user_def find_passwd_sql_def sql_quote_def)

lemma user_sql_no_NUL:
  "c_str (insert_user_sql (escape_text u) (escape_text p)) = insert_user_sql (escape_text u) (escape_text p)"
  "c_str (find_passwd_sql (escape_text u)) = find_passwd_sql (escape_text u)"
  by (rule c_str_no_NUL, use escape_text_no_NUL in \<open>simp add: insert_user_sql_def find_passwd_sql_def sql_quote_def\<close>)+

lemma user_rows: "set (map (\<lambda>(u, p). [Some u, map_of l u]) l) = {[Some u, Some p] |u p. map_of l u = Some p}" (is "?A = ?B")
proof
  show "?A \<subseteq> ?B"
  proof
    fix x
    assume "x \<in> ?A"
    then obtain u p where "(u, p) \<in> set l" "x = [Some u, map_of l u]" by auto
    moreover from this obtain q where "map_of l u = Some q" using weak_map_of_SomeI by fast
    ultimately show "x \<in> ?B" by simp
  qed
  show "?B \<subseteq> ?A"
  proof
    fix x
    assume "x \<in> ?B"
    then obtain u p where p: "map_of l u = Some p" "x = [Some u, Some p]" by blast
    then have "(u, p) \<in> set l" by (simp add: map_of_SomeD)
    then have "(\<lambda>(u, p). [Some u, map_of l u]) (u, p) \<in> ?A" unfolding set_map by (rule imageI)
    with p show "x \<in> ?A" by simp
  qed
qed

interpretation users: user_table user_engine c "\<lambda>d. map_of (ue_users d)" "\<lambda>_. True" "\<lambda>_. True"
proof (unfold_locales, goal_cases)
  case (1 u p d ok d')
  have "insert_user_sql (escape_text u) (escape_text p) \<noteq> ''SELECT username,passwd FROM user''"
    by (simp add: insert_user_sql_def)
  with 1(2) show ?case
    by (auto simp: mysql_query_def escape_sql_def user_engine_def user_sql_no_NUL user_engine_query_def parse_insert_user split: if_splits)
next
  case (2 d ok d1 r d2)
  note user_rows[of "ue_users d"]
  moreover have "c_str ''SELECT username,passwd FROM user'' = ''SELECT username,passwd FROM user''" by (simp add: c_str_def)
  then have "ok" "d2 = d\<lparr>ue_rows := map (\<lambda>(u, p). [Some u, map_of (ue_users d) u]) (ue_users d)\<rparr>" "d1 = d2" "r = Some (ue_rows d2)"
    using 2 by (simp_all only: mysql_query_def) (auto simp: user_engine_def user_engine_query_def)
  ultimately show ?case by simp
next
  case (3 u d ok d1 r d2)
  have "find_passwd_sql (escape_text u) \<noteq> ''SELECT username,passwd FROM user''"
    by (simp add: find_passwd_sql_def)
  with 3(2,3) show ?case
    by (auto simp: mysql_query_def escape_sql_def user_engine_def user_sql_no_NUL user_engine_query_def parse_find_passwd)
qed

text \<open>A Redis that works, and one that is down.\<close>

definition redis_up :: "(string \<rightharpoonup> string) Redis" where
  "redis_up = \<lparr>rd_get = (\<lambda>k r. (Some (r k), r)), rd_set = (\<lambda>k v n r. (True, r(k \<mapsto> v))), rd_ping = (\<lambda>r. (True, r))\<rparr>"

definition redis_down :: "(string \<rightharpoonup> string) Redis" where
  "redis_down = \<lparr>rd_get = (\<lambda>k r. (None, r)), rd_set = (\<lambda>k v n r. (False, r)), rd_ping = (\<lambda>r. (False, r))\<rparr>"

interpretation redis_up: redis_store redis_up "\<lambda>r. r"
  by unfold_locales (auto simp: redis_up_def split: if_splits)

interpretation redis_down: redis_store redis_down "\<lambda>r. r"
  by unfold_locales (auto simp: redis_down_def map_le_def)

lemma redis_authenticates:
  assumes "redis_store R cached" "coherent cached (table (be_db s)) r" "plain_users (table (be_db s))" "good u"
    and "be_pool s = Some pool" "pool_ok pool" "connList pool \<noteq> []" "\<forall>c \<in> set (connList pool). user_table M c table up good"
  shows "\<exists>b r' s'. RedisUserCache_authenticate R M u p r s = Some (b, r', s') \<and>
    table (be_db s') = table (be_db s) \<and> coherent cached (table (be_db s')) r' \<and>
    (b \<longrightarrow> table (be_db s) u = Some (sha256_hex p)) \<and>
    (up (be_db s) \<longrightarrow> u \<noteq> [] \<longrightarrow> (b \<longleftrightarrow> table (be_db s) u = Some (sha256_hex p)))"
proof (cases "u = []")
  case True
  with assms(2) show ?thesis by (simp add: RedisUserCache_authenticate_def) blast
next
  case False
  let ?f = "\<lambda>con. select_rows M con (find_passwd_sql (escape_sql M con u)) []
    (\<lambda>rows d. (case rows of [] \<Rightarrow> [] | r # _ \<Rightarrow> cell_text r 0, d))"
  obtain con p' stored d where run: "con \<in> set (connList pool)" "?f con (be_db s) = (stored, d)"
    "with_mysql [] (\<lambda>con. on_db (?f con)) s = Some (stored, s\<lparr>be_pool := Some p', be_db := d\<rparr>)"
    by (rule on_connection[OF assms(5-7), where f = ?f and none = "[]"])
  have db: "user_table M con table up good" using assms(8) run(1) by blast
  let ?s1 = "s\<lparr>be_pool := Some p', be_db := d\<rparr>"
  from user_table.query_password[OF db assms(3,4) run(2)]
  have st: "table (be_db ?s1) = table (be_db s)" "stored \<noteq> [] \<longrightarrow> table (be_db s) u = Some stored"
    "up (be_db s) \<longrightarrow> stored = (case table (be_db s) u of None \<Rightarrow> [] | Some p \<Rightarrow> p)" by simp_all
  have "query_mysql_password M u s = Some (stored, ?s1)"
    using run(3) by (simp add: query_mysql_password_def)
  from redis_store.authenticate_coherent[OF assms(1) db assms(3,4,2) False this refl st, of p]
  obtain b r' s' where "RedisUserCache_authenticate R M u p r s = Some (b, r', s')" "coherent cached (table (be_db s)) r'"
    "table (be_db s') = table (be_db s)" "b \<longrightarrow> table (be_db s) u = Some (sha256_hex p)"
    "up (be_db s) \<longrightarrow> (b \<longleftrightarrow> table (be_db s) u = Some (sha256_hex p))" by blast
  then show ?thesis by (intro exI[of _ b] exI[of _ r'] exI[of _ s']) simp
qed

section \<open>Properties\<close>

text \<open>The user cache in memory is the table. After it is loaded and any registrations have gone through it, in any order and with any
  threads between the two checks of each, it holds exactly the rows of the table; a password is accepted exactly if its
  hash is in the table; names that were there keep their password, and of several registrations of a new name the first one counts.\<close>

theorem user_cache_is_table:
  assumes "user_table M c table up good" "plain_users (table d)" "up d" "\<forall>(u, p) \<in> set rs. good u \<and> NUL \<notin> set u"
    and "UserCache_load_db M c users0 d = (users, d1)" "register_all M c rs users d1 = (users', d')"
  shows "users' = table d' \<and> (\<forall>u p. UserCache_authenticate users' u p \<longleftrightarrow> table d' u = Some (sha256_hex p)) \<and>
    (\<forall>u. table d' u = (case table d u of Some h \<Rightarrow> Some h | None \<Rightarrow> map_option sha256_hex (map_of rs u)))"
proof -
  from user_table.load_table[OF assms(1,2,5)] assms(3) have "users = table d1" "table d1 = table d" "up d1" by simp_all
  with user_table.register_all_table[OF assms(1) _ _ assms(4), of d1 users' d'] assms(2,6)
  show ?thesis by (simp add: UserCache_authenticate_def)
qed

theorem user_cache_is_table_witness:
  "\<exists>users d1 users' d'. UserCache_load_db user_engine 1 (\<lambda>_. None) \<lparr>ue_users = [(''ann'', ''x'')], ue_rows = []\<rparr> = (users, d1) \<and>
     register_all user_engine 1 [(''ann'', ''p''), (''bob'', ''q''), (''bob'', ''r'')] users d1 = (users', d') \<and>
     users' ''ann'' = Some ''x'' \<and> UserCache_authenticate users' ''bob'' ''q''"
proof -
  let ?d = "\<lparr>ue_users = [(''ann'', ''x'')], ue_rows = []\<rparr>" and ?rs = "[(''ann'', ''p''), (''bob'', ''q''), (''bob'', ''r'')]"
  obtain users d1 where l: "UserCache_load_db user_engine 1 (\<lambda>_. None) ?d = (users, d1)" by (rule prod.exhaust)
  obtain users' d' where r: "register_all user_engine 1 ?rs users d1 = (users', d')" by (rule prod.exhaust)
  have "plain_users (map_of (ue_users ?d))" "\<forall>(u, p) \<in> set ?rs. True \<and> NUL \<notin> set u" by (simp_all add: plain_users_def)
  from user_cache_is_table[OF users.user_table_axioms this(1) TrueI this(2) l r] l r show ?thesis
    by (simp add: UserCache_authenticate_def)
qed

text \<open>C28: The cache in Redis is transparent. Whatever Redis does (answers, throws, forgets entries, loses writes), a password is accepted only
  if its hash is in the table, and while MySQL answers exactly then, except for the empty name; the entries of Redis stay
  a part of the table, also when a name is registered; and the method returns.\<close>

theorem redis_cache_transparent:
  assumes "redis_store R cached" "coherent cached (table (be_db s)) r" "plain_users (table (be_db s))" "good u"
    and "be_pool s = Some pool" "pool_ok pool" "connList pool \<noteq> []" "\<forall>c \<in> set (connList pool). user_table M c table up good"
  shows "(\<exists>b r' s'. RedisUserCache_authenticate R M u p r s = Some (b, r', s') \<and>
    table (be_db s') = table (be_db s) \<and> coherent cached (table (be_db s')) r' \<and>
    (b \<longrightarrow> table (be_db s) u = Some (sha256_hex p)) \<and>
    (up (be_db s) \<longrightarrow> u \<noteq> [] \<longrightarrow> (b \<longleftrightarrow> table (be_db s) u = Some (sha256_hex p)))) \<and>
    (\<forall>c \<in> set (connList pool). case RedisUserCache_register_user R M (Some c) u p r (be_db s) of (b, r', d') \<Rightarrow>
      coherent cached (table d') r' \<and> table d' = (if b then (table (be_db s))(u \<mapsto> sha256_hex p) else table (be_db s)) \<and>
      (b \<longrightarrow> table (be_db s) u = None))"
proof
  show "\<exists>b r' s'. RedisUserCache_authenticate R M u p r s = Some (b, r', s') \<and>
    table (be_db s') = table (be_db s) \<and> coherent cached (table (be_db s')) r' \<and>
    (b \<longrightarrow> table (be_db s) u = Some (sha256_hex p)) \<and>
    (up (be_db s) \<longrightarrow> u \<noteq> [] \<longrightarrow> (b \<longleftrightarrow> table (be_db s) u = Some (sha256_hex p)))"
    by (rule redis_authenticates[OF assms])
  show "\<forall>c \<in> set (connList pool). case RedisUserCache_register_user R M (Some c) u p r (be_db s) of (b, r', d') \<Rightarrow>
      coherent cached (table d') r' \<and> table d' = (if b then (table (be_db s))(u \<mapsto> sha256_hex p) else table (be_db s)) \<and>
      (b \<longrightarrow> table (be_db s) u = None)"
  proof
    fix c
    assume "c \<in> set (connList pool)"
    then have db: "user_table M c table up good" using assms(8) by blast
    obtain b r' d' where reg: "RedisUserCache_register_user R M (Some c) u p r (be_db s) = (b, r', d')" by (rule prod_cases3)
    show "case RedisUserCache_register_user R M (Some c) u p r (be_db s) of (b, r', d') \<Rightarrow>
      coherent cached (table d') r' \<and> table d' = (if b then (table (be_db s))(u \<mapsto> sha256_hex p) else table (be_db s)) \<and>
      (b \<longrightarrow> table (be_db s) u = None)"
      unfolding reg prod.case by (rule redis_store.register_coherent[OF assms(1) db assms(4,2) reg])
  qed
qed

theorem redis_cache_transparent_witness:
  "\<exists>r' s'. RedisUserCache_authenticate redis_down user_engine ''ann'' ''secret'' (\<lambda>_. None)
     \<lparr>be_pool = Some one_connection, be_db = \<lparr>ue_users = [(''ann'', sha256_hex ''secret'')], ue_rows = []\<rparr>\<rparr> = Some (True, r', s')"
proof -
  let ?s = "\<lparr>be_pool = Some one_connection, be_db = \<lparr>ue_users = [(''ann'', sha256_hex ''secret'')], ue_rows = []\<rparr>\<rparr>"
  have "pool_ok one_connection" "connList one_connection \<noteq> []"
    by (simp_all add: pool_ok_def one_connection_def connection_pool_new_def)
  moreover have "plain_users (map_of (ue_users (be_db ?s)))"
    using sha256_hex_plain by (simp add: plain_users_def)
  moreover have "coherent (\<lambda>r. r) (map_of (ue_users (be_db ?s))) (\<lambda>_. None)" by (simp add: coherent_def)
  ultimately show ?thesis
    using redis_cache_transparent[OF redis_down.redis_store_axioms, of "\<lambda>d. map_of (ue_users d)" ?s "\<lambda>_. None" "\<lambda>_. True" "''ann''"
        one_connection user_engine "\<lambda>_. True" "''secret''"] users.user_table_axioms
    by auto
qed

end
