(* ===== verification/Hnswlib.thy ===== *)
theory Hnswlib
  imports Recommend "HOL-Library.Multiset"
begin

text \<open>
  What the recommendation index uses of the vendored library \<^verbatim>\<open>third_party/hnswlib\<close>: an index to which vectors are
  added under labels and which is asked for neighbours. The graph of \<^verbatim>\<open>hnswalg.h\<close> is a parameter behind the laws
  of the locale \<open>knn\<close>, which leave open how good its approximation is. The class \<^verbatim>\<open>BruteforceSearch\<close> of
  \<^verbatim>\<open>bruteforce.h\<close>, which implements the same interface, is modelled and keeps the laws with an exact search.
\<close>

section \<open>The interface\<close>

text \<open>\<open>None\<close> is \<^verbatim>\<open>std::runtime_error\<close>; the answer of a search is in the order in which the priority queue gives
  it up.\<close>

record 'g Hnswlib =
  hw_new :: "nat \<Rightarrow> nat \<Rightarrow> nat \<Rightarrow> 'g"
  hw_setEf :: "nat \<Rightarrow> 'g \<Rightarrow> 'g"
  hw_addPoint :: "float32 list \<Rightarrow> nat \<Rightarrow> 'g \<Rightarrow> 'g option"
  hw_searchKnn :: "float32 list \<Rightarrow> nat \<Rightarrow> 'g \<Rightarrow> (float32 \<times> nat) list option"

text \<open>\<open>l2\<close> is the distance that the space computes, \<open>points\<close> what an index stores, \<open>room\<close> how much more it can
  store.\<close>

locale knn =
  fixes H :: "'g Hnswlib"
    and ok :: "'g \<Rightarrow> bool"
    and points :: "'g \<Rightarrow> nat \<rightharpoonup> float32 list"
    and room :: "'g \<Rightarrow> nat"
    and l2 :: "float32 list \<Rightarrow> float32 list \<Rightarrow> float32"
  assumes new: "ok (hw_new H n m e) \<and> points (hw_new H n m e) = Map.empty \<and> room (hw_new H n m e) = n"
    and ef: "ok g \<Longrightarrow> ok (hw_setEf H e g) \<and> points (hw_setEf H e g) = points g \<and> room (hw_setEf H e g) = room g"
    and add: "ok g \<Longrightarrow> room g > 0 \<Longrightarrow> points g l = None \<Longrightarrow>
      \<exists>g'. hw_addPoint H v l g = Some g' \<and> ok g' \<and> points g' = (points g)(l \<mapsto> v) \<and> room g' = room g - 1"
    and search: "ok g \<Longrightarrow> hw_searchKnn H q k g = Some near \<Longrightarrow>
      distinct (map snd near) \<and> length near \<le> k \<and> (\<forall>(d, l) \<in> set near. \<exists>v. points g l = Some v \<and> d = l2 q v)"

text \<open>An exact search for no more vectors than there are returns so many, and none that is left out is nearer.\<close>

definition exact_search :: "'g Hnswlib \<Rightarrow> ('g \<Rightarrow> bool) \<Rightarrow> ('g \<Rightarrow> nat \<rightharpoonup> float32 list) \<Rightarrow> (float32 list \<Rightarrow> float32 list \<Rightarrow> float32) \<Rightarrow> bool" where
  "exact_search H ok points l2 \<longleftrightarrow>
     (\<forall>q k g. ok g \<longrightarrow> finite (dom (points g)) \<longrightarrow> k \<le> card (dom (points g)) \<longrightarrow>
        (\<exists>near. hw_searchKnn H q k g = Some near \<and> length near = k \<and>
           (\<forall>l v. points g l = Some v \<longrightarrow> l \<notin> snd ` set near \<longrightarrow> (\<forall>(d, _) \<in> set near. d \<le> l2 q v))))"

section \<open>BruteforceSearch\<close>

text \<open>\<^verbatim>\<open>L2Sqr\<close> of \<^verbatim>\<open>space_l2.h\<close>, without vector instructions.\<close>

fun L2Sqr_loop :: "float32 list \<Rightarrow> float32 list \<Rightarrow> nat \<Rightarrow> float32 \<Rightarrow> float32" where
  "L2Sqr_loop (x # v1) (y # v2) (Suc qty) res =
     (let t = fl (x - y) in L2Sqr_loop v1 v2 qty (fl (res + fl (t * t))))"
| "L2Sqr_loop v1 v2 qty res = res"

definition L2Sqr :: "float32 list \<Rightarrow> float32 list \<Rightarrow> float32" where
  "L2Sqr v1 v2 = L2Sqr_loop v1 v2 BOOK_EMBED_DIM 0"

text \<open>The first \<^verbatim>\<open>cur_element_count\<close> slots of \<^verbatim>\<open>data_\<close> are a list of labels with their vectors.\<close>

record BruteforceSearch =
  bs_data :: "(nat \<times> float32 list) list"
  bs_maxelements :: nat
  bs_dict_external_to_internal :: "nat \<rightharpoonup> nat"

definition BruteforceSearch_new :: "nat \<Rightarrow> BruteforceSearch" where
  "BruteforceSearch_new maxElements =
     \<lparr>bs_data = [], bs_maxelements = maxElements, bs_dict_external_to_internal = Map.empty\<rparr>"

definition addPoint :: "float32 list \<Rightarrow> nat \<Rightarrow> BruteforceSearch \<Rightarrow> BruteforceSearch option" where
  "addPoint datapoint label b =
     (case bs_dict_external_to_internal b label of
        Some idx \<Rightarrow> Some (b\<lparr>bs_data := (bs_data b)[idx := (label, datapoint)]\<rparr>)
      | None \<Rightarrow>
          if length (bs_data b) \<ge> bs_maxelements b then None
          else (let idx = length (bs_data b) in
                Some (b\<lparr>bs_data := bs_data b @ [(label, datapoint)],
                        bs_dict_external_to_internal := (bs_dict_external_to_internal b)(label \<mapsto> idx)\<rparr>)))"

text \<open>The priority queue is an ascending list, its top the last element; \<open>lastdist\<close> is \<open>None\<close> at its initial
  value, the greatest float.\<close>

fun search_loop :: "float32 list \<Rightarrow> nat \<Rightarrow> (nat \<times> float32 list) list \<Rightarrow> (float32 \<times> nat) list \<Rightarrow> float32 option \<Rightarrow> (float32 \<times> nat) list" where
  "search_loop q k [] topResults lastdist = topResults"
| "search_loop q k ((label, v) # slots) topResults lastdist =
     (let dist = L2Sqr q v in
      if (case lastdist of None \<Rightarrow> True | Some l \<Rightarrow> dist \<le> l) \<or> length topResults < k then
        (let pushed = insort (dist, label) topResults;
             top' = (if length pushed > k then butlast pushed else pushed)
         in search_loop q k slots top' (if top' \<noteq> [] then Some (fst (last top')) else lastdist))
      else search_loop q k slots topResults lastdist)"

text \<open>\<open>None\<close>: the assertion stops the process.\<close>

definition searchKnn :: "float32 list \<Rightarrow> nat \<Rightarrow> BruteforceSearch \<Rightarrow> (float32 \<times> nat) list option" where
  "searchKnn query_data k b =
     (if k \<le> length (bs_data b) then Some (rev (search_loop query_data k (bs_data b) [] None)) else None)"

definition brute_force :: "BruteforceSearch Hnswlib" where
  "brute_force = \<lparr>hw_new = (\<lambda>n m e. BruteforceSearch_new n), hw_setEf = (\<lambda>e g. g), hw_addPoint = addPoint, hw_searchKnn = searchKnn\<rparr>"

section \<open>Its laws\<close>

text \<open>The loop keeps the \<open>k\<close> smallest pairs it has seen.\<close>

lemma take_insort:
  "sorted xs \<Longrightarrow> take k (insort x (take k xs)) = take k (insort x xs)" for xs :: "(float32 \<times> nat) list"
proof (induction xs arbitrary: k)
  case (Cons y ys)
  then show ?case by (cases k) (auto simp: take_Cons')
qed simp

lemma take_insort_big:
  fixes xs :: "(float32 \<times> nat) list"
  assumes "sorted xs" "length (take k xs) = k" "\<forall>y \<in> set (take k xs). y \<le> x"
  shows "take k (insort x xs) = take k xs"
  using assms
proof (induction xs arbitrary: k)
  case (Cons y ys)
  then show ?case
  proof (cases k)
    case (Suc m)
    with Cons.prems have "y \<le> x" by simp
    show ?thesis
    proof (cases "x \<le> y")
      case True
      with \<open>y \<le> x\<close> have "x = y" by simp
      moreover have "insort y ys = y # ys" using Cons.prems(1) by (intro insort_is_Cons) auto
      ultimately show ?thesis using Cons.IH[of m] Cons.prems Suc by simp
    next
      case False
      with Cons Suc show ?thesis by simp
    qed
  qed simp
qed (simp add: take_Cons')

lemma sorted_le_last: "sorted xs \<Longrightarrow> y \<in> set xs \<Longrightarrow> y \<le> last xs" for y :: "float32 \<times> nat"
  by (induction xs) auto

lemma butlast_insort:
  assumes "length xs = k"
  shows "butlast (insort x xs) = take k (insort x xs)"
  using assms by (simp add: butlast_conv_take)

abbreviation slot_distances :: "float32 list \<Rightarrow> (nat \<times> float32 list) list \<Rightarrow> (float32 \<times> nat) list" where
  "slot_distances q slots \<equiv> map (\<lambda>(l, v). (L2Sqr q v, l)) slots"

lemma search_loop_sorted:
  assumes "topResults = take k seen" "sorted seen"
    and "lastdist = (if topResults = [] then None else Some (fst (last topResults)))"
  shows "search_loop q k slots topResults lastdist = take k (sort (seen @ slot_distances q slots))"
  using assms
proof (induction q k slots topResults lastdist arbitrary: seen rule: search_loop.induct)
  case (2 q k label v slots topResults lastdist)
  let ?x = "(L2Sqr q v, label)" and ?go = "(case lastdist of None \<Rightarrow> True | Some l \<Rightarrow> L2Sqr q v \<le> l) \<or> length topResults < k"
  let ?pushed = "insort ?x topResults"
  let ?top = "if length ?pushed > k then butlast ?pushed else ?pushed"
  have sort: "sort (insort ?x seen @ slot_distances q slots) = sort (seen @ slot_distances q ((label, v) # slots))"
    by (rule properties_for_sort) simp_all
  have sorted: "sorted (insort ?x seen)" using 2(4) by (simp add: sorted_insort)
  show ?case
  proof (cases ?go)
    case True
    have "?top = take k ?pushed"
    proof (cases "length ?pushed > k")
      case True
      then have "length topResults = k" using 2(3) by auto
      then show ?thesis using True by (simp only: if_True butlast_insort)
    qed simp
    then have top: "?top = take k (insort ?x seen)" using 2(3,4) by (simp only: take_insort)
    have "(if ?top \<noteq> [] then Some (fst (last ?top)) else lastdist) = (if ?top = [] then None else Some (fst (last ?top)))"
      using 2(3,5) top by (cases k) auto
    with 2(1)[OF refl True refl refl top sorted] True sort show ?thesis by (simp add: Let_def)
  next
    case False
    then have full: "length (take k seen) = k" using 2(3) by (auto simp: min_def)
    have "\<forall>y \<in> set (take k seen). y \<le> ?x"
    proof
      fix y assume y: "y \<in> set (take k seen)"
      then have "topResults \<noteq> []" unfolding 2(3) by fastforce
      with False 2(5) have "\<not> L2Sqr q v \<le> fst (last topResults)" by simp
      moreover have "y \<le> last topResults"
        using y 2(3,4) by (intro sorted_le_last) (simp_all add: sorted_wrt_take)
      ultimately show "y \<le> ?x" by (auto simp: less_eq_prod_def)
    qed
    from take_insort_big[OF 2(4) full this] have "topResults = take k (insort ?x seen)" using 2(3) by simp
    from 2(2)[OF refl False this sorted 2(5)] False sort show ?thesis by (simp add: Let_def)
  qed
qed (simp add: sorted_sort_id)

lemma search_loop_nearest: "search_loop q k slots [] None = take k (sort (slot_distances q slots))"
  using search_loop_sorted[of "[]" k "[]" None q slots] by simp

definition bs_ok :: "BruteforceSearch \<Rightarrow> bool" where
  "bs_ok b \<longleftrightarrow>
     distinct (map fst (bs_data b)) \<and>
     (\<forall>l i. bs_dict_external_to_internal b l = Some i \<longleftrightarrow> i < length (bs_data b) \<and> fst (bs_data b ! i) = l)"

definition bs_points :: "BruteforceSearch \<Rightarrow> nat \<rightharpoonup> float32 list" where
  "bs_points b = map_of (bs_data b)"

definition bs_room :: "BruteforceSearch \<Rightarrow> nat" where
  "bs_room b = bs_maxelements b - length (bs_data b)"

lemma bs_points_finite: "bs_ok b \<Longrightarrow> card (dom (bs_points b)) = length (bs_data b)"
  using distinct_card[of "map fst (bs_data b)"] by (simp add: bs_points_def bs_ok_def dom_map_of_conv_image_fst)

lemma searchKnn_near:
  assumes "searchKnn q k b = Some near"
  shows "set near = set (take k (sort (slot_distances q (bs_data b)))) \<and> length near = k \<and>
    mset near = mset (take k (sort (slot_distances q (bs_data b))))"
  using assms by (auto simp: searchKnn_def search_loop_nearest split: if_splits)

lemma distinct_snd_sort:
  "distinct (map snd (sort xs)) \<longleftrightarrow> distinct (map snd xs)" for xs :: "('a :: linorder \<times> 'b :: linorder) list"
proof (rule mset_eq_imp_distinct_iff)
  show "mset (map snd (sort xs)) = mset (map snd xs)" by (simp only: mset_map mset_sort)
qed

interpretation brute: knn brute_force bs_ok bs_points bs_room L2Sqr
proof (unfold_locales, goal_cases)
  case (1 n m e)
  show ?case by (simp add: brute_force_def BruteforceSearch_new_def bs_ok_def bs_points_def bs_room_def)
next
  case (3 g l v)
  then have fresh: "l \<notin> fst ` set (bs_data g)" and room: "length (bs_data g) < bs_maxelements g"
    by (simp_all add: bs_points_def bs_room_def map_of_eq_None_iff)
  have none: "bs_dict_external_to_internal g l = None"
  proof (rule ccontr)
    assume "bs_dict_external_to_internal g l \<noteq> None"
    then obtain i where "i < length (bs_data g)" "fst (bs_data g ! i) = l" using 3(1) by (auto simp: bs_ok_def)
    then show False using fresh by (metis image_eqI nth_mem)
  qed
  let ?g = "g\<lparr>bs_data := bs_data g @ [(l, v)], bs_dict_external_to_internal := (bs_dict_external_to_internal g)(l \<mapsto> length (bs_data g))\<rparr>"
  have "hw_addPoint brute_force v l g = Some ?g" using none room by (simp add: brute_force_def addPoint_def Let_def)
  moreover have "bs_ok ?g"
  proof -
    have "fst ((bs_data g @ [(l, v)]) ! i) \<noteq> l" if "i < length (bs_data g)" for i
      using that fresh by (metis image_eqI nth_append nth_mem)
    then show ?thesis using 3(1) fresh by (auto simp: bs_ok_def nth_append less_Suc_eq)
  qed
  moreover have "bs_points ?g = (bs_points g)(l \<mapsto> v)"
    using fresh by (auto simp: bs_points_def fun_eq_iff map_add_def map_of_eq_None_iff[symmetric] split: option.split)
  ultimately show ?case using room by (intro exI[of _ ?g]) (simp add: bs_room_def)
next
  case (4 g q k near)
  let ?all = "slot_distances q (bs_data g)"
  have near: "searchKnn q k g = Some near" using 4(2) by (simp add: brute_force_def)
  have "map snd ?all = map fst (bs_data g)" by (simp add: o_def case_prod_unfold)
  then have "distinct (map snd (sort ?all))" using 4(1) unfolding distinct_snd_sort bs_ok_def by (simp only:)
  then have "distinct (map snd (take k (sort ?all)))" by (simp only: take_map[symmetric] distinct_take)
  moreover have "mset (map snd near) = mset (map snd (take k (sort ?all)))"
    using searchKnn_near[OF near] by simp
  ultimately have "distinct (map snd near)" by (metis mset_eq_imp_distinct_iff)
  moreover have "\<forall>(d, l) \<in> set near. \<exists>v. bs_points g l = Some v \<and> d = L2Sqr q v"
  proof (intro ballI)
    fix x assume "x \<in> set near"
    then have "x \<in> set ?all" using searchKnn_near[OF near] in_set_takeD by fastforce
    then obtain l v where "(l, v) \<in> set (bs_data g)" "x = (L2Sqr q v, l)" by auto
    then show "case x of (d, l) \<Rightarrow> \<exists>v. bs_points g l = Some v \<and> d = L2Sqr q v"
      using 4(1) by (auto simp: bs_points_def bs_ok_def)
  qed
  ultimately show ?case using searchKnn_near[OF near] by simp
qed (simp add: brute_force_def)

lemma brute_exact: "exact_search brute_force bs_ok bs_points L2Sqr"
  unfolding exact_search_def
proof (intro allI impI)
  fix q k and g :: BruteforceSearch
  assume g: "bs_ok g" "finite (dom (bs_points g))" "k \<le> card (dom (bs_points g))"
  let ?all = "sort (slot_distances q (bs_data g))"
  have "k \<le> length (bs_data g)" using g(1,3) by (simp add: bs_points_finite)
  then obtain near where near: "searchKnn q k g = Some near" by (simp add: searchKnn_def)
  note found = searchKnn_near[OF near]
  have "d \<le> L2Sqr q v" if l: "bs_points g l = Some v" "l \<notin> snd ` set near" and m: "(d, m) \<in> set near" for l v d m
  proof -
    have "(L2Sqr q v, l) \<in> set ?all" using l(1) by (force simp: bs_points_def dest: map_of_SomeD)
    moreover have "(L2Sqr q v, l) \<notin> set (take k ?all)" using l(2) found by force
    moreover have "set ?all = set (take k ?all) \<union> set (drop k ?all)" by (metis append_take_drop_id set_append)
    ultimately have "(L2Sqr q v, l) \<in> set (drop k ?all)" by blast
    moreover have "sorted (take k ?all @ drop k ?all)" by (simp only: append_take_drop_id sorted_sort)
    ultimately have "(d, m) \<le> (L2Sqr q v, l)" using m found by (auto simp only: sorted_append)
    then show ?thesis by (auto simp: less_eq_prod_def)
  qed
  then show "\<exists>near. hw_searchKnn brute_force q k g = Some near \<and> length near = k \<and>
      (\<forall>l v. bs_points g l = Some v \<longrightarrow> l \<notin> snd ` set near \<longrightarrow> (\<forall>(d, _) \<in> set near. d \<le> L2Sqr q v))"
    using near found by (intro exI[of _ near]) (auto simp: brute_force_def)
qed

text \<open>On vectors of the length of an embedding it computes the distance of the default index.\<close>

lemma L2Sqr_loop_distance:
  "length v1 = n \<Longrightarrow> length v2 = n \<Longrightarrow>
     L2Sqr_loop v1 v2 n res = foldl (\<lambda>d (x, y). let diff = fl (x - y) in fl (d + fl (diff * diff))) res (zip v1 v2)"
proof (induction v1 arbitrary: v2 n res)
  case (Cons x v1)
  then obtain y v2' m where "v2 = y # v2'" "n = Suc m" by (cases v2; cases n) auto
  with Cons show ?case by (simp add: Let_def)
qed simp

lemma L2Sqr_distance:
  "length v1 = BOOK_EMBED_DIM \<Longrightarrow> length v2 = BOOK_EMBED_DIM \<Longrightarrow> L2Sqr v1 v2 = distance v1 v2"
  by (simp add: L2Sqr_def distance_def L2Sqr_loop_distance)

end
