(* ===== verification/Hnsw.thy ===== *)
theory Hnsw
  imports Hnswlib App_State
begin

text \<open>
  The second index of \<^verbatim>\<open>src/app/recommend/book_vector_index.cpp\<close>, on the library hnswlib (a parameter, see
  \<open>Hnswlib\<close>), and the choice between the two. Whatever library keeps the laws, the index recommends other active books
  without repetition; where its search is exact, the two indexes recommend books at the same distances.
\<close>

section \<open>The index\<close>

record 'g HnswRecommendationIndex =
  hi_index :: "'g option"
  hi_label_to_book_id :: "int list"

definition HnswRecommendationIndex_new :: "'g HnswRecommendationIndex" where
  "HnswRecommendationIndex_new = \<lparr>hi_index = None, hi_label_to_book_id = []\<rparr>"

definition kGraphDegree :: nat where
  "kGraphDegree = 16"

definition kEfConstruction :: nat where
  "kEfConstruction = 200"

fun Hnsw_build_loop :: "'g Hnswlib \<Rightarrow> Book list \<Rightarrow> 'g \<Rightarrow> int list \<Rightarrow> ('g \<times> int list) option" where
  "Hnsw_build_loop H [] index labels = Some (index, labels)"
| "Hnsw_build_loop H (book # books) index labels =
     (if bk_status book \<noteq> ''active'' then Hnsw_build_loop H books index labels
      else case hw_addPoint H (embed_book book) (length labels) index of
        None \<Rightarrow> None
      | Some index' \<Rightarrow> Hnsw_build_loop H books index' (labels @ [bk_id book]))"

text \<open>\<open>None\<close>: an exception of the library leaves \<^verbatim>\<open>build\<close>.\<close>

definition Hnsw_build :: "'g Hnswlib \<Rightarrow> Book list \<Rightarrow> 'g HnswRecommendationIndex option" where
  "Hnsw_build H books =
     (let active_count = length (filter (\<lambda>b. bk_status b = ''active'') books) in
      if active_count = 0 then Some HnswRecommendationIndex_new
      else map_option (\<lambda>(index, labels). \<lparr>hi_index = Some index, hi_label_to_book_id = labels\<rparr>)
             (Hnsw_build_loop H books (hw_setEf H 50 (hw_new H active_count kGraphDegree kEfConstruction)) []))"

text \<open>The loop that empties the priority queue.\<close>

fun nearest_loop :: "int list \<Rightarrow> Book \<Rightarrow> (float32 \<times> nat) list \<Rightarrow> (float32 \<times> int) list \<Rightarrow> (float32 \<times> int) list" where
  "nearest_loop labels book [] scored = scored"
| "nearest_loop labels book ((d, label) # nearest) scored =
     (if label \<ge> length labels then nearest_loop labels book nearest scored
      else if labels ! label = bk_id book then nearest_loop labels book nearest scored
      else nearest_loop labels book nearest (scored @ [(d, labels ! label)]))"

text \<open>\<^verbatim>\<open>static_cast<std::size_t>(limit + 1)\<close>, the sum in \<^verbatim>\<open>int\<close>\<close>

definition wanted :: "int \<Rightarrow> nat" where
  "wanted limit = nat (wrap32 (limit + 1) mod 2 ^ 64)"

definition Hnsw_scored :: "'g Hnswlib \<Rightarrow> 'g HnswRecommendationIndex \<Rightarrow> Book \<Rightarrow> int \<Rightarrow> (float32 \<times> int) list" where
  "Hnsw_scored H r book limit =
     (case hi_index r of
        None \<Rightarrow> []
      | Some index \<Rightarrow>
          (let k = min (length (hi_label_to_book_id r)) (wanted limit) in
           if k = 0 then []
           else case hw_searchKnn H (embed_book book) k index of
             None \<Rightarrow> []
           | Some nearest \<Rightarrow> sort (nearest_loop (hi_label_to_book_id r) book nearest [])))"

definition Hnsw_search_similar :: "'g Hnswlib \<Rightarrow> 'g HnswRecommendationIndex \<Rightarrow> Book \<Rightarrow> int \<Rightarrow> int list" where
  "Hnsw_search_similar H r book limit =
     (if hi_index r = None \<or> hi_label_to_book_id r = [] \<or> bk_id book \<le> 0 \<or> limit \<le> 0 then []
      else take_ids_loop (Hnsw_scored H r book limit) [] limit)"

definition Hnsw_ready :: "'g HnswRecommendationIndex \<Rightarrow> bool" where
  "Hnsw_ready r \<longleftrightarrow> hi_index r \<noteq> None \<and> hi_label_to_book_id r \<noteq> []"

section \<open>The choice of an index\<close>

datatype RecommendationIndexBackend = TopK | HnswBackend

datatype 'g RecommendationIndex = TopKIndex "Entry list" | HnswIndex "'g HnswRecommendationIndex"

text \<open>\<open>enabled\<close> is the macro \<^verbatim>\<open>TINYWEBSERVER_ENABLE_HNSW\<close>.\<close>

definition create_recommendation_index :: "bool \<Rightarrow> RecommendationIndexBackend \<Rightarrow> 'g RecommendationIndex" where
  "create_recommendation_index enabled backend =
     (case backend of
        HnswBackend \<Rightarrow> if enabled then HnswIndex HnswRecommendationIndex_new else TopKIndex []
      | TopK \<Rightarrow> TopKIndex [])"

definition BookVectorIndex_default :: "bool \<Rightarrow> 'g RecommendationIndex" where
  "BookVectorIndex_default enabled = create_recommendation_index enabled TopK"

fun BookVectorIndex_build :: "'g Hnswlib \<Rightarrow> 'g RecommendationIndex \<Rightarrow> Book list \<Rightarrow> 'g RecommendationIndex option" where
  "BookVectorIndex_build H (TopKIndex e) books = Some (TopKIndex (TopK_build books))"
| "BookVectorIndex_build H (HnswIndex r) books = map_option HnswIndex (Hnsw_build H books)"

fun BookVectorIndex_search_similar :: "'g Hnswlib \<Rightarrow> 'g RecommendationIndex \<Rightarrow> Book \<Rightarrow> int \<Rightarrow> int list" where
  "BookVectorIndex_search_similar H (TopKIndex e) book limit = TopK_search_similar e book limit"
| "BookVectorIndex_search_similar H (HnswIndex r) book limit = Hnsw_search_similar H r book limit"

fun BookVectorIndex_ready :: "'g RecommendationIndex \<Rightarrow> bool" where
  "BookVectorIndex_ready (TopKIndex e) = TopK_ready e"
| "BookVectorIndex_ready (HnswIndex r) = Hnsw_ready r"

fun BookVectorIndex_backend_name :: "'g RecommendationIndex \<Rightarrow> string" where
  "BookVectorIndex_backend_name (TopKIndex e) = ''topk''"
| "BookVectorIndex_backend_name (HnswIndex r) = ''hnswlib''"

section \<open>Lemmas\<close>

definition active_books :: "Book list \<Rightarrow> Book list" where
  "active_books books = filter (\<lambda>b. bk_status b = ''active'') books"

lemma nearest_loop_eq:
  "nearest_loop labels book nearest scored =
     scored @ map (\<lambda>(d, l). (d, labels ! l)) (filter (\<lambda>(d, l). l < length labels \<and> labels ! l \<noteq> bk_id book) nearest)"
  by (induction labels book nearest scored rule: nearest_loop.induct) auto

context knn
begin

lemma build_loop:
  assumes "ok g" "points g = (\<lambda>l. if l < length done then Some (embed_book (done ! l)) else None)"
    and "room g \<ge> length (active_books books)"
  shows "\<exists>g'. Hnsw_build_loop H books g (map bk_id done) = Some (g', map bk_id (done @ active_books books)) \<and> ok g' \<and>
    points g' = (\<lambda>l. if l < length (done @ active_books books) then Some (embed_book ((done @ active_books books) ! l)) else None)"
  using assms
proof (induction books arbitrary: g "done")
  case Nil
  then show ?case by (simp add: active_books_def cong: if_cong)
next
  case (Cons b books)
  show ?case
  proof (cases "bk_status b = ''active''")
    case True
    then have act: "active_books (b # books) = b # active_books books" by (simp add: active_books_def)
    have "room g > 0" "points g (length done) = None" using Cons.prems act by simp_all
    from add[OF Cons.prems(1) this, of "embed_book b"] obtain g1 where g1: "hw_addPoint H (embed_book b) (length done) g = Some g1"
      "ok g1" "points g1 = (points g)(length done \<mapsto> embed_book b)" "room g1 = room g - 1" by blast
    have "points g1 = (\<lambda>l. if l < length (done @ [b]) then Some (embed_book ((done @ [b]) ! l)) else None)"
      by (auto simp: g1(3) Cons.prems(2) fun_eq_iff nth_append)
    moreover have "length (active_books books) \<le> room g1" using Cons.prems(3) act g1(4) by simp
    ultimately show ?thesis
      using Cons.IH[of g1 "done @ [b]"] g1(1,2) True act by (simp cong: if_cong)
  qed (use Cons in \<open>simp add: active_books_def cong: if_cong\<close>)
qed

lemma build_points:
  "\<exists>r. Hnsw_build H books = Some r \<and> hi_label_to_book_id r = map bk_id (active_books books) \<and>
     (active_books books = [] \<longrightarrow> hi_index r = None) \<and>
     (active_books books \<noteq> [] \<longrightarrow> (\<exists>g. hi_index r = Some g \<and> ok g \<and>
        points g = (\<lambda>l. if l < length (active_books books) then Some (embed_book (active_books books ! l)) else None)))"
proof (cases "active_books books = []")
  case False
  let ?g = "hw_setEf H 50 (hw_new H (length (active_books books)) kGraphDegree kEfConstruction)"
  have "ok ?g" "points ?g = (\<lambda>l. if l < length [] then Some (embed_book ([] ! l)) else None)" "room ?g \<ge> length (active_books books)"
    using new ef by auto
  from build_loop[OF this] False show ?thesis
    by (auto simp: Hnsw_build_def active_books_def Let_def cong: if_cong)
qed (auto simp: Hnsw_build_def active_books_def HnswRecommendationIndex_new_def Let_def)

text \<open>The labels that a search keeps, in order of distance.\<close>

lemma scored_books:
  assumes r: "hi_index r = Some g" "ok g" "hi_label_to_book_id r = map bk_id act"
    and pts: "points g = (\<lambda>l. if l < length act then Some (embed_book (act ! l)) else None)"
    and near: "hw_searchKnn H (embed_book book) (min (length act) (wanted limit)) g = Some near"
    and k: "min (length act) (wanted limit) \<noteq> 0"
  shows "Hnsw_scored H r book limit = sort (map (\<lambda>l. (l2 (embed_book book) (embed_book (act ! l)), bk_id (act ! l)))
    (filter (\<lambda>l. bk_id (act ! l) \<noteq> bk_id book) (map snd near)))"
proof -
  have n: "\<forall>(d, l) \<in> set near. l < length act \<and> d = l2 (embed_book book) (embed_book (act ! l))"
    using search[OF r(2) near] by (fastforce simp: pts split: if_splits)
  have "nearest_loop (map bk_id act) book near [] =
      map (\<lambda>(d, l). (d, map bk_id act ! l)) (filter (\<lambda>(d, l). l < length act \<and> map bk_id act ! l \<noteq> bk_id book) near)"
    by (simp add: nearest_loop_eq)
  also have "\<dots> = map (\<lambda>l. (l2 (embed_book book) (embed_book (act ! l)), bk_id (act ! l)))
      (filter (\<lambda>l. bk_id (act ! l) \<noteq> bk_id book) (map snd near))"
    using n by (induction near) auto
  finally have e: "nearest_loop (map bk_id act) book near [] = map (\<lambda>l. (l2 (embed_book book) (embed_book (act ! l)), bk_id (act ! l)))
      (filter (\<lambda>l. bk_id (act ! l) \<noteq> bk_id book) (map snd near))" .
  show ?thesis
    unfolding Hnsw_scored_def r(1,3) option.case Let_def length_map if_not_P[OF k] near e ..
qed

end

lemma map_fst_sort: "map fst (sort xs) = sort (map fst xs)" for xs :: "(float32 \<times> int) list"
proof (rule properties_for_sort[symmetric])
  have "sorted_wrt (\<lambda>x y. fst x \<le> fst y) (sort xs)"
    by (rule sorted_wrt_mono_rel[of _ "(\<le>)"]) (auto simp: less_eq_prod_def)
  then show "sorted (map fst (sort xs))" by (simp add: sorted_wrt_map)
qed simp

lemma take_sort_smallest:
  fixes xs :: "'a :: linorder list"
  assumes "mset zs = mset xs + mset ys" "\<forall>x \<in> set xs. \<forall>y \<in> set ys. x \<le> y" "m \<le> length xs \<or> ys = []"
  shows "take m (sort zs) = take m (sort xs)"
proof -
  have "sort zs = sort xs @ sort ys"
    using assms(1,2) by (intro properties_for_sort) (auto simp: sorted_append)
  with assms(3) show ?thesis by auto
qed

lemma wanted_small: "0 < limit \<Longrightarrow> int32 limit \<Longrightarrow> wanted limit = nat (limit + 1) \<or> wanted limit \<ge> 2 ^ 63"
proof (cases "limit = 2 ^ 31 - 1")
  case False
  assume "0 < limit" "int32 limit"
  with False have "int32 (limit + 1)" by (simp add: int32_def)
  then have "wrap32 (limit + 1) = limit + 1" by (rule wrap32_id)
  with \<open>0 < limit\<close> \<open>int32 limit\<close> show ?thesis by (simp add: wanted_def int32_def)
qed (simp add: wanted_def wrap32_def)

lemma map_filter_nth:
  "map (\<lambda>l. f (xs ! l)) (filter (\<lambda>l. P (xs ! l)) [0..<length xs]) = map f (filter P xs)"
proof -
  have "map f (filter P (map ((!) xs) [0..<length xs])) = map (\<lambda>l. f (xs ! l)) (filter (\<lambda>l. P (xs ! l)) [0..<length xs])"
    by (simp add: filter_map o_def del: map_nth)
  then show ?thesis by (simp add: map_nth)
qed

lemma distinct_labels:
  assumes "distinct (map f xs)" "distinct ls" "\<forall>l \<in> set ls. l < length xs"
  shows "distinct (map (\<lambda>l. f (xs ! l)) ls)"
  unfolding distinct_map
proof (intro conjI inj_onI)
  fix l m
  assume "l \<in> set ls" "m \<in> set ls" "f (xs ! l) = f (xs ! m)"
  with assms(3) have "l < length (map f xs)" "m < length (map f xs)" "map f xs ! l = map f xs ! m" by simp_all
  then show "l = m" using assms(1) nth_eq_iff_index_eq by blast
qed (rule assms(2))

lemma finite_points: "finite (dom (\<lambda>l. if l < (n :: nat) then Some (f l) else None))"
  "card (dom (\<lambda>l. if l < (n :: nat) then Some (f l) else None)) = n"
proof -
  have "dom (\<lambda>l. if l < n then Some (f l) else None) = {..<n}" by (auto split: if_splits)
  then show "finite (dom (\<lambda>l. if l < n then Some (f l) else None))" "card (dom (\<lambda>l. if l < n then Some (f l) else None)) = n" by simp_all
qed

text \<open>At most one label belongs to the book that is asked about.\<close>

lemma other_labels:
  assumes "distinct (map f ls)"
  shows "length (filter (\<lambda>l. f l \<noteq> i) ls) + 1 \<ge> length ls"
proof -
  have "length (filter (\<lambda>l. f l = i) ls) \<le> 1"
    using assms by (induction ls) (auto simp: filter_empty_conv image_iff)
  moreover have "length (filter (\<lambda>l. f l = i) ls) + length (filter (\<lambda>l. f l \<noteq> i) ls) = length ls"
    by (rule sum_length_filter_compl)
  ultimately show ?thesis by linarith
qed

context knn
begin

lemma exact_scored:
  assumes ex: "exact_search H ok points l2" and act: "distinct (map bk_id act)" "act \<noteq> []" "length act < 2 ^ 63"
    and r: "hi_index r = Some g" "ok g" "hi_label_to_book_id r = map bk_id act"
    and pts: "points g = (\<lambda>l. if l < length act then Some (embed_book (act ! l)) else None)"
    and limit: "0 < limit" "int32 limit"
  shows "take (nat limit) (map fst (Hnsw_scored H r book limit)) =
    take (nat limit) (sort (map (\<lambda>b. l2 (embed_book book) (embed_book b)) (filter (\<lambda>b. bk_id b \<noteq> bk_id book) act)))"
proof -
  let ?n = "length act" and ?q = "embed_book book" and ?k = "min (length act) (wanted limit)"
  let ?d = "\<lambda>l. l2 ?q (embed_book (act ! l))" and ?P = "\<lambda>l. bk_id (act ! l) \<noteq> bk_id book"
  have fin: "finite (dom (points g))" and card: "card (dom (points g)) = ?n" unfolding pts by (rule finite_points)+
  obtain near where near: "hw_searchKnn H ?q ?k g = Some near" "length near = ?k"
    "\<forall>l v. points g l = Some v \<longrightarrow> l \<notin> snd ` set near \<longrightarrow> (\<forall>(d, _) \<in> set near. d \<le> l2 ?q v)"
    using ex fin r(2) card unfolding exact_search_def by (metis min.cobounded1)
  let ?ls = "map snd near"
  have ls: "distinct ?ls" "\<forall>l \<in> set ?ls. l < ?n" and dl: "\<forall>(d, l) \<in> set near. d = ?d l"
    using search[OF r(2) near(1)] by (fastforce simp: pts split: if_splits)+
  let ?rest = "filter (\<lambda>l. l \<notin> set ?ls) [0..<?n]"
  have "mset ([0..<?n]) = mset (?ls @ ?rest)"
    using ls by (subst set_eq_iff_mset_eq_distinct[symmetric]) auto
  then have split: "mset (map ?d (filter ?P [0..<?n])) = mset (map ?d (filter ?P ?ls)) + mset (map ?d (filter ?P ?rest))"
    by (simp add: mset_filter)
  have le: "\<forall>x \<in> set (map ?d (filter ?P ?ls)). \<forall>y \<in> set (map ?d (filter ?P ?rest)). x \<le> y"
  proof (intro ballI)
    fix x y
    assume "x \<in> set (map ?d (filter ?P ?ls))" "y \<in> set (map ?d (filter ?P ?rest))"
    then obtain d l m where l: "(d, l) \<in> set near" "x = ?d l" and m: "m < ?n" "m \<notin> snd ` set near" "y = ?d m" by auto
    then have "d = ?d l" using dl by fast
    moreover have "points g m = Some (embed_book (act ! m))" using m by (simp add: pts)
    ultimately show "x \<le> y" using near(3) l m by fast
  qed
  have enough: "nat limit \<le> length (map ?d (filter ?P ?ls)) \<or> map ?d (filter ?P ?rest) = []"
  proof (cases "wanted limit < ?n")
    case True
    then have "?k = nat (limit + 1)" using wanted_small[OF limit] act(3) by linarith
    then have "length ?ls = nat (limit + 1)" using near(2) True by simp
    moreover have "distinct (map (\<lambda>l. bk_id (act ! l)) ?ls)"
      by (rule distinct_labels[OF act(1) ls])
    from other_labels[OF this, of "bk_id book"] have "length (filter ?P ?ls) + 1 \<ge> length ?ls" .
    ultimately have "nat limit \<le> length (filter ?P ?ls)" using limit by linarith
    then show ?thesis by simp
  next
    case False
    then have "length ?ls = ?n" using near(2) by simp
    with ls have "set ?ls = {..<?n}"
      by (metis card_lessThan card_subset_eq distinct_card finite_lessThan lessThan_iff subsetI)
    then have "?rest = []" by (auto simp: filter_empty_conv)
    then show ?thesis by simp
  qed
  have "map fst (Hnsw_scored H r book limit) = sort (map ?d (filter ?P ?ls))"
    using scored_books[OF r pts near(1)] wanted_small[OF limit] limit act(2)
    by (auto simp: map_fst_sort o_def)
  moreover have "map ?d (filter ?P [0..<?n]) = map (\<lambda>b. l2 ?q (embed_book b)) (filter (\<lambda>b. bk_id b \<noteq> bk_id book) act)"
    by (rule map_filter_nth)
  ultimately show ?thesis using take_sort_smallest[OF split le enough] by simp
qed

end

text \<open>How far a book of the list is from the one that is asked about.\<close>

definition id_distance :: "(float32 list \<Rightarrow> float32 list \<Rightarrow> float32) \<Rightarrow> Book list \<Rightarrow> Book \<Rightarrow> int \<Rightarrow> float32" where
  "id_distance l2 books book i =
     (case List.find (\<lambda>b. bk_id b = i) books of None \<Rightarrow> 0 | Some b \<Rightarrow> l2 (embed_book book) (embed_book b))"

lemma id_distance_in:
  assumes "distinct (map bk_id act)" "b \<in> set act"
  shows "id_distance l2 act book (bk_id b) = l2 (embed_book book) (embed_book b)"
  using assms by (induction act) (auto simp: id_distance_def image_iff)

lemma length_append_tokens_loop: "length (append_tokens_loop s token e) = length e"
  by (induction s token e rule: append_tokens_loop.induct) (auto simp: count_token_def Let_def)

lemma length_embed_book: "length (embed_book b) = BOOK_EMBED_DIM"
  by (simp add: embed_book_def normalize_embedding_def append_tokens_def length_append_tokens_loop Let_def)

lemma id_distance_eq:
  "\<forall>v w. length v = BOOK_EMBED_DIM \<and> length w = BOOK_EMBED_DIM \<longrightarrow> l2 v w = distance v w \<Longrightarrow>
     id_distance l2 books book = id_distance distance books book"
  by (auto simp: id_distance_def fun_eq_iff length_embed_book split: option.split)

lemma scored_distances:
  assumes "\<forall>(d, i) \<in> set scored. d = f i"
  shows "map f (map snd scored) = map fst scored"
  using assms by (induction scored) auto

lemma topk_distances:
  assumes "distinct (map bk_id (active_books books))" "bk_id book > 0"
  shows "map (id_distance distance (active_books books) book) (TopK_search_similar (TopK_build books) book limit) =
    take (nat limit) (sort (map (\<lambda>b. distance (embed_book book) (embed_book b)) (filter (\<lambda>b. bk_id b \<noteq> bk_id book) (active_books books))))"
proof -
  let ?s = "sort (scored_entries (TopK_build books) book)"
  have e: "scored_entries (TopK_build books) book =
      map (\<lambda>b. (distance (embed_book book) (embed_book b), bk_id b)) (filter (\<lambda>b. bk_id b \<noteq> bk_id book) (active_books books))"
    by (simp add: scored_entries_def TopK_build_def active_books_def filter_map o_def)
  have "\<forall>(d, i) \<in> set ?s. d = id_distance distance (active_books books) book i"
    using assms(1) by (auto simp: e id_distance_in)
  then have "\<forall>(d, i) \<in> set (take (nat limit) ?s). d = id_distance distance (active_books books) book i"
    by (meson in_set_takeD)
  from scored_distances[OF this] show ?thesis
    using assms(2) by (simp add: search_similar_take take_map[symmetric] map_fst_sort e o_def)
qed

context knn
begin

lemma scored_sound:
  assumes act: "distinct (map bk_id act)" "act \<noteq> []"
    and r: "hi_index r = Some g" "ok g" "hi_label_to_book_id r = map bk_id act"
    and pts: "points g = (\<lambda>l. if l < length act then Some (embed_book (act ! l)) else None)"
  shows "distinct (map snd (Hnsw_scored H r book limit)) \<and>
    (\<forall>(d, i) \<in> set (Hnsw_scored H r book limit). i \<in> bk_id ` set act \<and> i \<noteq> bk_id book \<and> d = id_distance l2 act book i)"
proof (cases "min (length act) (wanted limit) = 0 \<or> hw_searchKnn H (embed_book book) (min (length act) (wanted limit)) g = None")
  case True
  then have "Hnsw_scored H r book limit = []"
    unfolding Hnsw_scored_def r(1,3) option.case Let_def length_map by (elim disjE) (simp_all only: if_True refl option.case if_cancel)
  then show ?thesis by simp
next
  case False
  then obtain near where near: "hw_searchKnn H (embed_book book) (min (length act) (wanted limit)) g = Some near" by auto
  let ?ls = "map snd near"
  have ls: "distinct ?ls" "\<forall>l \<in> set ?ls. l < length act"
    using search[OF r(2) near] by (fastforce simp: pts split: if_splits)+
  note e = scored_books[OF r pts near]
  have "distinct (map (\<lambda>l. bk_id (act ! l)) (filter (\<lambda>l. bk_id (act ! l) \<noteq> bk_id book) ?ls))"
    by (rule distinct_labels[OF act(1)]) (use ls in auto)
  then have "distinct (map snd (Hnsw_scored H r book limit))"
    using e False by (simp add: distinct_snd_sort o_def)
  moreover have "\<forall>(d, i) \<in> set (Hnsw_scored H r book limit). i \<in> bk_id ` set act \<and> i \<noteq> bk_id book \<and> d = id_distance l2 act book i"
    using e False ls(2) act(1) by (auto simp: id_distance_in)
  ultimately show ?thesis by blast
qed

lemma search_take:
  "hi_index r \<noteq> None \<Longrightarrow> hi_label_to_book_id r \<noteq> [] \<Longrightarrow> bk_id book > 0 \<Longrightarrow>
     Hnsw_search_similar H r book limit = map snd (take (nat limit) (Hnsw_scored H r book limit))"
  by (auto simp: Hnsw_search_similar_def take_ids_loop_take take_map)

end

section \<open>The two indexes\<close>

text \<open>C34: on any library that keeps its laws, however approximate its search, building the hnswlib index never throws and
  every search of it returns at most \<open>limit\<close> books, no book twice, only active books of the list and never the book
  that was asked about. If the search of the library is exact for the distance of the default index, the two indexes
  recommend books at the same distances, in the same order.\<close>

theorem hnsw_refines_topk:
  assumes "knn H ok points room l2" "distinct (map bk_id (active_books books))" "length books < 2 ^ 63"
    and "bk_id book > 0" "int32 limit"
  shows "\<exists>r. Hnsw_build H books = Some r \<and>
     (let found = Hnsw_search_similar H r book limit in
      length found \<le> nat limit \<and> distinct found \<and> set found \<subseteq> bk_id ` set (active_books books) - {bk_id book} \<and>
      (exact_search H ok points l2 \<and>
       (\<forall>v w. length v = BOOK_EMBED_DIM \<and> length w = BOOK_EMBED_DIM \<longrightarrow> l2 v w = distance v w) \<longrightarrow>
         map (id_distance distance (active_books books) book) found =
         map (id_distance distance (active_books books) book) (TopK_search_similar (TopK_build books) book limit)))"
proof -
  let ?act = "active_books books"
  obtain r where built: "Hnsw_build H books = Some r" and r: "hi_label_to_book_id r = map bk_id ?act"
    "?act = [] \<longrightarrow> hi_index r = None" "?act \<noteq> [] \<longrightarrow> (\<exists>g. hi_index r = Some g \<and> ok g \<and>
        points g = (\<lambda>l. if l < length ?act then Some (embed_book (?act ! l)) else None))"
    using knn.build_points[OF assms(1), of books] by blast
  have len: "length ?act < 2 ^ 63"
    unfolding active_books_def by (rule le_less_trans[OF length_filter_le assms(3)])
  show ?thesis
  proof (cases "?act = [] \<or> limit \<le> 0")
    case True
    then have "Hnsw_search_similar H r book limit = []" "TopK_search_similar (TopK_build books) book limit = []"
      using r(2) by (auto simp: Hnsw_search_similar_def TopK_search_similar_def TopK_build_def active_books_def)
    with built show ?thesis by (simp add: Let_def)
  next
    case False
    then obtain g where g: "hi_index r = Some g" "ok g"
      "points g = (\<lambda>l. if l < length ?act then Some (embed_book (?act ! l)) else None)" using r(3) by blast
    let ?s = "Hnsw_scored H r book limit"
    have found: "Hnsw_search_similar H r book limit = map snd (take (nat limit) ?s)"
      using False g(1) r(1) assms(4) by (intro knn.search_take[OF assms(1)]) auto
    have act: "?act \<noteq> []" using False by blast
    note sound = conjunct1[OF knn.scored_sound[OF assms(1,2) act g(1,2) r(1) g(3), of book limit]]
      conjunct2[OF knn.scored_sound[OF assms(1,2) act g(1,2) r(1) g(3), of book limit]]
    have "map (id_distance distance ?act book) (map snd (take (nat limit) ?s)) =
        map (id_distance distance ?act book) (TopK_search_similar (TopK_build books) book limit)"
      if ex: "exact_search H ok points l2"
        and d: "\<forall>v w. length v = BOOK_EMBED_DIM \<and> length w = BOOK_EMBED_DIM \<longrightarrow> l2 v w = distance v w"
    proof -
      have "\<forall>(d, i) \<in> set (take (nat limit) ?s). d = id_distance distance ?act book i"
        using sound(2) id_distance_eq[OF d] by (auto dest!: in_set_takeD)
      from scored_distances[OF this]
      have "map (id_distance distance ?act book) (map snd (take (nat limit) ?s)) = take (nat limit) (map fst ?s)"
        by (simp only: take_map)
      also have "\<dots> = take (nat limit) (sort (map (\<lambda>b. l2 (embed_book book) (embed_book b)) (filter (\<lambda>b. bk_id b \<noteq> bk_id book) ?act)))"
        using knn.exact_scored[OF assms(1) ex assms(2) act len g(1,2) r(1) g(3) _ assms(5), of book] False by simp
      also have "\<dots> = take (nat limit) (sort (map (\<lambda>b. distance (embed_book book) (embed_book b)) (filter (\<lambda>b. bk_id b \<noteq> bk_id book) ?act)))"
        using d by (simp add: length_embed_book)
      finally show ?thesis by (simp only: topk_distances[OF assms(2,4)])
    qed
    moreover have "distinct (map snd (take (nat limit) ?s))" using sound(1) by (simp add: take_map[symmetric] distinct_take)
    moreover have "set (map snd (take (nat limit) ?s)) \<subseteq> bk_id ` set ?act - {bk_id book}"
      using sound(2) by (auto dest!: in_set_takeD)
    ultimately show ?thesis using built found by (simp add: Let_def)
  qed
qed

lemma hnsw_refines_topk_witness:
  "\<exists>r. Hnsw_build brute_force default_books = Some r \<and>
     (let found = Hnsw_search_similar brute_force r (default_books ! 0) 2 in
      length found \<le> 2 \<and> distinct found \<and> set found \<subseteq> bk_id ` set (active_books default_books) - {bk_id (default_books ! 0)} \<and>
      map (id_distance distance (active_books default_books) (default_books ! 0)) found =
      map (id_distance distance (active_books default_books) (default_books ! 0))
        (TopK_search_similar (TopK_build default_books) (default_books ! 0) 2))"
proof -
  have "distinct (map bk_id (active_books default_books))" "length default_books < 2 ^ 63" "bk_id (default_books ! 0) > 0" "int32 2"
    by (simp_all add: default_books_def active_books_def int32_def)
  from hnsw_refines_topk[OF brute.knn_axioms this] show ?thesis
    by (auto simp: brute_exact L2Sqr_distance Let_def)
qed

end
