(* ===== verification/Listen.thy ===== *)
theory Listen
  imports Config
begin

text \<open>
  \<^verbatim>\<open>WebServer::eventListen\<close> and the destructor of \<^verbatim>\<open>src/core/webserver.cpp\<close> with the parts of \<^verbatim>\<open>Utils\<close> they use
  (\<^verbatim>\<open>src/timer/lst_timer.cpp\<close>): the server opens its descriptors, registers them and its signal handlers. Every
  statement is one step, so that a signal can arrive between two of them. The results of system calls are
  arguments; \<open>asserts\<close> tells whether \<^verbatim>\<open>NDEBUG\<close> is undefined, that is, whether \<^verbatim>\<open>assert\<close> evaluates its argument.
\<close>

section \<open>The kernel\<close>

record epoll_flags =
  ep_IN :: bool
  ep_ET :: bool
  ep_RDHUP :: bool
  ep_ONESHOT :: bool

datatype disposition = SIG_DFL | SIG_IGN | Handler bool

text \<open>The argument of \<open>Handler\<close> is \<^verbatim>\<open>SA_RESTART\<close>. \<open>kn_pipe\<close> holds what was sent to the second end of the socket pair and
  not read from the first one, at most \<open>kn_capacity\<close> bytes.\<close>

record Kernel =
  kn_open :: "int set"
  kn_linger :: "(int \<times> int) option"
  kn_reuseaddr :: bool
  kn_bound :: "int option"
  kn_backlog :: "int option"
  kn_interest :: "int \<rightharpoonup> epoll_flags"
  kn_nonblocking :: "int set"
  kn_disposition :: "int \<Rightarrow> disposition"
  kn_alarm :: "int option"
  kn_pipe :: "int list"
  kn_capacity :: nat

record Results =
  rs_socket :: int
  rs_bind :: int
  rs_listen :: int
  rs_epoll_create :: int
  rs_socketpair :: "int \<times> int \<times> int"
  rs_capacity :: nat

text \<open>The members that the function writes, and the statics \<^verbatim>\<open>Utils::u_pipefd\<close> (null or the address of \<^verbatim>\<open>m_pipefd\<close>),
  \<^verbatim>\<open>Utils::u_epollfd\<close> and \<^verbatim>\<open>HttpConn::epoll_fd\<close>.\<close>

record Listener =
  ls_listenfd :: int
  ls_epollfd :: int
  ls_pipefd :: "int \<times> int"
  ls_ret :: int
  ls_TIMESLOT :: int
  ls_u_pipefd :: bool
  ls_u_epollfd :: int
  ls_http_epoll_fd :: int
  ls_kernel :: Kernel

definition Kernel_start :: Kernel where
  "Kernel_start =
     \<lparr>kn_open = {}, kn_linger = None, kn_reuseaddr = False, kn_bound = None, kn_backlog = None, kn_interest = Map.empty,
      kn_nonblocking = {}, kn_disposition = (\<lambda>_. SIG_DFL), kn_alarm = None, kn_pipe = [], kn_capacity = 0\<rparr>"

text \<open>The constructor of \<^verbatim>\<open>WebServer\<close> writes -1 to every descriptor.\<close>

definition Listener_new :: Listener where
  "Listener_new =
     \<lparr>ls_listenfd = - 1, ls_epollfd = - 1, ls_pipefd = (- 1, - 1), ls_ret = 0, ls_TIMESLOT = 0, ls_u_pipefd = False,
      ls_u_epollfd = 0, ls_http_epoll_fd = - 1, ls_kernel = Kernel_start\<rparr>"

abbreviation kernel :: "(Kernel \<Rightarrow> Kernel) \<Rightarrow> Listener \<Rightarrow> Listener" where
  "kernel f l \<equiv> l\<lparr>ls_kernel := f (ls_kernel l)\<rparr>"

section \<open>Utils\<close>

definition setnonblocking :: "int \<Rightarrow> Kernel \<Rightarrow> Kernel" where
  "setnonblocking fd k = (if fd \<in> kn_open k then k\<lparr>kn_nonblocking := insert fd (kn_nonblocking k)\<rparr> else k)"

definition addfd :: "int \<Rightarrow> bool \<Rightarrow> int \<Rightarrow> Kernel \<Rightarrow> Kernel" where
  "addfd fd one_shot TRIGMode k =
     setnonblocking fd
       (if fd \<in> kn_open k
        then k\<lparr>kn_interest := (kn_interest k)
                (fd \<mapsto> \<lparr>ep_IN = True, ep_ET = (TRIGMode = 1), ep_RDHUP = True, ep_ONESHOT = one_shot\<rparr>)\<rparr>
        else k)"

definition SIGPIPE :: int where
  "SIGPIPE = 13"

text \<open>The call of \<^verbatim>\<open>sigaction\<close> is the argument of \<^verbatim>\<open>assert\<close>. For these three signals it does not fail.\<close>

definition addsig :: "bool \<Rightarrow> int \<Rightarrow> disposition \<Rightarrow> Kernel \<Rightarrow> Kernel" where
  "addsig asserts sig handler k = (if asserts then k\<lparr>kn_disposition := (kn_disposition k)(sig := handler)\<rparr> else k)"

text \<open>\<^verbatim>\<open>Utils::sig_handler\<close> sends one byte and does not look at the result: its end does not block, so the byte is lost
  when the pair is full. \<open>None\<close> is the null pointer.\<close>

definition sig_handler :: "int \<Rightarrow> Listener \<Rightarrow> Listener option" where
  "sig_handler sig l =
     (if \<not> ls_u_pipefd l then None
      else Some (if snd (ls_pipefd l) \<in> kn_open (ls_kernel l) \<and> length (kn_pipe (ls_kernel l)) < kn_capacity (ls_kernel l)
                 then kernel (\<lambda>k. k\<lparr>kn_pipe := kn_pipe k @ [sig]\<rparr>) l else l))"

section \<open>eventListen\<close>

type_synonym step = "Listener \<Rightarrow> Listener option"

definition require :: "bool \<Rightarrow> (Listener \<Rightarrow> bool) \<Rightarrow> step" where
  "require asserts P l = (if asserts \<and> \<not> P l then None else Some l)"

definition open_socket :: "Results \<Rightarrow> Listener \<Rightarrow> Listener" where
  "open_socket rs l =
     kernel (\<lambda>k. if rs_socket rs \<ge> 0 then k\<lparr>kn_open := insert (rs_socket rs) (kn_open k)\<rparr> else k)
       (l\<lparr>ls_listenfd := rs_socket rs\<rparr>)"

definition set_linger :: "int \<Rightarrow> Kernel \<Rightarrow> Kernel" where
  "set_linger OPT_LINGER k =
     (if OPT_LINGER = 0 then k\<lparr>kn_linger := Some (0, 1)\<rparr>
      else if OPT_LINGER = 1 then k\<lparr>kn_linger := Some (1, 1)\<rparr>
      else k)"

definition bind_socket :: "int \<Rightarrow> Results \<Rightarrow> Listener \<Rightarrow> Listener" where
  "bind_socket port rs l =
     kernel (\<lambda>k. if rs_bind rs \<ge> 0 then k\<lparr>kn_bound := Some (port mod 2 ^ 16)\<rparr> else k) (l\<lparr>ls_ret := rs_bind rs\<rparr>)"

definition listen_socket :: "Results \<Rightarrow> Listener \<Rightarrow> Listener" where
  "listen_socket rs l =
     kernel (\<lambda>k. if rs_listen rs \<ge> 0 then k\<lparr>kn_backlog := Some 5\<rparr> else k) (l\<lparr>ls_ret := rs_listen rs\<rparr>)"

definition create_epoll :: "Results \<Rightarrow> Listener \<Rightarrow> Listener" where
  "create_epoll rs l =
     kernel (\<lambda>k. if rs_epoll_create rs \<ge> 0 then k\<lparr>kn_open := insert (rs_epoll_create rs) (kn_open k)\<rparr> else k)
       (l\<lparr>ls_epollfd := rs_epoll_create rs\<rparr>)"

definition make_pipe :: "Results \<Rightarrow> Listener \<Rightarrow> Listener" where
  "make_pipe rs l =
     (case rs_socketpair rs of
        (ret, r, w) \<Rightarrow>
          if ret = - 1 then l\<lparr>ls_ret := ret\<rparr>
          else kernel (\<lambda>k. k\<lparr>kn_open := insert r (insert w (kn_open k)), kn_capacity := rs_capacity rs\<rparr>) (l\<lparr>ls_ret := ret, ls_pipefd := (r, w)\<rparr>))"

text \<open>The function in three parts: the listening socket, epoll with the socket pair, the signals.\<close>

definition listen_steps :: "bool \<Rightarrow> Results \<Rightarrow> 's WebServer \<Rightarrow> step list" where
  "listen_steps asserts rs w =
     [\<lambda>l. Some (open_socket rs l),
      require asserts (\<lambda>l. ls_listenfd l \<ge> 0),
      \<lambda>l. Some (kernel (set_linger (ws_OPT_LINGER w)) l),
      \<lambda>l. Some (kernel (\<lambda>k. k\<lparr>kn_reuseaddr := True\<rparr>) l),
      \<lambda>l. Some (bind_socket (ws_port w) rs l),
      require asserts (\<lambda>l. ls_ret l \<ge> 0),
      \<lambda>l. Some (listen_socket rs l),
      require asserts (\<lambda>l. ls_ret l \<ge> 0),
      \<lambda>l. Some (l\<lparr>ls_TIMESLOT := TIMESLOT\<rparr>)]"

definition epoll_steps :: "bool \<Rightarrow> Results \<Rightarrow> 's WebServer \<Rightarrow> step list" where
  "epoll_steps asserts rs w =
     [\<lambda>l. Some (create_epoll rs l),
      require asserts (\<lambda>l. ls_epollfd l \<noteq> - 1),
      \<lambda>l. Some (kernel (addfd (ls_listenfd l) False (ws_LISTENTrigmode w)) l),
      \<lambda>l. Some (l\<lparr>ls_http_epoll_fd := ls_epollfd l\<rparr>),
      \<lambda>l. Some (make_pipe rs l),
      require asserts (\<lambda>l. ls_ret l \<noteq> - 1),
      \<lambda>l. Some (kernel (setnonblocking (snd (ls_pipefd l))) l),
      \<lambda>l. Some (kernel (addfd (fst (ls_pipefd l)) False 0) l)]"

definition signal_steps :: "bool \<Rightarrow> step list" where
  "signal_steps asserts =
     [\<lambda>l. Some (kernel (addsig asserts SIGPIPE SIG_IGN) l),
      \<lambda>l. Some (kernel (addsig asserts SIGALRM (Handler False)) l),
      \<lambda>l. Some (kernel (addsig asserts SIGTERM (Handler False)) l),
      \<lambda>l. Some (kernel (\<lambda>k. k\<lparr>kn_alarm := Some TIMESLOT\<rparr>) l),
      \<lambda>l. Some (l\<lparr>ls_u_pipefd := True\<rparr>),
      \<lambda>l. Some (l\<lparr>ls_u_epollfd := ls_epollfd l\<rparr>)]"

definition eventListen_steps :: "bool \<Rightarrow> Results \<Rightarrow> 's WebServer \<Rightarrow> step list" where
  "eventListen_steps asserts rs w = listen_steps asserts rs w @ epoll_steps asserts rs w @ signal_steps asserts"

fun run_steps :: "step list \<Rightarrow> Listener \<Rightarrow> Listener option" where
  "run_steps [] l = Some l"
| "run_steps (f # fs) l = (case f l of None \<Rightarrow> None | Some l' \<Rightarrow> run_steps fs l')"

text \<open>\<open>None\<close>: an assertion aborts the process.\<close>

definition eventListen :: "bool \<Rightarrow> Results \<Rightarrow> 's WebServer \<Rightarrow> Listener \<Rightarrow> Listener option" where
  "eventListen asserts rs w l = run_steps (eventListen_steps asserts rs w) l"

text \<open>The destructor: the descriptors it closes, in order.\<close>

definition WebServer_destroy :: "Listener \<Rightarrow> int list" where
  "WebServer_destroy l =
     (if ls_epollfd l \<noteq> - 1 then [ls_epollfd l] else []) @ (if ls_listenfd l \<noteq> - 1 then [ls_listenfd l] else []) @
     (if snd (ls_pipefd l) \<noteq> - 1 then [snd (ls_pipefd l)] else []) @ (if fst (ls_pipefd l) \<noteq> - 1 then [fst (ls_pipefd l)] else [])"

section \<open>Signals\<close>

datatype outcome = Running Listener | Aborted | Killed int | Crashed

text \<open>The default action of these signals ends the process.\<close>

definition deliver_signal :: "int \<Rightarrow> Listener \<Rightarrow> outcome" where
  "deliver_signal sig l =
     (case kn_disposition (ls_kernel l) sig of
        SIG_DFL \<Rightarrow> Killed sig
      | SIG_IGN \<Rightarrow> Running l
      | Handler _ \<Rightarrow> (case sig_handler sig l of None \<Rightarrow> Crashed | Some l' \<Rightarrow> Running l'))"

fun deliver_signals :: "int list \<Rightarrow> Listener \<Rightarrow> outcome" where
  "deliver_signals [] l = Running l"
| "deliver_signals (sig # sigs) l = (case deliver_signal sig l of Running l' \<Rightarrow> deliver_signals sigs l' | stop \<Rightarrow> stop)"

text \<open>The rounds of the main loop while the pipe can be read, at most \<open>n\<close>: what \<^verbatim>\<open>dealwithsignal\<close> reports each time. The read end
  is watched level-triggered, so the loop is told about it again until it is empty.\<close>

fun signal_rounds :: "nat \<Rightarrow> Listener \<Rightarrow> (bool \<times> bool \<times> bool) list" where
  "signal_rounds 0 l = []"
| "signal_rounds (Suc n) l =
     (if kn_pipe (ls_kernel l) = [] then []
      else dealwithsignal (Some (kn_pipe (ls_kernel l))) False False #
        signal_rounds n (kernel (\<lambda>k. k\<lparr>kn_pipe := drop 1024 (kn_pipe k)\<rparr>) l))"

text \<open>A signal that arrives after the first \<open>n\<close> statements.\<close>

definition signal_during :: "nat \<Rightarrow> int \<Rightarrow> bool \<Rightarrow> Results \<Rightarrow> 's WebServer \<Rightarrow> outcome" where
  "signal_during n sig asserts rs w =
     (case run_steps (take n (eventListen_steps asserts rs w)) Listener_new of
        None \<Rightarrow> Aborted
      | Some l \<Rightarrow> deliver_signal sig l)"

section \<open>Lemmas\<close>

definition calls_ok :: "Results \<Rightarrow> bool" where
  "calls_ok rs \<longleftrightarrow> rs_socket rs \<ge> 0 \<and> rs_bind rs \<ge> 0 \<and> rs_listen rs \<ge> 0 \<and> rs_epoll_create rs \<noteq> - 1 \<and> fst (rs_socketpair rs) \<noteq> - 1"

text \<open>New descriptors are not negative and differ from the ones that are open.\<close>

definition calls_fresh :: "Results \<Rightarrow> bool" where
  "calls_fresh rs \<longleftrightarrow>
     (calls_ok rs \<longrightarrow>
        (case rs_socketpair rs of (ret, r, w) \<Rightarrow>
           distinct [rs_socket rs, rs_epoll_create rs, r, w] \<and> rs_epoll_create rs \<ge> 0 \<and> r \<ge> 0 \<and> w \<ge> 0))"

lemmas step_defs = require_def open_socket_def bind_socket_def listen_socket_def create_epoll_def make_pipe_def

lemma set_linger_eq:
  "set_linger opt k = k\<lparr>kn_linger := if opt = 0 then Some (0, 1) else if opt = 1 then Some (1, 1) else kn_linger k\<rparr>"
  by (simp add: set_linger_def)

lemma run_steps_append: "run_steps (fs @ gs) l = Option.bind (run_steps fs l) (run_steps gs)"
  by (induction fs arbitrary: l) (auto split: option.split)

text \<open>The states after the three parts of a start that succeeds.\<close>

definition listening :: "Results \<Rightarrow> 's WebServer \<Rightarrow> Listener" where
  "listening rs w = Listener_new
     \<lparr>ls_listenfd := rs_socket rs, ls_ret := rs_listen rs, ls_TIMESLOT := TIMESLOT,
      ls_kernel := Kernel_start
        \<lparr>kn_open := {rs_socket rs},
         kn_linger := if ws_OPT_LINGER w = 0 then Some (0, 1) else if ws_OPT_LINGER w = 1 then Some (1, 1) else None,
         kn_reuseaddr := True, kn_bound := Some (ws_port w mod 2 ^ 16), kn_backlog := Some 5\<rparr>\<rparr>"

definition watching :: "Results \<Rightarrow> 's WebServer \<Rightarrow> Listener" where
  "watching rs w =
     (case rs_socketpair rs of (ret, r, p) \<Rightarrow> (listening rs w)
        \<lparr>ls_epollfd := rs_epoll_create rs, ls_http_epoll_fd := rs_epoll_create rs, ls_ret := ret, ls_pipefd := (r, p),
         ls_kernel := (ls_kernel (listening rs w))
           \<lparr>kn_open := {r, p, rs_epoll_create rs, rs_socket rs},
            kn_interest :=
              [rs_socket rs \<mapsto> \<lparr>ep_IN = True, ep_ET = (ws_LISTENTrigmode w = 1), ep_RDHUP = True, ep_ONESHOT = False\<rparr>,
               r \<mapsto> \<lparr>ep_IN = True, ep_ET = False, ep_RDHUP = True, ep_ONESHOT = False\<rparr>],
            kn_nonblocking := {r, p, rs_socket rs}, kn_capacity := rs_capacity rs\<rparr>\<rparr>)"

definition started :: "bool \<Rightarrow> Results \<Rightarrow> 's WebServer \<Rightarrow> Listener" where
  "started asserts rs w = (watching rs w)
     \<lparr>ls_u_pipefd := True, ls_u_epollfd := rs_epoll_create rs,
      ls_kernel := (ls_kernel (watching rs w))
        \<lparr>kn_disposition := (if asserts then (\<lambda>_. SIG_DFL)(SIGPIPE := SIG_IGN, SIGALRM := Handler False, SIGTERM := Handler False)
                            else (\<lambda>_. SIG_DFL)),
         kn_alarm := Some TIMESLOT\<rparr>\<rparr>"

lemma listen_steps_ok:
  assumes "calls_ok rs"
  shows "run_steps (listen_steps asserts rs w) Listener_new = Some (listening rs w)"
  using assms
  by (simp add: calls_ok_def listen_steps_def step_defs set_linger_eq listening_def Listener_new_def Kernel_start_def del: if_split_asm)

lemma epoll_steps_ok:
  assumes "calls_ok rs" "calls_fresh rs"
  shows "run_steps (epoll_steps asserts rs w) (listening rs w) = Some (watching rs w)"
proof -
  obtain ret r p where pair: "rs_socketpair rs = (ret, r, p)" by (rule prod_cases3)
  show ?thesis
    using assms
    by (simp add: calls_ok_def calls_fresh_def pair epoll_steps_def step_defs addfd_def setnonblocking_def watching_def listening_def
        Listener_new_def Kernel_start_def insert_commute)
qed

lemma signal_steps_ok: "run_steps (signal_steps asserts) (watching rs w) = Some (started asserts rs w)"
  by (simp add: signal_steps_def addsig_def started_def watching_def listening_def Listener_new_def Kernel_start_def split: prod.split)

lemma eventListen_ok:
  assumes "calls_ok rs" "calls_fresh rs"
  shows "eventListen asserts rs w Listener_new = Some (started asserts rs w)"
  by (simp add: eventListen_def eventListen_steps_def run_steps_append listen_steps_ok[OF assms(1)] epoll_steps_ok[OF assms] signal_steps_ok)

lemma listen_steps_abort:
  "\<not> (rs_socket rs \<ge> 0 \<and> rs_bind rs \<ge> 0 \<and> rs_listen rs \<ge> 0) \<Longrightarrow> run_steps (listen_steps True rs w) Listener_new = None"
  by (auto simp: listen_steps_def step_defs set_linger_eq Listener_new_def Kernel_start_def)

lemma epoll_steps_abort:
  assumes "\<not> (rs_epoll_create rs \<noteq> - 1 \<and> fst (rs_socketpair rs) \<noteq> - 1)"
  shows "run_steps (epoll_steps True rs w) l = None"
proof -
  obtain ret r p where pair: "rs_socketpair rs = (ret, r, p)" by (rule prod_cases3)
  show ?thesis using assms by (auto simp: pair epoll_steps_def step_defs)
qed

lemma eventListen_aborts:
  assumes "\<not> calls_ok rs"
  shows "eventListen True rs w Listener_new = None"
proof (cases "rs_socket rs \<ge> 0 \<and> rs_bind rs \<ge> 0 \<and> rs_listen rs \<ge> 0")
  case True
  then have "\<not> (rs_epoll_create rs \<noteq> - 1 \<and> fst (rs_socketpair rs) \<noteq> - 1)" using assms by (simp add: calls_ok_def)
  from epoll_steps_abort[OF this, of w] show ?thesis
    by (cases "run_steps (listen_steps True rs w) Listener_new") (simp_all add: eventListen_def eventListen_steps_def run_steps_append)
qed (simp add: eventListen_def eventListen_steps_def run_steps_append listen_steps_abort)

lemma started_simps:
  assumes "rs_socketpair rs = (ret, r, p)"
  shows "ls_pipefd (started asserts rs w) = (r, p)" "ls_listenfd (started asserts rs w) = rs_socket rs"
    "ls_epollfd (started asserts rs w) = rs_epoll_create rs" "ls_u_pipefd (started asserts rs w)"
    "ls_kernel (started asserts rs w) = (ls_kernel (watching rs w))
        \<lparr>kn_disposition := (if asserts then (\<lambda>_. SIG_DFL)(SIGPIPE := SIG_IGN, SIGALRM := Handler False, SIGTERM := Handler False)
                            else (\<lambda>_. SIG_DFL)),
         kn_alarm := Some TIMESLOT\<rparr>"
    "kn_open (ls_kernel (watching rs w)) = {r, p, rs_epoll_create rs, rs_socket rs}"
    "kn_nonblocking (ls_kernel (watching rs w)) = {r, p, rs_socket rs}"
    "kn_bound (ls_kernel (watching rs w)) = Some (ws_port w mod 2 ^ 16)" "kn_backlog (ls_kernel (watching rs w)) = Some 5"
    "kn_pipe (ls_kernel (watching rs w)) = []" "kn_capacity (ls_kernel (watching rs w)) = rs_capacity rs"
    "kn_interest (ls_kernel (watching rs w)) =
              [rs_socket rs \<mapsto> \<lparr>ep_IN = True, ep_ET = (ws_LISTENTrigmode w = 1), ep_RDHUP = True, ep_ONESHOT = False\<rparr>,
               r \<mapsto> \<lparr>ep_IN = True, ep_ET = False, ep_RDHUP = True, ep_ONESHOT = False\<rparr>]"
  by (simp_all add: started_def watching_def listening_def Listener_new_def Kernel_start_def assms)

text \<open>Once the handlers are there, signals only add bytes to the pipe.\<close>

definition handlers_ready :: "Listener \<Rightarrow> bool" where
  "handlers_ready l \<longleftrightarrow>
     ls_u_pipefd l \<and> snd (ls_pipefd l) \<in> kn_open (ls_kernel l) \<and> kn_disposition (ls_kernel l) SIGPIPE = SIG_IGN \<and>
     (\<forall>sig \<in> {SIGALRM, SIGTERM}. \<exists>restart. kn_disposition (ls_kernel l) sig = Handler restart)"

lemma signal_numbers [simp]: "SIGPIPE \<noteq> SIGALRM" "SIGPIPE \<noteq> SIGTERM" "SIGALRM \<noteq> SIGTERM" "SIGALRM \<noteq> SIGPIPE" "SIGTERM \<noteq> SIGPIPE" "SIGTERM \<noteq> SIGALRM"
  by (simp_all add: SIGPIPE_def SIGALRM_def SIGTERM_def)

lemma signals_delivered:
  assumes "handlers_ready l" "set sigs \<subseteq> {SIGPIPE, SIGALRM, SIGTERM}" "length (kn_pipe (ls_kernel l)) \<le> kn_capacity (ls_kernel l)"
  shows "deliver_signals sigs l =
    Running (kernel (\<lambda>k. k\<lparr>kn_pipe := take (kn_capacity k) (kn_pipe k @ filter (\<lambda>s. s \<noteq> SIGPIPE) sigs)\<rparr>) l)"
  using assms
proof (induction sigs arbitrary: l)
  case (Cons sig sigs)
  let ?k = "ls_kernel l"
  let ?l = "if sig = SIGPIPE \<or> length (kn_pipe ?k) = kn_capacity ?k then l else kernel (\<lambda>k. k\<lparr>kn_pipe := kn_pipe k @ [sig]\<rparr>) l"
  have "deliver_signal sig l = Running ?l"
    using Cons.prems by (auto simp: deliver_signal_def sig_handler_def handlers_ready_def)
  moreover have "handlers_ready ?l" "length (kn_pipe (ls_kernel ?l)) \<le> kn_capacity (ls_kernel ?l)"
    using Cons.prems(1,3) by (auto simp: handlers_ready_def)
  from Cons.IH[OF this(1) _ this(2)] have "deliver_signals sigs ?l =
      Running (kernel (\<lambda>k. k\<lparr>kn_pipe := take (kn_capacity k) (kn_pipe k @ filter (\<lambda>s. s \<noteq> SIGPIPE) sigs)\<rparr>) ?l)"
    using Cons.prems(2) by simp
  ultimately show ?case using Cons.prems(3) by (auto simp: take_Cons')
qed simp

lemma dealwithsignal_bytes:
  "dealwithsignal (Some bs) False False = (bs \<noteq> [], SIGALRM \<in> set (take 1024 bs), SIGTERM \<in> set (take 1024 bs))"
  by (cases bs) (auto simp: dealwithsignal_def)

text \<open>The rounds together see every byte of the pipe.\<close>

lemma rounds_see:
  assumes "length (kn_pipe (ls_kernel l)) \<le> n"
  shows "((\<exists>ok stop. (ok, True, stop) \<in> set (signal_rounds n l)) \<longleftrightarrow> SIGALRM \<in> set (kn_pipe (ls_kernel l))) \<and>
    ((\<exists>ok timeout. (ok, timeout, True) \<in> set (signal_rounds n l)) \<longleftrightarrow> SIGTERM \<in> set (kn_pipe (ls_kernel l)))"
  using assms
proof (induction n arbitrary: l)
  case (Suc n)
  let ?bs = "kn_pipe (ls_kernel l)" and ?l = "kernel (\<lambda>k. k\<lparr>kn_pipe := drop 1024 (kn_pipe k)\<rparr>) l"
  have split: "set ?bs = set (take 1024 ?bs) \<union> set (drop 1024 ?bs)"
    by (metis append_take_drop_id set_append)
  have "length (kn_pipe (ls_kernel ?l)) \<le> n" using Suc.prems by simp
  from Suc.IH[OF this] show ?case
    by (cases "?bs = []") (auto simp: dealwithsignal_bytes split)
qed simp

section \<open>Properties\<close>

text \<open>C17: with assertions, a start aborts exactly if a checked call fails. Otherwise the server listens on its port, watches
  the listening socket in the configured mode and the pipe level-triggered, and both without blocking; the destructor
  would close every descriptor it has opened, each once. From then on no sequence of the three handled signals stops the process:
  each \<^verbatim>\<open>SIGALRM\<close> and \<^verbatim>\<open>SIGTERM\<close> puts a byte into the pipe as long as there is room and is lost when there is none,
  \<^verbatim>\<open>SIGPIPE\<close> is ignored; and the main loop, which reads at most 1024 bytes in one round, learns in its rounds exactly whether an
  alarm and whether a termination is in the pipe.\<close>

theorem server_listens:
  assumes "calls_fresh rs"
  shows "case eventListen True rs w Listener_new of
      None \<Rightarrow> \<not> calls_ok rs
    | Some l \<Rightarrow>
        calls_ok rs \<and> kn_bound (ls_kernel l) = Some (ws_port w mod 2 ^ 16) \<and> kn_backlog (ls_kernel l) = Some 5 \<and>
        kn_interest (ls_kernel l) =
          [ls_listenfd l \<mapsto> \<lparr>ep_IN = True, ep_ET = (ws_LISTENTrigmode w = 1), ep_RDHUP = True, ep_ONESHOT = False\<rparr>,
           fst (ls_pipefd l) \<mapsto> \<lparr>ep_IN = True, ep_ET = False, ep_RDHUP = True, ep_ONESHOT = False\<rparr>] \<and>
        dom (kn_interest (ls_kernel l)) \<subseteq> kn_nonblocking (ls_kernel l) \<and>
        set (WebServer_destroy l) = kn_open (ls_kernel l) \<and> distinct (WebServer_destroy l) \<and>
        (\<forall>sigs. set sigs \<subseteq> {SIGPIPE, SIGALRM, SIGTERM} \<longrightarrow>
           (\<exists>l'. deliver_signals sigs l = Running l' \<and>
              (let bytes = take (rs_capacity rs) (filter (\<lambda>s. s \<noteq> SIGPIPE) sigs); seen = set (signal_rounds (length bytes) l') in
               kn_pipe (ls_kernel l') = bytes \<and> ((\<exists>ok stop. (ok, True, stop) \<in> seen) \<longleftrightarrow> SIGALRM \<in> set bytes) \<and>
               ((\<exists>ok timeout. (ok, timeout, True) \<in> seen) \<longleftrightarrow> SIGTERM \<in> set bytes))))"
proof (cases "calls_ok rs")
  case True
  obtain ret r p where pair: "rs_socketpair rs = (ret, r, p)" by (rule prod_cases3)
  let ?l = "started True rs w"
  note simps = started_simps[OF pair]
  have fresh: "distinct [rs_socket rs, rs_epoll_create rs, r, p]" "rs_socket rs \<noteq> - 1" "rs_epoll_create rs \<noteq> - 1" "r \<noteq> - 1" "p \<noteq> - 1"
    using assms True by (auto simp: calls_fresh_def calls_ok_def pair)
  then have "WebServer_destroy ?l = [rs_epoll_create rs, rs_socket rs, p, r]"
    by (simp add: WebServer_destroy_def simps)
  then have closed: "set (WebServer_destroy ?l) = kn_open (ls_kernel ?l)" "distinct (WebServer_destroy ?l)"
    using fresh(1) by (auto simp: simps)
  have ready: "handlers_ready ?l" by (auto simp: handlers_ready_def simps)
  have reach: "\<exists>l'. deliver_signals sigs ?l = Running l' \<and>
      (let bytes = take (rs_capacity rs) (filter (\<lambda>s. s \<noteq> SIGPIPE) sigs); seen = set (signal_rounds (length bytes) l') in
       kn_pipe (ls_kernel l') = bytes \<and> ((\<exists>ok stop. (ok, True, stop) \<in> seen) \<longleftrightarrow> SIGALRM \<in> set bytes) \<and>
       ((\<exists>ok timeout. (ok, timeout, True) \<in> seen) \<longleftrightarrow> SIGTERM \<in> set bytes))"
    if "set sigs \<subseteq> {SIGPIPE, SIGALRM, SIGTERM}" for sigs
    using signals_delivered[OF ready that] rounds_see by (simp add: simps Let_def)
  show ?thesis using True closed reach by (simp add: eventListen_ok[OF True assms] simps)
qed (simp add: eventListen_aborts)

definition calm_calls :: Results where
  "calm_calls = \<lparr>rs_socket = 3, rs_bind = 0, rs_listen = 0, rs_epoll_create = 4, rs_socketpair = (0, 5, 6), rs_capacity = 278\<rparr>"

text \<open>A pair with room for one byte loses the request to terminate that follows an alarm.\<close>

lemma server_listens_witness:
  "calls_ok calm_calls \<and>
     (\<exists>l l'. eventListen True calm_calls (one_client 0) Listener_new = Some l \<and> WebServer_destroy l = [4, 3, 6, 5] \<and>
        deliver_signals [SIGALRM, SIGPIPE, SIGTERM] l = Running l' \<and> kn_pipe (ls_kernel l') = [SIGALRM, SIGTERM]) \<and>
     (\<exists>l l'. eventListen True (calm_calls\<lparr>rs_capacity := 1\<rparr>) (one_client 0) Listener_new = Some l \<and>
        deliver_signals [SIGALRM, SIGPIPE, SIGTERM] l = Running l' \<and> kn_pipe (ls_kernel l') = [SIGALRM])"
proof -
  have run: "\<exists>l l'. eventListen True (calm_calls\<lparr>rs_capacity := n\<rparr>) (one_client 0) Listener_new = Some l \<and> WebServer_destroy l = [4, 3, 6, 5] \<and>
      deliver_signals [SIGALRM, SIGPIPE, SIGTERM] l = Running l' \<and> kn_pipe (ls_kernel l') = take n [SIGALRM, SIGTERM]" for n
  proof -
    let ?rs = "calm_calls\<lparr>rs_capacity := n\<rparr>" and ?l = "started True (calm_calls\<lparr>rs_capacity := n\<rparr>) (one_client 0)"
    have fresh: "calls_fresh ?rs" and ok: "calls_ok ?rs" by (simp_all add: calls_fresh_def calls_ok_def calm_calls_def)
    have l: "eventListen True ?rs (one_client 0) Listener_new = Some ?l" by (rule eventListen_ok[OF ok fresh])
    have pair: "rs_socketpair ?rs = (0, 5, 6)" by (simp add: calm_calls_def)
    have "WebServer_destroy ?l = [4, 3, 6, 5]"
      by (simp add: WebServer_destroy_def started_simps[OF pair]) (simp add: calm_calls_def)
    with server_listens[OF fresh, of "one_client 0"] show ?thesis
      unfolding l by (auto simp: Let_def dest!: spec[of _ "[SIGALRM, SIGPIPE, SIGTERM]"])
  qed
  have "calm_calls\<lparr>rs_capacity := 278\<rparr> = calm_calls" by (simp add: calm_calls_def)
  moreover have "calls_ok calm_calls" by (simp add: calls_ok_def calm_calls_def)
  ultimately show ?thesis using run[of 278] run[of 1] by auto
qed

text \<open>The handlers are installed before \<^verbatim>\<open>Utils::u_pipefd\<close> is set: a termination request that arrives in between makes the
  handler follow a null pointer, while before it ends the process and afterwards it is queued.\<close>

lemma run_steps_keep:
  assumes "\<forall>f \<in> set fs. \<forall>l l'. f l = Some l' \<longrightarrow> kn_disposition (ls_kernel l') = kn_disposition (ls_kernel l)" "run_steps fs l = Some l'"
  shows "kn_disposition (ls_kernel l') = kn_disposition (ls_kernel l)"
  using assms by (induction fs arbitrary: l) (auto split: option.splits)

lemma early_steps_keep:
  "\<forall>f \<in> set (listen_steps asserts rs w @ epoll_steps asserts rs w). \<forall>l l'. f l = Some l' \<longrightarrow>
     kn_disposition (ls_kernel l') = kn_disposition (ls_kernel l)"
  by (auto simp: listen_steps_def epoll_steps_def step_defs set_linger_def addfd_def setnonblocking_def split: if_splits prod.splits)

theorem early_signal_crashes:
  assumes "calls_ok rs" "calls_fresh rs" "n \<le> 23"
  shows "signal_during n SIGTERM True rs w = Crashed \<longleftrightarrow> n = 20 \<or> n = 21"
proof (cases "n \<le> 17")
  case True
  let ?early = "listen_steps True rs w @ epoll_steps True rs w"
  have "length ?early = 17" by (simp add: listen_steps_def epoll_steps_def)
  then have "take n (eventListen_steps True rs w) = take n ?early"
    using True by (simp add: eventListen_steps_def)
  moreover have "kn_disposition (ls_kernel l) SIGTERM = SIG_DFL" if "run_steps (take n ?early) Listener_new = Some l" for l
  proof -
    have "\<forall>f \<in> set (take n ?early). \<forall>l l'. f l = Some l' \<longrightarrow> kn_disposition (ls_kernel l') = kn_disposition (ls_kernel l)"
      by (rule ballI, drule in_set_takeD) (rule bspec[OF early_steps_keep])
    from run_steps_keep[OF this that] show ?thesis by (simp add: Listener_new_def Kernel_start_def)
  qed
  ultimately show ?thesis using True by (auto simp: signal_during_def deliver_signal_def split: option.split)
next
  case False
  let ?early = "listen_steps True rs w @ epoll_steps True rs w"
  have "length ?early = 17" by (simp add: listen_steps_def epoll_steps_def)
  moreover obtain j where n: "n = 17 + j" using False by (metis less_imp_add_positive not_le)
  ultimately have "take n (eventListen_steps True rs w) = ?early @ take j (signal_steps True)"
    by (simp add: eventListen_steps_def)
  then have run: "signal_during n SIGTERM True rs w =
      (case run_steps (take j (signal_steps True)) (watching rs w) of None \<Rightarrow> Aborted | Some l \<Rightarrow> deliver_signal SIGTERM l)"
    by (simp add: signal_during_def run_steps_append listen_steps_ok[OF assms(1)] epoll_steps_ok[OF assms(1,2)])
  obtain ret r p where pair: "rs_socketpair rs = (ret, r, p)" by (rule prod_cases3)
  have late: "\<not> ls_u_pipefd (watching rs w)" "kn_disposition (ls_kernel (watching rs w)) = (\<lambda>_. SIG_DFL)"
    by (simp_all add: watching_def listening_def Listener_new_def Kernel_start_def pair)
  have "j \<in> {1, 2, 3, 4, 5, 6}" using False assms(3) n by auto
  then show ?thesis
    using n late unfolding run
    by (auto simp: signal_steps_def addsig_def deliver_signal_def sig_handler_def)
qed

text \<open>The call of \<^verbatim>\<open>sigaction\<close> is inside \<^verbatim>\<open>assert\<close>. Where \<^verbatim>\<open>NDEBUG\<close> is defined no handler is installed, and the alarm that the
  function has set ends the server.\<close>

theorem alarm_kills_without_assertions:
  assumes "calls_ok rs" "calls_fresh rs"
  shows "\<exists>l. eventListen False rs w Listener_new = Some l \<and> kn_alarm (ls_kernel l) = Some TIMESLOT \<and> deliver_signal SIGALRM l = Killed SIGALRM"
proof -
  obtain ret r p where pair: "rs_socketpair rs = (ret, r, p)" by (rule prod_cases3)
  show ?thesis by (simp add: eventListen_ok[OF assms] started_simps[OF pair] deliver_signal_def)
qed

end
