(* ===== verification/Startup.thy ===== *)
theory Startup
  imports Listen Log User_Cache Mysql_Resources Grpc_Clients
begin

text \<open>
  How the processes start: \<^verbatim>\<open>src/core/main.cpp\<close> with \<^verbatim>\<open>log_write\<close> and \<^verbatim>\<open>sql_pool\<close> of \<^verbatim>\<open>src/core/webserver.cpp\<close>,
  \<^verbatim>\<open>mysql_dependencies\<close> of \<^verbatim>\<open>src/app/api_gateway.h\<close>, and the mains of the four gRPC servers in \<^verbatim>\<open>src/app/grpc\<close>. The
  environment, the database, Redis, the channels to other processes and the system calls are parameters (the record
  \<open>Outside\<close>), as are the macros that enable Redis and gRPC.
\<close>

section \<open>The gateway on MySQL\<close>

text \<open>The state behind the gateway: pool and database, and the static counters of reservation identifiers in
  \<^verbatim>\<open>OrderService\<close> and in the inventory client.\<close>

record ('c, 'd) Server =
  sv_backend :: "('c, 'd) Backend"
  sv_next_reservation :: u64
  sv_next_gateway_reservation :: u64

definition fetch_add_reservation :: "('c, 'd) Server \<Rightarrow> u64 \<times> ('c, 'd) Server" where
  "fetch_add_reservation s = (sv_next_reservation s, s\<lparr>sv_next_reservation := sv_next_reservation s + 1\<rparr>)"

definition fetch_add_gateway_reservation :: "('c, 'd) Server \<Rightarrow> u64 \<times> ('c, 'd) Server" where
  "fetch_add_gateway_reservation s = (sv_next_gateway_reservation s, s\<lparr>sv_next_gateway_reservation := sv_next_gateway_reservation s + 1\<rparr>)"

text \<open>A method of a repository, where it returns.\<close>

definition on_backend :: "(('c, 'd) Backend \<Rightarrow> ('r \<times> ('c, 'd) Backend) option) \<Rightarrow> ('c, 'd) Server \<Rightarrow> 'r \<times> ('c, 'd) Server" where
  "on_backend f s = (case the (f (sv_backend s)) of (r, b) \<Rightarrow> (r, s\<lparr>sv_backend := b\<rparr>))"

definition mysql_users :: "('c, 'd) Mysql \<Rightarrow> ('c, 'd) Server UserRepository" where
  "mysql_users M =
     \<lparr>ur_create_user = (\<lambda>u p. on_backend (MysqlUserRepository_create_user M u p)),
      ur_authenticate = (\<lambda>u p s. fst (on_backend (MysqlUserRepository_authenticate M u p) s))\<rparr>"

definition mysql_books :: "('c, 'd) Mysql \<Rightarrow> ('c, 'd) Server BookRepository" where
  "mysql_books M =
     \<lparr>br_list_books = (\<lambda>s. fst (on_backend (MysqlBookRepository_list_books M) s)),
      br_find_book = (\<lambda>i s. fst (on_backend (MysqlBookRepository_find_book M i) s)),
      br_create_book = (\<lambda>b. on_backend (MysqlBookRepository_create_book M b)),
      br_update_book = (\<lambda>i u. on_backend (MysqlBookRepository_update_book M i u))\<rparr>"

definition mysql_inventory :: "('c, 'd) Mysql \<Rightarrow> ('c, 'd) Server InventoryRepository" where
  "mysql_inventory M =
     \<lparr>ir_available_stock = (\<lambda>i s. fst (on_backend (MysqlInventoryRepository_available_stock M i) s)),
      ir_add_stock = (\<lambda>i q. on_backend (MysqlInventoryRepository_add_stock M i q)),
      ir_reserve_stock = (\<lambda>i q. on_backend (MysqlInventoryRepository_reserve_stock M i q)),
      ir_release_stock = (\<lambda>i q s. snd (on_backend (MysqlInventoryRepository_release_stock M i q) s)),
      ir_reserve_stock_items = (\<lambda>rid items. on_backend (MysqlInventoryRepository_reserve_stock_items M rid items)),
      ir_release_stock_items = (\<lambda>rid items s. snd (on_backend (MysqlInventoryRepository_release_stock_items M rid items) s))\<rparr>"

definition mysql_orders :: "('c, 'd) Mysql \<Rightarrow> ('c, 'd) Server OrderRepository" where
  "mysql_orders M =
     \<lparr>or_create_order = (\<lambda>u items t. on_backend (MysqlOrderRepository_create_order M u items t)),
      or_list_orders = (\<lambda>s. fst (on_backend (MysqlOrderRepository_list_orders M) s)),
      or_find_order = (\<lambda>i s. fst (on_backend (MysqlOrderRepository_find_order M i) s)),
      or_cancel_order = (\<lambda>i. on_backend (MysqlOrderRepository_cancel_order M i))\<rparr>"

definition mysql_dependencies :: "('c, 'd) Mysql \<Rightarrow> ('c, 'd) Server Dependencies" where
  "mysql_dependencies M =
     \<lparr>dp_users = mysql_users M, dp_books = mysql_books M, dp_inventory = mysql_inventory M, dp_orders = mysql_orders M,
      dp_inventory_client = None, dp_order_client = None, dp_user_client = None, dp_book_client = None\<rparr>"

section \<open>The parameters\<close>

type_synonym env = "string \<Rightarrow> string option"

text \<open>The stub that a channel to a target gives.\<close>

record 's Channels =
  ch_inventory :: "string \<Rightarrow> 's InventoryStub"
  ch_user :: "string \<Rightarrow> 's UserStub"
  ch_book :: "string \<Rightarrow> 's BookStub"
  ch_order :: "string \<Rightarrow> 's OrderStub"

record ('c, 'd) Outside =
  ou_redis_enabled :: bool
  ou_grpc_enabled :: bool
  ou_asserts :: bool
  ou_cwd :: string
  ou_env :: env
  ou_connect :: "nat \<Rightarrow> 'c option"
  ou_mysql :: "('c, 'd) Mysql"
  ou_db :: 'd
  ou_select1 :: "'c \<Rightarrow> string option"
  ou_redis_ping :: "string \<Rightarrow> string option"
  ou_channels :: "('c, 'd) Server Channels"
  ou_opens :: "string \<Rightarrow> bool"
  ou_clock :: "nat \<Rightarrow> clock"
  ou_threads :: bool
  ou_redis_connects :: "string \<Rightarrow> bool"
  ou_pool_error :: string
  ou_load_line :: "int \<times> string"
  ou_calls :: Results

text \<open>\<open>ou_clock k\<close> is the time when the log is used for the \<open>k\<close>-th time, \<open>ou_pool_error\<close> the text of the error of the pool and
  \<open>ou_load_line\<close> level and text of what \<^verbatim>\<open>UserCache::load\<close> logs, which depends on the answer of MySQL. \<open>ou_threads\<close> says whether
  threads can be created, \<open>ou_redis_connects\<close> for which addresses the constructor of the Redis client does not throw.\<close>

text \<open>\<^verbatim>\<open>value != nullptr && value[0] != '\0'\<close>\<close>

definition env_set :: "env \<Rightarrow> string \<Rightarrow> string option" where
  "env_set env name = (case env name of None \<Rightarrow> None | Some v \<Rightarrow> if c_str v = [] then None else Some (c_str v))"

definition redis_target :: "('c, 'd) Outside \<Rightarrow> string option" where
  "redis_target O' = (if ou_redis_enabled O' then env_set (ou_env O') ''REDIS_URL'' else None)"

definition grpc_target :: "('c, 'd) Outside \<Rightarrow> string \<Rightarrow> string option" where
  "grpc_target O' name = (if ou_grpc_enabled O' then env_set (ou_env O') name else None)"

section \<open>The web server\<close>



datatype start_error = UndefinedRoot | NoThread | LogCrash | PoolExit pool_exit | RedisThrows | WaitsForConnection
  | InvalidThreads threadpool_error | ListenAborted

text \<open>The asynchronous log creates its writer first; an exception of \<^verbatim>\<open>std::thread\<close> is not handled anywhere.\<close>

definition log_write :: "bool \<Rightarrow> (string \<Rightarrow> bool) \<Rightarrow> clock \<Rightarrow> 's WebServer \<Rightarrow> Log \<Rightarrow> start_error + Log" where
  "log_write threads opens now w lg =
     (if ws_close_log w = 0 then
        if ws_log_write w = 1
        then (if threads then Inr (snd (Log_init opens now ''./ServerLog'' (ws_close_log w) 2000 800000 800 lg)) else Inl NoThread)
        else Inr (snd (Log_init opens now ''./ServerLog'' (ws_close_log w) 2000 800000 0 lg))
      else Inr lg)"

text \<open>\<^verbatim>\<open>LOG_INFO\<close> and \<^verbatim>\<open>LOG_ERROR\<close> go to the log whether it was opened or not: with \<^verbatim>\<open>-c 1\<close> the server never calls \<^verbatim>\<open>init\<close>, the flag
  inside the log stays 0, and the first line rotates a log that has no file, that is, closes a null file.\<close>

definition logged :: "('c, 'd) Outside \<Rightarrow> nat \<Rightarrow> int \<Rightarrow> string \<Rightarrow> Log \<Rightarrow> start_error + Log" where
  "logged O' k sev text lg =
     (case write_log (ou_opens O') sev text (ou_clock O' k) lg of None \<Rightarrow> Inl LogCrash | Some lg' \<Rightarrow> Inr lg')"

definition server_pool :: "('c, 'd) Outside \<Rightarrow> 's WebServer \<Rightarrow> pool_exit + 'c connection_pool" where
  "server_pool O' w =
     connection_pool_init (ou_connect O')
       (env_or_default (ou_env O' ''MYSQL_HOST'') ''localhost'')
       (env_or_default (ou_env O' ''MYSQL_USER'') (ws_user w))
       (env_or_default (ou_env O' ''MYSQL_PASSWORD'') (ws_passWord w))
       (env_or_default (ou_env O' ''MYSQL_DATABASE'') (ws_databaseName w))
       (env_int_or_default (ou_env O' ''MYSQL_PORT'') 3306)
       (ws_sql_num w) (ws_close_log w) connection_pool_new"

text \<open>The cache that \<^verbatim>\<open>HttpConn\<close> shares, chosen and loaded; \<open>None\<close> where loading waits for a connection.\<close>

datatype 'c user_cache = InMemory UserCache | InRedis string "'c connection_pool option"

definition choose_cache :: "('c, 'd) Outside \<Rightarrow> 'c connection_pool \<Rightarrow> Log \<Rightarrow> start_error + ('c user_cache \<times> Log)" where
  "choose_cache O' p lg =
     (case redis_target O' of
        Some redis_url \<Rightarrow>
          if \<not> ou_redis_connects O' redis_url then Inl RedisThrows
          else map_sum id (Pair (InRedis redis_url (Some p))) (logged O' 1 1 (''user cache: redis ('' @ redis_url @ '')'') lg)
      | None \<Rightarrow> map_sum id (Pair (InMemory (\<lambda>_. None))) (logged O' 1 1 ''user cache: in-memory'' lg))"

fun load_user_cache :: "('c, 'd) Mysql \<Rightarrow> 'c user_cache \<Rightarrow> ('c, 'd) Backend \<Rightarrow> ('c user_cache \<times> ('c, 'd) Backend) option" where
  "load_user_cache M (InMemory users) s = map_option (\<lambda>(users', s'). (InMemory users', s')) (UserCache_load M users s)"
| "load_user_cache M (InRedis url pool) s = Some (InRedis url (RedisUserCache_load pool (be_pool s)), s)"

text \<open>The line that loading ends with.\<close>

definition log_load :: "('c, 'd) Outside \<Rightarrow> 'c user_cache \<Rightarrow> Log \<Rightarrow> start_error + Log" where
  "log_load O' cache lg =
     (case cache of
        InMemory users \<Rightarrow> logged O' 2 (fst (ou_load_line O')) (snd (ou_load_line O')) lg
      | InRedis url pool \<Rightarrow> logged O' 2 1 ''RedisUserCache: lazy-load mode, no bulk warm-up'' lg)"

definition connect_clients :: "('c, 'd) Outside \<Rightarrow> ('c, 'd) Server Dependencies \<Rightarrow> ('c, 'd) Server Dependencies" where
  "connect_clients O' d =
     (let d1 = (case grpc_target O' ''INVENTORY_GRPC_TARGET'' of None \<Rightarrow> d
                | Some t \<Rightarrow> d\<lparr>dp_inventory_client := Some (GrpcInventoryClient (ch_inventory (ou_channels O') t) fetch_add_gateway_reservation)\<rparr>);
          d2 = (case grpc_target O' ''USER_GRPC_TARGET'' of None \<Rightarrow> d1
                | Some t \<Rightarrow> d1\<lparr>dp_user_client := Some (GrpcUserClient (ch_user (ou_channels O') t))\<rparr>);
          d3 = (case grpc_target O' ''BOOK_GRPC_TARGET'' of None \<Rightarrow> d2
                | Some t \<Rightarrow> d2\<lparr>dp_book_client := Some (GrpcBookClient (ch_book (ou_channels O') t))\<rparr>)
      in (case grpc_target O' ''ORDER_GRPC_TARGET'' of None \<Rightarrow> d3
          | Some t \<Rightarrow> d3\<lparr>dp_order_client := Some (GrpcOrderClient (ch_order (ou_channels O') t))\<rparr>))"

text \<open>The lambda that answers \<^verbatim>\<open>/api/ready\<close>.\<close>

definition readiness_checker :: "('c, 'd) Outside \<Rightarrow> ('c, 'd) Server \<Rightarrow> ReadinessStatus" where
  "readiness_checker O' s =
     (let redis_url = env_or_default (ou_env O' ''REDIS_URL'') [] in
      server_readiness (fst (the (mysql_ping (ou_select1 O') (be_pool (sv_backend s)))))
        (if ou_redis_enabled O' \<and> redis_url \<noteq> [] then ou_redis_ping O' redis_url else None))"

text \<open>The gateway of the constructor works in memory and has not served a request when \<^verbatim>\<open>use_dependencies\<close> replaces every part
  of it, so the result is the gateway that is built on the new dependencies.\<close>

definition sql_pool ::
  "('c, 'd) Outside \<Rightarrow> 's WebServer \<Rightarrow> Log \<Rightarrow> start_error + ('c user_cache \<times> ('c, 'd) Server ApiGateway \<times> Log)" where
  "sql_pool O' w lg =
     (case server_pool O' w of
        Inl e \<Rightarrow> (case logged O' 1 3 (ou_pool_error O') lg of Inl crash \<Rightarrow> Inl crash | Inr _ \<Rightarrow> Inl (PoolExit e))
      | Inr p \<Rightarrow>
          (case choose_cache O' p lg of
             Inl e \<Rightarrow> Inl e
           | Inr (cache0, lg1) \<Rightarrow>
               (case load_user_cache (ou_mysql O') cache0 \<lparr>be_pool = Some p, be_db = ou_db O'\<rparr> of
                  None \<Rightarrow> Inl WaitsForConnection
                | Some (cache, backend) \<Rightarrow>
                    (case log_load O' cache lg1 of
                       Inl e \<Rightarrow> Inl e
                     | Inr lg2 \<Rightarrow>
                         (let s = \<lparr>sv_backend = backend, sv_next_reservation = 1, sv_next_gateway_reservation = 1\<rparr>;
                              dependencies = connect_clients O' (mysql_dependencies (ou_mysql O'))
                          in Inr (cache, set_readiness_checker (readiness_checker O') (ApiGateway_init fetch_add_reservation dependencies s),
                                  lg2))))))"



section \<open>The gRPC servers\<close>

datatype 'svc server_outcome = PoolFailed pool_exit | PoolCrashed | Exit int | Serving string 'svc

text \<open>The settings of a server have the same names, apart from the prefix.\<close>

definition service_pool :: "string \<Rightarrow> env \<Rightarrow> (nat \<Rightarrow> 'c option) \<Rightarrow> pool_exit + 'c connection_pool" where
  "service_pool prefix env connect =
     connection_pool_init connect
       (env_or_default (env (prefix @ ''_DB_HOST'')) ''localhost'')
       (env_or_default (env (prefix @ ''_DB_USER'')) ''root'')
       (env_or_default (env (prefix @ ''_DB_PASSWORD'')) ''root'')
       (env_or_default (env (prefix @ ''_DB_NAME'')) ''qgydb'')
       (env_int_or_default (env (prefix @ ''_DB_PORT'')) 3306)
       (env_int_or_default (env (prefix @ ''_DB_POOL_SIZE'')) 8)
       (env_int_or_default (env (prefix @ ''_DB_CLOSE_LOG'')) 1) connection_pool_new"

text \<open>\<open>starts\<close> tells at which addresses \<^verbatim>\<open>BuildAndStart\<close> gives a server. When the pool cannot be opened it logs the error and exits,
  but none of these programs has opened the log.\<close>

definition serve ::
  "('c, 'd) Outside \<Rightarrow> (string \<Rightarrow> bool) \<Rightarrow> string \<Rightarrow> string list \<Rightarrow> ('c connection_pool \<Rightarrow> 'svc) \<Rightarrow> pool_exit + 'c connection_pool \<Rightarrow>
     'svc server_outcome" where
  "serve O' starts fallback argv service pool =
     (let address = (if length argv > 1 then argv ! 1 else fallback) in
      case pool of
        Inl e \<Rightarrow> (case logged O' 0 3 (ou_pool_error O') (Log_new (\<lambda>_. [])) of Inl _ \<Rightarrow> PoolCrashed | Inr _ \<Rightarrow> PoolFailed e)
      | Inr p \<Rightarrow> if starts address then Serving address (service p) else Exit 1)"

definition server_on :: "'c connection_pool \<Rightarrow> 'd \<Rightarrow> ('c, 'd) Server" where
  "server_on p d = \<lparr>sv_backend = \<lparr>be_pool = Some p, be_db = d\<rparr>, sv_next_reservation = 1, sv_next_gateway_reservation = 1\<rparr>"

definition inventory_server_main ::
  "(string \<Rightarrow> bool) \<Rightarrow> string list \<Rightarrow> ('c, 'd) Outside \<Rightarrow> (('c, 'd) Server InventoryRepository \<times> ('c, 'd) Server) server_outcome" where
  "inventory_server_main starts argv O' =
     serve O' starts ''0.0.0.0:50051'' argv (\<lambda>p. (mysql_inventory (ou_mysql O'), server_on p (ou_db O')))
       (service_pool ''INVENTORY'' (ou_env O') (ou_connect O'))"

definition user_server_main ::
  "(string \<Rightarrow> bool) \<Rightarrow> string list \<Rightarrow> ('c, 'd) Outside \<Rightarrow> (('c, 'd) Server UserRepository \<times> ('c, 'd) Server) server_outcome" where
  "user_server_main starts argv O' =
     serve O' starts ''0.0.0.0:50053'' argv (\<lambda>p. (mysql_users (ou_mysql O'), server_on p (ou_db O')))
       (service_pool ''USER'' (ou_env O') (ou_connect O'))"

definition book_server_main ::
  "(string \<Rightarrow> bool) \<Rightarrow> string list \<Rightarrow> ('c, 'd) Outside \<Rightarrow> (('c, 'd) Server BookRepository \<times> ('c, 'd) Server) server_outcome" where
  "book_server_main starts argv O' =
     serve O' starts ''0.0.0.0:50054'' argv (\<lambda>p. (mysql_books (ou_mysql O'), server_on p (ou_db O')))
       (service_pool ''BOOK'' (ou_env O') (ou_connect O'))"

definition order_server_main ::
  "(string \<Rightarrow> bool) \<Rightarrow> string list \<Rightarrow> ('c, 'd) Outside \<Rightarrow> (('c, 'd) Server OrderService \<times> ('c, 'd) Server) server_outcome" where
  "order_server_main starts argv O' =
     serve O' starts ''0.0.0.0:50052'' argv
       (\<lambda>p. (\<lparr>os_book_client = GrpcBookClient (ch_book (ou_channels O') (env_or_default (ou_env O' ''BOOK_GRPC_TARGET'') ''127.0.0.1:50054'')),
              os_inventory_client =
                GrpcInventoryClient (ch_inventory (ou_channels O') (env_or_default (ou_env O' ''INVENTORY_GRPC_TARGET'') ''127.0.0.1:50051''))
                  fetch_add_gateway_reservation,
              os_order_repository = mysql_orders (ou_mysql O'), os_next_id = fetch_add_reservation\<rparr>,
             server_on p (ou_db O')))
       (service_pool ''ORDER'' (ou_env O') (ou_connect O'))"

section \<open>Properties\<close>






text \<open>A log that has been opened takes the lines of a start that lies within one day; one that has not been opened crashes at the first.\<close>

definition plausible :: "clock \<Rightarrow> bool" where
  "plausible c \<longleftrightarrow> 0 \<le> ck_year c \<and> ck_year c < 10 ^ 4 \<and> 0 < ck_mon c \<and> ck_mon c \<le> 12 \<and> 0 < ck_mday c \<and> ck_mday c \<le> 31 \<and>
     0 \<le> ck_hour c \<and> ck_hour c < 24 \<and> 0 \<le> ck_min c \<and> ck_min c < 60 \<and> 0 \<le> ck_sec c \<and> ck_sec c \<le> 60 \<and>
     0 \<le> ck_usec c \<and> ck_usec c < 10 ^ 6"

definition one_day :: "('c, 'd) Outside \<Rightarrow> bool" where
  "one_day O' \<longleftrightarrow> (\<forall>k. plausible (ou_clock O' k) \<and> ck_mday (ou_clock O' k) = ck_mday (ou_clock O' 0))"






lemma logged_closed:
  assumes "one_day O'"
  shows "logged O' k sev text (Log_new files) = Inl LogCrash"
proof -
  have "ck_mday (ou_clock O' k) \<noteq> 0" using spec[of _ k, OF assms[unfolded one_day_def]] by (simp add: plausible_def)
  then show ?thesis by (simp add: logged_def write_log_def Log_new_def rotate_due_def rotate_def)
qed














text \<open>Without an opened log the first line crashes the process: the web server with \<^verbatim>\<open>-c 1\<close> whatever its database does, and a gRPC
  server that wants to report that its database cannot be reached.\<close>

theorem unopened_log_crashes:
  assumes "one_day O'"
  shows "(ws_close_log w \<noteq> 0 \<longrightarrow> log_write (ou_threads O') (ou_opens O') (ou_clock O' 0) w (Log_new files) = Inr (Log_new files) \<and>
      sql_pool O' w (Log_new files) \<in> {Inl LogCrash, Inl RedisThrows}) \<and>
    serve O' starts fallback argv service (Inl e) = PoolCrashed"
  using logged_closed[OF assms]
  by (auto simp: log_write_def sql_pool_def choose_cache_def serve_def Let_def split: sum.split option.split)




end
