(* ===== verification/Gateway_Types.thy ===== *)
theory Gateway_Types
  imports Gateway
begin

text \<open>
  The types of what the gateway stores. Requests are arbitrary bytes, so every number that reaches a struct has to be read,
  checked and kept in the range of its field. The locale \<open>typed_backend\<close> says which operations of the four clients have
  to keep a predicate on the state; then every handler, and so every dispatched request, keeps it. The
  predicate \<open>typed_app\<close> is the typing of the state in memory.
\<close>

section \<open>Numbers read from a request\<close>

lemma json_digits_int32: "json_digits negative s = Some v \<Longrightarrow> int32 v"
proof -
  have "int32 (foldl (\<lambda>v c. wrap32 (v * 10 + digit_value c)) a xs)" if "int32 a" for a xs
    using that by (induction xs arbitrary: a) simp_all
  moreover have "int32 0" by (simp add: int32_def)
  ultimately show "json_digits negative s = Some v \<Longrightarrow> int32 v"
    by (auto simp: json_digits_def Let_def split: if_splits)
qed

lemma json_int_value_from_int32: "json_int_value_from body key pos = Some v \<Longrightarrow> int32 v"
  by (auto simp: json_int_value_from_def json_read_int_def Let_def dest: json_digits_int32 split: option.splits if_splits)

lemma json_int_value_int32: "json_int_value body key = Some v \<Longrightarrow> int32 v"
  unfolding json_int_value_def by (rule json_int_value_from_int32)

lemma json_order_items_int32: "i \<in> set (json_order_items body) \<Longrightarrow> int32 (oir_book_id i) \<and> int32 (oir_quantity i)"
proof -
  have "i \<in> set (json_order_items_loop body pos) \<Longrightarrow> int32 (oir_book_id i) \<and> int32 (oir_quantity i)" for pos
  proof (induction body pos rule: json_order_items_loop.induct)
    case (1 body pos)
    note loop = json_order_items_loop.simps[of body pos]
    obtain book_key where k1: "find_from (quoted ''book_id'') body pos = Some book_key"
      using 1(2) by (cases "find_from (quoted ''book_id'') body pos") (simp_all add: loop)
    obtain quantity_key where k2: "find_from (quoted ''quantity'') body book_key = Some quantity_key"
      using 1(2) k1 by (cases "find_from (quoted ''quantity'') body book_key") (simp_all add: loop)
    obtain b where n1: "json_int_value_from body ''book_id'' book_key = Some b"
      using 1(2) k1 k2 by (cases "json_int_value_from body ''book_id'' book_key") (simp_all add: loop)
    obtain q where n2: "json_int_value_from body ''quantity'' quantity_key = Some q"
      using 1(2) k1 k2 n1 by (cases "json_int_value_from body ''quantity'' quantity_key") (simp_all add: loop)
    have i: "i = \<lparr>oir_book_id = b, oir_quantity = q\<rparr> \<or> i \<in> set (json_order_items_loop body (quantity_key + 1))"
      using 1(2) by (simp add: loop k1 k2 n1 n2)
    from i show ?case
    proof
      assume "i \<in> set (json_order_items_loop body (quantity_key + 1))"
      with 1(1)[OF k1 k2 refl n1 n2] show ?case by simp
    qed (use n1 n2 in \<open>simp add: json_int_value_from_int32\<close>)
  qed
  then show "i \<in> set (json_order_items body) \<Longrightarrow> int32 (oir_book_id i) \<and> int32 (oir_quantity i)"
    by (simp add: json_order_items_def)
qed

section \<open>Handlers keep what the clients keep\<close>

locale typed_backend =
  fixes UC :: "'s UserClient" and BC :: "'s BookClient" and IC :: "'s InventoryClient" and OC :: "'s OrderClient"
    and typed :: "'s \<Rightarrow> bool"
  assumes register_typed: "typed s \<Longrightarrow> typed (snd (uc_register_user UC u p s))"
    and create_book_typed: "typed s \<Longrightarrow> int32 (bk_price_cents b) \<Longrightarrow> int32 (bk_stock b) \<Longrightarrow> typed (snd (bc_create_book BC b s))"
    and update_book_typed: "typed s \<Longrightarrow> \<forall>p. bu_price_cents upd = Some p \<longrightarrow> int32 p \<Longrightarrow> \<forall>k. bu_stock upd = Some k \<longrightarrow> int32 k \<Longrightarrow>
      typed (snd (bc_update_book BC i upd s))"
    and add_stock_typed: "typed s \<Longrightarrow> int32 q \<Longrightarrow> typed (snd (ic_add_stock IC i q s))"
    and create_order_typed: "typed s \<Longrightarrow> int32 user \<Longrightarrow> \<forall>r \<in> set items. int32 (oir_quantity r) \<Longrightarrow>
      typed (snd (oc_create_order OC user items s))"
    and cancel_order_typed: "typed s \<Longrightarrow> typed (snd (oc_cancel_order OC i s))"

definition api_statuses :: "int list" where
  "api_statuses = [200, 201, 400, 401, 404, 409, 503]"

lemma error_status [simp]: "rs_status_code (error_json code message) = code"
  by (simp add: error_json_def json_response_def)

lemma ok_status [simp]: "rs_status_code (ok_json code payload) = code"
  by (simp add: ok_json_def json_response_def)

lemma table_lookup_entry: "table_lookup es request = Some h \<Longrightarrow> \<exists>e \<in> set es. \<exists>request'. h = snd (snd e) request'"
  by (auto simp: table_lookup_def find_Some_iff split: option.splits)

context typed_backend
begin

definition good :: "'s ApiGateway \<Rightarrow> bool" where
  "good g \<longleftrightarrow> user_client_of g = UC \<and> book_client_of g = BC \<and> inventory_client_of g = IC \<and> order_client_of g = OC \<and> typed (gw_data g)"

definition kept :: "'s ApiGateway \<Rightarrow> HttpResponse \<times> 's ApiGateway \<Rightarrow> bool" where
  "kept g r \<longleftrightarrow> good (snd r) \<and> gw_dependencies (snd r) = gw_dependencies g \<and> rs_status_code (fst r) \<in> set api_statuses"

lemma kept_reading: "good g \<Longrightarrow> rs_status_code (h g (gw_data g)) \<in> set api_statuses \<Longrightarrow> kept g (reading h g)"
  by (simp add: kept_def reading_def)

lemma kept_writing:
  assumes "good g" "typed (snd (h g (gw_data g)))" "rs_status_code (fst (h g (gw_data g))) \<in> set api_statuses"
  shows "kept g (writing h g)"
  using assms by (auto simp: kept_def writing_def good_def user_client_of_def book_client_of_def inventory_client_of_def
      order_client_of_def split: prod.split)

lemma writers_typed:
  assumes "typed s"
  shows "typed (snd (handle_register_user request UC s))" "typed (snd (handle_create_book request BC s))"
    "typed (snd (handle_update_book request BC s))" "typed (snd (handle_add_inventory request IC s))"
    "typed (snd (handle_create_order request OC s))" "typed (snd (handle_cancel_order request OC s))"
proof -
  have snd_case: "typed (snd (case p of (None, s') \<Rightarrow> (a s', s') | (Some x, s') \<Rightarrow> (b x s', s')))" if "typed (snd p)" for p :: "'x option \<times> 's" and a b
    using that by (auto split: prod.split option.split)
  show "typed (snd (handle_register_user request UC s))"
    using assms snd_case[OF register_typed[OF assms]] by (auto simp: handle_register_user_def split: option.split)
  show "typed (snd (handle_create_book request BC s))"
    using assms unfolding handle_create_book_def Let_def
    by (auto split: option.split intro!: snd_case create_book_typed dest: json_int_value_int32)
  show "typed (snd (handle_update_book request BC s))"
    using assms unfolding handle_update_book_def Let_def
    by (auto split: option.split intro!: snd_case update_book_typed dest: json_int_value_int32)
  show "typed (snd (handle_add_inventory request IC s))"
    using assms unfolding handle_add_inventory_def
    by (auto split: option.split intro!: snd_case add_stock_typed dest: json_int_value_int32)
  show "typed (snd (handle_create_order request OC s))"
    using assms unfolding handle_create_order_def Let_def
    by (auto split: option.split intro!: snd_case create_order_typed dest: json_int_value_int32 json_order_items_int32)
  show "typed (snd (handle_cancel_order request OC s))"
    using assms unfolding handle_cancel_order_def
    by (auto split: option.split intro!: snd_case cancel_order_typed)
qed

lemma readers_status:
  "rs_status_code (handle_list_books request bc s) \<in> set api_statuses" "rs_status_code (handle_get_book request bc s) \<in> set api_statuses"
  "rs_status_code (handle_search_books request bc s) \<in> set api_statuses" "rs_status_code (handle_login_user request uc s) \<in> set api_statuses"
  "rs_status_code (handle_get_inventory request ic s) \<in> set api_statuses" "rs_status_code (handle_list_orders request oc s) \<in> set api_statuses"
  "rs_status_code (handle_get_order request oc s) \<in> set api_statuses" "rs_status_code (handle_similar_books request b index s) \<in> set api_statuses"
  "rs_status_code (handle_ready g s) \<in> set api_statuses"
  by (auto simp: handle_list_books_def handle_get_book_def handle_search_books_def handle_login_user_def handle_get_inventory_def
      handle_list_orders_def handle_get_order_def handle_similar_books_def handle_ready_def ready_response_def json_response_def
      api_statuses_def split: option.split)

lemma writers_status:
  "rs_status_code (fst (handle_register_user request uc s)) \<in> set api_statuses" "rs_status_code (fst (handle_create_book request bc s)) \<in> set api_statuses"
  "rs_status_code (fst (handle_update_book request bc s)) \<in> set api_statuses" "rs_status_code (fst (handle_add_inventory request ic s)) \<in> set api_statuses"
  "rs_status_code (fst (handle_create_order request oc s)) \<in> set api_statuses" "rs_status_code (fst (handle_cancel_order request oc s)) \<in> set api_statuses"
  by (auto simp: handle_register_user_def handle_create_book_def handle_update_book_def handle_add_inventory_def handle_create_order_def
      handle_cancel_order_def Let_def api_statuses_def split: option.split prod.split)

lemma kept_similar: "good g \<Longrightarrow> kept g (handle_similar request g)"
  by (simp add: kept_def handle_similar_def Let_def readers_status good_def user_client_of_def book_client_of_def inventory_client_of_def
      order_client_of_def)

lemma routes_kept:
  assumes "good g" "e \<in> set api_routes"
  shows "kept g (snd (snd e) request g)"
proof -
  have t: "typed (gw_data g)" and c: "user_client_of g = UC" "book_client_of g = BC" "inventory_client_of g = IC" "order_client_of g = OC"
    using assms(1) by (simp_all add: good_def)
  have ok: "200 \<in> set api_statuses" by (simp add: api_statuses_def)
  show ?thesis
    using assms(2) unfolding api_routes_def
    by (auto intro!: kept_reading kept_writing assms(1) kept_similar simp: c writers_typed[OF t] readers_status writers_status ok)
qed

lemma dispatch_kept: "good g \<Longrightarrow> dispatch request g = Some r \<Longrightarrow> kept g r"
  by (auto simp: dispatch_table dest!: table_lookup_entry intro: routes_kept)

end

section \<open>The state in memory\<close>

definition typed_book :: "Book \<Rightarrow> bool" where
  "typed_book b \<longleftrightarrow> valid_book b \<and> int32 (bk_id b) \<and> int32 (bk_price_cents b) \<and> int32 (bk_stock b)"

definition typed_order :: "Order \<Rightarrow> bool" where
  "typed_order r \<longleftrightarrow>
     int32 (ord_id r) \<and> 0 < ord_user_id r \<and> int32 (ord_user_id r) \<and> ord_items r \<noteq> [] \<and>
     (\<forall>i \<in> set (ord_items r). int32 (oi_book_id i) \<and> 0 < oi_quantity i \<and> int32 (oi_quantity i) \<and>
        0 < oi_unit_price_cents i \<and> int32 (oi_unit_price_cents i)) \<and>
     int32 (ord_total_cents r) \<and> (ord_status r = ''created'' \<or> ord_status r = ''cancelled'')"

text \<open>A stored password is a digest.\<close>

definition typed_users :: "MemoryUserRepository \<Rightarrow> bool" where
  "typed_users u \<longleftrightarrow>
     int32 (mu_next_user_id u) \<and> dom (mu_passwords u) = dom (mu_users_by_name u) \<and>
     (\<forall>n a. mu_users_by_name u n = Some a \<longrightarrow> n \<noteq> [] \<and> usr_username a = n \<and> int32 (usr_id a)) \<and>
     (\<forall>n p. mu_passwords u n = Some p \<longrightarrow> (\<exists>pass. p = sha256_hex pass))"

definition typed_app :: "App \<Rightarrow> bool" where
  "typed_app s \<longleftrightarrow>
     typed_users (app_users s) \<and> (\<forall>b \<in> set (mb_books (app_books s)). typed_book b) \<and>
     (\<forall>i v. mi_stock (app_inventory s) i = Some v \<longrightarrow> int32 v) \<and>
     int32 (mo_next_order_id (app_orders s)) \<and> (\<forall>r \<in> set (mo_orders (app_orders s)). typed_order r)"

abbreviation typed_stock :: "MemoryInventoryRepository \<Rightarrow> bool" where
  "typed_stock x \<equiv> (\<forall>i v. mi_stock x i = Some v \<longrightarrow> int32 v)"

lemma typed_bump: "typed_stock x \<Longrightarrow> typed_stock (bump_stock i q x)"
  by (simp add: bump_stock_def)

text \<open>The inventory client of the gateway changes nothing but the stock.\<close>

lemma typed_app_stock: "typed_app s \<Longrightarrow> typed_stock x \<Longrightarrow> typed_app (s\<lparr>app_inventory := x\<rparr>)"
  by (simp add: typed_app_def)

lemma typed_reserve: "typed_app s \<Longrightarrow> typed_app (snd (InventoryService_reserve_stock memory_inventory_repository i q s))"
  by (auto simp: InventoryService_reserve_stock_def memory_inventory_repository_def MemoryInventoryRepository_reserve_stock_def
      split: option.split intro!: typed_app_stock typed_bump simp: typed_app_def)

lemma typed_release: "typed_app s \<Longrightarrow> typed_app (InventoryService_release_stock memory_inventory_repository i q s)"
  by (auto simp: InventoryService_release_stock_def memory_inventory_repository_def MemoryInventoryRepository_release_stock_def
      intro!: typed_app_stock typed_bump simp: typed_app_def)

lemma typed_release_each: "typed_app s \<Longrightarrow> typed_app (release_each memory_inventory_repository items s)"
  unfolding release_each_def by (induction items arbitrary: s) (simp_all add: typed_release)

lemma typed_local_reserve: "typed_app s \<Longrightarrow> typed_app (snd (local_reserve_loop memory_inventory_repository items reserved s))"
proof (induction items arbitrary: reserved s)
  case (Cons i items)
  obtain ok s1 where r: "InventoryService_reserve_stock memory_inventory_repository (im_book_id i) (im_quantity i) s = (ok, s1)" by (rule prod.exhaust)
  then have "typed_app s1" using typed_reserve[OF Cons.prems, of "im_book_id i" "im_quantity i"] by simp
  then show ?case using Cons.IH by (simp add: r typed_release_each)
qed simp

lemma typed_find: "typed_app s \<Longrightarrow> MemoryBookRepository_find_book i (app_books s) = Some b \<Longrightarrow> typed_book b \<and> bk_id b = i"
  by (auto simp: MemoryBookRepository_find_book_def typed_app_def dest!: find_book_loop_SomeD)

lemma typed_prices:
  assumes "typed_app s" "\<forall>r \<in> set requests. int32 (oir_quantity r)" "int32 acc"
    and "price_items_loop (LocalBookClient memory_book_repository) requests items acc s = Some (items', acc')"
  shows "int32 acc' \<and> length items' = length items + length requests \<and> (\<forall>i \<in> set items'. i \<in> set items \<or>
    int32 (oi_book_id i) \<and> 0 < oi_quantity i \<and> int32 (oi_quantity i) \<and> 0 < oi_unit_price_cents i \<and> int32 (oi_unit_price_cents i))"
  using assms
proof (induction requests arbitrary: items acc)
  case (Cons r requests)
  then obtain b where q: "oir_quantity r > 0" and b: "MemoryBookRepository_find_book (oir_book_id r) (app_books s) = Some b"
    and rest: "price_items_loop (LocalBookClient memory_book_repository) requests
      (items @ [\<lparr>oi_book_id = oir_book_id r, oi_quantity = oir_quantity r, oi_unit_price_cents = bk_price_cents b\<rparr>])
      (wrap32 (acc + wrap32 (bk_price_cents b * oir_quantity r))) s = Some (items', acc')"
    by (auto simp: LocalBookClient_def BookService_find_book_def memory_book_repository_def split: if_splits option.splits)
  have "int32 (oir_book_id r)" "0 < bk_price_cents b" "int32 (bk_price_cents b)" "int32 (oir_quantity r)"
    using typed_find[OF Cons.prems(1) b] Cons.prems(2) by (auto simp: typed_book_def valid_book_def)
  with Cons.IH[OF Cons.prems(1) _ _ rest] Cons.prems(2) q show ?case by auto
qed simp

lemma typed_next_id: "\<forall>b \<in> set bs. int32 (bk_id b) \<Longrightarrow> int32 n \<Longrightarrow> int32 (next_book_id_loop bs n)"
  by (induction bs arbitrary: n) auto

lemma typed_update_loop:
  assumes "\<forall>b \<in> set bs. typed_book b" "\<And>b. typed_book b \<Longrightarrow> typed_book (apply_update u b)"
  shows "\<forall>b \<in> set (snd (update_book_loop bs i u)). typed_book b"
  using assms(1)
proof (induction bs)
  case (Cons b bs)
  obtain r bs' where "update_book_loop bs i u = (r, bs')" by (rule prod.exhaust)
  with Cons assms(2)[of b] show ?case by simp
qed simp

lemma typed_cancelled: "typed_order r \<Longrightarrow> typed_order (r\<lparr>ord_status := ''cancelled''\<rparr>)"
  by (simp add: typed_order_def)

lemma typed_cancel_loop: "\<forall>r \<in> set rs. typed_order r \<Longrightarrow> \<forall>r \<in> set (snd (cancel_order_loop rs i)). typed_order r"
proof (induction rs)
  case (Cons r rs)
  obtain x rs' where "cancel_order_loop rs i = (x, rs')" by (rule prod.exhaust)
  with Cons typed_cancelled[of r] show ?case by (simp add: Let_def)
qed simp

section \<open>The clients of the default gateway\<close>

lemma typed_register: "typed_app s \<Longrightarrow> typed_app (snd (uc_register_user (LocalUserClient memory_user_repository) u p s))"
  by (auto simp: LocalUserClient_def UserService_register_user_def memory_user_repository_def MemoryUserRepository_create_user_def
      typed_app_def typed_users_def Let_def split: option.split)

lemma typed_create_book:
  assumes "typed_app s" "int32 (bk_price_cents b)" "int32 (bk_stock b)"
  shows "typed_app (snd (bc_create_book (LocalBookClient memory_book_repository) b s))"
proof -
  have "int32 (next_book_id_loop (mb_books (app_books s)) 1)"
    using assms(1) by (intro typed_next_id) (auto simp: typed_app_def typed_book_def int32_def)
  then show ?thesis
    using assms by (auto simp: LocalBookClient_def BookService_create_book_def memory_book_repository_def MemoryBookRepository_create_book_def
        typed_app_def typed_book_def valid_book_def Let_def)
qed

lemma typed_update_book:
  assumes "typed_app s" "\<forall>p. bu_price_cents upd = Some p \<longrightarrow> int32 p" "\<forall>k. bu_stock upd = Some k \<longrightarrow> int32 k"
  shows "typed_app (snd (bc_update_book (LocalBookClient memory_book_repository) i upd s))"
proof (cases "i \<le> 0 \<or> bu_title upd = Some [] \<or> bu_author upd = Some [] \<or> (\<exists>p. bu_price_cents upd = Some p \<and> p \<le> 0) \<or>
    (\<exists>k. bu_stock upd = Some k \<and> k < 0) \<or> (\<exists>t. bu_status upd = Some t \<and> t \<noteq> ''active'' \<and> t \<noteq> ''inactive'')")
  case True
  then show ?thesis
    using assms(1) by (auto simp: LocalBookClient_def BookService_update_book_def split: option.split)
next
  case False
  then have "typed_book (apply_update upd b)" if "typed_book b" for b
    using that assms(2,3) by (auto simp: apply_update_def typed_book_def valid_book_def split: option.split)
  then have books: "\<forall>b \<in> set (snd (update_book_loop (mb_books (app_books s)) i upd)). typed_book b"
    using assms(1) by (intro typed_update_loop) (auto simp: typed_app_def)
  obtain r bs where u: "update_book_loop (mb_books (app_books s)) i upd = (r, bs)" by (rule prod.exhaust)
  have "typed_app (snd (br_update_book memory_book_repository i upd s))"
    using assms(1) books by (auto simp: u memory_book_repository_def MemoryBookRepository_update_book_def typed_app_def)
  then show ?thesis
    using assms(1) by (auto simp: LocalBookClient_def BookService_update_book_def split: option.split)
qed

lemma typed_add_stock: "typed_app s \<Longrightarrow> typed_app (snd (ic_add_stock (LocalInventoryClient memory_inventory_repository) i q s))"
  by (auto simp: LocalInventoryClient_def InventoryService_add_stock_def memory_inventory_repository_def MemoryInventoryRepository_add_stock_def
      Let_def intro!: typed_app_stock typed_bump simp: typed_app_def)

lemma typed_release_items:
  "typed_app s \<Longrightarrow> typed_app (release_order_items (LocalInventoryClient memory_inventory_repository) items s)"
  unfolding release_order_items_def LocalInventoryClient_def
  by (induction items arbitrary: s) (simp_all add: typed_release)

lemma typed_create_order:
  assumes "typed_app s" "int32 user" "\<forall>r \<in> set items. int32 (oir_quantity r)"
  shows "typed_app (snd (OrderService_create_order memory_order_service user items s))"
proof (cases "user \<le> 0 \<or> items = [] \<or> price_items_loop (LocalBookClient memory_book_repository) items [] 0 s = None")
  case True
  then show ?thesis using assms(1) by (auto simp: OrderService_create_order_def)
next
  case False
  then obtain lines acc where priced: "price_items_loop (LocalBookClient memory_book_repository) items [] 0 s = Some (lines, acc)" by auto
  have "int32 0" by (simp add: int32_def)
  note lines = typed_prices[OF assms(1,3) this priced]
  obtain rid s1 where rid: "next_reservation_id memory_order_service user s = (rid, s1)" by (rule prod.exhaust)
  have s1: "typed_app s1"
    using rid assms(1) by (auto simp: next_reservation_id_def next_id_fetch_add_def typed_app_def)
  obtain reserved s2 where r: "local_reserve_loop memory_inventory_repository (reservation_items_of items) [] s1 = (reserved, s2)" by (rule prod.exhaust)
  have s2: "typed_app s2" using typed_local_reserve[OF s1, of "reservation_items_of items" "[]"] r by simp
  have order: "typed_app (snd (or_create_order memory_order_repository user lines acc s2))"
    using s2 lines assms(2) False
    by (auto simp: memory_order_repository_def MemoryOrderRepository_create_order_def typed_app_def typed_order_def Let_def)
  have ic: "ic_reserve_stock_items (LocalInventoryClient memory_inventory_repository) rid xs = local_reserve_loop memory_inventory_repository xs []"
    "ic_release_stock_items (LocalInventoryClient memory_inventory_repository) rid xs = release_each memory_inventory_repository xs" for xs
    by (simp_all add: LocalInventoryClient_def fun_eq_iff)
  obtain x s3 where create: "or_create_order memory_order_repository user lines acc s2 = (x, s3)" by (rule prod.exhaust)
  show ?thesis
    using False s2 order by (cases x) (auto simp: OrderService_create_order_def priced rid ic r create typed_release_each)
qed

lemma typed_cancel_order:
  assumes "typed_app s"
  shows "typed_app (snd (OrderService_cancel_order memory_order_service i s))"
proof -
  have "\<forall>r \<in> set (snd (cancel_order_loop (mo_orders (app_orders s)) i)). typed_order r"
    using assms by (intro typed_cancel_loop) (simp add: typed_app_def)
  then have cancelled: "typed_app (snd (or_cancel_order memory_order_repository i s))"
    using assms by (auto simp: memory_order_repository_def MemoryOrderRepository_cancel_order_def typed_app_def split: prod.split)
  then show ?thesis
    using assms by (auto simp: OrderService_cancel_order_def typed_release_items split: option.split prod.split)
qed

interpretation memory_types: typed_backend "LocalUserClient memory_user_repository" "LocalBookClient memory_book_repository"
  "LocalInventoryClient memory_inventory_repository" "LocalOrderClient memory_order_service" typed_app
  by unfold_locales
    (simp_all add: typed_register typed_create_book typed_update_book typed_add_stock typed_create_order typed_cancel_order LocalOrderClient_def)

lemma default_good: "memory_types.good default_gateway"
proof -
  have "typed_app default_app"
    by (auto simp: typed_app_def typed_users_def typed_book_def valid_book_def int32_def default_app_def default_books_def
        MemoryUserRepository_init_def MemoryInventoryRepository_init_def MemoryOrderRepository_init_def split: if_splits)
  then show ?thesis
    unfolding memory_types.good_def
    by (simp add: default_gateway_def ApiGateway_init_def Let_def ensure_clients_def ensure_user_client_def
        ensure_book_client_def ensure_inventory_client_def ensure_order_client_def default_dependencies_def user_client_of_def
        book_client_of_def inventory_client_of_def order_client_of_def memory_order_service_def OrderService_of_repositories_def)
qed

section \<open>Properties\<close>

text \<open>The answers to a sequence of requests, one after the other, and the gateway after them.\<close>

fun dispatch_all :: "HttpRequest list \<Rightarrow> 's ApiGateway \<Rightarrow> HttpResponse list \<times> 's ApiGateway" where
  "dispatch_all [] g = ([], g)"
| "dispatch_all (request # requests) g =
     (case dispatch request g of
        None \<Rightarrow> dispatch_all requests g
      | Some (response, g') \<Rightarrow> (case dispatch_all requests g' of (responses, g'') \<Rightarrow> (response # responses, g'')))"

lemma dispatch_all_good:
  "memory_types.good g \<Longrightarrow> dispatch_all requests g = (responses, g') \<Longrightarrow>
     memory_types.good g' \<and> rs_status_code ` set responses \<subseteq> set api_statuses"
proof (induction requests arbitrary: g g' responses)
  case (Cons request requests)
  show ?case
  proof (cases "dispatch request g")
    case None
    with Cons show ?thesis by simp
  next
    case (Some r)
    obtain response g1 where r: "r = (response, g1)" by (rule prod.exhaust)
    have kept: "memory_types.kept g (response, g1)" using memory_types.dispatch_kept[OF Cons.prems(1) Some] r by simp
    obtain rest g2 where rest: "dispatch_all requests g1 = (rest, g2)" by (rule prod.exhaust)
    have "memory_types.good g1" using kept by (simp add: memory_types.kept_def)
    from Cons.IH[OF this rest] show ?thesis using Cons.prems(2) kept by (auto simp: Some r rest memory_types.kept_def image_subset_iff)
  qed
qed simp

text \<open>C2: whatever requests arrive at the gateway on its default dependencies, in any number and of any content, every struct that
  it stores stays well-formed: numbers in the range of their fields, valid books, orders with positive lines and a
  status of the two that exist, accounts under their own names, and only digests of passwords. And every
  answer has one of seven status codes.\<close>

theorem gateway_state_typed:
  "case dispatch_all requests default_gateway of
     (responses, g) \<Rightarrow> typed_app (gw_data g) \<and> rs_status_code ` set responses \<subseteq> set api_statuses"
  using dispatch_all_good[OF default_good] by (auto simp: memory_types.good_def split: prod.split)

end
