(* ===== verification/Wakeups.thy ===== *)
theory Wakeups
  imports Thread_Pool "HOL-Library.Multiset"
begin

text \<open>
  The condition variables of the thread pool, the block queue and the connection pool. The theories of these
  components model waiting as a guard: a thread whose condition is false cannot take its step. Here the waiting itself is
  modelled: threads fall asleep under the mutex, \<^verbatim>\<open>notify_one\<close> and \<^verbatim>\<open>notify_all\<close> are posted, after
  the mutex was left, and delivered later, sleepers wake up without reason or because their time is over, and check
  the condition again. The theorems show that no wake-up is lost, which is what the guards rely on: a thread never
  sleeps while its condition holds, unless another one is on its way to check the condition or a notification is.
\<close>

section \<open>A monitor with one condition variable\<close>

datatype signal = NoNotify | NotifyOne | NotifyAll

record 'd monitor =
  mn_data :: 'd
  mn_asleep :: "nat set"
  mn_woken :: "nat set"
  mn_posted :: "signal multiset"

text \<open>
  \<open>ready\<close> is the condition of the wait, \<open>take\<close> what a thread does behind it, \<open>call\<close> the other operations with the
  notification they post. \<open>mn_woken\<close> are the threads that were awake once and have to check again.
\<close>

inductive monitor_step ::
  "('d \<Rightarrow> bool) \<Rightarrow> ('d \<Rightarrow> 'd) \<Rightarrow> ('o \<Rightarrow> 'd \<Rightarrow> 'd \<times> signal) \<Rightarrow> 'd monitor \<Rightarrow> 'd monitor \<Rightarrow> bool"
  for ready take call where
  called: "call x (mn_data m) = (d, sg) \<Longrightarrow> monitor_step ready take call m
    (m\<lparr>mn_data := d, mn_posted := (if sg = NoNotify then mn_posted m else add_mset sg (mn_posted m))\<rparr>)"
| notified_none: "NotifyOne \<in># mn_posted m \<Longrightarrow> mn_asleep m = {} \<Longrightarrow> monitor_step ready take call m
    (m\<lparr>mn_posted := mn_posted m - {#NotifyOne#}\<rparr>)"
| notified_one: "NotifyOne \<in># mn_posted m \<Longrightarrow> t \<in> mn_asleep m \<Longrightarrow> monitor_step ready take call m
    (m\<lparr>mn_posted := mn_posted m - {#NotifyOne#}, mn_asleep := mn_asleep m - {t}, mn_woken := insert t (mn_woken m)\<rparr>)"
| notified_all: "NotifyAll \<in># mn_posted m \<Longrightarrow> monitor_step ready take call m
    (m\<lparr>mn_posted := mn_posted m - {#NotifyAll#}, mn_asleep := {}, mn_woken := mn_woken m \<union> mn_asleep m\<rparr>)"
| awakes: "t \<in> mn_asleep m \<Longrightarrow> monitor_step ready take call m
    (m\<lparr>mn_asleep := mn_asleep m - {t}, mn_woken := insert t (mn_woken m)\<rparr>)"
| enters: "t \<notin> mn_asleep m \<union> mn_woken m \<Longrightarrow> ready (mn_data m) \<Longrightarrow> monitor_step ready take call m
    (m\<lparr>mn_data := take (mn_data m)\<rparr>)"
| sleeps: "t \<notin> mn_asleep m \<union> mn_woken m \<Longrightarrow> \<not> ready (mn_data m) \<Longrightarrow> monitor_step ready take call m
    (m\<lparr>mn_asleep := insert t (mn_asleep m)\<rparr>)"
| proceeds: "t \<in> mn_woken m \<Longrightarrow> ready (mn_data m) \<Longrightarrow> monitor_step ready take call m
    (m\<lparr>mn_data := take (mn_data m), mn_woken := mn_woken m - {t}\<rparr>)"
| sleeps_again: "t \<in> mn_woken m \<Longrightarrow> \<not> ready (mn_data m) \<Longrightarrow> monitor_step ready take call m
    (m\<lparr>mn_asleep := insert t (mn_asleep m), mn_woken := mn_woken m - {t}\<rparr>)"
| gives_up: "t \<in> mn_woken m \<Longrightarrow> \<not> ready (mn_data m) \<Longrightarrow> monitor_step ready take call m
    (m\<lparr>mn_woken := mn_woken m - {t}\<rparr>)"

definition monitor_start :: "'d \<Rightarrow> 'd monitor" where
  "monitor_start d = \<lparr>mn_data = d, mn_asleep = {}, mn_woken = {}, mn_posted = {#}\<rparr>"

text \<open>The discipline of the notifications: the condition holds for so many threads at a time, or for all once the
  object is closed; an operation that lets one more thread in posts \<^verbatim>\<open>notify_one\<close>, one that
  closes posts \<^verbatim>\<open>notify_all\<close>.\<close>

locale notifier =
  fixes ready :: "'d \<Rightarrow> bool"
    and take :: "'d \<Rightarrow> 'd"
    and call :: "'o \<Rightarrow> 'd \<Rightarrow> 'd \<times> signal"
    and room :: "'d \<Rightarrow> nat"
    and closed :: "'d \<Rightarrow> bool"
  assumes ready_law: "ready d \<longleftrightarrow> closed d \<or> 0 < room d"
    and take_law: "ready d \<Longrightarrow> closed (take d) = closed d \<and> (\<not> closed d \<longrightarrow> room (take d) < room d)"
    and call_law: "call x d = (d', sg) \<Longrightarrow> sg \<noteq> NotifyAll \<Longrightarrow>
      closed d' = closed d \<and> (\<not> closed d \<longrightarrow> room d' \<le> room d + (if sg = NotifyOne then 1 else 0))"
begin

definition watched :: "'d monitor \<Rightarrow> bool" where
  "watched m \<longleftrightarrow> finite (mn_asleep m) \<and> finite (mn_woken m) \<and> mn_asleep m \<inter> mn_woken m = {} \<and>
     (mn_asleep m = {} \<or> NotifyAll \<in># mn_posted m \<or>
      \<not> closed (mn_data m) \<and> room (mn_data m) \<le> card (mn_woken m) + count (mn_posted m) NotifyOne)"

lemma watched_step: "monitor_step ready take call m m' \<Longrightarrow> watched m \<Longrightarrow> watched m'"
proof (induction rule: monitor_step.induct)
  case (called x m d sg)
  then show ?case
    using call_law[OF called(1)] by (cases sg) (auto simp: watched_def)
next
  case (notified_one m t)
  then have "NotifyAll \<in># mn_posted m - {#NotifyOne#} \<longleftrightarrow> NotifyAll \<in># mn_posted m"
    by (simp add: in_diff_count count_single)
  moreover have "t \<notin> mn_woken m" "0 < count (mn_posted m) NotifyOne"
    using notified_one by (auto simp: watched_def)
  ultimately show ?case
    using notified_one by (auto simp: watched_def)
next
  case (enters t m)
  then show ?case using take_law[OF enters(2)] by (auto simp: watched_def)
next
  case (proceeds t m)
  then have "0 < card (mn_woken m)" by (auto simp: watched_def card_gt_0_iff)
  with proceeds show ?case
    using take_law[OF proceeds(2)] by (auto simp: watched_def)
next
  case (awakes t m)
  then show ?case by (auto simp: watched_def card_insert_if)
qed (auto simp: watched_def ready_law card_gt_0_iff)

lemma watched_reachable: "(monitor_step ready take call)\<^sup>*\<^sup>* (monitor_start d) m \<Longrightarrow> watched m"
proof (induction rule: rtranclp_induct)
  case base
  show ?case by (simp add: watched_def monitor_start_def)
next
  case (step m m')
  then show ?case by (blast intro: watched_step)
qed

text \<open>No lost wake-up.\<close>

lemma somebody_comes:
  assumes "(monitor_step ready take call)\<^sup>*\<^sup>* (monitor_start d) m" "ready (mn_data m)" "mn_asleep m \<noteq> {}"
  shows "mn_woken m \<noteq> {} \<or> mn_posted m \<noteq> {#}"
  using watched_reachable[OF assms(1)] assms(2,3) by (auto simp: watched_def ready_law)

text \<open>Once the object is closed and its notification is delivered, nobody sleeps.\<close>

lemma closed_wakes_all:
  assumes "(monitor_step ready take call)\<^sup>*\<^sup>* (monitor_start d) m" "closed (mn_data m)" "NotifyAll \<notin># mn_posted m"
  shows "mn_asleep m = {}"
  using watched_reachable[OF assms(1)] assms(2,3) by (auto simp: watched_def)

end

section \<open>The thread pool\<close>

text \<open>The condition of \<^verbatim>\<open>run\<close>, its critical section, and the calls with their notifications.\<close>

definition run_ready :: "threadpool \<Rightarrow> bool" where
  "run_ready tp \<longleftrightarrow> tp_stop tp \<or> tp_workqueue tp \<noteq> []"

datatype pool_request = CallAppend nat | CallDestructor

fun pool_notify :: "pool_request \<Rightarrow> threadpool \<Rightarrow> threadpool \<times> signal" where
  "pool_notify (CallAppend r) tp = (case append_p r tp of (ok, tp') \<Rightarrow> (tp', if ok then NotifyOne else NoNotify))"
| "pool_notify CallDestructor tp = (pool_stop tp, NotifyAll)"

definition run_critical :: "threadpool \<Rightarrow> threadpool" where
  "run_critical tp = snd (the (run_take tp))"

lemma run_take_ready: "run_take tp = None \<longleftrightarrow> \<not> run_ready tp"
  by (auto simp: run_take_def run_ready_def)

interpretation workers: notifier run_ready run_critical pool_notify "\<lambda>tp. length (tp_workqueue tp)" tp_stop
proof
  fix x tp tp' sg
  assume "pool_notify x tp = (tp', sg)" "sg \<noteq> NotifyAll"
  then show "tp_stop tp' = tp_stop tp \<and>
      (\<not> tp_stop tp \<longrightarrow> length (tp_workqueue tp') \<le> length (tp_workqueue tp) + (if sg = NotifyOne then 1 else 0))"
    by (cases x) (auto simp: append_p_def split: if_splits)
qed (auto simp: run_ready_def run_critical_def run_take_def)

section \<open>The block queue\<close>

datatype 'a queue_request = CallPush 'a | CallClear | CallClose

fun bq_notify :: "'a queue_request \<Rightarrow> 'a block_queue \<Rightarrow> 'a block_queue \<times> signal" where
  "bq_notify (CallPush x) q = (case bq_push x q of (ok, q') \<Rightarrow> (q', if ok then NotifyOne else NoNotify))"
| "bq_notify CallClear q = (bq_clear q, NoNotify)"
| "bq_notify CallClose q = (bq_close q, NotifyAll)"

interpretation consumers: notifier pop_ready "\<lambda>q. snd (pop_item q)" bq_notify "\<lambda>q. nat (m_size q)" m_closed
proof
  fix x and q q' :: "'a block_queue" and sg
  assume "bq_notify x q = (q', sg)" "sg \<noteq> NotifyAll"
  then show "m_closed q' = m_closed q \<and> (\<not> m_closed q \<longrightarrow> nat (m_size q') \<le> nat (m_size q) + (if sg = NotifyOne then 1 else 0))"
    by (cases x) (auto simp: bq_push_def bq_clear_def Let_def split: if_splits)
qed (auto simp: pop_ready_def pop_item_def Let_def)

section \<open>The connection pool\<close>

datatype 'c connection_request = CallRelease "'c option" | CallDestroy

fun connection_notify :: "'c connection_request \<Rightarrow> 'c connection_pool \<Rightarrow> 'c connection_pool \<times> signal" where
  "connection_notify (CallRelease con) p =
     (case ReleaseConnection con p of (ok, p') \<Rightarrow> (p', if ok then NotifyOne else NoNotify))"
| "connection_notify CallDestroy p = (snd (DestroyPool p), NotifyAll)"

definition get_ready :: "'c connection_pool \<Rightarrow> bool" where
  "get_ready p \<longleftrightarrow> connList p \<noteq> [] \<or> m_shutdown p"

definition get_critical :: "'c connection_pool \<Rightarrow> 'c connection_pool" where
  "get_critical p = snd (the (GetConnection p))"

lemma get_connection_ready: "GetConnection p = None \<longleftrightarrow> \<not> get_ready p"
  by (auto simp: GetConnection_def get_ready_def)

interpretation borrowers: notifier get_ready get_critical connection_notify "\<lambda>p. length (connList p)" m_shutdown
proof
  fix x and p p' :: "'c connection_pool" and sg
  assume "connection_notify x p = (p', sg)" "sg \<noteq> NotifyAll"
  then show "m_shutdown p' = m_shutdown p \<and>
      (\<not> m_shutdown p \<longrightarrow> length (connList p') \<le> length (connList p) + (if sg = NotifyOne then 1 else 0))"
    by (cases x) (auto simp: ReleaseConnection_def split: option.splits)
qed (auto simp: get_ready_def get_critical_def GetConnection_def)

section \<open>No wake-up is lost\<close>

text \<open>The three objects together: whenever a thread sleeps although it could go on, a woken thread or a posted
  notification is on its way; and after the last one, nobody sleeps in a closed object.\<close>

lemma no_worker_sleeps:
  assumes "(monitor_step run_ready run_critical pool_notify)\<^sup>*\<^sup>* (monitor_start tp) m"
  shows "(run_take (mn_data m) \<noteq> None \<and> mn_asleep m \<noteq> {} \<longrightarrow> mn_woken m \<noteq> {} \<or> mn_posted m \<noteq> {#}) \<and>
    (tp_stop (mn_data m) \<and> mn_posted m = {#} \<longrightarrow> mn_asleep m = {})"
  using workers.somebody_comes[OF assms] workers.closed_wakes_all[OF assms] by (auto simp: run_take_ready)

lemma no_log_writer_sleeps:
  assumes "(monitor_step pop_ready (\<lambda>q. snd (pop_item q)) bq_notify)\<^sup>*\<^sup>* (monitor_start q) m"
  shows "(pop_wait (mn_data m) \<noteq> None \<and> mn_asleep m \<noteq> {} \<longrightarrow> mn_woken m \<noteq> {} \<or> mn_posted m \<noteq> {#}) \<and>
    (m_closed (mn_data m) \<and> mn_posted m = {#} \<longrightarrow> mn_asleep m = {})"
  using consumers.somebody_comes[OF assms] consumers.closed_wakes_all[OF assms] by (auto simp: pop_wait_def)

lemma no_borrower_sleeps:
  assumes "(monitor_step get_ready get_critical connection_notify)\<^sup>*\<^sup>* (monitor_start p) m"
  shows "(GetConnection (mn_data m) \<noteq> None \<and> mn_asleep m \<noteq> {} \<longrightarrow> mn_woken m \<noteq> {} \<or> mn_posted m \<noteq> {#}) \<and>
    (m_shutdown (mn_data m) \<and> mn_posted m = {#} \<longrightarrow> mn_asleep m = {})"
  using borrowers.somebody_comes[OF assms] borrowers.closed_wakes_all[OF assms] by (auto simp: get_connection_ready)

end
