(* ===== verification/Spec2Isabelle.thy ===== *)
theory Spec2Isabelle
  imports Text_Properties Service_Properties Http_Properties End_To_End Log Config Grpc_Orders Grpc_Books Grpc_Failures
    Saga User_Table Hnsw Startup Gateway_Types Wakeups
begin

text \<open>
  \<^bold>\<open>A bookstore on a small web server.\<close> The program is a C++ server in three layers. At the bottom are the
  threads and the network: a main loop over epoll events (\<^verbatim>\<open>src/core\<close>), connections that parse requests and send
  responses (\<^verbatim>\<open>src/net/http\<close>), timers that close idle connections (\<^verbatim>\<open>src/timer\<close>), a pool of worker threads
  (\<^verbatim>\<open>src/pool\<close>), a pool of database connections (\<^verbatim>\<open>src/db\<close>) and a log (\<^verbatim>\<open>src/log\<close>). Above them the API gateway
  with its router, JSON and URL helpers turns requests into calls of controllers (\<^verbatim>\<open>src/app/api_gateway.h\<close>,
  \<^verbatim>\<open>src/app/controller\<close>, \<^verbatim>\<open>src/app/util\<close>). The business services for users, books, stock, orders and
  recommendations (\<^verbatim>\<open>src/app/service\<close>) work on repositories and clients behind abstract classes: in memory, in MySQL
  (\<^verbatim>\<open>src/app/repository\<close>), or in other processes over gRPC (\<^verbatim>\<open>src/app/client\<close>, \<^verbatim>\<open>src/app/grpc\<close>).

  \<^bold>\<open>Foundations.\<close>
  \<^item> \<open>Prelude\<close>: characters and C strings, 32-bit ranges, substring search, printing and reading of numbers.
  \<^item> \<open>Models\<close>: the structs of \<^verbatim>\<open>src/app/model\<close>.
  \<^item> \<open>Interfaces\<close>: the abstract classes, as records of operations over a state, and the vocabulary of their
    contracts: demand, deducting and restocking lists of lines.

  \<^bold>\<open>Text formats.\<close>
  \<^item> \<open>Json\<close> (\<^verbatim>\<open>util/json.h\<close>), \<open>Url\<close> (\<^verbatim>\<open>net/http/url_params.h\<close>), \<open>Sha256\<close> (\<^verbatim>\<open>util/sha256.h\<close>),
    \<open>Http_Message\<close> (\<^verbatim>\<open>http_request.h\<close>, \<^verbatim>\<open>http_response.h\<close>) and \<open>Router\<close> (\<^verbatim>\<open>router.h\<close>): each source loop is an
    index loop or a recursion on the rest of the string. \<open>Text_Properties\<close>: round trips of printed orders and
    strings, queries, the framing of responses, the router as an ordered table.

  \<^bold>\<open>Business.\<close>
  \<^item> \<open>Memory_Repositories\<close>: the four in-memory repositories; every call runs under the mutex of its object and is
    one step.
  \<^item> \<open>User_Service\<close>, \<open>Book_Service\<close>, \<open>Inventory_Service\<close>, \<open>Order_Service\<close>, \<open>Recommend\<close>: services and local
    clients, each over any implementation of the interfaces it uses. Contracts are locales (such as
    \<open>inventory_repository\<close> and \<open>order_backend\<close>), interpreted on the in-memory backend.
  \<^item> \<open>Hnswlib\<close>, \<open>Hnsw\<close>: the second recommendation index, on the library hnswlib behind the laws of the locale \<open>knn\<close>
    (interpreted on the brute-force search of the vendored copy), and the choice between the two; with an exact search they recommend books at the same distances.
  \<^item> \<open>App_State\<close>, \<open>Controllers\<close>, \<open>Gateway\<close>: the default dependencies, every HTTP handler, the route table.
  \<^item> \<open>Gateway_Types\<close>: the typing of the stored state, kept by every handler over any clients that keep it (the locale
    \<open>typed_backend\<close>), for arbitrary requests.
  \<^item> \<open>Service_Properties\<close>: what an order changes and when it is accepted, the ledger of copies over any
    sequence of operations, atomic reservations, registration and login, the catalogue, recommendations; the interface
    of the gateway as a decision on method and path (\<open>endpoint\<close>), which its router and route table implement.

  \<^bold>\<open>Other processes.\<close>
  \<^item> \<open>Grpc_Messages\<close>, \<open>Grpc_Services\<close>, \<open>Grpc_Clients\<close>: the messages, the handlers of the four servers, the four
    clients over a generated stub, which is a parameter, and stubs that reach the handlers through a transport
    that delivers a call, loses it or loses its answer.
  \<^item> \<open>Grpc_Orders\<close>, \<open>Grpc_Books\<close>, \<open>Grpc_Failures\<close>: talking to the remote order service is talking to the local one
    (for every service that keeps the locale \<open>wire_orders\<close>); what the remote catalogue changes; what lost calls do.

  \<^bold>\<open>Databases.\<close>
  \<^item> \<open>Mysql\<close>, \<open>Mysql_Orders\<close>, \<open>Mysql_Inventory\<close> (\<^verbatim>\<open>repository/mysql/mysql_repositories.cpp\<close>): the methods with the
    text of their statements, over the pool of \<open>Conn_Pool\<close> and a client library that is a parameter (the record
    \<open>Mysql\<close>). \<open>Mysql_Resources\<close>: connections and transactions are given back and ended whatever the database answers.
  \<^item> \<open>Inventory_Tables\<close>: the laws of the inventory tables, taken from \<^verbatim>\<open>scripts/init.sql\<close> and the meaning of the
    statements, as the locale \<open>inventory_db\<close>, and the transactions under these laws. \<open>Inventory_Engine\<close>: a database that
    parses the statements and keeps the laws. \<open>Mysql_Stock\<close>: batches are reserved as a whole, once, and
    released once; what reservation identifiers get wrong. \<open>Saga\<close>: the order server and the inventory server as two
    processes with a state each, where an order that cannot be stored gives its stock back; the law it needs for reading
    the stock outside a transaction is the locale \<open>stock_reader\<close>; cancelling such an order restocks nothing.
  \<^item> \<open>User_Cache\<close> (\<^verbatim>\<open>db/user_cache.cpp\<close>, \<^verbatim>\<open>db/redis_user_cache.cpp\<close>), \<open>User_Table\<close>: the two caches agree with
    the table of users under the laws of the table and of a Redis that may fail at any time.

  \<^bold>\<open>Connections.\<close>
  \<^item> \<open>Http_Conn\<close>: \<^verbatim>\<open>HttpConn\<close> with its read buffer of 2048 and write buffer of 1024 bytes: reading, the
    line and request state machine, the choice of an answer, gathering writes. System calls and the file system
    are arguments. \<open>Http_Parsing\<close>: the buffer as a whole, and that reads may be cut anywhere in the head.
    \<open>Http_Properties\<close>: a rendered request is parsed back, the parser stays inside its buffer, a body that is cut is never
    completed, and for the pieces in which the kernel takes an answer, over any number of wake-ups: which of them bring a
    file to the client completely and in order, and that a cut response of the gateway is lost.
  \<^item> \<open>End_To_End\<close>: an order from the bytes of its request to the bytes of its answer.

  \<^bold>\<open>Threads and resources.\<close>
  \<^item> \<open>Block_Queue\<close> (\<^verbatim>\<open>log/block_queue.h\<close>): the ring buffer refines a bounded queue, the locale \<open>bounded_fifo\<close>.
  \<^item> \<open>Log\<close> (\<^verbatim>\<open>log/log.cpp\<close>): lines, rotation, the asynchronous writer on top of the queue.
  \<^item> \<open>Conn_Pool\<close> (\<^verbatim>\<open>db/sql_connection_pool.cpp\<close>): the pool as a \<open>lender\<close> of handles.
  \<^item> \<open>Thread_Pool\<close> (\<^verbatim>\<open>pool/threadpool.h\<close>): interleavings of atomic steps of the workers; its queue is again a
    \<open>bounded_fifo\<close>. Also the two flags by which a worker reports to the main loop.
  \<^item> \<open>Wakeups\<close>: the condition variables of these three, with sleeping threads and notifications on their way, which the theories
    above replace by guards. The locale \<open>notifier\<close> says which notification an operation owes; it is interpreted on
    the thread pool, the block queue and the connection pool, and no wake-up is lost.
  \<^item> \<open>Timer_Heap\<close>, \<open>Timers\<close> (\<^verbatim>\<open>timer/lst_timer.cpp\<close>): the heap and, over it, timers that are shared by pointer,
    in an explicit store in which a freed timer is absent.
  \<^item> \<open>Web_Server\<close> (\<^verbatim>\<open>core/webserver.cpp\<close>): the main loop with all its handlers over a table of connections.
  \<^item> \<open>Config\<close>: command line, environment, readiness check.
  \<^item> \<open>Listen\<close>: \<^verbatim>\<open>eventListen\<close> statement by statement, with signals arriving in between, and the destructor; what the kernel
    holds afterwards, and which signals reach the main loop through a socket pair of bounded capacity.
  \<^item> \<open>Startup\<close> (\<^verbatim>\<open>core/main.cpp\<close>, \<^verbatim>\<open>sql_pool\<close>, \<^verbatim>\<open>app/grpc/*_server_main.cpp\<close>): the whole start of the web server and of
    the gRPC servers, the dependencies on MySQL, the choice of cache and clients by the environment, the lines it logs; when it succeeds.

  \<^bold>\<open>Conventions.\<close> An operation that may throw returns a sum with an error type of its theory; one that would be
  undefined, or wait forever, is \<open>None\<close>. Threads appear as sequences of atomic steps or calls, an atomic step being
  a critical section of the source. Locales hold the laws a component promises to its clients. Field names and
  operations carry a prefix where C++ has a class around them.

  \<^bold>\<open>Bounds and fuel.\<close> The buffer sizes, the number of descriptors and the time slot are those of the source.
  \<open>purge_loop\<close>, \<open>tick_loop\<close>, the sifting loops of the heap, the padding of the digest and \<open>process_read_loop\<close> come
  with termination proofs. Only \<open>writer_loop\<close> has fuel, and any fuel above the number of queued lines is enough
  (\<open>async_log_flushed\<close>). Numbers that the source keeps in \<^verbatim>\<open>int\<close> are integers with the range predicate \<open>int32\<close>
  where they enter; the digest works on words of 32 bits. Columns that are \<^verbatim>\<open>INT UNSIGNED\<close> overflow at \<open>2 ^ 32\<close> with an
  error of the server.

  \<^bold>\<open>Not modelled.\<close> MySQL, Redis and the gRPC runtime themselves: they are parameters with laws, where laws are
  needed. Statements of other connections are not interleaved with a transaction, as the row locks forbid it for the rows it
  touches. The graph of the vendored library hnswlib, a parameter; the browser client, deployment files, tests and the vendored webbench. A worker thread
  closing a connection on its own is modelled in the connection, not in the account of the main loop. The lines that handlers
  log once the server runs are left out: by then the log is open, and a line changes nothing but the log.
\<close>

end
